(* ===== verification/Kollab_Prelude.thy ===== *)
theory Kollab_Prelude
  imports Complex_Main "HOL-Library.AList" "HOL-Library.Sublist"
begin

text \<open>
  What the component theories share: the pieces of Python that the sources use.

  \<^item> Dictionaries keep their insertion order, so a \<open>dict\<close> is an association list with
    \<open>AList.update\<close> (an existing key keeps its place, a new one goes to the end) and
    \<open>AList.delete\<close>; the locale \<open>dict_laws\<close> states what the clients rely on.
  \<^item> \<open>list.sort(key=f)\<close> and \<open>sorted\<close> are stable: \<open>sort_key\<close>.
  \<^item> \<open>str\<close> is \<open>string\<close>: a character stands for one code point below 256, and the
    character classes (\<open>str.isspace\<close>, the regular-expression classes) are the Python ones on
    that range.
  \<^item> An expression that raises is a value \<open>Inl\<close> of a sum type.
\<close>

named_theorems state_simps "projections of the operations' result states"
named_theorems inv_intros "every operation keeps its component's invariant"

section \<open>Errors\<close>

datatype py_exn =
    IndexError
  | KeyError string
  | TypeError string
  | ValueError string
  | RuntimeError string
  | AttributeError string
  | OSError string

type_synonym 'a py_result = "py_exn + 'a"

text \<open>Sequencing of fallible steps; the exceptions may be of another type too.\<close>

fun py_bind :: "'e + 'a \<Rightarrow> ('a \<Rightarrow> 'e + 'b) \<Rightarrow> 'e + 'b" where
  "py_bind (Inl e) f = Inl e"
| "py_bind (Inr x) f = f x"

lemma py_bind_Inr: "py_bind m f = Inr y \<longleftrightarrow> (\<exists>x. m = Inr x \<and> f x = Inr y)"
  by (cases m) auto

lemma py_bind_Inl: "py_bind m f = Inl e \<longleftrightarrow> m = Inl e \<or> (\<exists>x. m = Inr x \<and> f x = Inl e)"
  by (cases m) auto

section \<open>Ordered dictionaries\<close>

type_synonym ('k, 'v) odict = "('k \<times> 'v) list"

abbreviation od_get :: "('k, 'v) odict \<Rightarrow> 'k \<Rightarrow> 'v option" where
  "od_get \<equiv> map_of"

abbreviation od_put :: "'k \<Rightarrow> 'v \<Rightarrow> ('k, 'v) odict \<Rightarrow> ('k, 'v) odict" where
  "od_put \<equiv> AList.update"

abbreviation od_del :: "'k \<Rightarrow> ('k, 'v) odict \<Rightarrow> ('k, 'v) odict" where
  "od_del \<equiv> AList.delete"

abbreviation od_keys :: "('k, 'v) odict \<Rightarrow> 'k set" where
  "od_keys d \<equiv> fst ` set d"

definition od_wf :: "('k, 'v) odict \<Rightarrow> bool" where
  "od_wf d \<longleftrightarrow> distinct (map fst d)"

definition od_get_default :: "('k, 'v) odict \<Rightarrow> 'k \<Rightarrow> 'v \<Rightarrow> 'v" where
  "od_get_default d k v = (case od_get d k of None \<Rightarrow> v | Some x \<Rightarrow> x)"

text \<open>\<open>d.update(e)\<close>: the entries of \<open>e\<close> are stored one by one.\<close>

definition od_update :: "('k, 'v) odict \<Rightarrow> ('k, 'v) odict \<Rightarrow> ('k, 'v) odict" where
  "od_update d e = fold (\<lambda>(k, v). od_put k v) e d"

lemma od_get_put [simp]: "od_get (od_put k v d) k' = (if k' = k then Some v else od_get d k')"
  by (simp add: update_conv')

lemma od_get_del [simp]: "od_get (od_del k d) k' = (if k' = k then None else od_get d k')"
  by (simp add: delete_conv')

lemma od_keys_dom: "od_keys d = dom (od_get d)"
  by (simp add: dom_map_of_conv_image_fst)

lemma od_keys_put [simp]: "od_keys (od_put k v d) = insert k (od_keys d)"
  by (simp add: od_keys_dom update_conv')

lemma od_keys_del [simp]: "od_keys (od_del k d) = od_keys d - {k}"
  by (auto simp: od_keys_dom delete_conv' split: if_splits)

lemma od_get_None_iff: "od_get d k = None \<longleftrightarrow> k \<notin> od_keys d"
  by (simp add: map_of_eq_None_iff)

lemma od_get_Some_key: "od_get d k = Some v \<Longrightarrow> k \<in> od_keys d"
  by (metis od_get_None_iff option.distinct(1))

lemma od_wf_empty [simp, inv_intros]: "od_wf []"
  by (simp add: od_wf_def)

lemma od_wf_put [simp, inv_intros]: "od_wf d \<Longrightarrow> od_wf (od_put k v d)"
  by (simp add: od_wf_def distinct_update)

lemma od_wf_del [simp, inv_intros]: "od_wf d \<Longrightarrow> od_wf (od_del k d)"
  by (simp add: od_wf_def distinct_delete)

lemma od_put_length:
  "length (od_put k v d) = (if k \<in> od_keys d then length d else Suc (length d))"
  by (induction d) auto

lemma od_get_fold_del: "od_get (fold (\<lambda>c. od_del (g c)) cs d) k = (if k \<in> g ` set cs then None else od_get d k)"
  by (induction cs arbitrary: d) auto

lemma od_wf_fold_del: "od_wf d \<Longrightarrow> od_wf (fold (\<lambda>c. od_del (g c)) cs d)"
  by (induction cs arbitrary: d) auto

lemma od_get_fold_keys: "od_get (fold od_del ks d) k = (if k \<in> set ks then None else od_get d k)"
  using od_get_fold_del [of "\<lambda>x. x" ks d k] by simp

lemma od_wf_fold_keys: "od_wf d \<Longrightarrow> od_wf (fold od_del ks d)"
  using od_wf_fold_del [of d "\<lambda>x. x" ks] by simp

lemma od_put_new: "k \<notin> od_keys d \<Longrightarrow> od_put k v d = d @ [(k, v)]"
  by (induction d) auto

lemma od_update_Nil [simp]: "od_update d [] = d"
  by (simp add: od_update_def)

lemma od_update_append: "od_update d (e @ f) = od_update (od_update d e) f"
  by (simp add: od_update_def)

lemma od_update_Cons [simp]: "od_update d ((k, v) # e) = od_update (od_put k v d) e"
  by (simp add: od_update_def)

text \<open>
  The interface: what a client of a dictionary may rely on. It is interpreted on the
  association lists below, and the facts of a whole \<open>update\<close> follow in the locale.
\<close>

locale dict_laws =
  fixes get :: "'d \<Rightarrow> 'k \<Rightarrow> 'v option"
    and put :: "'k \<Rightarrow> 'v \<Rightarrow> 'd \<Rightarrow> 'd"
    and del :: "'k \<Rightarrow> 'd \<Rightarrow> 'd"
    and wf :: "'d \<Rightarrow> bool"
  assumes get_put: "get (put k v d) k' = (if k' = k then Some v else get d k')"
    and get_del: "get (del k d) k' = (if k' = k then None else get d k')"
    and wf_put: "wf d \<Longrightarrow> wf (put k v d)"
    and wf_del: "wf d \<Longrightarrow> wf (del k d)"
begin

lemma get_put_same: "get (put k v d) k = Some v"
  by (simp add: get_put)

lemma get_put_other: "k' \<noteq> k \<Longrightarrow> get (put k v d) k' = get d k'"
  by (simp add: get_put)

lemma get_put_put: "get (put k v (put k w d)) = get (put k v d)"
  by (rule ext) (simp add: get_put)

lemma get_del_put: "get (del k (put k v d)) = get (del k d)"
  by (rule ext) (simp add: get_put get_del)

lemma get_put_all:
  "get (fold (\<lambda>(k, v). put k v) kvs d) k =
     (case map_of (rev kvs) k of Some v \<Rightarrow> Some v | None \<Rightarrow> get d k)"
proof (induction kvs arbitrary: d)
  case Nil
  then show ?case by simp
next
  case (Cons kv kvs)
  then show ?case
    by (cases kv) (simp add: get_put map_add_def split: option.splits)
qed

lemma wf_put_all: "wf d \<Longrightarrow> wf (fold (\<lambda>(k, v). put k v) kvs d)"
  by (induction kvs arbitrary: d) (auto intro: wf_put)

end

interpretation od: dict_laws od_get od_put od_del od_wf
  by unfold_locales auto

lemma od_get_update:
  "od_get (od_update d e) k = (case od_get (rev e) k of Some v \<Rightarrow> Some v | None \<Rightarrow> od_get d k)"
  unfolding od_update_def by (rule od.get_put_all)

lemma od_wf_update [simp, inv_intros]: "od_wf d \<Longrightarrow> od_wf (od_update d e)"
  unfolding od_update_def by (rule od.wf_put_all)

lemma od_update_new:
  "od_wf e \<Longrightarrow> od_keys d \<inter> od_keys e = {} \<Longrightarrow> od_update d e = d @ e"
proof (induction e arbitrary: d)
  case (Cons kv e)
  obtain k v where kv: "kv = (k, v)" by (cases kv)
  with Cons.prems have "k \<notin> od_keys d" by auto
  moreover have "od_update (d @ [(k, v)]) e = (d @ [(k, v)]) @ e"
    using Cons.prems kv by (intro Cons.IH) (auto simp: od_wf_def)
  ultimately show ?case by (simp add: kv od_put_new)
qed simp

section \<open>Lists\<close>

text \<open>Deleting the first element that satisfies a test.\<close>

fun remove_first :: "('a \<Rightarrow> bool) \<Rightarrow> 'a list \<Rightarrow> 'a list" where
  "remove_first P [] = []"
| "remove_first P (x # xs) = (if P x then xs else x # remove_first P xs)"

lemma remove_first_none: "\<forall>x \<in> set xs. \<not> P x \<Longrightarrow> remove_first P xs = xs"
  by (induction xs) auto

lemma set_remove_first: "set (remove_first P xs) \<subseteq> set xs"
  by (induction xs) auto

lemma remove_first_filter:
  assumes "distinct (map f xs)"
  shows "remove_first (\<lambda>x. f x = k) xs = filter (\<lambda>x. f x \<noteq> k) xs"
  using assms
proof (induction xs)
  case (Cons x xs)
  show ?case
  proof (cases "f x = k")
    case True
    with Cons.prems have "\<forall>y \<in> set xs. f y \<noteq> k" by (metis image_eqI distinct.simps(2) list.set_map list.simps(9))
    with True show ?thesis by (simp add: filter_id_conv)
  qed (use Cons in simp)
qed simp

lemma sorted_remove_first: "sorted (map f xs) \<Longrightarrow> sorted (map f (remove_first P xs))"
  by (induction xs) (use set_remove_first in \<open>force simp: image_iff\<close>)+

text \<open>The first element that satisfies a test is \<open>List.find\<close>.\<close>

lemma find_Some_in: "List.find P xs = Some x \<Longrightarrow> x \<in> set xs \<and> P x"
  by (auto simp: find_Some_iff)

text \<open>The slice \<open>xs[k:]\<close>: a negative \<open>k\<close> counts from the end.\<close>

definition slice_from :: "int \<Rightarrow> 'a list \<Rightarrow> 'a list" where
  "slice_from k xs = drop (nat (if k < 0 then int (length xs) + k else k)) xs"

lemma set_slice_from: "set (slice_from k xs) \<subseteq> set xs"
  by (simp add: slice_from_def set_drop_subset)

lemma distinct_slice_from: "distinct xs \<Longrightarrow> distinct (slice_from k xs)"
  by (simp add: slice_from_def)

lemma length_slice_from_last: "0 < n \<Longrightarrow> int (length (slice_from (- n) xs)) = min n (int (length xs))"
  by (auto simp: slice_from_def)

section \<open>Strings\<close>

text \<open>The character classes of Python on the code points below 256.\<close>

definition is_space :: "char \<Rightarrow> bool" where
  "is_space c = (let n = of_char c :: nat in
     (9 \<le> n \<and> n \<le> 13) \<or> (28 \<le> n \<and> n \<le> 32) \<or> n = 133 \<or> n = 160)"

definition is_digit :: "char \<Rightarrow> bool" where
  "is_digit c = (let n = of_char c :: nat in 48 \<le> n \<and> n \<le> 57)"

definition is_word :: "char \<Rightarrow> bool" where
  "is_word c = (let n = of_char c :: nat in
     (48 \<le> n \<and> n \<le> 57) \<or> (65 \<le> n \<and> n \<le> 90) \<or> (97 \<le> n \<and> n \<le> 122) \<or> n = 95 \<or>
     n \<in> {170, 178, 179, 181, 185, 186, 188, 189, 190} \<or>
     (192 \<le> n \<and> n \<noteq> 215 \<and> n \<noteq> 247))"

text \<open>The line breaks of \<open>str.splitlines\<close>.\<close>

definition is_line_break :: "char \<Rightarrow> bool" where
  "is_line_break c = (let n = of_char c :: nat in (10 \<le> n \<and> n \<le> 13) \<or> (28 \<le> n \<and> n \<le> 30) \<or> n = 133)"

definition lower_char :: "char \<Rightarrow> char" where
  "lower_char c = (let n = of_char c :: nat in
     if (65 \<le> n \<and> n \<le> 90) \<or> (192 \<le> n \<and> n \<le> 222 \<and> n \<noteq> 215) then char_of (n + 32) else c)"

definition str_lower :: "string \<Rightarrow> string" where
  "str_lower = map lower_char"

definition newline :: char where
  "newline = CHR 0x0A"

text \<open>\<open>s.strip()\<close>\<close>

definition str_strip :: "string \<Rightarrow> string" where
  "str_strip s = rev (dropWhile is_space (rev (dropWhile is_space s)))"

text \<open>\<open>s.split()\<close>: the maximal runs of characters that are not white space.\<close>

function str_split :: "string \<Rightarrow> string list" where
  "str_split s = (case dropWhile is_space s of
     [] \<Rightarrow> []
   | c # cs \<Rightarrow> (c # takeWhile (\<lambda>x. \<not> is_space x) cs) #
       str_split (dropWhile (\<lambda>x. \<not> is_space x) cs))"
  by pat_completeness auto
termination
proof (relation "measure length")
  fix s :: string and c cs
  assume "dropWhile is_space s = c # cs"
  then have "length (c # cs) \<le> length s" by (metis length_dropWhile_le)
  moreover have "length (dropWhile (\<lambda>x. \<not> is_space x) cs) \<le> length cs"
    by (rule length_dropWhile_le)
  ultimately show "(dropWhile (\<lambda>x. \<not> is_space x) cs, s) \<in> measure length" by simp
qed simp

declare str_split.simps [simp del]

lemma str_split_empty_iff: "str_split s = [] \<longleftrightarrow> (\<forall>c \<in> set s. is_space c)"
proof -
  have "str_split s = [] \<longleftrightarrow> dropWhile is_space s = []"
    by (cases "dropWhile is_space s") (simp_all add: str_split.simps [of s] del: dropWhile_eq_Nil_conv)
  then show ?thesis by (simp add: dropWhile_eq_Nil_conv)
qed

lemma str_strip_empty_iff: "str_strip s = [] \<longleftrightarrow> (\<forall>c \<in> set s. is_space c)"
proof -
  have "str_strip s = [] \<longleftrightarrow> (\<forall>c \<in> set (dropWhile is_space s). is_space c)"
    by (simp add: str_strip_def dropWhile_eq_Nil_conv)
  also have "\<dots> \<longleftrightarrow> dropWhile is_space s = []"
    by (metis dropWhile_eq_Nil_conv empty_iff hd_dropWhile list.set(1) list.set_sel(1))
  finally show ?thesis by (simp add: dropWhile_eq_Nil_conv)
qed

text \<open>\<open>s.split(c)\<close> on one separator character: always at least one part.\<close>

fun split_on :: "char \<Rightarrow> string \<Rightarrow> string list" where
  "split_on c [] = [[]]"
| "split_on c (x # xs) =
     (if x = c then [] # split_on c xs
      else case split_on c xs of [] \<Rightarrow> [[x]] | p # ps \<Rightarrow> (x # p) # ps)"

text \<open>\<open>c.join(parts)\<close>\<close>

fun join_on :: "string \<Rightarrow> string list \<Rightarrow> string" where
  "join_on s [] = []"
| "join_on s [p] = p"
| "join_on s (p # q # ps) = p @ s @ join_on s (q # ps)"

lemma split_on_nonempty [simp]: "split_on c s \<noteq> []"
  by (induction s) (auto split: list.splits)

lemma split_on_no_sep: "p \<in> set (split_on c s) \<Longrightarrow> c \<notin> set p"
proof (induction s arbitrary: p)
  case (Cons x xs)
  then show ?case by (cases "split_on c xs") (auto split: if_splits)
qed simp

lemma join_Cons_nonempty: "ps \<noteq> [] \<Longrightarrow> join_on s (p # ps) = p @ s @ join_on s ps"
  by (cases ps) simp_all

lemma join_split: "join_on [c] (split_on c s) = s"
proof (induction s)
  case (Cons x xs)
  then show ?case
  proof (cases "split_on c xs")
    case Nil
    then show ?thesis by (metis split_on_nonempty)
  next
    case (Cons p ps)
    with Cons.IH show ?thesis by (cases ps) (auto simp: join_Cons_nonempty)
  qed
qed simp

lemma split_on_id: "c \<notin> set s \<Longrightarrow> split_on c s = [s]"
  by (induction s) auto

lemma split_on_append: "c \<notin> set p \<Longrightarrow> split_on c (p @ c # s) = p # split_on c s"
  by (induction p) auto

lemma split_join:
  "ps \<noteq> [] \<Longrightarrow> \<forall>p \<in> set ps. c \<notin> set p \<Longrightarrow> split_on c (join_on [c] ps) = ps"
proof (induction ps rule: list_nonempty_induct)
  case (single p)
  then show ?case by (simp add: split_on_id)
next
  case (cons p ps)
  then show ?case by (simp add: join_Cons_nonempty split_on_append)
qed

text \<open>\<open>t in s\<close> on strings: \<open>t\<close> is a contiguous part of \<open>s\<close>.\<close>

definition str_contains :: "string \<Rightarrow> string \<Rightarrow> bool" where
  "str_contains t s \<longleftrightarrow> list_ex (prefix t) (suffixes s)"

lemma str_contains_sublist: "str_contains t s \<longleftrightarrow> sublist t s"
proof
  assume "str_contains t s"
  then obtain u where "suffix u s" and "prefix t u"
    by (auto simp: str_contains_def list_ex_iff)
  then show "sublist t s"
    by (meson prefix_imp_sublist sublist_order.order_trans suffix_imp_sublist)
next
  assume "sublist t s"
  then obtain a b where "s = a @ t @ b" by (auto simp: sublist_def)
  then have "suffix (t @ b) s \<and> prefix t (t @ b)" by (simp add: suffix_def)
  then show "str_contains t s" by (metis list_ex_iff in_set_suffixes str_contains_def)
qed

definition replace_char :: "char \<Rightarrow> char \<Rightarrow> string \<Rightarrow> string" where
  "replace_char a b = map (\<lambda>c. if c = a then b else c)"

text \<open>\<open>s.replace(old, new)\<close>; an empty \<open>old\<close> matches around every character.\<close>

function str_replace :: "string \<Rightarrow> string \<Rightarrow> string \<Rightarrow> string" where
  "str_replace old new s =
     (if old = [] then new @ concat (map (\<lambda>c. c # new) s)
      else case s of
             [] \<Rightarrow> []
           | c # cs \<Rightarrow> if prefix old s then new @ str_replace old new (drop (length old) s)
                       else c # str_replace old new cs)"
  by pat_completeness auto
termination
  by (relation "measure (\<lambda>(old, new, s). length s)") (auto simp: neq_Nil_conv)

declare str_replace.simps [simp del]

lemma str_replace_char: "str_replace [a] [b] s = replace_char a b s"
proof (induction s)
  case Nil
  then show ?case by (simp add: str_replace.simps replace_char_def)
next
  case (Cons x xs)
  then show ?case by (auto simp: str_replace.simps [of _ _ "x # xs"] replace_char_def)
qed

lemma replace_char_same [simp]: "replace_char a a s = s"
  by (simp add: replace_char_def map_idI)

text \<open>A natural number in decimal.\<close>

function show_nat :: "nat \<Rightarrow> string" where
  "show_nat n = (if n < 10 then [char_of (48 + n)] else show_nat (n div 10) @ [char_of (48 + n mod 10)])"
  by pat_completeness auto
termination by (relation "measure id") auto

declare show_nat.simps [simp del]

text \<open>\<open>str(i)\<close> of an integer.\<close>

definition show_int :: "int \<Rightarrow> string" where
  "show_int i = (if i < 0 then ''-'' @ show_nat (nat (- i)) else show_nat (nat i))"

text \<open>\<open>int(s)\<close> of a string: white space around it, a sign, digits with single underscores between.\<close>

fun digits_value :: "bool \<Rightarrow> nat \<Rightarrow> string \<Rightarrow> nat option" where
  "digits_value after_digit acc [] = (if after_digit then Some acc else None)"
| "digits_value after_digit acc (c # cs) =
     (if is_digit c then digits_value True (10 * acc + (of_char c - 48)) cs
      else if c = CHR ''_'' \<and> after_digit then digits_value False acc cs
      else None)"

definition int_of_text :: "string \<Rightarrow> int option" where
  "int_of_text s =
     (case str_strip s of
        [] \<Rightarrow> None
      | c # cs \<Rightarrow> if c = CHR ''-'' then map_option (\<lambda>n. - int n) (digits_value False 0 cs)
                  else if c = CHR ''+'' then map_option int (digits_value False 0 cs)
                  else map_option int (digits_value False 0 (c # cs)))"

section \<open>Runs\<close>

text \<open>
  The interface of a store whose settled entries are final: each step keeps the invariant and
  every settled entry. What holds of a step then holds of every run.
\<close>

locale settled_store =
  fixes look :: "'k \<Rightarrow> 's \<Rightarrow> 'e option"
    and settled :: "'e \<Rightarrow> bool"
    and inv :: "'s \<Rightarrow> bool"
    and step :: "'s \<Rightarrow> 's \<Rightarrow> bool"
  assumes step_inv: "step s s' \<Longrightarrow> inv s \<Longrightarrow> inv s'"
    and step_settled: "step s s' \<Longrightarrow> inv s \<Longrightarrow> look k s = Some e \<Longrightarrow> settled e \<Longrightarrow> look k s' = Some e"
begin

lemma run_inv: "step\<^sup>*\<^sup>* s s' \<Longrightarrow> inv s \<Longrightarrow> inv s'"
  by (induction rule: rtranclp_induct) (auto intro: step_inv)

lemma run_settled:
  assumes "step\<^sup>*\<^sup>* s s'" and "inv s" and "look k s = Some e" and "settled e"
  shows "look k s' = Some e"
  using assms
proof (induction rule: rtranclp_induct)
  case (step y z)
  then show ?case using run_inv step_settled by blast
qed simp

end

end
