(* ===== verification/Buffer_Manager.thy ===== *)
theory Buffer_Manager
  imports Kollab_Prelude
begin

text \<open>
  The terminal's input buffer (\<open>kollabor_tui/buffer_manager.py\<close>, class
  \<open>BufferManager\<close>): the text, the cursor, and the command history with its navigation
  state. Every method is one definition; a method that returns a flag returns the flag and the
  new state. The limits are Python integers; the cursor starts at 0 and no method makes it
  negative, so it is a natural number.

  The locale \<open>gap_buffer\<close> is the editor's view of the buffer (the text before and the
  text after the cursor); the buffer manager is an instance of it.
\<close>

section \<open>State\<close>

record buffer =
  buf :: string
  cursor_pos :: nat
  buffer_limit :: int
  history :: "string list"
  history_limit :: int
  history_index :: int
  temp_buffer :: string

definition new_buffer :: "int \<Rightarrow> int \<Rightarrow> buffer" where
  "new_buffer bl hl =
     \<lparr>buf = [], cursor_pos = 0, buffer_limit = bl, history = [], history_limit = hl,
      history_index = - 1, temp_buffer = []\<rparr>"

definition is_empty :: "buffer \<Rightarrow> bool" where
  "is_empty b = (str_strip (buf b) = [])"

section \<open>Operations\<close>

definition reset_history_navigation :: "buffer \<Rightarrow> buffer" where
  "reset_history_navigation b = b\<lparr>history_index := - 1, temp_buffer := []\<rparr>"

definition is_valid_char :: "string \<Rightarrow> bool" where
  "is_valid_char s =
     (case s of
        [c] \<Rightarrow> (let n = of_char c :: nat in (32 \<le> n \<and> n \<le> 126) \<or> n = 9 \<or> n = 10)
      | _ \<Rightarrow> False)"

definition insert_at :: "buffer \<Rightarrow> string \<Rightarrow> string" where
  "insert_at b t = take (cursor_pos b) (buf b) @ t @ drop (cursor_pos b) (buf b)"

definition insert_char :: "string \<Rightarrow> buffer \<Rightarrow> bool \<times> buffer" where
  "insert_char c b =
     (if \<not> is_valid_char c then (False, b)
      else if int (length (buf b)) \<ge> buffer_limit b then (False, b)
      else (True, b\<lparr>buf := insert_at b c, cursor_pos := cursor_pos b + 1\<rparr>))"

definition insert_text :: "string \<Rightarrow> buffer \<Rightarrow> bool \<times> buffer" where
  "insert_text t b =
     (if \<not> list_all (\<lambda>c. is_valid_char [c]) t then (False, b)
      else if int (length (buf b)) + int (length t) > buffer_limit b then (False, b)
      else (True, b\<lparr>buf := insert_at b t, cursor_pos := cursor_pos b + length t\<rparr>))"

definition delete_char :: "buffer \<Rightarrow> bool \<times> buffer" where
  "delete_char b =
     (if cursor_pos b = 0 then (False, b)
      else (True, b\<lparr>buf := take (cursor_pos b - 1) (buf b) @ drop (cursor_pos b) (buf b),
                    cursor_pos := cursor_pos b - 1\<rparr>))"

definition delete_forward :: "buffer \<Rightarrow> bool \<times> buffer" where
  "delete_forward b =
     (if cursor_pos b \<ge> length (buf b) then (False, b)
      else (True, b\<lparr>buf := take (cursor_pos b) (buf b) @ drop (cursor_pos b + 1) (buf b)\<rparr>))"

definition delete_range :: "int \<Rightarrow> int \<Rightarrow> buffer \<Rightarrow> bool \<times> buffer" where
  "delete_range st en b =
     (if st < 0 \<or> en < st \<or> en > int (length (buf b)) then (False, b)
      else if st = en then (True, b)
      else (True, reset_history_navigation
        (b\<lparr>buf := take (nat st) (buf b) @ drop (nat en) (buf b),
           cursor_pos := (if int (cursor_pos b) > en then cursor_pos b - nat (en - st)
                          else if int (cursor_pos b) \<ge> st then nat st
                          else cursor_pos b)\<rparr>)))"

definition replace_content :: "string \<Rightarrow> int option \<Rightarrow> buffer \<Rightarrow> buffer" where
  "replace_content c pos b =
     (let requested = (case pos of None \<Rightarrow> int (length c) | Some p \<Rightarrow> p)
      in reset_history_navigation
           (b\<lparr>buf := c, cursor_pos := nat (max 0 (min requested (int (length c))))\<rparr>))"

definition move_cursor :: "string \<Rightarrow> buffer \<Rightarrow> bool \<times> buffer" where
  "move_cursor d b =
     (if d = ''left'' \<and> cursor_pos b > 0 then (True, b\<lparr>cursor_pos := cursor_pos b - 1\<rparr>)
      else if d = ''right'' \<and> cursor_pos b < length (buf b)
           then (True, b\<lparr>cursor_pos := cursor_pos b + 1\<rparr>)
      else (False, b))"

definition move_to_start :: "buffer \<Rightarrow> buffer" where
  "move_to_start b = b\<lparr>cursor_pos := 0\<rparr>"

definition move_to_end :: "buffer \<Rightarrow> buffer" where
  "move_to_end b = b\<lparr>cursor_pos := length (buf b)\<rparr>"

definition is_multiline :: "buffer \<Rightarrow> bool" where
  "is_multiline b \<longleftrightarrow> newline \<in> set (buf b)"

text \<open>The loop of \<open>get_cursor_line_col\<close>, with the line index and the characters counted.\<close>

fun line_col_loop :: "nat \<Rightarrow> string list \<Rightarrow> nat \<Rightarrow> nat \<Rightarrow> (nat \<times> nat) option" where
  "line_col_loop pos [] i counted = None"
| "line_col_loop pos (l # ls) i counted =
     (if pos \<le> counted + length l then Some (i, pos - counted)
      else line_col_loop pos ls (Suc i) (counted + length l + 1))"

definition get_cursor_line_col :: "buffer \<Rightarrow> nat \<times> nat" where
  "get_cursor_line_col b =
     (let lines = split_on newline (buf b)
      in case line_col_loop (cursor_pos b) lines 0 0 of
           Some lc \<Rightarrow> lc
         | None \<Rightarrow> (length lines - 1, length (last lines)))"

definition line_col_pos :: "string list \<Rightarrow> nat \<Rightarrow> nat \<Rightarrow> nat" where
  "line_col_pos ls line col = (\<Sum>l \<leftarrow> take line ls. length l + 1) + col"

definition set_cursor_to_line_col :: "string list \<Rightarrow> nat \<Rightarrow> nat \<Rightarrow> buffer \<Rightarrow> buffer" where
  "set_cursor_to_line_col ls line col b = b\<lparr>cursor_pos := line_col_pos ls line col\<rparr>"

definition move_cursor_vertical :: "string \<Rightarrow> buffer \<Rightarrow> bool \<times> buffer" where
  "move_cursor_vertical d b =
     (let lines = split_on newline (buf b); (line, col) = get_cursor_line_col b
      in if d = ''up'' \<and> line > 0
           then (True, set_cursor_to_line_col lines (line - 1)
                   (min col (length (lines ! (line - 1)))) b)
         else if d = ''down'' \<and> line < length lines - 1
           then (True, set_cursor_to_line_col lines (line + 1)
                   (min col (length (lines ! (line + 1)))) b)
         else (False, b))"

definition clear :: "buffer \<Rightarrow> buffer" where
  "clear b = reset_history_navigation (b\<lparr>buf := [], cursor_pos := 0\<rparr>)"

definition get_content_and_clear :: "buffer \<Rightarrow> string \<times> buffer" where
  "get_content_and_clear b = (buf b, clear b)"

definition add_to_history :: "string \<Rightarrow> buffer \<Rightarrow> buffer" where
  "add_to_history c b =
     (if str_strip c = [] then b
      else let h = (if c \<in> set (history b) then remove1 c (history b) else history b) @ [c];
               h' = (if int (length h) > history_limit b
                     then slice_from (- history_limit b) h else h)
           in reset_history_navigation (b\<lparr>history := h'\<rparr>))"

text \<open>The history is oldest first; the navigation index counts from its end.\<close>

definition load_from_history :: "buffer \<Rightarrow> buffer" where
  "load_from_history b =
     (if 0 \<le> history_index b \<and> history_index b < int (length (history b))
      then let item = history b ! (length (history b) - nat (history_index b + 1))
           in b\<lparr>buf := item, cursor_pos := length item\<rparr>
      else b)"

definition navigate_history :: "string \<Rightarrow> buffer \<Rightarrow> bool \<times> buffer" where
  "navigate_history d b =
     (if history b = [] then (False, b)
      else let b1 = (if history_index b = - 1 then b\<lparr>temp_buffer := buf b\<rparr> else b)
           in if d = ''up'' then
                (if history_index b1 < int (length (history b1)) - 1
                 then (True, load_from_history (b1\<lparr>history_index := history_index b1 + 1\<rparr>))
                 else (False, b1))
              else if d = ''down'' then
                (if history_index b1 > - 1
                 then (let b2 = b1\<lparr>history_index := history_index b1 - 1\<rparr>
                       in (True, if history_index b2 = - 1
                                 then b2\<lparr>buf := temp_buffer b2,
                                         cursor_pos := length (temp_buffer b2)\<rparr>
                                 else load_from_history b2))
                 else (False, b1))
              else (False, b1))"

definition get_display_info :: "buffer \<Rightarrow> string \<times> nat" where
  "get_display_info b = (buf b, cursor_pos b)"

datatype buffer_warning = DangerousPattern string | ApproachingLimit nat int

definition dangerous_patterns :: "string list" where
  "dangerous_patterns = [''rm -rf'', ''sudo rm'', '':(){ :|:& };:'', ''fork bomb'']"

definition validate_content :: "buffer \<Rightarrow> buffer_warning list" where
  "validate_content b =
     map DangerousPattern (filter (\<lambda>p. str_contains p (str_lower (buf b))) dangerous_patterns) @
     (if real (length (buf b)) > real_of_int (buffer_limit b) * 0.9
      then [ApproachingLimit (length (buf b)) (buffer_limit b)] else [])"

text \<open>Every run of white space becomes one space (\<open>re.sub(r"\s+", " ", s)\<close>).\<close>

fun collapse_spaces :: "bool \<Rightarrow> string \<Rightarrow> string" where
  "collapse_spaces sp [] = []"
| "collapse_spaces sp (c # cs) =
     (if is_space c then (if sp then collapse_spaces True cs else CHR '' '' # collapse_spaces True cs)
      else c # collapse_spaces False cs)"

definition process_paste_content :: "string \<Rightarrow> string" where
  "process_paste_content s =
     str_strip (collapse_spaces False
       (replace_char (char_of (13::nat)) CHR '' '' (replace_char newline CHR '' '' s)))"

definition handle_paste :: "string \<Rightarrow> buffer \<Rightarrow> bool \<times> buffer" where
  "handle_paste p b =
     (if p = [] then (False, b)
      else if int (length (buf b)) + int (length p) > buffer_limit b then (False, b)
      else let q = process_paste_content p
           in (True, reset_history_navigation
                (b\<lparr>buf := insert_at b q, cursor_pos := cursor_pos b + length q\<rparr>)))"

section \<open>The editor's view: text before and after the cursor\<close>

text \<open>
  What the key handlers rely on. \<open>ins\<close> may refuse a text (the flag is then
  \<open>False\<close> and the buffer unchanged); \<open>ok\<close> is the invariant that keeps the cursor
  inside the text.
\<close>

locale gap_buffer =
  fixes before :: "'b \<Rightarrow> string" and after :: "'b \<Rightarrow> string"
    and ok :: "'b \<Rightarrow> bool"
    and ins :: "string \<Rightarrow> 'b \<Rightarrow> bool \<times> 'b"
    and bs :: "'b \<Rightarrow> bool \<times> 'b" and del :: "'b \<Rightarrow> bool \<times> 'b"
    and left :: "'b \<Rightarrow> bool \<times> 'b" and right :: "'b \<Rightarrow> bool \<times> 'b"
  assumes ins_ok: "ok b \<Longrightarrow> ok (snd (ins t b))"
    and ins_refused: "\<not> fst (ins t b) \<Longrightarrow> snd (ins t b) = b"
    and ins_view: "ok b \<Longrightarrow> fst (ins t b) \<Longrightarrow>
      before (snd (ins t b)) = before b @ t \<and> after (snd (ins t b)) = after b"
    and bs_ok: "ok b \<Longrightarrow> ok (snd (bs b))"
    and bs_view: "ok b \<Longrightarrow>
      fst (bs b) = (before b \<noteq> []) \<and> before (snd (bs b)) = butlast (before b) \<and>
      after (snd (bs b)) = after b"
    and del_ok: "ok b \<Longrightarrow> ok (snd (del b))"
    and del_view: "ok b \<Longrightarrow>
      fst (del b) = (after b \<noteq> []) \<and> before (snd (del b)) = before b \<and>
      after (snd (del b)) = tl (after b)"
    and left_ok: "ok b \<Longrightarrow> ok (snd (left b))"
    and left_view: "ok b \<Longrightarrow>
      fst (left b) = (before b \<noteq> []) \<and> before (snd (left b)) = butlast (before b) \<and>
      after (snd (left b)) = (if before b = [] then after b else last (before b) # after b)"
    and right_ok: "ok b \<Longrightarrow> ok (snd (right b))"
    and right_view: "ok b \<Longrightarrow>
      fst (right b) = (after b \<noteq> []) \<and> after (snd (right b)) = tl (after b) \<and>
      before (snd (right b)) = (if after b = [] then before b else before b @ [hd (after b)])"
begin

lemma backspaces_view:
  assumes "ok b"
  shows "ok (((\<lambda>x. snd (bs x)) ^^ n) b) \<and>
    before (((\<lambda>x. snd (bs x)) ^^ n) b) = take (length (before b) - n) (before b) \<and>
    after (((\<lambda>x. snd (bs x)) ^^ n) b) = after b"
proof (induction n)
  case 0
  with assms show ?case by simp
next
  case (Suc n)
  let ?c = "((\<lambda>x. snd (bs x)) ^^ n) b"
  from Suc have "ok (snd (bs ?c))" and "after (snd (bs ?c)) = after b"
    and "before (snd (bs ?c)) = butlast (take (length (before b) - n) (before b))"
    using bs_ok [of ?c] bs_view [of ?c] by simp_all
  moreover have "butlast (take (length (before b) - n) (before b)) =
      take (length (before b) - Suc n) (before b)"
    by (simp add: butlast_take)
  ultimately show ?case by simp
qed

text \<open>Typing a text and pressing backspace once for each of its characters undoes it.\<close>

lemma type_then_erase:
  assumes "ok b" and "fst (ins t b)"
  shows "before (((\<lambda>x. snd (bs x)) ^^ length t) (snd (ins t b))) = before b \<and>
    after (((\<lambda>x. snd (bs x)) ^^ length t) (snd (ins t b))) = after b"
  using backspaces_view [OF ins_ok [OF assms(1), of t], of "length t"] ins_view [OF assms]
  by simp

text \<open>Moving left and right again is the identity, away from the left edge.\<close>

lemma left_then_right:
  assumes "ok b" and "fst (left b)"
  shows "before (snd (right (snd (left b)))) = before b \<and>
    after (snd (right (snd (left b)))) = after b"
  using assms left_view [OF assms(1)] right_view [OF left_ok [OF assms(1)]]
  by simp

text \<open>Delete is the same as moving right and pressing backspace.\<close>

lemma delete_is_right_backspace:
  assumes "ok b" and "fst (right b)"
  shows "before (snd (bs (snd (right b)))) = before (snd (del b)) \<and>
    after (snd (bs (snd (right b)))) = after (snd (del b))"
  using assms right_view [OF assms(1)] bs_view [OF right_ok [OF assms(1)]] del_view [OF assms(1)]
  by simp

end

definition before_cursor :: "buffer \<Rightarrow> string" where
  "before_cursor b = take (cursor_pos b) (buf b)"

definition after_cursor :: "buffer \<Rightarrow> string" where
  "after_cursor b = drop (cursor_pos b) (buf b)"

definition cursor_ok :: "buffer \<Rightarrow> bool" where
  "cursor_ok b \<longleftrightarrow> cursor_pos b \<le> length (buf b)"

lemmas cursor_defs = before_cursor_def after_cursor_def cursor_ok_def insert_at_def

lemma before_append_after: "before_cursor b @ after_cursor b = buf b"
  by (simp add: cursor_defs)

lemma cursor_nonempty: "cursor_ok b \<Longrightarrow> before_cursor b \<noteq> [] \<longleftrightarrow> cursor_pos b > 0"
  by (cases "buf b") (auto simp: cursor_defs)

lemma take_Suc_hd_drop: "i < length xs \<Longrightarrow> take (Suc i) xs = take i xs @ [hd (drop i xs)]"
  by (simp add: hd_drop_conv_nth take_Suc_conv_app_nth)

lemma last_take_Cons_drop:
  assumes "0 < i" and "i \<le> length xs"
  shows "drop (i - Suc 0) xs = last (take i xs) # drop i xs"
proof -
  obtain j where i: "i = Suc j" using assms(1) by (cases i) auto
  with assms(2) show ?thesis by (simp add: Cons_nth_drop_Suc take_Suc_conv_app_nth)
qed

interpretation bm: gap_buffer before_cursor after_cursor cursor_ok insert_text delete_char
  delete_forward "move_cursor ''left''" "move_cursor ''right''"
proof unfold_locales
  fix b :: buffer and t
  show "\<not> fst (insert_text t b) \<Longrightarrow> snd (insert_text t b) = b"
    by (simp add: insert_text_def split: if_splits)
  assume ok: "cursor_ok b"
  then have le: "cursor_pos b \<le> length (buf b)" by (simp add: cursor_ok_def)
  show "cursor_ok (snd (insert_text t b))" and "cursor_ok (snd (delete_char b))"
    and "cursor_ok (snd (delete_forward b))" and "cursor_ok (snd (move_cursor ''left'' b))"
    and "cursor_ok (snd (move_cursor ''right'' b))"
    using le by (auto simp: cursor_defs insert_text_def delete_char_def delete_forward_def
        move_cursor_def)
  show "before_cursor (snd (insert_text t b)) = before_cursor b @ t \<and>
      after_cursor (snd (insert_text t b)) = after_cursor b" if "fst (insert_text t b)"
    using le that by (auto simp: cursor_defs insert_text_def split: if_splits)
  show "fst (delete_char b) = (before_cursor b \<noteq> []) \<and>
      before_cursor (snd (delete_char b)) = butlast (before_cursor b) \<and>
      after_cursor (snd (delete_char b)) = after_cursor b"
    using le by (auto simp: cursor_nonempty [OF ok] delete_char_def cursor_defs butlast_take)
  show "fst (delete_forward b) = (after_cursor b \<noteq> []) \<and>
      before_cursor (snd (delete_forward b)) = before_cursor b \<and>
      after_cursor (snd (delete_forward b)) = tl (after_cursor b)"
    using le by (auto simp: delete_forward_def cursor_defs tl_drop drop_Suc)
  show "fst (move_cursor ''left'' b) = (before_cursor b \<noteq> []) \<and>
      before_cursor (snd (move_cursor ''left'' b)) = butlast (before_cursor b) \<and>
      after_cursor (snd (move_cursor ''left'' b)) =
        (if before_cursor b = [] then after_cursor b
         else last (before_cursor b) # after_cursor b)"
    using le cursor_nonempty [OF ok]
    by (auto simp: move_cursor_def cursor_defs butlast_take last_take_Cons_drop)
  show "fst (move_cursor ''right'' b) = (after_cursor b \<noteq> []) \<and>
      after_cursor (snd (move_cursor ''right'' b)) = tl (after_cursor b) \<and>
      before_cursor (snd (move_cursor ''right'' b)) =
        (if after_cursor b = [] then before_cursor b
         else before_cursor b @ [hd (after_cursor b)])"
    using le by (auto simp: move_cursor_def cursor_defs take_Suc_hd_drop tl_drop drop_Suc)
qed

section \<open>Lines and columns\<close>

lemma sum_split_lengths: "(\<Sum>l \<leftarrow> split_on c s. Suc (length l)) = Suc (length s)"
proof (induction s)
  case (Cons x xs)
  then show ?case by (cases "split_on c xs") auto
qed simp

lemma line_col_pos_simps [simp]:
  "line_col_pos (l # ls) 0 c = c"
  "line_col_pos (l # ls) (Suc k) c = length l + 1 + line_col_pos ls k c"
  by (simp_all add: line_col_pos_def)

lemma line_col_loop_finds:
  assumes "counted \<le> pos" and "pos < counted + (\<Sum>l \<leftarrow> ls. Suc (length l))"
  shows "\<exists>k c. k < length ls \<and> c \<le> length (ls ! k) \<and>
    line_col_loop pos ls i counted = Some (i + k, c) \<and> counted + line_col_pos ls k c = pos"
  using assms
proof (induction ls arbitrary: i counted)
  case (Cons l ls)
  show ?case
  proof (cases "pos \<le> counted + length l")
    case True
    with Cons.prems show ?thesis
      by (intro exI [of _ 0] exI [of _ "pos - counted"]) auto
  next
    case False
    with Cons.prems have "counted + length l + 1 \<le> pos"
      and "pos < counted + length l + 1 + (\<Sum>l \<leftarrow> ls. Suc (length l))" by simp_all
    from Cons.IH [OF this, of "Suc i"] obtain k c where
      "k < length ls" "c \<le> length (ls ! k)"
      "line_col_loop pos ls (Suc i) (counted + length l + 1) = Some (Suc i + k, c)"
      "counted + length l + 1 + line_col_pos ls k c = pos" by blast
    with False show ?thesis by (intro exI [of _ "Suc k"] exI [of _ c]) auto
  qed
qed simp

lemma line_col_loop_pos:
  "k < length ls \<Longrightarrow> c \<le> length (ls ! k) \<Longrightarrow>
    line_col_loop (counted + line_col_pos ls k c) ls i counted = Some (i + k, c)"
proof (induction ls arbitrary: i counted k)
  case (Cons l ls)
  show ?case
  proof (cases k)
    case 0
    with Cons.prems show ?thesis by simp
  next
    case (Suc j)
    with Cons.prems Cons.IH [of j "counted + length l + 1" "Suc i"] show ?thesis by (simp add: add.assoc)
  qed
qed simp

lemma line_col_pos_bound:
  assumes "k < length ls" and "c \<le> length (ls ! k)"
  shows "line_col_pos ls k c < (\<Sum>l \<leftarrow> ls. Suc (length l))"
  using assms
proof (induction ls arbitrary: k)
  case (Cons l ls)
  show ?case
  proof (cases k)
    case 0
    with Cons.prems show ?thesis by simp
  next
    case (Suc j)
    with Cons.prems Cons.IH [of j] show ?thesis by simp
  qed
qed simp

abbreviation buf_lines :: "buffer \<Rightarrow> string list" where
  "buf_lines b \<equiv> split_on newline (buf b)"

lemma cursor_line_col:
  assumes "cursor_ok b" and "get_cursor_line_col b = (line, col)"
  shows "line < length (buf_lines b)" and "col \<le> length (buf_lines b ! line)"
    and "line_col_pos (buf_lines b) line col = cursor_pos b"
proof -
  have "cursor_pos b < 0 + (\<Sum>l \<leftarrow> buf_lines b. Suc (length l))"
    using assms(1) by (simp add: sum_split_lengths cursor_ok_def)
  from line_col_loop_finds [OF _ this, of 0] obtain k c where
    "k < length (buf_lines b)" "c \<le> length (buf_lines b ! k)"
    "line_col_loop (cursor_pos b) (buf_lines b) 0 0 = Some (k, c)"
    "line_col_pos (buf_lines b) k c = cursor_pos b" by auto
  moreover from this assms(2) have "k = line \<and> c = col" by (simp add: get_cursor_line_col_def)
  ultimately show "line < length (buf_lines b)" and "col \<le> length (buf_lines b ! line)"
    and "line_col_pos (buf_lines b) line col = cursor_pos b" by simp_all
qed

lemma set_cursor_line_col:
  assumes "k < length (buf_lines b)" and "c \<le> length (buf_lines b ! k)"
  shows "get_cursor_line_col (set_cursor_to_line_col (buf_lines b) k c b) = (k, c)"
    and "cursor_ok (set_cursor_to_line_col (buf_lines b) k c b)"
  using line_col_loop_pos [OF assms, of 0 0] line_col_pos_bound [OF assms]
  by (simp_all add: get_cursor_line_col_def set_cursor_to_line_col_def cursor_ok_def
      sum_split_lengths)

lemma buf_set_cursor [simp]: "buf (set_cursor_to_line_col ls k c b) = buf b"
  by (simp add: set_cursor_to_line_col_def)

lemma move_vertical_cases:
  assumes "cursor_ok b" and lc: "get_cursor_line_col b = (line, col)"
  shows "move_cursor_vertical d b =
    (if d = ''up'' \<and> line > 0
       then (True, set_cursor_to_line_col (buf_lines b) (line - 1)
               (min col (length (buf_lines b ! (line - 1)))) b)
     else if d = ''down'' \<and> line + 1 < length (buf_lines b)
       then (True, set_cursor_to_line_col (buf_lines b) (line + 1)
               (min col (length (buf_lines b ! (line + 1)))) b)
     else (False, b))"
  by (auto simp: move_cursor_vertical_def lc Let_def)

lemma move_vertical_cursor_ok:
  assumes ok: "cursor_ok b"
  shows "cursor_ok (snd (move_cursor_vertical d b))"
proof -
  obtain line col where lc: "get_cursor_line_col b = (line, col)" by fastforce
  from cursor_line_col(1) [OF ok lc] have "line - 1 < length (buf_lines b)" by simp
  then show ?thesis
    using ok by (simp add: move_vertical_cases [OF ok lc] set_cursor_line_col(2))
qed

section \<open>The invariant and the reachable buffers\<close>

definition history_ok :: "buffer \<Rightarrow> bool" where
  "history_ok b \<longleftrightarrow>
     - 1 \<le> history_index b \<and> history_index b < int (length (history b)) \<and>
     distinct (history b) \<and> (\<forall>h \<in> set (history b). str_strip h \<noteq> []) \<and>
     (0 < history_limit b \<longrightarrow> int (length (history b)) \<le> history_limit b)"

definition buf_inv :: "buffer \<Rightarrow> bool" where
  "buf_inv b \<longleftrightarrow> cursor_ok b \<and> history_ok b"

text \<open>One rule per method of the class that changes the state.\<close>

inductive buffer_step :: "buffer \<Rightarrow> buffer \<Rightarrow> bool" where
  st_insert_char: "buffer_step b (snd (insert_char c b))"
| st_insert_text: "buffer_step b (snd (insert_text t b))"
| st_delete_char: "buffer_step b (snd (delete_char b))"
| st_delete_forward: "buffer_step b (snd (delete_forward b))"
| st_delete_range: "buffer_step b (snd (delete_range i j b))"
| st_replace: "buffer_step b (replace_content c pos b)"
| st_move: "buffer_step b (snd (move_cursor d b))"
| st_start: "buffer_step b (move_to_start b)"
| st_end: "buffer_step b (move_to_end b)"
| st_vertical: "buffer_step b (snd (move_cursor_vertical d b))"
| st_clear: "buffer_step b (clear b)"
| st_add_history: "buffer_step b (add_to_history c b)"
| st_navigate: "buffer_step b (snd (navigate_history d b))"
| st_paste: "buffer_step b (snd (handle_paste p b))"

inductive buffer_reachable :: "int \<Rightarrow> int \<Rightarrow> buffer \<Rightarrow> bool" for bl hl where
  start: "buffer_reachable bl hl (new_buffer bl hl)"
| step: "buffer_reachable bl hl b \<Longrightarrow> buffer_step b b' \<Longrightarrow> buffer_reachable bl hl b'"

lemmas edit_defs = insert_char_def insert_text_def delete_char_def delete_forward_def
  delete_range_def replace_content_def move_cursor_def move_to_start_def move_to_end_def
  clear_def handle_paste_def reset_history_navigation_def insert_at_def

lemma history_ok_cong:
  "history b' = history b \<Longrightarrow> history_limit b' = history_limit b \<Longrightarrow>
   - 1 \<le> history_index b' \<Longrightarrow> history_index b' \<le> history_index b \<Longrightarrow>
   history_ok b \<Longrightarrow> history_ok b'"
  by (simp add: history_ok_def)

lemma valid_char_length: "is_valid_char c \<Longrightarrow> length c = 1"
  by (auto simp: is_valid_char_def split: list.splits)

lemma edit_cursor_ok [inv_intros]:
  assumes "cursor_ok b"
  shows "cursor_ok (snd (insert_char c b))" and "cursor_ok (snd (delete_range i j b))"
    and "cursor_ok (replace_content t pos b)" and "cursor_ok (snd (move_cursor d b))"
    and "cursor_ok (move_to_start b)" and "cursor_ok (move_to_end b)" and "cursor_ok (clear b)"
    and "cursor_ok (snd (handle_paste p b))"
  using assms by (auto simp: cursor_ok_def edit_defs Let_def valid_char_length)

lemma edit_history_ok [inv_intros]:
  assumes "history_ok b"
  shows "history_ok (snd (insert_char c b))" and "history_ok (snd (insert_text t b))"
    and "history_ok (snd (delete_char b))" and "history_ok (snd (delete_forward b))"
    and "history_ok (snd (delete_range i j b))" and "history_ok (replace_content t pos b)"
    and "history_ok (snd (move_cursor d b))" and "history_ok (move_to_start b)"
    and "history_ok (move_to_end b)" and "history_ok (clear b)"
    and "history_ok (snd (move_cursor_vertical d b))" and "history_ok (snd (handle_paste p b))"
  using assms by (auto simp: history_ok_def edit_defs Let_def move_cursor_vertical_def
      set_cursor_to_line_col_def split: prod.splits)

lemma add_history_ok [inv_intros]:
  assumes "history_ok b"
  shows "history_ok (add_to_history c b)"
proof (cases "str_strip c = []")
  case True
  with assms show ?thesis by (simp add: add_to_history_def)
next
  case False
  let ?r = "if c \<in> set (history b) then remove1 c (history b) else history b"
  let ?h = "?r @ [c]"
  let ?h' = "if int (length ?h) > history_limit b then slice_from (- history_limit b) ?h else ?h"
  from assms have d: "distinct (history b)" and s: "\<forall>h \<in> set (history b). str_strip h \<noteq> []"
    by (simp_all add: history_ok_def)
  have "distinct ?h" using d by (auto simp: distinct_remove1)
  then have "distinct ?h'" by (auto intro: distinct_slice_from)
  moreover have "set ?h \<subseteq> insert c (set (history b))" by (auto dest: notin_set_remove1)
  moreover have "set ?h' \<subseteq> set ?h" by (auto dest: set_slice_from [THEN subsetD])
  ultimately have "distinct ?h'" and "\<forall>h \<in> set ?h'. str_strip h \<noteq> []" using s False by blast+
  moreover have "0 < history_limit b \<longrightarrow> int (length ?h') \<le> history_limit b"
    by (simp add: length_slice_from_last)
  moreover from False have "add_to_history c b = b\<lparr>history := ?h', history_index := - 1, temp_buffer := []\<rparr>"
    by (simp add: add_to_history_def Let_def reset_history_navigation_def)
  ultimately show ?thesis unfolding history_ok_def by simp
qed

lemma load_from_history_simps [simp]:
  "history (load_from_history b) = history b" "history_index (load_from_history b) = history_index b"
  "history_limit (load_from_history b) = history_limit b"
  "temp_buffer (load_from_history b) = temp_buffer b"
  by (simp_all add: load_from_history_def Let_def)

lemma load_from_history_cursor: "cursor_ok b \<Longrightarrow> cursor_ok (load_from_history b)"
  by (simp add: load_from_history_def cursor_ok_def Let_def)

lemma navigate_ok [inv_intros]:
  assumes "cursor_ok b"
  shows "cursor_ok (snd (navigate_history d b))"
    and "history_ok b \<Longrightarrow> history_ok (snd (navigate_history d b))"
  using assms
  by (auto simp: navigate_history_def Let_def cursor_ok_def history_ok_def load_from_history_def)

lemma buffer_step_inv: "buffer_step b b' \<Longrightarrow> buf_inv b \<Longrightarrow> buf_inv b'"
proof (induction rule: buffer_step.induct)
  case (st_add_history b c)
  have "cursor_ok (add_to_history c b) = cursor_ok b"
    by (simp add: add_to_history_def cursor_ok_def Let_def reset_history_navigation_def)
  with st_add_history show ?case by (simp add: buf_inv_def add_history_ok)
qed (auto simp: buf_inv_def inv_intros bm.ins_ok bm.bs_ok bm.del_ok move_vertical_cursor_ok)

lemma reachable_buf_inv: "buffer_reachable bl hl b \<Longrightarrow> buf_inv b"
proof (induction rule: buffer_reachable.induct)
  case start
  show ?case by (simp add: buf_inv_def cursor_ok_def history_ok_def new_buffer_def)
next
  case (step b b')
  then show ?case by (blast intro: buffer_step_inv)
qed

lemma step_limits: "buffer_step b b' \<Longrightarrow>
  buffer_limit b' = buffer_limit b \<and> history_limit b' = history_limit b"
  by (induction rule: buffer_step.induct)
    (auto simp: edit_defs Let_def add_to_history_def navigate_history_def load_from_history_def
      move_cursor_vertical_def set_cursor_to_line_col_def split: prod.splits)

lemma reachable_limits: "buffer_reachable bl hl b \<Longrightarrow> buffer_limit b = bl \<and> history_limit b = hl"
  by (induction rule: buffer_reachable.induct) (auto simp: new_buffer_def dest: step_limits)

section \<open>History navigation\<close>

abbreviation nav_up :: "buffer \<Rightarrow> buffer" where
  "nav_up b \<equiv> snd (navigate_history ''up'' b)"

abbreviation nav_down :: "buffer \<Rightarrow> buffer" where
  "nav_down b \<equiv> snd (navigate_history ''down'' b)"

lemma nat_int_Suc [simp]: "nat (int n + 1) = Suc n"
  by simp

lemma nav_up_index:
  "history_index b = - 1 \<Longrightarrow> history b \<noteq> [] \<Longrightarrow> nav_up b =
    b\<lparr>temp_buffer := buf b, history_index := 0, buf := last (history b),
      cursor_pos := length (last (history b))\<rparr>"
  "history_index b = int n \<Longrightarrow> Suc n < length (history b) \<Longrightarrow> nav_up b =
    b\<lparr>history_index := int (Suc n), buf := history b ! (length (history b) - Suc (Suc n)),
      cursor_pos := length (history b ! (length (history b) - Suc (Suc n)))\<rparr>"
  by (auto simp: navigate_history_def load_from_history_def Let_def last_conv_nth Suc_le_eq
      nat_add_distrib)

lemma nav_up_pow:
  assumes "history_index b = - 1" and "n \<le> length (history b)" and "0 < n"
  shows "(nav_up ^^ n) b =
    b\<lparr>buf := history b ! (length (history b) - n),
      cursor_pos := length (history b ! (length (history b) - n)),
      history_index := int n - 1, temp_buffer := buf b\<rparr>"
  using assms(2,3)
proof (induction n)
  case (Suc n)
  show ?case
  proof (cases "n = 0")
    case True
    from Suc.prems have "history b \<noteq> []" by auto
    with True assms(1) show ?thesis
      by (simp add: nav_up_index(1) last_conv_nth)
  next
    case False
    then obtain m where n: "n = Suc m" by (cases n) auto
    with Suc.IH Suc.prems have "history_index ((nav_up ^^ n) b) = int m"
      and "history ((nav_up ^^ n) b) = history b" by simp_all
    with n Suc.IH Suc.prems show ?thesis by (simp add: nav_up_index(2))
  qed
qed simp

lemma nav_down_index:
  assumes "history_index b = int n" and "n < length (history b)"
  shows "nav_down b =
    (if n = 0 then b\<lparr>history_index := - 1, buf := temp_buffer b, cursor_pos := length (temp_buffer b)\<rparr>
     else b\<lparr>history_index := int n - 1, buf := history b ! (length (history b) - n),
            cursor_pos := length (history b ! (length (history b) - n))\<rparr>)"
  using assms by (auto simp: navigate_history_def load_from_history_def Let_def)

lemma nav_down_pow:
  assumes "history_index b = int n" and "n < length (history b)"
  shows "(nav_down ^^ Suc n) b =
    b\<lparr>history_index := - 1, buf := temp_buffer b, cursor_pos := length (temp_buffer b)\<rparr>"
  using assms
proof (induction n arbitrary: b)
  case 0
  then show ?case by (simp add: nav_down_index [of _ 0])
next
  case (Suc n)
  have "(nav_down ^^ Suc (Suc n)) b = (nav_down ^^ Suc n) (nav_down b)"
    by (simp only: funpow_Suc_right o_apply)
  also from Suc.prems have "nav_down b = b\<lparr>history_index := int n,
      buf := history b ! (length (history b) - Suc n),
      cursor_pos := length (history b ! (length (history b) - Suc n))\<rparr>"
    using nav_down_index [of b "Suc n"] by simp
  finally show ?case using Suc.IH Suc.prems by simp
qed

section \<open>Pasted text\<close>

lemma length_collapse: "length (collapse_spaces sp s) \<le> length s"
  by (induction sp s rule: collapse_spaces.induct) auto

lemma length_strip: "length (str_strip s) \<le> length s"
  by (metis str_strip_def length_rev length_dropWhile_le le_trans)

lemma set_strip: "set (str_strip s) \<subseteq> set s"
  by (auto simp: str_strip_def dest!: set_dropWhileD)

lemma collapse_chars: "c \<in> set (collapse_spaces sp s) \<Longrightarrow> c = CHR '' '' \<or> \<not> is_space c"
  by (induction sp s rule: collapse_spaces.induct) (auto split: if_splits)

lemma length_paste: "length (process_paste_content p) \<le> length p"
  by (metis process_paste_content_def length_strip length_collapse length_map replace_char_def le_trans)

lemma paste_chars: "c \<in> set (process_paste_content p) \<Longrightarrow> c = CHR '' '' \<or> \<not> is_space c"
  by (metis process_paste_content_def collapse_chars set_strip subsetD)

section \<open>Properties\<close>

text \<open>in every state the methods can reach from a new buffer, the cursor is inside the
  text, the navigation index is a valid index of the history or \<open>-1\<close>, the history has no
  duplicate and no blank entry, and a positive history limit bounds it.\<close>

theorem buffer_invariant:
  assumes "buffer_reachable bl hl b"
  shows "cursor_pos b \<le> length (buf b) \<and> - 1 \<le> history_index b \<and>
    history_index b < int (length (history b)) \<and> distinct (history b) \<and>
    (\<forall>h \<in> set (history b). str_strip h \<noteq> []) \<and>
    (0 < hl \<longrightarrow> int (length (history b)) \<le> hl)"
  using reachable_buf_inv [OF assms] reachable_limits [OF assms]
  by (simp add: buf_inv_def cursor_ok_def history_ok_def)

theorem buffer_invariant_witness:
  "let b = add_to_history ''ls'' (new_buffer 10 5) in
     cursor_pos b \<le> length (buf b) \<and> history b = [''ls''] \<and> distinct (history b)"
proof -
  let ?b = "add_to_history ''ls'' (new_buffer 10 5)"
  have "buffer_reachable 10 5 ?b"
    by (rule buffer_reachable.step [OF buffer_reachable.start]) (rule buffer_step.st_add_history)
  from buffer_invariant [OF this] show ?thesis
    by (simp add: add_to_history_def new_buffer_def Let_def reset_history_navigation_def
        str_strip_def is_space_def)
qed

text \<open>a text that the buffer accepts is undone by as many backspaces as it has
  characters: the text and the cursor are the ones before.\<close>

theorem type_and_erase:
  assumes "cursor_pos b \<le> length (buf b)" and "insert_text t b = (True, b')"
  shows "buf (((\<lambda>x. snd (delete_char x)) ^^ length t) b') = buf b \<and>
    cursor_pos (((\<lambda>x. snd (delete_char x)) ^^ length t) b') = cursor_pos b"
proof -
  let ?e = "((\<lambda>x. snd (delete_char x)) ^^ length t) b'"
  from assms(1) have ok: "cursor_ok b" by (simp add: cursor_ok_def)
  from assms(2) have ins: "fst (insert_text t b)" "snd (insert_text t b) = b'" by simp_all
  from bm.type_then_erase [OF ok ins(1)] ins(2)
  have v: "before_cursor ?e = before_cursor b \<and> after_cursor ?e = after_cursor b" by simp
  have "cursor_ok ?e"
    using bm.backspaces_view [OF bm.ins_ok [OF ok, of t]] ins(2) by auto
  with ok v have "cursor_pos ?e = cursor_pos b"
    by (metis before_cursor_def cursor_ok_def length_take min.absorb2)
  with v show ?thesis by (metis before_append_after)
qed

theorem type_and_erase_witness:
  "insert_text ''ab'' (new_buffer 10 5) = (True, snd (insert_text ''ab'' (new_buffer 10 5))) \<and>
   buf (((\<lambda>x. snd (delete_char x)) ^^ length ''ab'') (snd (insert_text ''ab'' (new_buffer 10 5)))) = []"
  using type_and_erase [of "new_buffer 10 5" "''ab''" "snd (insert_text ''ab'' (new_buffer 10 5))"]
  by (simp add: insert_text_def is_valid_char_def new_buffer_def insert_at_def)

text \<open>going \<open>n\<close> entries up the history and \<open>n\<close> entries down again restores the
  text the user was typing, with the cursor at its end and navigation reset; on the way up the
  buffer shows the \<open>n\<close>-th last command.\<close>

theorem history_round_trip:
  assumes "history_index b = - 1" and "0 < n" and "n \<le> length (history b)"
  shows "buf ((nav_up ^^ n) b) = history b ! (length (history b) - n) \<and>
    (nav_down ^^ n) ((nav_up ^^ n) b) =
      b\<lparr>cursor_pos := length (buf b), temp_buffer := buf b\<rparr>"
proof -
  from assms(2) obtain m where n: "n = Suc m" by (cases n) auto
  note up = nav_up_pow [OF assms(1,3,2)]
  from nav_down_pow [of "(nav_up ^^ n) b" m] assms(3) n
  have "(nav_down ^^ n) ((nav_up ^^ n) b) = b\<lparr>history_index := - 1, buf := buf b,
      cursor_pos := length (buf b), temp_buffer := buf b\<rparr>"
    by (simp add: up [unfolded n] n del: funpow.simps)
  also have "\<dots> = b\<lparr>cursor_pos := length (buf b), temp_buffer := buf b\<rparr>"
    using assms(1) by (cases b) simp
  finally show ?thesis using up by simp
qed

theorem history_round_trip_witness:
  "let b = (new_buffer 10 5)\<lparr>buf := ''x'', history := [''a'', ''b'']\<rparr> in
     buf ((nav_up ^^ 2) b) = ''a'' \<and> buf ((nav_down ^^ 2) ((nav_up ^^ 2) b)) = ''x''"
  using history_round_trip [of "(new_buffer 10 5)\<lparr>buf := ''x'', history := [''a'', ''b'']\<rparr>" 2]
  by (simp add: new_buffer_def)

text \<open>a vertical move goes to the adjacent line and to the same column, or the end of a
  shorter line; the text does not change, and at the first or last line nothing moves.\<close>

theorem vertical_move:
  assumes ok: "cursor_pos b \<le> length (buf b)"
    and lc: "get_cursor_line_col b = (line, col)"
  shows "buf (snd (move_cursor_vertical d b)) = buf b \<and>
    get_cursor_line_col (snd (move_cursor_vertical d b)) =
      (if d = ''up'' \<and> line > 0
         then (line - 1, min col (length (split_on newline (buf b) ! (line - 1))))
       else if d = ''down'' \<and> line + 1 < length (split_on newline (buf b))
         then (line + 1, min col (length (split_on newline (buf b) ! (line + 1))))
       else (line, col))"
proof -
  from ok have ok': "cursor_ok b" by (simp add: cursor_ok_def)
  from cursor_line_col(1) [OF ok' lc] have "line - 1 < length (buf_lines b)" by simp
  then show ?thesis
    by (simp add: move_vertical_cases [OF ok' lc] set_cursor_line_col(1) lc)
qed

theorem vertical_move_witness:
  "get_cursor_line_col (snd (move_cursor_vertical ''up''
     ((new_buffer 10 5)\<lparr>buf := [CHR ''a'', newline, CHR ''b'', CHR ''c''], cursor_pos := 4\<rparr>))) = (0, 1)"
proof -
  let ?b = "(new_buffer 10 5)\<lparr>buf := [CHR ''a'', newline, CHR ''b'', CHR ''c''], cursor_pos := 4\<rparr>"
  have "cursor_pos ?b \<le> length (buf ?b)" by simp
  moreover have "get_cursor_line_col ?b = (1, 2)"
    by (simp add: get_cursor_line_col_def newline_def)
  ultimately show ?thesis
    using vertical_move [of ?b 1 2 "''up''"] by (simp add: newline_def)
qed

text \<open>typing, inserting a text and pasting never grow a buffer beyond its limit, and a
  pasted text reaches the buffer on one line: its only white space is single blanks.\<close>

theorem input_within_limit:
  assumes "int (length (buf b)) \<le> buffer_limit b"
  shows "int (length (buf (snd (insert_char c b)))) \<le> buffer_limit b \<and>
    int (length (buf (snd (insert_text t b)))) \<le> buffer_limit b \<and>
    int (length (buf (snd (handle_paste p b)))) \<le> buffer_limit b \<and>
    (\<forall>x \<in> set (process_paste_content p). is_space x \<longrightarrow> x = CHR '' '')"
  using assms length_paste [of p] paste_chars [of _ p]
  by (auto simp: edit_defs Let_def valid_char_length)

theorem input_within_limit_witness:
  "int (length (buf (snd (handle_paste ''a b'' (new_buffer 3 5))))) \<le> 3"
  using input_within_limit [of "new_buffer 3 5" "''x''" "''y''" "''a b''"] by (simp add: new_buffer_def)

text \<open>with a history limit of 0 the history is not bounded at all: the slice
  \<open>[-0:]\<close> keeps the whole list, so every new command is added to it.\<close>

theorem history_limit_zero_keeps_all:
  assumes "history_limit b = 0" and "str_strip c \<noteq> []" and "c \<notin> set (history b)"
  shows "history (add_to_history c b) = history b @ [c]"
  using assms
  by (simp add: add_to_history_def Let_def reset_history_navigation_def slice_from_def)

theorem history_limit_zero_witness:
  "history (add_to_history ''b'' (add_to_history ''a'' (new_buffer 10 0))) = [''a'', ''b'']"
  using history_limit_zero_keeps_all [of "add_to_history ''a'' (new_buffer 10 0)" "''b''"]
  by (simp add: add_to_history_def Let_def reset_history_navigation_def slice_from_def new_buffer_def
      str_strip_def is_space_def)

section \<open>Editing refines the two halves of the text\<close>

text \<open>
  The editor as the user thinks of it: the text left and right of the cursor, and keys that act on
  the two. It knows no positions and no slices.
\<close>

datatype edit = Type string | Backspace | DeleteKey | GoLeft | GoRight | Home | End

fun edit_halves :: "int \<Rightarrow> edit \<Rightarrow> string \<times> string \<Rightarrow> string \<times> string" where
  "edit_halves limit (Type t) (l, r) =
     (if list_all (\<lambda>c. is_valid_char [c]) t \<and> int (length l + length t + length r) \<le> limit then (l @ t, r) else (l, r))"
| "edit_halves limit Backspace (l, r) = (butlast l, r)"
| "edit_halves limit DeleteKey (l, r) = (l, tl r)"
| "edit_halves limit GoLeft (l, r) = (if l = [] then (l, r) else (butlast l, last l # r))"
| "edit_halves limit GoRight (l, r) = (if r = [] then (l, r) else (l @ [hd r], tl r))"
| "edit_halves limit Home (l, r) = ([], l @ r)"
| "edit_halves limit End (l, r) = (l @ r, [])"

fun edit_buffer :: "edit \<Rightarrow> buffer \<Rightarrow> buffer" where
  "edit_buffer (Type t) b = snd (insert_text t b)"
| "edit_buffer Backspace b = snd (delete_char b)"
| "edit_buffer DeleteKey b = snd (delete_forward b)"
| "edit_buffer GoLeft b = snd (move_cursor ''left'' b)"
| "edit_buffer GoRight b = snd (move_cursor ''right'' b)"
| "edit_buffer Home b = move_to_start b"
| "edit_buffer End b = move_to_end b"

definition halves :: "buffer \<Rightarrow> string \<times> string" where
  "halves b = (before_cursor b, after_cursor b)"

lemma edit_keeps: "cursor_ok b \<Longrightarrow> cursor_ok (edit_buffer e b) \<and> buffer_limit (edit_buffer e b) = buffer_limit b"
  by (cases e) (auto simp: edit_defs cursor_ok_def)

lemma typed_halves:
  assumes "cursor_ok b"
  shows "halves (snd (insert_text t b)) = edit_halves (buffer_limit b) (Type t) (halves b)"
proof -
  have len: "length (buf b) = length (before_cursor b) + length (after_cursor b)"
    by (metis before_append_after length_append)
  have "fst (insert_text t b) \<longleftrightarrow> list_all (\<lambda>c. is_valid_char [c]) t \<and>
      int (length (before_cursor b) + length t + length (after_cursor b)) \<le> buffer_limit b"
    by (auto simp: insert_text_def len)
  then show ?thesis using bm.ins_view [OF assms, of t] bm.ins_refused [of t b] by (auto simp: halves_def)
qed

lemma edit_step_refines:
  assumes "cursor_ok b"
  shows "halves (edit_buffer e b) = edit_halves (buffer_limit b) e (halves b)"
proof (cases e)
  case (Type t)
  then show ?thesis using typed_halves [OF assms] by simp
next
  case Home
  then show ?thesis using before_append_after [of b] by (simp add: halves_def move_to_start_def before_cursor_def after_cursor_def)
next
  case End
  then show ?thesis using before_append_after [of b] by (simp add: halves_def move_to_end_def before_cursor_def after_cursor_def)
qed (use bm.bs_view [OF assms] bm.del_view [OF assms] bm.left_view [OF assms] bm.right_view [OF assms] in \<open>simp_all add: halves_def\<close>)

text \<open>C34: 
  The buffer with its position refines the two halves: after any sequence of keys, the text left and
  right of the cursor is what the keys make of the two halves, and the content is their
  concatenation.
\<close>

theorem editing_refines_halves:
  assumes "cursor_ok b"
  shows "halves (fold edit_buffer keys b) = fold (edit_halves (buffer_limit b)) keys (halves b) \<and>
    buf (fold edit_buffer keys b) = fst (halves (fold edit_buffer keys b)) @ snd (halves (fold edit_buffer keys b))"
proof -
  have "halves (fold edit_buffer keys b) = fold (edit_halves (buffer_limit b)) keys (halves b)" using assms
  proof (induction keys arbitrary: b)
    case (Cons e keys)
    then show ?case using Cons.IH [of "edit_buffer e b"] edit_keeps [of b e] edit_step_refines [of b e] by simp
  qed simp
  moreover have "buf c = fst (halves c) @ snd (halves c)" for c using before_append_after [of c] by (simp add: halves_def)
  ultimately show ?thesis by blast
qed

theorem editing_refines_halves_witness:
  "halves (fold edit_buffer [Type ''abc'', GoLeft, Backspace, Type ''x''] (new_buffer 10 5)) = (''ax'', ''c'')"
proof -
  have ok: "cursor_ok (new_buffer 10 5)" "buffer_limit (new_buffer 10 5) = 10" "halves (new_buffer 10 5) = ([], [])"
    by (simp_all add: cursor_ok_def new_buffer_def halves_def before_cursor_def after_cursor_def)
  have "fold (edit_halves 10) [Type ''abc'', GoLeft, Backspace, Type ''x''] ([], []) = (''ax'', ''c'')" by code_simp
  then show ?thesis
    using editing_refines_halves [OF ok(1), of "[Type ''abc'', GoLeft, Backspace, Type ''x'']"] unfolding ok by (simp only:)
qed

end
