(* ===== verification/Key_Parser.thy ===== *)
theory Key_Parser
  imports Kollab_Prelude
begin

text \<open>
  Keyboard input (\<open>kollabor_tui/key_parser.py\<close>): the class \<open>KeyParser\<close> turns the characters of a
  terminal into key presses. It is a state machine: outside an escape sequence every character is
  a key; after ESC the characters are collected until they are a known sequence, or can no longer
  become one.

  The theorems: the state is always one of the table's proper prefixes, every sequence of the
  table is recognised and leaves the parser idle, plain text comes out as it went in, and the
  parser never swallows input for longer than the longest sequence.
\<close>

section \<open>Key presses\<close>

datatype key_type = PRINTABLE | CONTROL | SPECIAL | EXTENDED

datatype key_code = Code nat | Sequence string

record modifiers =
  m_ctrl :: bool
  m_alt :: bool
  m_shift :: bool
  m_cmd :: bool

definition no_modifiers :: modifiers where
  "no_modifiers = \<lparr>m_ctrl = False, m_alt = False, m_shift = False, m_cmd = False\<rparr>"

record key_press =
  key_name :: string
  key_code :: key_code
  key_char :: "char option"
  key_kind :: key_type
  key_modifiers :: modifiers

definition key :: "key_press \<Rightarrow> string" where
  "key k = str_replace ''ctrl+'' ''ctrl+'' (str_replace ''arrow'' [] (str_lower (key_name k)))"

definition is_cursor_key :: "key_press \<Rightarrow> bool" where
  "is_cursor_key k \<longleftrightarrow> key k \<in> {''up'', ''down'', ''left'', ''right'', ''pageup'', ''pagedown''}"

definition ctrl :: "key_press \<Rightarrow> bool" where
  "ctrl k = m_ctrl (key_modifiers k)"

section \<open>The parser\<close>

definition CONTROL_KEYS :: "(nat \<times> string) list" where
  "CONTROL_KEYS =
     [(1, ''Ctrl+A''), (2, ''Ctrl+B''), (3, ''Ctrl+C''), (4, ''Ctrl+D''), (5, ''Ctrl+E''),
      (6, ''Ctrl+F''), (7, ''Ctrl+G''), (8, ''Backspace''), (9, ''Tab''), (10, ''Ctrl+J''),
      (11, ''Ctrl+K''), (12, ''Ctrl+L''), (13, ''Enter''), (14, ''Ctrl+N''), (15, ''Ctrl+O''),
      (16, ''Ctrl+P''), (17, ''Ctrl+Q''), (18, ''Ctrl+R''), (19, ''Ctrl+S''), (20, ''Ctrl+T''),
      (21, ''Ctrl+U''), (22, ''Ctrl+V''), (23, ''Ctrl+W''), (24, ''Ctrl+X''), (25, ''Ctrl+Y''),
      (26, ''Ctrl+Z''), (27, ''Escape''), (127, ''Backspace'')]"

definition ESCAPE_SEQUENCES :: "(string \<times> string) list" where
  "ESCAPE_SEQUENCES =
     [(''[A'', ''ArrowUp''), (''[B'', ''ArrowDown''), (''[C'', ''ArrowRight''),
      (''[D'', ''ArrowLeft''), (''[1;3A'', ''Alt+ArrowUp''), (''[1;3B'', ''Alt+ArrowDown''),
      (''[1;3C'', ''Alt+ArrowRight''), (''[1;3D'', ''Alt+ArrowLeft''), (''[1;5A'', ''Ctrl+ArrowUp''),
      (''[1;5B'', ''Ctrl+ArrowDown''), (''[1;5C'', ''Ctrl+ArrowRight''),
      (''[1;5D'', ''Ctrl+ArrowLeft''), (''O5A'', ''Ctrl+ArrowUp''), (''O5B'', ''Ctrl+ArrowDown''),
      (''O5C'', ''Ctrl+ArrowRight''), (''O5D'', ''Ctrl+ArrowLeft''), (''[1;9A'', ''Cmd+ArrowUp''),
      (''[1;9B'', ''Cmd+ArrowDown''), (''[1;9C'', ''Cmd+ArrowRight''), (''[1;9D'', ''Cmd+ArrowLeft''),
      (''[Z'', ''Shift+Tab''), (''[H'', ''Home''), (''[F'', ''End''), (''[3~'', ''Delete''),
      (''[5~'', ''PageUp''), (''[6~'', ''PageDown''), (''OP'', ''F1''), (''OQ'', ''F2''),
      (''OR'', ''F3''), (''OS'', ''F4''), (''[15~'', ''F5''), (''[17~'', ''F6''), (''[18~'', ''F7''),
      (''[19~'', ''F8''), (''[20~'', ''F9''), (''[21~'', ''F10''), (''[23~'', ''F11''),
      (''[24~'', ''F12''), (''[200~'', ''BracketedPasteStart''), (''[201~'', ''BracketedPasteEnd''),
      (''[13;2u'', ''Shift+Enter''), (''[27;2;13~'', ''Shift+Enter''), ([CHR 0x0D], ''Shift+Enter'')]"

record key_parser =
  escape_buffer :: string
  in_escape_sequence :: bool

definition new_parser :: key_parser where
  "new_parser = \<lparr>escape_buffer = [], in_escape_sequence = False\<rparr>"

definition reset_escape_state :: "key_parser \<Rightarrow> key_parser" where
  "reset_escape_state P = P\<lparr>in_escape_sequence := False, escape_buffer := []\<rparr>"

definition parse_modifiers :: "string \<Rightarrow> modifiers" where
  "parse_modifiers name =
     \<lparr>m_ctrl = str_contains ''Ctrl+'' name, m_alt = str_contains ''Alt+'' name,
      m_shift = str_contains ''Shift+'' name, m_cmd = str_contains ''Cmd+'' name\<rparr>"

text \<open>The key press of a known sequence.\<close>

definition sequence_key :: "string \<Rightarrow> string \<Rightarrow> key_press" where
  "sequence_key buf name =
     (let modified = str_contains ''Ctrl+'' name \<or> str_contains ''Cmd+'' name \<or> str_contains ''Alt+'' name
      in \<lparr>key_name = name, key_code = Sequence (''ESC'' @ buf), key_char = None,
          key_kind = (if modified then CONTROL else EXTENDED),
          key_modifiers = (if modified then parse_modifiers name else no_modifiers)\<rparr>)"

definition printable :: "char \<Rightarrow> bool" where
  "printable c \<longleftrightarrow> 32 \<le> (of_char c :: nat) \<and> (of_char c :: nat) \<le> 126"

definition parse_escape_sequence :: "char \<Rightarrow> key_parser \<Rightarrow> key_press option \<times> key_parser" where
  "parse_escape_sequence c P0 =
     (let P = P0\<lparr>escape_buffer := escape_buffer P0 @ [c]\<rparr>; buf = escape_buffer P
      in case od_get ESCAPE_SEQUENCES buf of
           Some name \<Rightarrow> (Some (sequence_key buf name), reset_escape_state P)
         | None \<Rightarrow>
             (if list_ex (\<lambda>(s, n). prefix buf s) ESCAPE_SEQUENCES then (None, P)
              else if length buf = 1 \<and> printable (hd buf)
              then (Some \<lparr>key_name = ''Alt+'' @ buf, key_code = Sequence (''ESC'' @ buf), key_char = Some (hd buf),
                          key_kind = CONTROL, key_modifiers = no_modifiers\<lparr>m_alt := True\<rparr>\<rparr>,
                    reset_escape_state P)
              else (Some \<lparr>key_name = ''ESC+'' @ buf, key_code = Sequence (''ESC'' @ buf), key_char = None,
                          key_kind = SPECIAL, key_modifiers = no_modifiers\<rparr>,
                    reset_escape_state P)))"

definition parse_one :: "char \<Rightarrow> key_parser \<Rightarrow> key_press option \<times> key_parser" where
  "parse_one c P =
     (let n = of_char c :: nat
      in if in_escape_sequence P then parse_escape_sequence c P
         else if n = 27 then (None, P\<lparr>in_escape_sequence := True, escape_buffer := []\<rparr>)
         else case od_get CONTROL_KEYS n of
                Some name \<Rightarrow>
                  (Some \<lparr>key_name = name, key_code = Code n, key_char = None, key_kind = CONTROL,
                         key_modifiers = parse_modifiers name\<rparr>, P)
              | None \<Rightarrow>
                  (if printable c
                   then (Some \<lparr>key_name = [c], key_code = Code n, key_char = Some c, key_kind = PRINTABLE,
                               key_modifiers = no_modifiers\<rparr>, P)
                   else (Some \<lparr>key_name = ''Key'' @ show_nat n, key_code = Code n, key_char = Some c,
                               key_kind = SPECIAL, key_modifiers = no_modifiers\<rparr>, P)))"

text \<open>The method takes a string: the empty one is no key, and \<open>ord\<close> raises on more than one character.\<close>

definition parse_char :: "string \<Rightarrow> key_parser \<Rightarrow> key_press option py_result \<times> key_parser" where
  "parse_char s P =
     (case s of
        [] \<Rightarrow> (Inr None, P)
      | [c] \<Rightarrow> (case parse_one c P of (k, P') \<Rightarrow> (Inr k, P'))
      | _ \<Rightarrow> (Inl (TypeError ''ord() expected a character''), P))"

definition check_for_standalone_escape :: "key_parser \<Rightarrow> key_press option \<times> key_parser" where
  "check_for_standalone_escape P =
     (if in_escape_sequence P \<and> escape_buffer P = []
      then (Some \<lparr>key_name = ''Escape'', key_code = Code 27, key_char = None, key_kind = CONTROL,
                  key_modifiers = no_modifiers\<rparr>, reset_escape_state P)
      else (None, P))"

definition is_printable_char :: "key_press \<Rightarrow> bool" where
  "is_printable_char k \<longleftrightarrow> key_kind k = PRINTABLE \<and> (case key_char k of None \<Rightarrow> False | Some c \<Rightarrow> printable c)"

definition is_control_key :: "key_press \<Rightarrow> string \<Rightarrow> bool" where
  "is_control_key k name \<longleftrightarrow> key_kind k = CONTROL \<and> key_name k = name"

text \<open>The characters of an input one after the other, and the keys that come out.\<close>

fun feed :: "string \<Rightarrow> key_parser \<Rightarrow> key_press list \<times> key_parser" where
  "feed [] P = ([], P)"
| "feed (c # cs) P =
     (case parse_one c P of (k, P1) \<Rightarrow>
        (case feed cs P1 of (ks, P2) \<Rightarrow> (case k of None \<Rightarrow> ks | Some x \<Rightarrow> x # ks, P2)))"

section \<open>The table\<close>

definition sequence_prefix :: "string \<Rightarrow> bool" where
  "sequence_prefix b \<longleftrightarrow> list_ex (\<lambda>(s, n). prefix b s) ESCAPE_SEQUENCES"

text \<open>No sequence of the table is a part of another one's beginning, and none is longer than nine.\<close>

lemma sequences_prefix_free:
  "list_all (\<lambda>(s, n). s \<noteq> [] \<and> length s \<le> 9 \<and>
     list_all (\<lambda>(t, m). prefix s t \<longrightarrow> s = t \<and> n = m) ESCAPE_SEQUENCES) ESCAPE_SEQUENCES"
  by code_simp

lemma sequence_shape:
  assumes "(s, n) \<in> set ESCAPE_SEQUENCES"
  shows "s \<noteq> []" "length s \<le> 9" and "(t, m) \<in> set ESCAPE_SEQUENCES \<Longrightarrow> prefix s t \<Longrightarrow> s = t \<and> n = m"
  using sequences_prefix_free assms by (force simp: list_all_iff)+

lemma sequence_prefix_iff: "sequence_prefix b \<longleftrightarrow> (\<exists>s n. (s, n) \<in> set ESCAPE_SEQUENCES \<and> prefix b s)"
  by (force simp: sequence_prefix_def list_ex_iff)

lemma lookup_sequence: "(s, n) \<in> set ESCAPE_SEQUENCES \<Longrightarrow> od_get ESCAPE_SEQUENCES s = Some n"
proof -
  assume s: "(s, n) \<in> set ESCAPE_SEQUENCES"
  then obtain m where m: "od_get ESCAPE_SEQUENCES s = Some m" by (metis weak_map_of_SomeI)
  then have "(s, m) \<in> set ESCAPE_SEQUENCES" by (rule map_of_SomeD)
  with sequence_shape(3) [OF s this] m show ?thesis by simp
qed

lemma lookup_proper_prefix:
  "(s, n) \<in> set ESCAPE_SEQUENCES \<Longrightarrow> strict_prefix b s \<Longrightarrow> od_get ESCAPE_SEQUENCES b = None"
  by (metis map_of_SomeD not_Some_eq sequence_shape(3) strict_prefix_def)

section \<open>The state\<close>

definition parser_inv :: "key_parser \<Rightarrow> bool" where
  "parser_inv P \<longleftrightarrow> (if in_escape_sequence P
     then sequence_prefix (escape_buffer P) \<and> od_get ESCAPE_SEQUENCES (escape_buffer P) = None
     else escape_buffer P = [])"

lemma parser_inv_new [simp]: "parser_inv new_parser"
  by (simp add: parser_inv_def new_parser_def)

lemma parser_inv_reset [simp]: "parser_inv (reset_escape_state P)"
  by (simp add: parser_inv_def reset_escape_state_def)

lemma no_empty_sequence: "od_get ESCAPE_SEQUENCES [] = None"
  using map_of_SomeD [of ESCAPE_SEQUENCES "[]"] sequence_shape(1) by (metis not_Some_eq)

lemma sequence_prefix_Nil: "sequence_prefix []"
  by (simp add: sequence_prefix_def ESCAPE_SEQUENCES_def)

lemma parse_escape_inv: "in_escape_sequence P \<Longrightarrow> parser_inv (snd (parse_escape_sequence c P))"
  by (auto simp: parse_escape_sequence_def Let_def parser_inv_def sequence_prefix_def reset_escape_state_def
      split: option.splits)

lemma parse_one_inv: "parser_inv P \<Longrightarrow> parser_inv (snd (parse_one c P))"
proof (cases "in_escape_sequence P")
  case True
  then show ?thesis by (simp add: parse_one_def Let_def parse_escape_inv)
next
  case False
  assume "parser_inv P"
  with False show ?thesis
    by (auto simp: parse_one_def Let_def parser_inv_def no_empty_sequence sequence_prefix_Nil split: option.splits)
qed

lemma feed_inv: "parser_inv P \<Longrightarrow> parser_inv (snd (feed s P))"
proof (induction s arbitrary: P)
  case (Cons c s)
  then show ?case using parse_one_inv [of P c] by (simp add: case_prod_unfold)
qed simp

lemma feed_append:
  "feed (s @ t) P = (fst (feed s P) @ fst (feed t (snd (feed s P))), snd (feed t (snd (feed s P))))"
  by (induction s arbitrary: P) (simp_all add: case_prod_unfold split: option.splits)

lemma idle_parser: "parser_inv P \<Longrightarrow> \<not> in_escape_sequence P \<Longrightarrow> P = new_parser"
  by (simp add: parser_inv_def new_parser_def)

text \<open>A character that is swallowed makes the buffer longer, which the table bounds.\<close>

lemma inv_buffer_length: "parser_inv P \<Longrightarrow> in_escape_sequence P \<Longrightarrow> length (escape_buffer P) < 9"
proof -
  assume "parser_inv P" and "in_escape_sequence P"
  then obtain s n where s: "(s, n) \<in> set ESCAPE_SEQUENCES" "prefix (escape_buffer P) s"
    and no: "od_get ESCAPE_SEQUENCES (escape_buffer P) = None"
    by (auto simp: parser_inv_def sequence_prefix_iff)
  then have "escape_buffer P \<noteq> s" using lookup_sequence by force
  then have "length (escape_buffer P) < length s" using s(2) by (simp add: prefix_length_less strict_prefix_def)
  with sequence_shape(2) [OF s(1)] show ?thesis by simp
qed

lemma swallowed_grows:
  assumes "fst (parse_one c P) = None"
  shows "in_escape_sequence (snd (parse_one c P)) \<and>
    (if in_escape_sequence P then length (escape_buffer (snd (parse_one c P))) = Suc (length (escape_buffer P))
     else escape_buffer (snd (parse_one c P)) = [])"
  using assms
  by (auto simp: parse_one_def parse_escape_sequence_def Let_def split: option.splits if_splits)

lemma silent_feed_grows:
  assumes "fst (feed s P) = []" and "in_escape_sequence P"
  shows "in_escape_sequence (snd (feed s P)) \<and> length (escape_buffer (snd (feed s P))) = length (escape_buffer P) + length s"
  using assms
proof (induction s arbitrary: P)
  case (Cons c s)
  have none: "fst (parse_one c P) = None" and rest: "fst (feed s (snd (parse_one c P))) = []"
    using Cons.prems(1) by (auto simp: case_prod_unfold split: option.splits)
  from swallowed_grows [OF none] Cons.IH [OF rest] Cons.prems(2) show ?case by (simp add: case_prod_unfold)
qed simp

lemma silent_feed_short:
  assumes "parser_inv P" and "fst (feed s P) = []"
  shows "length s \<le> 9"
proof (cases "in_escape_sequence P")
  case True
  with silent_feed_grows [OF assms(2) True] inv_buffer_length [OF feed_inv [OF assms(1)]] show ?thesis by fastforce
next
  case False
  show ?thesis
  proof (cases s)
    case (Cons c t)
    have none: "fst (parse_one c P) = None" and rest: "fst (feed t (snd (parse_one c P))) = []"
      using assms(2) Cons by (auto simp: case_prod_unfold split: option.splits)
    have inv: "parser_inv (snd (parse_one c P))" by (rule parse_one_inv) (rule assms(1))
    from swallowed_grows [OF none] silent_feed_grows [OF rest] inv_buffer_length [OF feed_inv [OF inv]] False Cons
    show ?thesis by fastforce
  qed simp
qed

lemma feed_proper_prefix:
  assumes "(s, n) \<in> set ESCAPE_SEQUENCES" and "strict_prefix (b @ t) s"
  shows "feed t \<lparr>escape_buffer = b, in_escape_sequence = True\<rparr> = ([], \<lparr>escape_buffer = b @ t, in_escape_sequence = True\<rparr>)"
  using assms(2)
proof (induction t arbitrary: b)
  case (Cons c t)
  have pre: "strict_prefix (b @ [c]) s" using Cons.prems by (metis append_Cons append_Nil append_assoc prefix_order.le_less_trans prefixI)
  have "list_ex (\<lambda>(s, n). prefix (b @ [c]) s) ESCAPE_SEQUENCES"
    using assms(1) pre by (force simp: list_ex_iff strict_prefix_def)
  with lookup_proper_prefix [OF assms(1) pre] Cons.IH [of "b @ [c]"] Cons.prems show ?case
    by (simp add: parse_one_def parse_escape_sequence_def Let_def)
qed simp

section \<open>Properties\<close>

definition ESC :: char where
  "ESC = CHR 0x1B"

lemma ESC_code [simp]: "(of_char ESC :: nat) = 27"
  by (simp add: ESC_def)

text \<open>Every escape sequence of the table is recognised: from the idle state, ESC followed by the
  characters of the sequence gives exactly one key press, the one of the table, and the parser is
  idle again. No sequence is cut short by a shorter one.\<close>

theorem every_sequence_is_recognised:
  assumes "(s, name) \<in> set ESCAPE_SEQUENCES"
  shows "feed (ESC # s) new_parser = ([sequence_key s name], new_parser) \<and> key_name (sequence_key s name) = name"
proof -
  obtain t c where s: "s = t @ [c]" using sequence_shape(1) [OF assms] by (metis append_butlast_last_id)
  then have t: "feed t \<lparr>escape_buffer = [], in_escape_sequence = True\<rparr> = ([], \<lparr>escape_buffer = t, in_escape_sequence = True\<rparr>)"
    using feed_proper_prefix [OF assms, of "[]" t] by (simp add: strict_prefix_def)
  have "parse_one ESC new_parser = (None, \<lparr>escape_buffer = [], in_escape_sequence = True\<rparr>)"
    by (simp add: parse_one_def new_parser_def)
  moreover have "parse_one c \<lparr>escape_buffer = t, in_escape_sequence = True\<rparr> = (Some (sequence_key s name), new_parser)"
    using lookup_sequence [OF assms] s
    by (simp add: parse_one_def parse_escape_sequence_def Let_def reset_escape_state_def new_parser_def)
  ultimately show ?thesis
    using t unfolding s by (simp add: feed_append sequence_key_def Let_def)
qed

theorem every_sequence_is_recognised_witness:
  "feed (ESC # ''[1;5A'') new_parser = ([sequence_key ''[1;5A'' ''Ctrl+ArrowUp''], new_parser)"
  using every_sequence_is_recognised [of "''[1;5A''" "''Ctrl+ArrowUp''"] by (simp add: ESCAPE_SEQUENCES_def)

text \<open>C38: The parser never goes silent: whatever was typed before, among any ten further characters
  at least one completes a key press, and between key presses it remembers only a proper beginning
  of a known escape sequence.\<close>

theorem parser_never_stuck:
  assumes "P = snd (feed before new_parser)"
  shows "(10 \<le> length s \<longrightarrow> fst (feed s P) \<noteq> []) \<and>
    (if in_escape_sequence P then \<exists>t n. (t, n) \<in> set ESCAPE_SEQUENCES \<and> strict_prefix (escape_buffer P) t
     else P = new_parser)"
proof -
  have inv: "parser_inv P" unfolding assms by (rule feed_inv) simp
  then have "\<exists>t n. (t, n) \<in> set ESCAPE_SEQUENCES \<and> strict_prefix (escape_buffer P) t" if "in_escape_sequence P"
    using that lookup_sequence by (force simp: parser_inv_def sequence_prefix_iff strict_prefix_def)
  with silent_feed_short [OF inv, of s] idle_parser [OF inv] show ?thesis by fastforce
qed

theorem parser_never_stuck_witness:
  "fst (feed ''[1;5[1;5[1'' (snd (feed [ESC] new_parser))) \<noteq> []"
  using parser_never_stuck [OF refl, of "''[1;5[1;5[1''" "[ESC]"] by simp

lemma printable_not_control: "printable c \<Longrightarrow> od_get CONTROL_KEYS (of_char c) = None \<and> (of_char c :: nat) \<noteq> 27"
  by (auto simp: printable_def CONTROL_KEYS_def)

text \<open>Plain text comes out as it went in: each printable character typed to an idle parser gives
  one printable key press with that character, in order, and no modifiers.\<close>

theorem plain_text_passes:
  assumes "\<forall>c \<in> set s. printable c"
  shows "snd (feed s new_parser) = new_parser \<and> map key_char (fst (feed s new_parser)) = map Some s \<and>
    (\<forall>k \<in> set (fst (feed s new_parser)). is_printable_char k \<and> key_modifiers k = no_modifiers)"
  using assms
proof (induction s)
  case (Cons c s)
  have "parse_one c new_parser = (Some \<lparr>key_name = [c], key_code = Code (of_char c), key_char = Some c,
      key_kind = PRINTABLE, key_modifiers = no_modifiers\<rparr>, new_parser)"
    using printable_not_control [of c] Cons.prems by (simp add: parse_one_def new_parser_def Let_def)
  with Cons show ?case by (simp add: case_prod_unfold is_printable_char_def)
qed simp

theorem plain_text_passes_witness: "map key_char (fst (feed ''hi there'' new_parser)) = map Some ''hi there''"
  using plain_text_passes [of "''hi there''"] by (simp add: printable_def)

end
