(* ===== verification/Dict_Utils.thy ===== *)
theory Dict_Utils
  imports Kollab_Prelude
begin

text \<open>
  Python values as the configuration, the event data and the stored JSON hold them, and the
  dictionary helpers of \<open>kollabor_events/dict_utils.py\<close>: \<open>deep_merge\<close>,
  \<open>merge_multiple\<close>, \<open>safe_get\<close>, \<open>safe_set\<close>, \<open>flatten_dict\<close> and
  \<open>unflatten_dict\<close>.

  Dictionaries are values here: \<open>safe_set\<close> returns the new dictionary instead of changing its
  argument in place, and the copies that \<open>deep_merge\<close> takes are the values themselves.
\<close>

section \<open>Values\<close>

datatype pyval =
    PNone
  | PBool bool
  | PInt int
  | PFloat real
  | PStr string
  | PList "pyval list"
  | PDict "(string \<times> pyval) list"

type_synonym pydict = "(string, pyval) odict"

fun is_dict :: "pyval \<Rightarrow> bool" where
  "is_dict (PDict _) = True"
| "is_dict _ = False"

text \<open>The truth value of an object (\<open>if x:\<close>).\<close>

fun truthy :: "pyval \<Rightarrow> bool" where
  "truthy PNone = False"
| "truthy (PBool b) = b"
| "truthy (PInt i) = (i \<noteq> 0)"
| "truthy (PFloat r) = (r \<noteq> 0)"
| "truthy (PStr s) = (s \<noteq> [])"
| "truthy (PList xs) = (xs \<noteq> [])"
| "truthy (PDict d) = (d \<noteq> [])"

section \<open>Operations\<close>

function deep_merge :: "pyval \<Rightarrow> pyval \<Rightarrow> pyval"
  and merge_entries :: "pydict \<Rightarrow> pydict \<Rightarrow> pydict" where
  "deep_merge t s =
     (case t of
        PDict td \<Rightarrow> (case s of PDict sd \<Rightarrow> PDict (merge_entries td sd) | _ \<Rightarrow> t)
      | _ \<Rightarrow> (if is_dict s then s else PDict []))"
| "merge_entries r [] = r"
| "merge_entries r ((k, v) # s) =
     merge_entries
       (od_put k
         (case od_get r k of
            Some old \<Rightarrow> if is_dict old \<and> is_dict v then deep_merge old v else v
          | None \<Rightarrow> v) r) s"
  by pat_completeness auto
termination
  by (relation "measure (\<lambda>x. case x of Inl (t, s) \<Rightarrow> 2 * size s + 1 | Inr (r, s) \<Rightarrow> 2 * size (PDict s))")
    (auto split: pyval.splits)

declare deep_merge.simps [simp del]

definition merge_multiple :: "pyval list \<Rightarrow> pyval" where
  "merge_multiple configs =
     fold (\<lambda>c r. if is_dict c then deep_merge r c else r) configs (PDict [])"

text \<open>The loops of \<open>safe_get\<close> and \<open>safe_set\<close> over the parts of the path.\<close>

fun get_path :: "pyval \<Rightarrow> string list \<Rightarrow> pyval option" where
  "get_path v [] = Some v"
| "get_path v (k # ks) =
     (case v of
        PDict d \<Rightarrow> (case od_get d k of Some w \<Rightarrow> get_path w ks | None \<Rightarrow> None)
      | _ \<Rightarrow> None)"

definition safe_get :: "pyval \<Rightarrow> string \<Rightarrow> pyval \<Rightarrow> pyval" where
  "safe_get data key_path dflt =
     (if \<not> is_dict data then dflt
      else if key_path = [] then dflt
      else case get_path data (split_on CHR ''.'' key_path) of Some v \<Rightarrow> v | None \<Rightarrow> dflt)"

fun set_path :: "pydict \<Rightarrow> string list \<Rightarrow> pyval \<Rightarrow> pydict" where
  "set_path d [] v = d"
| "set_path d [k] v = od_put k v d"
| "set_path d (k # k' # ks) v =
     (let sub = (case od_get d k of Some (PDict e) \<Rightarrow> e | _ \<Rightarrow> [])
      in od_put k (PDict (set_path sub (k' # ks) v)) d)"

definition safe_set :: "pyval \<Rightarrow> string \<Rightarrow> pyval \<Rightarrow> bool \<times> pyval" where
  "safe_set data key_path v =
     (case data of
        PDict d \<Rightarrow> (if key_path = [] then (False, data)
                    else (True, PDict (set_path d (split_on CHR ''.'' key_path) v)))
      | _ \<Rightarrow> (False, data))"

text \<open>The loop of \<open>flatten_dict\<close> over the entries, with the result so far.\<close>

function flatten_into :: "pydict \<Rightarrow> pydict \<Rightarrow> string \<Rightarrow> string \<Rightarrow> pydict" where
  "flatten_into res [] pre sep = res"
| "flatten_into res ((k, v) # rest) pre sep =
     (let new_key = (if pre = [] then k else pre @ sep @ k)
      in flatten_into
           (case v of
              PDict e \<Rightarrow> od_update res (flatten_into [] e new_key sep)
            | _ \<Rightarrow> od_put new_key v res) rest pre sep)"
  by pat_completeness auto
termination
  by (relation "measure (\<lambda>(res, d, pre, sep). size (PDict d))") auto

definition flatten_dict :: "pydict \<Rightarrow> string \<Rightarrow> string \<Rightarrow> pydict" where
  "flatten_dict d pre sep = flatten_into [] d pre sep"

definition unflatten_dict :: "pydict \<Rightarrow> string \<Rightarrow> pyval" where
  "unflatten_dict data sep =
     fold (\<lambda>(k, v) r. snd (safe_set r (str_replace sep ''.'' k) v)) data (PDict [])"

section \<open>Lookup after a merge\<close>

text \<open>Real dictionaries have each key once, at every level.\<close>

fun wf_val :: "pyval \<Rightarrow> bool" where
  "wf_val (PDict d) = (od_wf d \<and> (\<forall>kv \<in> set d. wf_val (snd kv)))"
| "wf_val _ = True"

definition merge_value :: "pyval option \<Rightarrow> pyval \<Rightarrow> pyval" where
  "merge_value old v =
     (case old of Some w \<Rightarrow> if is_dict w \<and> is_dict v then deep_merge w v else v | None \<Rightarrow> v)"

lemma merge_entries_Cons:
  "merge_entries r ((k, v) # s) = merge_entries (od_put k (merge_value (od_get r k) v) r) s"
  by (simp add: merge_value_def)

lemma deep_merge_dict [simp]: "deep_merge (PDict t) (PDict s) = PDict (merge_entries t s)"
  by (simp add: deep_merge.simps)

lemma deep_merge_is_dict: "is_dict (deep_merge t s)"
  by (cases t; cases s) (simp_all add: deep_merge.simps)

lemma get_merge_entries:
  assumes "od_wf s"
  shows "od_get (merge_entries r s) k =
    (case od_get s k of None \<Rightarrow> od_get r k | Some v \<Rightarrow> Some (merge_value (od_get r k) v))"
  using assms
proof (induction s arbitrary: r)
  case (Cons kv s)
  obtain k' v where kv: "kv = (k', v)" by (cases kv)
  from Cons.prems kv have wf: "od_wf s" and new: "od_get s k' = None"
    by (auto simp: od_wf_def map_of_eq_None_iff)
  show ?case
    using Cons.IH [OF wf, of "od_put k' (merge_value (od_get r k') v) r"] new
    unfolding kv merge_entries_Cons by (auto split: option.splits)
qed simp

lemma wf_val_get: "wf_val (PDict d) \<Longrightarrow> od_get d k = Some v \<Longrightarrow> wf_val v"
  by (auto dest!: map_of_SomeD)

text \<open>A value that is not a dictionary in the source wins, wherever it is.\<close>

lemma deep_merge_source_leaf:
  assumes "wf_val (PDict s)" and "get_path (PDict s) p = Some v" and "\<not> is_dict v"
  shows "get_path (deep_merge (PDict t) (PDict s)) p = Some v"
  using assms
proof (induction p arbitrary: t s)
  case Nil
  then show ?case by auto
next
  case (Cons k ks)
  from Cons.prems(2) obtain w where w: "od_get s k = Some w" "get_path w ks = Some v"
    by (auto split: option.splits)
  from Cons.prems(1) have wf: "od_wf s" by simp
  show ?case
  proof (cases "is_dict w \<and> (\<exists>old. od_get t k = Some old \<and> is_dict old)")
    case True
    then obtain d e where de: "w = PDict d" "od_get t k = Some (PDict e)"
      by (metis is_dict.elims(2))
    with Cons.IH [of d e] Cons.prems w wf_val_get [OF Cons.prems(1) w(1)] show ?thesis
      by (simp add: get_merge_entries [OF wf] merge_value_def)
  next
    case False
    with w show ?thesis
      by (auto simp: get_merge_entries [OF wf] merge_value_def split: option.splits)
  qed
qed

text \<open>What the source says nothing about is kept: its path leaves the source's dictionaries.\<close>

fun untouched :: "pyval \<Rightarrow> string list \<Rightarrow> bool" where
  "untouched s [] = False"
| "untouched s (k # ks) =
     (case s of
        PDict d \<Rightarrow> (case od_get d k of None \<Rightarrow> True | Some w \<Rightarrow> untouched w ks)
      | _ \<Rightarrow> False)"

lemma deep_merge_untouched:
  assumes "wf_val (PDict s)" and "untouched (PDict s) p" and "get_path (PDict t) p = Some v"
  shows "get_path (deep_merge (PDict t) (PDict s)) p = Some v"
  using assms
proof (induction p arbitrary: t s)
  case (Cons k ks)
  from Cons.prems(1) have wf: "od_wf s" by simp
  from Cons.prems(3) obtain old where old: "od_get t k = Some old" "get_path old ks = Some v"
    by (auto split: option.splits)
  show ?case
  proof (cases "od_get s k")
    case None
    with old show ?thesis by (simp add: get_merge_entries [OF wf])
  next
    case (Some w)
    with Cons.prems(2) have u: "untouched w ks" by simp
    then obtain d where d: "w = PDict d" by (cases ks; cases w) auto
    from u old(2) obtain e where e: "old = PDict e" by (cases ks; cases old) auto
    from Cons.IH [of d e] Some u old d e wf_val_get [OF Cons.prems(1) Some] show ?thesis
      by (simp add: get_merge_entries [OF wf] merge_value_def)
  qed
qed simp

section \<open>Reading what was set\<close>

lemma get_set_path:
  "ks \<noteq> [] \<Longrightarrow> get_path (PDict (set_path d ks v)) ks = Some v"
  by (induction d ks v rule: set_path.induct) (simp_all add: Let_def)

lemma set_path_Cons:
  "ks \<noteq> [] \<Longrightarrow> set_path d (k # ks) v =
     od_put k (PDict (set_path (case od_get d k of Some (PDict e) \<Rightarrow> e | _ \<Rightarrow> []) ks v)) d"
  by (cases ks) (simp_all add: Let_def)

lemma get_path_not_dict: "\<not> is_dict w \<Longrightarrow> ks \<noteq> [] \<Longrightarrow> get_path w ks = None"
  by (cases ks; cases w) auto

lemma get_set_path_other:
  assumes "\<not> prefix ks ps" and "\<not> prefix ps ks" and "ks \<noteq> []"
    and "get_path (PDict d) ps = Some w"
  shows "get_path (PDict (set_path d ks v)) ps = Some w"
  using assms
proof (induction ks arbitrary: d ps)
  case (Cons k ks)
  from Cons.prems(2) obtain q qs where ps: "ps = q # qs" by (cases ps) auto
  show ?case
  proof (cases "q = k \<and> ks \<noteq> []")
    case False
    then have "q \<noteq> k \<or> ks = []" by blast
    with Cons.prems ps show ?thesis
      by (cases "ks = []") (auto simp: set_path_Cons)
  next
    case True
    with Cons.prems ps have np: "\<not> prefix ks qs" "\<not> prefix qs ks" by auto
    then have "qs \<noteq> []" by auto
    from Cons.prems(4) ps True obtain x where x: "od_get d k = Some x" "get_path x qs = Some w"
      by (auto split: option.splits)
    with \<open>qs \<noteq> []\<close> obtain e where e: "x = PDict e"
      by (metis get_path_not_dict is_dict.elims(2) option.distinct(1))
    from Cons.IH [OF np, of e] True x e ps show ?thesis
      by (auto simp: set_path_Cons)
  qed
qed simp

section \<open>Flattening and unflattening\<close>

text \<open>The leaves of a dictionary with the list of keys that leads to each.\<close>

function flat_paths :: "pydict \<Rightarrow> (string list \<times> pyval) list" where
  "flat_paths [] = []"
| "flat_paths ((k, v) # rest) =
     (case v of PDict e \<Rightarrow> map (\<lambda>(p, w). (k # p, w)) (flat_paths e) | _ \<Rightarrow> [([k], v)]) @
     flat_paths rest"
  by pat_completeness auto
termination
  by (relation "measure (\<lambda>d. size (PDict d))") auto

text \<open>Keys are not empty and have no dot, and a nested dictionary is not empty.\<close>

definition flat_key :: "string \<Rightarrow> bool" where
  "flat_key k \<longleftrightarrow> k \<noteq> [] \<and> CHR ''.'' \<notin> set k"

function flat_ok :: "pydict \<Rightarrow> bool" where
  "flat_ok [] = True"
| "flat_ok ((k, v) # rest) =
     (flat_key k \<and> k \<notin> od_keys rest \<and> (case v of PDict e \<Rightarrow> e \<noteq> [] \<and> flat_ok e | _ \<Rightarrow> True) \<and>
      flat_ok rest)"
  by pat_completeness auto
termination
  by (relation "measure (\<lambda>d. size (PDict d))") auto

lemma flat_paths_keys:
  assumes "flat_ok d" and "(p, x) \<in> set (flat_paths d)"
  shows "p \<noteq> [] \<and> list_all flat_key p \<and> hd p \<in> od_keys d"
  using assms
proof (induction d arbitrary: p x rule: flat_paths.induct)
  case (2 k v rest)
  show ?case
  proof (cases "(p, x) \<in> set (flat_paths rest)")
    case True
    with "2.IH"(2) "2.prems" show ?thesis by auto
  next
    case False
    show ?thesis
    proof (cases v)
      case (PDict e)
      with False "2.prems" obtain q where "p = k # q" "(q, x) \<in> set (flat_paths e)" by auto
      with "2.IH"(1) [OF PDict, of q x] "2.prems" PDict show ?thesis by auto
    qed (use False "2.prems" in auto)
  qed
qed simp

lemma flat_paths_nonempty: "flat_ok d \<Longrightarrow> d \<noteq> [] \<Longrightarrow> flat_paths d \<noteq> []"
proof (induction d rule: flat_ok.induct)
  case (2 k v rest)
  then show ?case by (cases v) auto
qed simp

lemma distinct_flat_paths: "flat_ok d \<Longrightarrow> distinct (map fst (flat_paths d))"
proof (induction d rule: flat_paths.induct)
  case (2 k v rest)
  have hd: "hd p \<noteq> k" if "(p, x) \<in> set (flat_paths rest)" for p x
    using flat_paths_keys [OF _ that] "2.prems" by auto
  have rest: "distinct (map fst (flat_paths rest))" using "2.IH"(2) "2.prems" by simp
  show ?case
  proof (cases v)
    case (PDict e)
    with "2.IH"(1) "2.prems" have "distinct (map fst (flat_paths e))" by simp
    then have "distinct (map ((#) k) (map fst (flat_paths e)))"
      by (simp add: distinct_map inj_on_def)
    moreover have "map fst (map (\<lambda>(p, w). (k # p, w)) (flat_paths e)) =
        map ((#) k) (map fst (flat_paths e))"
      by (simp add: case_prod_beta comp_def)
    ultimately have "distinct (map fst (map (\<lambda>(p, w). (k # p, w)) (flat_paths e)))" by (simp only:)
    moreover have "set (map fst (map (\<lambda>(p, w). (k # p, w)) (flat_paths e))) \<inter>
        set (map fst (flat_paths rest)) = {}"
      using hd by fastforce
    ultimately show ?thesis using PDict rest by (simp add: distinct_append)
  qed (use rest hd in fastforce)+
qed simp

lemma set_path_under:
  assumes "k \<notin> od_keys d" and "list_all (\<lambda>pv. fst pv \<noteq> []) ps"
  shows "fold (\<lambda>(p, v) r. set_path r (k # p) v) ps (d @ [(k, PDict e)]) =
    d @ [(k, PDict (fold (\<lambda>(p, v) r. set_path r p v) ps e))]"
  using assms(2)
proof (induction ps arbitrary: e)
  case (Cons pv ps)
  obtain p v where pv: "pv = (p, v)" by (cases pv)
  have put: "od_put k w (d @ [(k, u)]) = d @ [(k, w)]" for u w
    using assms(1) by (induction d) auto
  have "od_get (d @ [(k, PDict e)]) k = Some (PDict e)"
    using assms(1) by (simp add: map_add_def od_get_None_iff [THEN iffD2])
  with Cons.prems pv have "set_path (d @ [(k, PDict e)]) (k # p) v = d @ [(k, PDict (set_path e p v))]"
    by (simp add: set_path_Cons put)
  with Cons pv show ?case by simp
qed simp

lemma set_path_first:
  "k \<notin> od_keys d \<Longrightarrow> p \<noteq> [] \<Longrightarrow> set_path d (k # p) v = d @ [(k, PDict (set_path [] p v))]"
  by (simp add: set_path_Cons od_put_new map_of_eq_None_iff [THEN iffD2])

lemma rebuild_under:
  assumes "k \<notin> od_keys d" and "list_all (\<lambda>pv. fst pv \<noteq> []) ps" and "ps \<noteq> []"
  shows "fold (\<lambda>(p, v) r. set_path r p v) (map (\<lambda>(p, v). (k # p, v)) ps) d =
    d @ [(k, PDict (fold (\<lambda>(p, v) r. set_path r p v) ps []))]"
proof -
  obtain p v qs where ps: "ps = (p, v) # qs" using assms(3) by (cases ps) auto
  have comp: "fold (\<lambda>(p, v) r. set_path r p v) (map (\<lambda>(p, v). (k # p, v)) xs) r =
      fold (\<lambda>(p, v) r. set_path r (k # p) v) xs r" for xs r
    by (induction xs arbitrary: r) auto
  from assms(2) ps show ?thesis
    by (simp add: comp set_path_first [OF assms(1)] set_path_under [OF assms(1)])
qed

lemma rebuild_from_paths:
  assumes "flat_ok d" and "od_keys acc \<inter> od_keys d = {}"
  shows "fold (\<lambda>(p, v) r. set_path r p v) (flat_paths d) acc = acc @ d"
  using assms
proof (induction d arbitrary: acc rule: flat_paths.induct)
  case (2 k v rest)
  have k: "k \<notin> od_keys acc" using "2.prems" by auto
  have rest: "fold (\<lambda>(p, v) r. set_path r p v) (flat_paths rest) (acc @ [(k, v)]) = (acc @ [(k, v)]) @ rest"
    using "2.prems" by (intro "2.IH"(2)) auto
  show ?case
  proof (cases v)
    case (PDict e)
    with "2.prems" have e: "flat_ok e" "e \<noteq> []" by auto
    have ne: "list_all (\<lambda>pv. fst pv \<noteq> []) (flat_paths e)"
      using flat_paths_keys [OF e(1)] by (auto simp: list_all_iff)
    from "2.IH"(1) [OF PDict e(1), of "[]"]
    have "fold (\<lambda>(p, v) r. set_path r p v) (flat_paths e) [] = e" by simp
    with rebuild_under [OF k ne flat_paths_nonempty [OF e]] rest PDict show ?thesis by simp
  qed (use rest k in \<open>simp_all add: od_put_new\<close>)
qed simp

lemma join_nonempty: "ps \<noteq> [] \<Longrightarrow> list_all flat_key ps \<Longrightarrow> join_on ''.'' ps \<noteq> []"
  by (cases ps; cases "tl ps") (auto simp: flat_key_def)

lemma split_join_keys: "ps \<noteq> [] \<Longrightarrow> list_all flat_key ps \<Longrightarrow> split_on CHR ''.'' (join_on ''.'' ps) = ps"
  by (rule split_join) (auto simp: list_all_iff flat_key_def)

lemma join_snoc: "ps \<noteq> [] \<Longrightarrow> join_on s (ps @ [k]) = join_on s ps @ s @ k"
  by (induction ps rule: list_nonempty_induct) (simp_all add: join_Cons_nonempty)

definition joined :: "string list \<Rightarrow> (string list \<times> pyval) list \<Rightarrow> pydict" where
  "joined ps = map (\<lambda>(p, v). (join_on ''.'' (ps @ p), v))"

lemma od_wf_joined:
  assumes "flat_ok d" and "list_all flat_key ps"
  shows "od_wf (joined ps (flat_paths d))"
proof -
  have "inj_on (\<lambda>p. join_on ''.'' (ps @ p)) (set (map fst (flat_paths d)))"
  proof (rule inj_onI)
    fix p q
    assume "p \<in> set (map fst (flat_paths d))" and "q \<in> set (map fst (flat_paths d))"
      and eq: "join_on ''.'' (ps @ p) = join_on ''.'' (ps @ q)"
    then have "ps @ p \<noteq> []" "list_all flat_key (ps @ p)" "ps @ q \<noteq> []" "list_all flat_key (ps @ q)"
      using flat_paths_keys [OF assms(1)] assms(2) by fastforce+
    with eq have "ps @ p = ps @ q" by (metis split_join_keys)
    then show "p = q" by simp
  qed
  with distinct_flat_paths [OF assms(1)]
  have "distinct (map (\<lambda>p. join_on ''.'' (ps @ p)) (map fst (flat_paths d)))"
    by (simp only: distinct_map)
  then show ?thesis by (simp add: od_wf_def joined_def case_prod_beta comp_def)
qed

lemma flatten_into_joined:
  assumes "flat_ok d" and "list_all flat_key ps"
  shows "flatten_into res d (join_on ''.'' ps) ''.'' = od_update res (joined ps (flat_paths d))"
  using assms
proof (induction d arbitrary: res ps rule: flat_paths.induct)
  case (2 k v rest)
  have key: "(if join_on ''.'' ps = [] then k else join_on ''.'' ps @ ''.'' @ k) = join_on ''.'' (ps @ [k])"
    using join_nonempty [OF _ "2.prems"(2)] by (cases "ps = []") (auto simp: join_snoc)
  have rest: "flatten_into r rest (join_on ''.'' ps) ''.'' = od_update r (joined ps (flat_paths rest))" for r
    using "2.prems" by (intro "2.IH"(2)) auto
  show ?case
  proof (cases v)
    case (PDict e)
    with "2.prems" have e: "flat_ok e" "list_all flat_key (ps @ [k])" by auto
    have "od_update [] (joined (ps @ [k]) (flat_paths e)) = joined (ps @ [k]) (flat_paths e)"
      using od_update_new [OF od_wf_joined [OF e], of "[]"] by simp
    moreover have "joined ps (map (\<lambda>(p, w). (k # p, w)) (flat_paths e) @ qs) =
        joined (ps @ [k]) (flat_paths e) @ joined ps qs" for qs
      by (simp add: joined_def case_prod_beta)
    ultimately show ?thesis
      using "2.IH"(1) [OF PDict e, of "[]"] rest PDict
      by (simp add: key Let_def od_update_append)
  qed (use rest in \<open>simp_all add: key Let_def joined_def\<close>)
qed (simp add: joined_def)

lemma unflatten_joined:
  assumes "\<forall>(p, v) \<in> set ps. p \<noteq> [] \<and> list_all flat_key p"
  shows "fold (\<lambda>(k, v) r. snd (safe_set r (str_replace ''.'' ''.'' k) v)) (joined [] ps) (PDict r) =
    PDict (fold (\<lambda>(p, v) r. set_path r p v) ps r)"
  using assms
proof (induction ps arbitrary: r)
  case (Cons pv ps)
  then show ?case
    by (cases pv) (simp add: joined_def str_replace_char safe_set_def split_join_keys join_nonempty)
qed (simp add: joined_def)

section \<open>Properties\<close>

text \<open>merging configurations. A value of the source that is not a dictionary is what the
  merged configuration holds at that path, and a value of the target that the source says nothing
  about is kept.\<close>

theorem deep_merge_precedence:
  assumes "wf_val (PDict s)"
  shows "(get_path (PDict s) p = Some v \<and> \<not> is_dict v \<longrightarrow>
      get_path (deep_merge (PDict t) (PDict s)) p = Some v) \<and>
    (untouched (PDict s) p \<and> get_path (PDict t) p = Some w \<longrightarrow>
      get_path (deep_merge (PDict t) (PDict s)) p = Some w)"
  using deep_merge_source_leaf [OF assms] deep_merge_untouched [OF assms] by blast

theorem deep_merge_precedence_witness:
  "get_path (deep_merge (PDict [(''a'', PDict [(''b'', PInt 1), (''c'', PInt 2)])])
      (PDict [(''a'', PDict [(''b'', PInt 10)])])) [''a'', ''b''] = Some (PInt 10) \<and>
   get_path (deep_merge (PDict [(''a'', PDict [(''b'', PInt 1), (''c'', PInt 2)])])
      (PDict [(''a'', PDict [(''b'', PInt 10)])])) [''a'', ''c''] = Some (PInt 2)"
  using deep_merge_precedence [of "[(''a'', PDict [(''b'', PInt 10)])]" "[''a'', ''b'']" "PInt 10"
      "[(''a'', PDict [(''b'', PInt 1), (''c'', PInt 2)])]" "PInt 0"]
    deep_merge_precedence [of "[(''a'', PDict [(''b'', PInt 10)])]" "[''a'', ''c'']" "PInt 0"
      "[(''a'', PDict [(''b'', PInt 1), (''c'', PInt 2)])]" "PInt 2"]
  by (simp add: od_wf_def)

text \<open>\<open>safe_get\<close> reads what \<open>safe_set\<close> stored, and a value at a path that is
  neither a prefix nor an extension of the path set is kept.\<close>

theorem safe_set_get:
  assumes "key_path \<noteq> []" and "safe_set (PDict d) key_path v = (ok, r)"
  shows "ok \<and> safe_get r key_path dflt = v \<and>
    (\<forall>ps w. \<not> prefix (split_on CHR ''.'' key_path) ps \<and> \<not> prefix ps (split_on CHR ''.'' key_path) \<and>
       get_path (PDict d) ps = Some w \<longrightarrow> get_path r ps = Some w)"
  using assms get_set_path get_set_path_other [of "split_on CHR ''.'' key_path" _ d _ v]
  by (auto simp: safe_set_def safe_get_def)

theorem safe_set_get_witness:
  "safe_get (snd (safe_set (PDict []) ''a.b'' (PInt 3))) ''a.b'' PNone = PInt 3"
  using safe_set_get [of "''a.b''" "[]" "PInt 3" "fst (safe_set (PDict []) ''a.b'' (PInt 3))"
      "snd (safe_set (PDict []) ''a.b'' (PInt 3))" PNone] by simp

text \<open>unflattening the flattened form of a dictionary gives the dictionary back, entry order
  included, when its keys are not empty and have no dot and no nested dictionary is empty.\<close>

theorem unflatten_flatten:
  assumes "flat_ok d"
  shows "unflatten_dict (flatten_dict d [] ''.'') ''.'' = PDict d"
proof -
  from flatten_into_joined [OF assms, of "[]" "[]"]
  have "flatten_dict d [] ''.'' = joined [] (flat_paths d)"
    using od_update_new [OF od_wf_joined [OF assms, of "[]"], of "[]"]
    by (simp add: flatten_dict_def)
  moreover have "\<forall>(p, v) \<in> set (flat_paths d). p \<noteq> [] \<and> list_all flat_key p"
    using flat_paths_keys [OF assms] by auto
  ultimately show ?thesis
    using unflatten_joined [of "flat_paths d" "[]"] rebuild_from_paths [OF assms, of "[]"]
    by (simp add: unflatten_dict_def)
qed

theorem unflatten_flatten_witness:
  "unflatten_dict (flatten_dict [(''a'', PDict [(''b'', PInt 1)]), (''d'', PInt 3)] [] ''.'') ''.'' =
     PDict [(''a'', PDict [(''b'', PInt 1)]), (''d'', PInt 3)]"
  by (rule unflatten_flatten) (simp add: flat_key_def)

end
