(* ===== verification/Command_Parser.thy ===== *)
theory Command_Parser
  imports Dict_Utils
begin

text \<open>
  The slash command line (\<open>kollabor/commands/parser.py\<close>, class \<open>SlashCommandParser\<close>): recognising a
  command, splitting it into words with the rules of the shell, reading the \<open>--key value\<close>
  parameters and validating the result.

  \<open>shlex.split\<close> of the standard library is modelled as the state machine it is (POSIX mode, words
  separated by blanks, no comments). An unclosed quote or a trailing backslash raises \<open>ValueError\<close>,
  and the command is then split at white space. The time stamp of a command is left out: nothing
  reads it. The log lines are left out.
\<close>

section \<open>Words of a shell line\<close>

datatype lex_state = Between | InWord | InSingle | InDouble | EscapedInWord | EscapedInDouble

definition single_quote :: char where "single_quote = CHR 0x27"
definition double_quote :: char where "double_quote = CHR 0x22"
definition backslash :: char where "backslash = CHR 0x5C"

definition is_blank :: "char \<Rightarrow> bool" where
  "is_blank c \<longleftrightarrow> (of_char c :: nat) \<in> {32, 9, 13, 10}"

fun shlex :: "lex_state \<Rightarrow> string \<Rightarrow> string \<Rightarrow> string list py_result" where
  "shlex Between tok [] = Inr []"
| "shlex Between tok (c # cs) =
     (if is_blank c then shlex Between [] cs
      else if c = backslash then shlex EscapedInWord [] cs
      else if c = single_quote then shlex InSingle [] cs
      else if c = double_quote then shlex InDouble [] cs
      else shlex InWord [c] cs)"
| "shlex InWord tok [] = Inr [tok]"
| "shlex InWord tok (c # cs) =
     (if is_blank c then py_bind (shlex Between [] cs) (\<lambda>ws. Inr (tok # ws))
      else if c = single_quote then shlex InSingle tok cs
      else if c = double_quote then shlex InDouble tok cs
      else if c = backslash then shlex EscapedInWord tok cs
      else shlex InWord (tok @ [c]) cs)"
| "shlex InSingle tok [] = Inl (ValueError ''No closing quotation'')"
| "shlex InSingle tok (c # cs) = (if c = single_quote then shlex InWord tok cs else shlex InSingle (tok @ [c]) cs)"
| "shlex InDouble tok [] = Inl (ValueError ''No closing quotation'')"
| "shlex InDouble tok (c # cs) =
     (if c = double_quote then shlex InWord tok cs
      else if c = backslash then shlex EscapedInDouble tok cs
      else shlex InDouble (tok @ [c]) cs)"
| "shlex EscapedInWord tok [] = Inl (ValueError ''No escaped character'')"
| "shlex EscapedInWord tok (c # cs) = shlex InWord (tok @ [c]) cs"
| "shlex EscapedInDouble tok [] = Inl (ValueError ''No escaped character'')"
| "shlex EscapedInDouble tok (c # cs) =
     shlex InDouble (tok @ (if c = backslash \<or> c = double_quote then [c] else [backslash, c])) cs"

definition shlex_split :: "string \<Rightarrow> string list py_result" where
  "shlex_split s = shlex Between [] s"

section \<open>Commands\<close>

record slash_command =
  cmd_name :: string
  cmd_args :: "string list"
  raw_input :: string
  cmd_parameters :: pydict

definition is_slash_command :: "string \<Rightarrow> bool" where
  "is_slash_command s =
     (if s = [] then False else let t = str_strip s in prefix ''/'' t \<and> length t > 1)"

text \<open>\<open>s.split("=", 1)\<close> when the character occurs.\<close>

definition split_once :: "char \<Rightarrow> string \<Rightarrow> string \<times> string" where
  "split_once c s = (takeWhile (\<lambda>x. x \<noteq> c) s, tl (dropWhile (\<lambda>x. x \<noteq> c) s))"

text \<open>The loop of \<open>_extract_parameters\<close>: the next argument may be consumed as a value.\<close>

fun extract_loop :: "string list \<Rightarrow> pydict \<Rightarrow> pydict" where
  "extract_loop [] ps = ps"
| "extract_loop (a # rest) ps =
     (if CHR ''='' \<in> set a \<and> prefix ''--'' a
      then (case split_once CHR ''='' (drop 2 a) of (k, v) \<Rightarrow> extract_loop rest (od_put k (PStr v) ps))
      else case rest of
             v # rest' \<Rightarrow>
               (if prefix ''--'' a then extract_loop rest' (od_put (drop 2 a) (PStr v) ps)
                else if prefix ''-'' a \<and> length a = 2 then extract_loop rest' (od_put (drop 1 a) (PStr v) ps)
                else extract_loop rest ps)
           | [] \<Rightarrow>
               (if prefix ''--'' a then od_put (drop 2 a) (PBool True) ps
                else if prefix ''-'' a \<and> length a = 2 then od_put (drop 1 a) (PBool True) ps
                else ps))"

definition extract_parameters :: "string list \<Rightarrow> pydict" where
  "extract_parameters as = extract_loop as []"

definition parse_command :: "string \<Rightarrow> slash_command option" where
  "parse_command s =
     (if \<not> is_slash_command s then None
      else let text = tl (str_strip s)
           in if text = [] then None
              else let parts = (case shlex_split text of Inr ws \<Rightarrow> ws | Inl _ \<Rightarrow> str_split text)
                   in case parts of
                        [] \<Rightarrow> None
                      | p # as \<Rightarrow> Some \<lparr>cmd_name = str_lower p, cmd_args = as, raw_input = s,
                                        cmd_parameters = extract_parameters as\<rparr>)"

definition is_alnum :: "string \<Rightarrow> bool" where
  "is_alnum s \<longleftrightarrow> s \<noteq> [] \<and> (\<forall>c \<in> set s. is_word c \<and> c \<noteq> CHR ''_'')"

definition has_control_chars :: "string \<Rightarrow> bool" where
  "has_control_chars a \<longleftrightarrow> list_ex (\<lambda>c. c \<noteq> CHR 0x09 \<and> (of_char c :: nat) < 32) a"

definition validate_command :: "slash_command \<Rightarrow> string list" where
  "validate_command c =
     (if cmd_name c = [] then [''Command name cannot be empty'']
      else if \<not> is_alnum (cmd_name c) \<and> CHR ''-'' \<notin> set (cmd_name c) \<and> CHR ''_'' \<notin> set (cmd_name c)
      then [''Invalid command name: '' @ cmd_name c] else []) @
     (if str_strip (raw_input c) = [] then [''Raw input cannot be empty''] else []) @
     concat (map (\<lambda>(i, a). if has_control_chars a
                           then [''Argument '' @ show_nat (i + 1) @ '' contains invalid control characters''] else [])
       (zip [0..<length (cmd_args c)] (cmd_args c)))"

section \<open>Words\<close>

text \<open>A character that means itself in a word.\<close>

definition plain_char :: "char \<Rightarrow> bool" where
  "plain_char c \<longleftrightarrow> \<not> is_blank c \<and> c \<noteq> single_quote \<and> c \<noteq> double_quote \<and> c \<noteq> backslash"

definition quoted :: "string \<Rightarrow> string" where
  "quoted s = single_quote # s @ [single_quote]"

lemma blank_facts [simp]:
  "is_blank (CHR '' '')" "\<not> is_blank single_quote" "\<not> is_blank double_quote" "\<not> is_blank backslash"
  "single_quote \<noteq> backslash" "single_quote \<noteq> double_quote" "double_quote \<noteq> backslash"
  by (simp_all add: is_blank_def single_quote_def double_quote_def backslash_def)

lemma shlex_plain:
  "\<forall>c \<in> set w. plain_char c \<Longrightarrow> shlex InWord tok (w @ rest) = shlex InWord (tok @ w) rest"
  by (induction w arbitrary: tok) (auto simp: plain_char_def)

lemma shlex_single:
  "single_quote \<notin> set w \<Longrightarrow> shlex InSingle tok (w @ single_quote # rest) = shlex InWord (tok @ w) rest"
  by (induction w arbitrary: tok) auto

text \<open>A line of words, each written plainly or in single quotes.\<close>

fun well_written :: "(bool \<times> string) \<Rightarrow> bool" where
  "well_written (q, w) = (if q then single_quote \<notin> set w else w \<noteq> [] \<and> (\<forall>c \<in> set w. plain_char c))"

fun written :: "(bool \<times> string) \<Rightarrow> string" where
  "written (q, w) = (if q then quoted w else w)"

lemma shlex_written:
  assumes "well_written qw"
  shows "shlex Between tok (written qw @ rest) = shlex InWord (snd qw) rest"
proof (cases qw)
  case (Pair q w)
  show ?thesis
  proof (cases q)
    case True
    with assms Pair shlex_single [of w "[]" rest] show ?thesis by (simp add: quoted_def)
  next
    case False
    with assms Pair obtain c cs where w: "w = c # cs" "plain_char c" "\<forall>c \<in> set cs. plain_char c"
      by (cases w) auto
    then show ?thesis using False Pair shlex_plain [of cs "[c]" rest] by (simp add: plain_char_def)
  qed
qed

lemma shlex_line:
  "\<forall>qw \<in> set qws. well_written qw \<Longrightarrow> shlex Between tok (join_on '' '' (map written qws)) = Inr (map snd qws)"
proof (induction qws arbitrary: tok)
  case (Cons qw qws)
  show ?case
  proof (cases qws)
    case Nil
    then show ?thesis using Cons.prems shlex_written [of qw tok "[]"] by simp
  next
    case (Cons qw' qws')
    then have "shlex Between [] (join_on '' '' (map written qws)) = Inr (map snd qws)"
      using Cons.IH Cons.prems by simp
    then show ?thesis
      using Cons Cons.prems shlex_written [of qw tok "'' '' @ join_on '' '' (map written qws)"]
      by (simp add: join_Cons_nonempty)
  qed
qed simp

section \<open>Properties\<close>

lemma shlex_empty: "shlex st tok s = Inr [] \<Longrightarrow> st = Between \<and> (\<forall>c \<in> set s. is_blank c)"
proof (induction s arbitrary: st tok)
  case Nil
  then show ?case by (cases st) simp_all
next
  case (Cons c s)
  from Cons.prems show ?case by (cases st) (auto simp: py_bind_Inr split: if_splits dest!: Cons.IH)
qed

lemma blank_is_space: "is_blank c \<Longrightarrow> is_space c"
  by (auto simp: is_blank_def is_space_def)

lemma last_strip: "str_strip s \<noteq> [] \<Longrightarrow> \<not> is_space (last (str_strip s))"
  unfolding str_strip_def by (metis hd_dropWhile last_rev rev_is_Nil_conv)

lemma strip_same: "s \<noteq> [] \<Longrightarrow> \<not> is_space (hd s) \<Longrightarrow> \<not> is_space (last s) \<Longrightarrow> str_strip s = s"
proof -
  assume s: "s \<noteq> []" "\<not> is_space (hd s)" "\<not> is_space (last s)"
  then have "dropWhile is_space s = s" by (simp add: dropWhile_eq_self_iff)
  moreover have "dropWhile is_space (rev s) = rev s" using s by (simp add: dropWhile_eq_self_iff hd_rev)
  ultimately show ?thesis by (simp add: str_strip_def)
qed

lemma command_has_word:
  assumes "is_slash_command s"
  shows "\<exists>p as. (case shlex_split (tl (str_strip s)) of Inr ws \<Rightarrow> ws | Inl _ \<Rightarrow> str_split (tl (str_strip s))) = p # as \<and>
    tl (str_strip s) \<noteq> []"
proof -
  let ?t = "tl (str_strip s)"
  have "length (str_strip s) > 1" using assms by (auto simp: is_slash_command_def Let_def split: if_splits)
  then have t: "?t \<noteq> []" "last ?t = last (str_strip s)" "str_strip s \<noteq> []"
    by (cases "str_strip s"; simp)+
  then have ns: "\<not> is_space (last ?t)" using last_strip by simp
  then have "\<not> (\<forall>c \<in> set ?t. is_blank c)" using t blank_is_space last_in_set by blast
  then have "shlex_split ?t \<noteq> Inr []" using shlex_empty unfolding shlex_split_def by blast
  moreover have "str_split ?t \<noteq> []" using ns t by (metis last_in_set str_split_empty_iff)
  ultimately have "(case shlex_split ?t of Inr ws \<Rightarrow> ws | Inl _ \<Rightarrow> str_split ?t) \<noteq> []" by (auto split: sum.splits)
  then show ?thesis using t by (metis neq_Nil_conv)
qed

text \<open>Parsing never fails on a slash command: a result is returned exactly for the inputs that,
  without surrounding white space, start with a slash and go on. Malformed quotes do not matter.
  The result keeps the input as it was typed, and its check never complains about it.\<close>

theorem every_slash_command_parses:
  "(parse_command s \<noteq> None \<longleftrightarrow> is_slash_command s) \<and>
   (\<forall>c. parse_command s = Some c \<longrightarrow> raw_input c = s \<and> cmd_parameters c = extract_parameters (cmd_args c) \<and>
      ''Raw input cannot be empty'' \<notin> set (take 1 (validate_command c)))"
proof -
  have "parse_command s \<noteq> None \<longleftrightarrow> is_slash_command s"
  proof (cases "is_slash_command s")
    case True
    with command_has_word [OF this] show ?thesis by (auto simp: parse_command_def Let_def)
  qed (simp add: parse_command_def)
  moreover have "''Raw input cannot be empty'' \<notin> set (take 1 (validate_command c))"
    if "parse_command s = Some c" for c
  proof -
    have "is_slash_command s" "raw_input c = s"
      using that by (auto simp: parse_command_def Let_def split: if_splits list.splits)
    then have "str_strip (raw_input c) \<noteq> []" by (auto simp: is_slash_command_def Let_def split: if_splits)
    moreover have "''Argument '' @ w \<noteq> ''Raw input cannot be empty''" for w by simp
    ultimately show ?thesis
      by (auto simp: validate_command_def dest!: in_set_takeD split: if_splits)
  qed
  moreover have "raw_input c = s \<and> cmd_parameters c = extract_parameters (cmd_args c)"
    if "parse_command s = Some c" for c
    using that by (auto simp: parse_command_def Let_def split: if_splits list.splits)
  ultimately show ?thesis by blast
qed

theorem every_slash_command_parses_witness: "\<exists>c. parse_command ''/say \"oops'' = Some c \<and> raw_input c = ''/say \"oops''"
proof -
  have "is_slash_command ''/say \"oops''" by code_simp
  then show ?thesis using every_slash_command_parses [of "''/say \"oops''"] by blast
qed

lemma extract_pairs:
  assumes "\<forall>(k, v) \<in> set kvs. CHR ''='' \<notin> set k"
  shows "extract_loop (concat (map (\<lambda>(k, v). [''--'' @ k, v]) kvs)) ps = od_update ps (map (\<lambda>(k, v). (k, PStr v)) kvs)"
  using assms by (induction kvs arbitrary: ps) (auto simp: od_update_def)

text \<open>What is written is what is read: a command name of plain characters followed by any
  arguments in single quotes is parsed to that name in lower case and exactly those arguments,
  blanks and all; and when the arguments are pairs \<open>--key value\<close> with different keys (without an
  equals sign), the parameters are exactly those pairs.\<close>

theorem command_line_round_trip:
  assumes "n \<noteq> []" and "\<forall>c \<in> set n. plain_char c \<and> \<not> is_space c" and "\<forall>a \<in> set args. single_quote \<notin> set a"
  shows "\<exists>c. parse_command (''/'' @ join_on '' '' (n # map quoted args)) = Some c \<and>
    cmd_name c = str_lower n \<and> cmd_args c = args \<and>
    (\<forall>kvs. args = concat (map (\<lambda>(k, v). [''--'' @ k, v]) kvs) \<and> distinct (map fst kvs) \<and>
       (\<forall>(k, v) \<in> set kvs. CHR ''='' \<notin> set k) \<longrightarrow>
       cmd_parameters c = map (\<lambda>(k, v). (k, PStr v)) kvs)"
proof -
  let ?qws = "(False, n) # map (\<lambda>a. (True, a)) args"
  let ?line = "join_on '' '' (n # map quoted args)" and ?s = "''/'' @ join_on '' '' (n # map quoted args)"
  have line: "?line = join_on '' '' (map written ?qws)" by (simp add: comp_def)
  have "\<forall>qw \<in> set ?qws. well_written qw" using assms by auto
  then have words: "shlex_split ?line = Inr (n # args)"
    unfolding line shlex_split_def using shlex_line [of ?qws "[]"] by (simp add: comp_def)
  have ends: "\<not> is_space (last (join_on '' '' (w # map quoted args)))" if "w \<noteq> []" "\<not> is_space (last w)" for w
    using that
  proof (induction args arbitrary: w)
    case (Cons a as)
    have "\<not> is_space (last (quoted a))" "quoted a \<noteq> []" by (simp_all add: quoted_def is_space_def single_quote_def)
    with Cons.IH [of "quoted a"] have "\<not> is_space (last (join_on '' '' (quoted a # map quoted as)))" by blast
    moreover have "join_on '' '' (quoted a # map quoted as) \<noteq> []" by (cases as) (simp_all add: quoted_def)
    ultimately show ?case by simp
  qed simp
  have nonempty: "?line \<noteq> []" using assms(1) by (cases args) simp_all
  have "\<not> is_space (last ?line)" using ends assms(1,2) by simp
  then have strip: "str_strip ?s = ?s" using nonempty by (intro strip_same) (simp_all add: is_space_def)
  note strip = strip [unfolded append_Cons append_Nil]
  have cmd: "is_slash_command ?s" using nonempty by (simp add: is_slash_command_def strip Let_def del: join_on.simps)
  have pairs: "extract_parameters args = map (\<lambda>(k, v). (k, PStr v)) kvs"
    if "args = concat (map (\<lambda>(k, v). [''--'' @ k, v]) kvs)" "distinct (map fst kvs)" "\<forall>(k, v) \<in> set kvs. CHR ''='' \<notin> set k"
    for kvs :: "(string \<times> string) list"
  proof -
    have "od_wf (map (\<lambda>(k, v). (k, PStr v)) kvs)" using that(2) by (simp add: od_wf_def comp_def case_prod_unfold)
    with extract_pairs [OF that(3), of "[]"] that(1) od_update_new [of "map (\<lambda>(k, v). (k, PStr v)) kvs" "[]"]
    show ?thesis by (simp add: extract_parameters_def)
  qed
  have "parse_command ?s = Some \<lparr>cmd_name = str_lower n, cmd_args = args, raw_input = ?s, cmd_parameters = extract_parameters args\<rparr>"
    using cmd nonempty words by (simp add: parse_command_def strip Let_def del: join_on.simps)
  with pairs show ?thesis by auto
qed

theorem command_line_round_trip_witness:
  "\<exists>c. parse_command (''/Save '' @ quoted ''--format'' @ '' '' @ quoted ''my file'') = Some c \<and> cmd_name c = ''save'' \<and>
     cmd_parameters c = [(''format'', PStr ''my file'')]"
proof -
  have n: "\<forall>c \<in> set ''Save''. plain_char c \<and> \<not> is_space c"
    by (simp add: plain_char_def is_blank_def is_space_def single_quote_def double_quote_def backslash_def)
  have a: "\<forall>a \<in> set [''--format'', ''my file'']. single_quote \<notin> set a" by (simp add: single_quote_def)
  have low: "str_lower ''Save'' = ''save''" by code_simp
  from command_line_round_trip [OF _ n a] obtain c where
    c: "parse_command (''/'' @ join_on '' '' (''Save'' # map quoted [''--format'', ''my file''])) = Some c" "cmd_name c = str_lower ''Save''"
    and ps: "\<forall>kvs. [''--format'', ''my file''] = concat (map (\<lambda>(k, v). [''--'' @ k, v]) kvs) \<and> distinct (map fst kvs) \<and>
       (\<forall>(k, v) \<in> set kvs. CHR ''='' \<notin> set k) \<longrightarrow> cmd_parameters c = map (\<lambda>(k, v). (k, PStr v)) kvs"
    by blast
  from ps [rule_format, of "[(''format'', ''my file'')]"] c low show ?thesis by simp
qed

end
