(* ===== verification/Command_Registry.thy ===== *)
theory Command_Registry
  imports Command_Parser "HOL-Library.List_Lexorder" "HOL-Library.Char_ord"
begin

text \<open>
  The registry of slash commands (\<open>kollabor/commands/registry.py\<close>, class \<open>SlashCommandRegistry\<close>):
  plugin commands with their aliases, the core commands under reserved names, the tracking by
  plugin and by category, look-up and search.

  A \<open>defaultdict(list)\<close> is an ordered dictionary read with the empty list as default. Of a
  definition the fields that the registry reads are kept; whether the handler is callable is a
  flag. Log lines are left out, and so is the handler for exceptions around a registration: none
  of its steps raises.
\<close>

section \<open>Definitions\<close>

datatype command_category = SYSTEM | CONVERSATION | AGENT | DEVELOPMENT | FILE | TASK | UI | CUSTOM

fun category_value :: "command_category \<Rightarrow> string" where
  "category_value SYSTEM = ''system''"
| "category_value CONVERSATION = ''conversation''"
| "category_value AGENT = ''agent''"
| "category_value DEVELOPMENT = ''development''"
| "category_value FILE = ''file''"
| "category_value TASK = ''task''"
| "category_value UI = ''ui''"
| "category_value CUSTOM = ''custom''"

record command_def =
  def_name :: string
  description :: string
  handler_callable :: bool
  def_plugin :: string
  def_aliases :: "string list"
  category :: command_category
  hidden :: bool
  def_enabled :: bool
  cli_hidden :: bool

definition RESERVED_COMMANDS :: "string list" where
  "RESERVED_COMMANDS = [''help'', ''version'', ''config'', ''doctor'', ''status'', ''permissions'', ''profile'',
     ''agent'', ''skill'', ''model'', ''mode'', ''cd'', ''upgrade'']"

record cmd_registry =
  commands :: "(string, command_def) odict"
  core_commands :: "(string, command_def) odict"
  alias_map :: "(string, string) odict"
  plugin_commands :: "(string, string list) odict"
  category_commands :: "(command_category, string list) odict"

definition empty_cmd_registry :: cmd_registry where
  "empty_cmd_registry = \<lparr>commands = [], core_commands = [], alias_map = [], plugin_commands = [], category_commands = []\<rparr>"

section \<open>Registration\<close>

text \<open>\<open>s.replace("-", "").replace("_", "").isalnum()\<close>\<close>

definition name_format :: "string \<Rightarrow> bool" where
  "name_format s = is_alnum (str_replace ''_'' [] (str_replace ''-'' [] s))"

definition validate_alias :: "string \<Rightarrow> string list" where
  "validate_alias a =
     (if a = [] \<or> length (str_strip a) = 0 then [''Empty alias not allowed'']
      else if \<not> (name_format a \<or> a \<in> {''?''}) then [''Invalid alias format: '' @ a] else [])"

definition validate_command_definition :: "command_def \<Rightarrow> string list" where
  "validate_command_definition d =
     (if def_name d = [] then [''Command name cannot be empty'']
      else if \<not> name_format (def_name d) then [''Invalid command name format: '' @ def_name d] else []) @
     (if description d = [] then [''Command description cannot be empty''] else []) @
     (if \<not> handler_callable d then [''Command handler must be callable''] else []) @
     (if def_plugin d = [] then [''Plugin name cannot be empty''] else []) @
     concat (map validate_alias (def_aliases d))"

definition register_core_command :: "command_def \<Rightarrow> cmd_registry \<Rightarrow> cmd_registry" where
  "register_core_command d R =
     R\<lparr>core_commands := fold (\<lambda>a. od_put a d) (def_aliases d) (od_put (def_name d) d (core_commands R))\<rparr>"

text \<open>\<open>xs.remove(x)\<close> of a member, in the list of a key that is there.\<close>

definition untrack :: "'k \<Rightarrow> string \<Rightarrow> ('k, string list) odict \<Rightarrow> ('k, string list) odict" where
  "untrack k n m = (case od_get m k of None \<Rightarrow> m | Some xs \<Rightarrow> od_put k (remove1 n xs) m)"

definition track :: "'k \<Rightarrow> string \<Rightarrow> ('k, string list) odict \<Rightarrow> ('k, string list) odict" where
  "track k n m = od_put k (od_get_default m k [] @ [n]) m"

definition unregister_command :: "string \<Rightarrow> cmd_registry \<Rightarrow> bool \<times> cmd_registry" where
  "unregister_command n R =
     (case od_get (commands R) n of
        None \<Rightarrow> (False, R)
      | Some d \<Rightarrow>
          (True, R\<lparr>commands := od_del n (commands R),
                   alias_map := fold od_del (def_aliases d) (alias_map R),
                   plugin_commands := untrack (def_plugin d) n (plugin_commands R),
                   category_commands := od_put (category d) (remove1 n (od_get_default (category_commands R) (category d) []))
                     (category_commands R)\<rparr>))"

definition store_command :: "command_def \<Rightarrow> cmd_registry \<Rightarrow> cmd_registry" where
  "store_command d R =
     R\<lparr>commands := od_put (def_name d) d (commands R),
       alias_map := fold (\<lambda>a. od_put a (def_name d)) (def_aliases d) (alias_map R),
       plugin_commands := track (def_plugin d) (def_name d) (plugin_commands R),
       category_commands := track (category d) (def_name d) (category_commands R)\<rparr>"

definition alias_taken :: "cmd_registry \<Rightarrow> string \<Rightarrow> bool" where
  "alias_taken R a \<longleftrightarrow> a \<in> od_keys (commands R) \<or> a \<in> od_keys (alias_map R)"

definition register_command :: "command_def \<Rightarrow> cmd_registry \<Rightarrow> bool \<times> cmd_registry" where
  "register_command d R =
     (if validate_command_definition d \<noteq> [] then (False, R)
      else if def_name d \<in> set RESERVED_COMMANDS
      then (if def_plugin d = ''system'' then (True, register_core_command d R) else (False, R))
      else case od_get (commands R) (def_name d) of
             Some existing \<Rightarrow>
               (if def_plugin existing \<noteq> def_plugin d then (False, R)
                else let R1 = snd (unregister_command (def_name d) R)
                     in if list_ex (alias_taken R1) (def_aliases d) then (False, R1) else (True, store_command d R1))
           | None \<Rightarrow> (if list_ex (alias_taken R) (def_aliases d) then (False, R) else (True, store_command d R)))"

fun unregister_all :: "string list \<Rightarrow> cmd_registry \<Rightarrow> nat \<times> cmd_registry" where
  "unregister_all [] R = (0, R)"
| "unregister_all (n # ns) R =
     (case unregister_command n R of (ok, R1) \<Rightarrow>
        (case unregister_all ns R1 of (k, R2) \<Rightarrow> ((if ok then k + 1 else k), R2)))"

definition unregister_plugin_commands :: "string \<Rightarrow> cmd_registry \<Rightarrow> nat \<times> cmd_registry" where
  "unregister_plugin_commands p R =
     (case od_get (plugin_commands R) p of
        None \<Rightarrow> (0, R)
      | Some ns \<Rightarrow>
          (case unregister_all ns R of (k, R1) \<Rightarrow>
             (k, if od_get (plugin_commands R1) p = Some [] then R1\<lparr>plugin_commands := od_del p (plugin_commands R1)\<rparr> else R1)))"

section \<open>Queries\<close>

definition get_command :: "string \<Rightarrow> cmd_registry \<Rightarrow> command_def option" where
  "get_command n R =
     (case od_get (core_commands R) n of
        Some d \<Rightarrow> Some d
      | None \<Rightarrow>
          (case od_get (commands R) n of
             Some d \<Rightarrow> Some d
           | None \<Rightarrow> (case od_get (alias_map R) n of Some m \<Rightarrow> od_get (commands R) m | None \<Rightarrow> None)))"

text \<open>Core and plugin commands, each name once, the first that has it.\<close>

definition add_by_name :: "command_def \<Rightarrow> (string, command_def) odict \<Rightarrow> (string, command_def) odict" where
  "add_by_name d m = (if def_name d \<in> od_keys m then m else od_put (def_name d) d m)"

definition merged_commands :: "cmd_registry \<Rightarrow> command_def list" where
  "merged_commands R = map snd (fold add_by_name (map snd (core_commands R) @ map snd (commands R)) [])"

definition sorted_by_category :: "command_def list \<Rightarrow> command_def list" where
  "sorted_by_category ds = sort_key (\<lambda>d. category_value (category d)) (sort_key def_name ds)"

definition get_all_commands :: "bool \<Rightarrow> cmd_registry \<Rightarrow> command_def list" where
  "get_all_commands include_hidden R =
     sorted_by_category (filter (\<lambda>d. include_hidden \<or> \<not> hidden d) (merged_commands R))"

definition list_commands :: "bool \<Rightarrow> cmd_registry \<Rightarrow> command_def list" where
  "list_commands include_hidden R =
     sorted_by_category (filter (\<lambda>d. include_hidden \<or> \<not> hidden d) (map snd (commands R)))"

definition defs_of :: "string list \<Rightarrow> cmd_registry \<Rightarrow> command_def list" where
  "defs_of ns R = List.map_filter (od_get (commands R)) ns"

definition get_commands_by_plugin :: "string \<Rightarrow> cmd_registry \<Rightarrow> command_def list" where
  "get_commands_by_plugin p R = defs_of (od_get_default (plugin_commands R) p []) R"

definition get_commands_by_category :: "command_category \<Rightarrow> cmd_registry \<Rightarrow> command_def list" where
  "get_commands_by_category c R = defs_of (od_get_default (category_commands R) c []) R"

text \<open>The set of a plugin's categories is kept as a list without repetitions and sorted at the end.\<close>

definition get_plugin_categories :: "cmd_registry \<Rightarrow> (string, command_category list) odict" where
  "get_plugin_categories R =
     map (\<lambda>(p, cs). (p, sort_key category_value cs))
       (fold (\<lambda>d m. od_put (def_plugin d) (List.insert (category d) (od_get_default m (def_plugin d) [])) m)
         (map snd (commands R)) [])"

definition exact_match :: "string \<Rightarrow> command_def \<Rightarrow> bool" where
  "exact_match q d \<longleftrightarrow> str_lower (def_name d) = q \<or> list_ex (\<lambda>a. str_lower a = q) (def_aliases d)"

definition name_prefix_match :: "string \<Rightarrow> command_def \<Rightarrow> bool" where
  "name_prefix_match q d \<longleftrightarrow> prefix q (str_lower (def_name d))"

definition alias_prefix_match :: "string \<Rightarrow> command_def \<Rightarrow> bool" where
  "alias_prefix_match q d \<longleftrightarrow> list_ex (\<lambda>a. prefix q (str_lower a)) (def_aliases d)"

definition substring_match :: "string \<Rightarrow> command_def \<Rightarrow> bool" where
  "substring_match q d \<longleftrightarrow> str_contains q (str_lower (def_name d)) \<or> str_contains q (str_lower (description d)) \<or>
     list_ex (\<lambda>a. str_contains q (str_lower a)) (def_aliases d)"

text \<open>Each visible command goes into the first class that it matches; the first class that is not
  empty is returned.\<close>

definition search_commands :: "string \<Rightarrow> cmd_registry \<Rightarrow> command_def list" where
  "search_commands query R =
     (let q = str_lower query;
          ds = filter (\<lambda>d. \<not> hidden d) (merged_commands R);
          exact = filter (exact_match q) ds;
          rest1 = filter (\<lambda>d. \<not> exact_match q d) ds;
          named = filter (name_prefix_match q) rest1;
          rest2 = filter (\<lambda>d. \<not> name_prefix_match q d) rest1;
          aliased = filter (alias_prefix_match q) rest2;
          rest3 = filter (\<lambda>d. \<not> alias_prefix_match q d) rest2
      in if exact \<noteq> [] then sort_key def_name exact
         else if named \<noteq> [] then sort_key def_name named
         else if aliased \<noteq> [] then sort_key def_name aliased
         else sort_key def_name (filter (substring_match q) rest3))"

record cmd_stats =
  total_commands :: nat
  n_plugin_commands :: nat
  n_core_commands :: nat
  total_aliases :: nat
  n_plugins :: nat
  n_categories :: nat
  hidden_commands :: nat
  enabled_commands :: nat
  cli_enabled_commands :: nat

definition get_cmd_stats :: "cmd_registry \<Rightarrow> cmd_stats" where
  "get_cmd_stats R = (let al = get_all_commands True R in
     \<lparr>total_commands = length al, n_plugin_commands = length (commands R),
      n_core_commands = card (set (map (\<lambda>(k, d). def_name d) (core_commands R))),
      total_aliases = length (alias_map R), n_plugins = length (plugin_commands R),
      n_categories = length (filter (\<lambda>(k, ns). ns \<noteq> []) (category_commands R)),
      hidden_commands = length (filter hidden al), enabled_commands = length (filter def_enabled al),
      cli_enabled_commands = length (filter (\<lambda>d. \<not> cli_hidden d) al)\<rparr>)"

section \<open>The invariant\<close>

definition cmds_of :: "(command_def \<Rightarrow> 'k) \<Rightarrow> 'k \<Rightarrow> (string, command_def) odict \<Rightarrow> string set" where
  "cmds_of f k cs = {n. \<exists>d. od_get cs n = Some d \<and> f d = k}"

text \<open>An index lists, for every key, the names of the commands that have it, each once.\<close>

definition tracks :: "(command_def \<Rightarrow> 'k) \<Rightarrow> (string, command_def) odict \<Rightarrow> ('k, string list) odict \<Rightarrow> bool" where
  "tracks f cs m \<longleftrightarrow> (\<forall>k. distinct (od_get_default m k []) \<and> set (od_get_default m k []) = cmds_of f k cs)"

lemma od_get_default_put: "od_get_default (od_put k v m) k' d = (if k' = k then v else od_get_default m k' d)"
  by (simp add: od_get_default_def)

lemma tracks_put:
  assumes "tracks f cs m" and "od_get cs n = None"
  shows "tracks f (od_put n d cs) (track (f d) n m)"
proof -
  have old: "cmds_of f k (od_put n d cs) = (if k = f d then insert n (cmds_of f k cs) else cmds_of f k cs)" for k
    using assms(2) by (auto simp: cmds_of_def)
  have new: "n \<notin> cmds_of f k cs" for k using assms(2) by (simp add: cmds_of_def)
  show ?thesis
    unfolding tracks_def track_def od_get_default_put old
    using assms(1) new by (auto simp: tracks_def)
qed

lemma tracks_del:
  assumes "tracks f cs m" and "od_get cs n = Some d"
  shows "tracks f (od_del n cs) (od_put (f d) (remove1 n (od_get_default m (f d) [])) m)"
proof -
  have old: "cmds_of f k (od_del n cs) = cmds_of f k cs - {n}" for k
    by (auto simp: cmds_of_def split: if_splits)
  have other: "n \<notin> cmds_of f k cs" if "k \<noteq> f d" for k using assms(2) that by (auto simp: cmds_of_def)
  show ?thesis
    unfolding tracks_def od_get_default_put old
    using assms(1) other by (auto simp: tracks_def set_remove1_eq distinct_remove1)
qed

lemma untrack_default: "od_get m k = Some xs \<Longrightarrow> untrack k n m = od_put k (remove1 n (od_get_default m k [])) m"
  by (simp add: untrack_def od_get_default_def)

lemma tracks_key: "tracks f cs m \<Longrightarrow> od_get cs n = Some d \<Longrightarrow> \<exists>xs. od_get m (f d) = Some xs"
proof (cases "od_get m (f d)")
  case None
  assume "tracks f cs m" and d: "od_get cs n = Some d"
  then have "cmds_of f (f d) cs = {}" using None by (metis empty_set od_get_default_def option.simps(4) tracks_def)
  with d show ?thesis by (auto simp: cmds_of_def)
qed simp

definition aliases_ok :: "(string, command_def) odict \<Rightarrow> (string, string) odict \<Rightarrow> bool" where
  "aliases_ok cs al \<longleftrightarrow> (\<forall>a n. od_get al a = Some n \<longleftrightarrow> (\<exists>d. od_get cs n = Some d \<and> a \<in> set (def_aliases d)))"

definition cmd_reg_ok :: "cmd_registry \<Rightarrow> bool" where
  "cmd_reg_ok R \<longleftrightarrow>
     od_wf (commands R) \<and>
     (\<forall>n d. od_get (commands R) n = Some d \<longrightarrow> def_name d = n \<and> n \<notin> set RESERVED_COMMANDS) \<and>
     aliases_ok (commands R) (alias_map R) \<and>
     tracks def_plugin (commands R) (plugin_commands R) \<and> tracks category (commands R) (category_commands R) \<and>
     (\<forall>k d. od_get (core_commands R) k = Some d \<longrightarrow> def_plugin d = ''system'' \<and> def_name d \<in> set RESERVED_COMMANDS)"

lemma get_fold_put: "od_get (fold (\<lambda>a. od_put a v) as m) k = (if k \<in> set as then Some v else od_get m k)"
  by (induction as arbitrary: m) auto

lemma cmd_reg_ok_empty [simp]: "cmd_reg_ok empty_cmd_registry"
  by (simp add: cmd_reg_ok_def empty_cmd_registry_def aliases_ok_def tracks_def cmds_of_def od_get_default_def)

lemma aliases_del:
  assumes "aliases_ok cs al" and "od_get cs n = Some d"
  shows "aliases_ok (od_del n cs) (fold od_del (def_aliases d) al)"
  unfolding aliases_ok_def od_get_fold_keys
proof (intro allI)
  fix a m
  have al: "od_get al a = Some m \<longleftrightarrow> (\<exists>d. od_get cs m = Some d \<and> a \<in> set (def_aliases d))" for m
    using assms(1) by (simp add: aliases_ok_def)
  have "od_get al a = Some n \<longleftrightarrow> a \<in> set (def_aliases d)" using al [of n] assms(2) by simp
  then show "((if a \<in> set (def_aliases d) then None else od_get al a) = Some m) =
      (\<exists>e. od_get (od_del n cs) m = Some e \<and> a \<in> set (def_aliases e))"
    using al [of m] by auto
qed

lemma unregister_ok:
  assumes "cmd_reg_ok R"
  shows "cmd_reg_ok (snd (unregister_command n R))"
proof (cases "od_get (commands R) n")
  case (Some d)
  have "tracks def_plugin (commands R) (plugin_commands R)" using assms by (simp add: cmd_reg_ok_def)
  from tracks_key [OF this Some] tracks_del [OF this Some]
  have "tracks def_plugin (od_del n (commands R)) (untrack (def_plugin d) n (plugin_commands R))"
    using untrack_default by force
  with Some assms aliases_del [OF _ Some] tracks_del [OF _ Some, of category] show ?thesis
    by (simp add: unregister_command_def cmd_reg_ok_def)
qed (simp add: unregister_command_def assms)

lemma store_ok:
  assumes "cmd_reg_ok R" and "od_get (commands R) (def_name d) = None" and "def_name d \<notin> set RESERVED_COMMANDS"
    and "\<not> list_ex (alias_taken R) (def_aliases d)"
  shows "cmd_reg_ok (store_command d R)"
proof -
  let ?n = "def_name d"
  have free: "od_get (alias_map R) a = None" if "a \<in> set (def_aliases d)" for a
    using assms(4) that by (auto simp: list_ex_iff alias_taken_def od_get_None_iff)
  have al: "aliases_ok (commands R) (alias_map R)" using assms(1) by (simp add: cmd_reg_ok_def)
  then have clash: "a \<notin> set (def_aliases e)" if "a \<in> set (def_aliases d)" "od_get (commands R) m = Some e" for a m e
    using that free unfolding aliases_ok_def by (metis option.distinct(1))
  have "od_get (alias_map R) a \<noteq> Some ?n" for a using assms(2) al by (auto simp: aliases_ok_def)
  then have "aliases_ok (od_put ?n d (commands R)) (fold (\<lambda>a. od_put a ?n) (def_aliases d) (alias_map R))"
    unfolding aliases_ok_def get_fold_put using al free clash by (auto simp: aliases_ok_def)
  moreover have "tracks def_plugin (od_put ?n d (commands R)) (track (def_plugin d) ?n (plugin_commands R))"
    "tracks category (od_put ?n d (commands R)) (track (category d) ?n (category_commands R))"
    using assms(1,2) by (simp_all add: cmd_reg_ok_def tracks_put)
  ultimately show ?thesis using assms(1,3) by (simp add: cmd_reg_ok_def store_command_def)
qed

lemma core_ok:
  assumes "cmd_reg_ok R" and "def_name d \<in> set RESERVED_COMMANDS" and "def_plugin d = ''system''"
  shows "cmd_reg_ok (register_core_command d R)"
  using assms by (simp add: cmd_reg_ok_def register_core_command_def get_fold_put)

lemma unregister_gone: "od_get (commands (snd (unregister_command n R))) n = None"
  by (simp add: unregister_command_def split: option.splits)

lemma register_ok: "cmd_reg_ok R \<Longrightarrow> cmd_reg_ok (snd (register_command d R))"
  using unregister_gone unregister_ok
  by (auto simp: register_command_def Let_def core_ok split: option.splits intro!: store_ok)

lemma unregister_all_ok: "cmd_reg_ok R \<Longrightarrow> cmd_reg_ok (snd (unregister_all ns R))"
proof (induction ns arbitrary: R)
  case (Cons n ns)
  then show ?case using unregister_ok [of R n] by (simp add: case_prod_unfold)
qed simp

lemma drop_empty_plugin:
  assumes "cmd_reg_ok R" and "od_get (plugin_commands R) p = Some []"
  shows "cmd_reg_ok (R\<lparr>plugin_commands := od_del p (plugin_commands R)\<rparr>)"
proof -
  have "od_get_default (od_del p (plugin_commands R)) k [] = od_get_default (plugin_commands R) k []" for k
    using assms(2) by (simp add: od_get_default_def)
  then show ?thesis using assms(1) by (simp add: cmd_reg_ok_def tracks_def)
qed

lemma unregister_plugin_ok: "cmd_reg_ok R \<Longrightarrow> cmd_reg_ok (snd (unregister_plugin_commands p R))"
  using unregister_all_ok drop_empty_plugin
  by (auto simp: unregister_plugin_commands_def case_prod_unfold split: option.splits)

section \<open>Runs of the registry\<close>

inductive cmd_step :: "cmd_registry \<Rightarrow> cmd_registry \<Rightarrow> bool" where
  register: "cmd_step R (snd (register_command d R))"
| unregister: "cmd_step R (snd (unregister_command n R))"
| unregister_plugin: "cmd_step R (snd (unregister_plugin_commands p R))"

text \<open>What a plugin can do: everything but registering a command in the name of the system.\<close>

inductive plugin_step :: "cmd_registry \<Rightarrow> cmd_registry \<Rightarrow> bool" where
  register: "def_plugin d \<noteq> ''system'' \<Longrightarrow> plugin_step R (snd (register_command d R))"
| unregister: "plugin_step R (snd (unregister_command n R))"
| unregister_plugin: "plugin_step R (snd (unregister_plugin_commands p R))"

lemma cmd_step_ok: "cmd_step R R' \<Longrightarrow> cmd_reg_ok R \<Longrightarrow> cmd_reg_ok R'"
  by (induction rule: cmd_step.induct) (auto intro: register_ok unregister_ok unregister_plugin_ok)

lemma reachable_ok: "cmd_step\<^sup>*\<^sup>* empty_cmd_registry R \<Longrightarrow> cmd_reg_ok R"
  by (induction rule: rtranclp_induct) (auto intro: cmd_step_ok)

lemma unregister_core [simp]: "core_commands (snd (unregister_command n R)) = core_commands R"
  by (simp add: unregister_command_def split: option.splits)

lemma unregister_all_core [simp]: "core_commands (snd (unregister_all ns R)) = core_commands R"
  by (induction ns arbitrary: R) (simp_all add: case_prod_unfold)

lemma unregister_plugin_core [simp]: "core_commands (snd (unregister_plugin_commands p R)) = core_commands R"
  by (simp add: unregister_plugin_commands_def case_prod_unfold split: option.splits)

lemma plugin_register_core: "def_plugin d \<noteq> ''system'' \<Longrightarrow> core_commands (snd (register_command d R)) = core_commands R"
  by (simp add: register_command_def store_command_def Let_def split: option.splits)

interpretation core: settled_store "\<lambda>k R. od_get (core_commands R) k" "\<lambda>_. True" "\<lambda>_. True" plugin_step
proof unfold_locales
  show "plugin_step R R' \<Longrightarrow> od_get (core_commands R) k = Some e \<Longrightarrow> od_get (core_commands R') k = Some e" for R R' k e
    by (induction rule: plugin_step.induct) (simp_all add: plugin_register_core)
qed simp

text \<open>The command registry is consistent after any registrations and removals: a command is
  stored under its own name and never under a reserved one, every alias leads to the one command
  that declares it, the lists by plugin and by category name exactly the commands they should,
  each once, and the core commands all come from the system.\<close>

theorem command_registry_invariant:
  assumes "cmd_step\<^sup>*\<^sup>* empty_cmd_registry R"
  shows "(\<forall>n d. od_get (commands R) n = Some d \<longrightarrow> def_name d = n \<and> n \<notin> set RESERVED_COMMANDS) \<and>
    (\<forall>a n. od_get (alias_map R) a = Some n \<longleftrightarrow> (\<exists>d. od_get (commands R) n = Some d \<and> a \<in> set (def_aliases d))) \<and>
    (\<forall>p. distinct (od_get_default (plugin_commands R) p []) \<and>
       set (get_commands_by_plugin p R) = {d. od_get (commands R) (def_name d) = Some d \<and> def_plugin d = p}) \<and>
    (\<forall>c. set (get_commands_by_category c R) = {d. od_get (commands R) (def_name d) = Some d \<and> category d = c}) \<and>
    (\<forall>k d. od_get (core_commands R) k = Some d \<longrightarrow> def_plugin d = ''system'')"
proof -
  have ok: "cmd_reg_ok R" using assms by (rule reachable_ok)
  have name: "def_name d = n" if "od_get (commands R) n = Some d" for n d using ok that by (simp add: cmd_reg_ok_def)
  have listed: "set (defs_of (od_get_default m k []) R) = {d. od_get (commands R) (def_name d) = Some d \<and> f d = k}"
    if "tracks f (commands R) m" for f :: "command_def \<Rightarrow> 'b" and m k
  proof -
    have "set (od_get_default m k []) = cmds_of f k (commands R)" using that by (simp add: tracks_def)
    then have "set (defs_of (od_get_default m k []) R) = {d. \<exists>n. od_get (commands R) n = Some d \<and> f d = k}"
      by (force simp: defs_of_def map_filter_def cmds_of_def image_iff)
    then show ?thesis using name by blast
  qed
  from ok listed [of def_plugin "plugin_commands R"] listed [of category "category_commands R"] show ?thesis
    unfolding cmd_reg_ok_def get_commands_by_plugin_def get_commands_by_category_def
    by (auto simp: aliases_ok_def tracks_def)
qed

definition demo_cmd :: "string \<Rightarrow> string \<Rightarrow> string list \<Rightarrow> command_def" where
  "demo_cmd n p as = \<lparr>def_name = n, description = ''d'', handler_callable = True, def_plugin = p, def_aliases = as,
     category = CUSTOM, hidden = False, def_enabled = True, cli_hidden = True\<rparr>"

lemma demo_cmd_sel [simp]:
  "def_name (demo_cmd n p as) = n" "def_plugin (demo_cmd n p as) = p" "def_aliases (demo_cmd n p as) = as"
  by (simp_all add: demo_cmd_def)

lemma demo_valid: "validate_command_definition (demo_cmd ''note'' ''pad'' [''n'']) = []"
  by code_simp

theorem command_registry_invariant_witness:
  "\<exists>d. od_get (commands (snd (register_command (demo_cmd ''note'' ''pad'' [''n'']) empty_cmd_registry))) ''note'' = Some d \<and>
     ''n'' \<in> set (def_aliases d)"
proof -
  let ?R = "snd (register_command (demo_cmd ''note'' ''pad'' [''n'']) empty_cmd_registry)"
  have "cmd_step\<^sup>*\<^sup>* empty_cmd_registry ?R" by (rule r_into_rtranclp) (rule cmd_step.register)
  from command_registry_invariant [OF this]
  have al: "\<forall>a n. od_get (alias_map ?R) a = Some n \<longleftrightarrow> (\<exists>d. od_get (commands ?R) n = Some d \<and> a \<in> set (def_aliases d))"
    by blast
  have "od_get (alias_map ?R) ''n'' = Some ''note''"
    by (simp add: register_command_def demo_valid RESERVED_COMMANDS_def empty_cmd_registry_def store_command_def
        alias_taken_def)
  with al show ?thesis by blast
qed

text \<open>A registered command is found: after a successful registration under a name that is not
  reserved, the name and every alias lead to the new definition, unless a core command has that
  name; and every name that neither the new command nor the one it replaces uses leads where it did.\<close>

theorem registered_command_found:
  assumes "cmd_reg_ok R" and "register_command d R = (True, R')" and "def_name d \<notin> set RESERVED_COMMANDS"
  shows "(\<forall>k. k \<in> insert (def_name d) (set (def_aliases d)) \<longrightarrow> od_get (core_commands R) k = None \<longrightarrow>
       get_command k R' = Some d) \<and>
    (\<forall>k. k \<notin> insert (def_name d) (set (def_aliases d)) \<longrightarrow>
       (\<forall>e. od_get (commands R) (def_name d) = Some e \<longrightarrow> k \<notin> set (def_aliases e)) \<longrightarrow>
       get_command k R' = get_command k R)"
proof -
  let ?n = "def_name d" and ?R1 = "snd (unregister_command (def_name d) R)"
  have R': "R' = store_command d ?R1 \<and> \<not> list_ex (alias_taken ?R1) (def_aliases d)"
  proof (cases "od_get (commands R) ?n")
    case None
    then have "?R1 = R" by (simp add: unregister_command_def)
    with None assms(2,3) show ?thesis by (auto simp: register_command_def split: if_splits)
  next
    case (Some e)
    with assms(2,3) show ?thesis by (auto simp: register_command_def Let_def split: if_splits)
  qed
  have free: "od_get (commands ?R1) a = None" if "a \<in> set (def_aliases d)" for a
    using R' that by (auto simp: list_ex_iff alias_taken_def od_get_None_iff)
  have al: "aliases_ok (commands R) (alias_map R)" using assms(1) by (simp add: cmd_reg_ok_def)
  have find: "get_command k R' = Some d" if "k \<in> insert ?n (set (def_aliases d))" "od_get (core_commands R) k = None" for k
    using that free R' by (cases "k = ?n") (auto simp: get_command_def store_command_def get_fold_put)
  have keep: "get_command k R' = get_command k R"
    if "k \<notin> insert ?n (set (def_aliases d))" "\<forall>e. od_get (commands R) ?n = Some e \<longrightarrow> k \<notin> set (def_aliases e)" for k
  proof -
    have "od_get (alias_map R) k \<noteq> Some ?n" using al that(2) by (auto simp: aliases_ok_def)
    with that R' show ?thesis
      by (auto simp: get_command_def store_command_def get_fold_put unregister_command_def od_get_fold_keys split: option.splits)
  qed
  from find keep show ?thesis by blast
qed

theorem registered_command_found_witness:
  "get_command ''n'' (snd (register_command (demo_cmd ''note'' ''pad'' [''n'']) empty_cmd_registry)) =
     Some (demo_cmd ''note'' ''pad'' [''n''])"
proof -
  have "fst (register_command (demo_cmd ''note'' ''pad'' [''n'']) empty_cmd_registry)"
    by (simp add: register_command_def demo_valid RESERVED_COMMANDS_def empty_cmd_registry_def alias_taken_def)
  then have run: "register_command (demo_cmd ''note'' ''pad'' [''n'']) empty_cmd_registry =
      (True, snd (register_command (demo_cmd ''note'' ''pad'' [''n'']) empty_cmd_registry))"
    by (metis prod.collapse)
  from registered_command_found [OF cmd_reg_ok_empty run] show ?thesis
    by (simp add: RESERVED_COMMANDS_def empty_cmd_registry_def)
qed



lemma unregister_commands:
  "od_get (commands (snd (unregister_command n R))) m = (if m = n then None else od_get (commands R) m)"
  by (auto simp: unregister_command_def split: option.splits)

lemma unregister_all_commands:
  "od_get (commands (snd (unregister_all ns R))) m = (if m \<in> set ns then None else od_get (commands R) m)"
  by (induction ns arbitrary: R) (simp_all add: case_prod_unfold unregister_commands)

lemma unregister_all_count:
  "distinct ns \<Longrightarrow> \<forall>n \<in> set ns. od_get (commands R) n \<noteq> None \<Longrightarrow> fst (unregister_all ns R) = length ns"
proof (induction ns arbitrary: R)
  case (Cons n ns)
  then have "fst (unregister_command n R)" by (auto simp: unregister_command_def)
  moreover have "\<forall>m \<in> set ns. od_get (commands (snd (unregister_command n R))) m \<noteq> None"
    using Cons.prems by (auto simp: unregister_commands)
  ultimately show ?case using Cons by (simp add: case_prod_unfold)
qed simp

text \<open>Unloading a plugin removes its commands, all of them and no others, and reports how many.\<close>

theorem plugin_unload_removes_its_commands:
  assumes "cmd_reg_ok R" and "unregister_plugin_commands p R = (k, R')"
  shows "(\<forall>n d. od_get (commands R') n = Some d \<longleftrightarrow> od_get (commands R) n = Some d \<and> def_plugin d \<noteq> p) \<and>
    k = card {n. \<exists>d. od_get (commands R) n = Some d \<and> def_plugin d = p}"
proof -
  have tr: "distinct (od_get_default (plugin_commands R) p [])"
    "set (od_get_default (plugin_commands R) p []) = {n. \<exists>d. od_get (commands R) n = Some d \<and> def_plugin d = p}"
    using assms(1) by (auto simp: cmd_reg_ok_def tracks_def cmds_of_def)
  show ?thesis
  proof (cases "od_get (plugin_commands R) p")
    case None
    with tr(2) have "{n. \<exists>d. od_get (commands R) n = Some d \<and> def_plugin d = p} = {}" by (simp add: od_get_default_def)
    moreover have "k = 0" "R' = R" using assms(2) None by (simp_all add: unregister_plugin_commands_def)
    ultimately have "k = card {n. \<exists>d. od_get (commands R) n = Some d \<and> def_plugin d = p}" by (simp only: card.empty)
    moreover have "\<forall>n d. od_get (commands R) n = Some d \<longrightarrow> def_plugin d \<noteq> p"
      using \<open>{n. _} = {}\<close> by blast
    ultimately show ?thesis using \<open>R' = R\<close> by blast
  next
    case (Some ns)
    then have ns: "od_get_default (plugin_commands R) p [] = ns" by (simp add: od_get_default_def)
    have "commands R' = commands (snd (unregister_all ns R))" "k = fst (unregister_all ns R)"
      using assms(2) Some by (auto simp: unregister_plugin_commands_def case_prod_unfold)
    then have cmds: "od_get (commands R') n = (if n \<in> set ns then None else od_get (commands R) n)" for n
      by (simp add: unregister_all_commands)
    have "k = length ns" using \<open>k = _\<close> tr unfolding ns by (auto intro!: unregister_all_count)
    then have "k = card (set ns)" using tr(1) unfolding ns by (simp add: distinct_card)
    with tr(2) cmds show ?thesis unfolding ns by auto
  qed
qed

theorem plugin_unload_removes_its_commands_witness:
  "od_get (commands (snd (unregister_plugin_commands ''pad''
     (snd (register_command (demo_cmd ''note'' ''pad'' [''n'']) empty_cmd_registry))))) ''note'' = None"
proof -
  let ?R = "snd (register_command (demo_cmd ''note'' ''pad'' [''n'']) empty_cmd_registry)"
  have ok: "cmd_reg_ok ?R" by (rule register_ok) simp
  have d: "od_get (commands ?R) ''note'' = Some (demo_cmd ''note'' ''pad'' [''n''])"
    by (simp add: register_command_def demo_valid RESERVED_COMMANDS_def empty_cmd_registry_def store_command_def
        alias_taken_def)
  obtain k R' where run: "unregister_plugin_commands ''pad'' ?R = (k, R')" by (cases "unregister_plugin_commands ''pad'' ?R")
  have "def_plugin e = ''pad''" if "od_get (commands ?R) ''note'' = Some e" for e using d that by simp
  then have "od_get (commands R') ''note'' \<noteq> Some e" for e
    using plugin_unload_removes_its_commands [OF ok run] by blast
  then have "od_get (commands R') ''note'' = None" by (metis not_None_eq)
  with run show ?thesis by simp
qed

text \<open>A registration that is refused can still remove a command: when a plugin registers its command
  again with an alias that is taken, the old definition is already gone.\<close>

theorem refused_registration_drops_command:
  "\<exists>R d. cmd_step\<^sup>*\<^sup>* empty_cmd_registry R \<and> get_command ''note'' R \<noteq> None \<and> \<not> fst (register_command d R) \<and>
     get_command ''note'' (snd (register_command d R)) = None"
proof (intro exI conjI)
  let ?R1 = "snd (register_command (demo_cmd ''memo'' ''other'' [''m'']) empty_cmd_registry)"
  let ?R = "snd (register_command (demo_cmd ''note'' ''pad'' [''n'']) ?R1)"
  let ?d = "demo_cmd ''note'' ''pad'' [''m'']"
  show "cmd_step\<^sup>*\<^sup>* empty_cmd_registry ?R"
    by (rule rtranclp.rtrancl_into_rtrancl, rule r_into_rtranclp) (rule cmd_step.register)+
  have valid: "validate_command_definition (demo_cmd ''memo'' ''other'' [''m'']) = []"
    "validate_command_definition (demo_cmd ''note'' ''pad'' [''m'']) = []" by code_simp+
  note eval = register_command_def valid demo_valid RESERVED_COMMANDS_def empty_cmd_registry_def store_command_def
    alias_taken_def unregister_command_def get_command_def Let_def
  show "get_command ''note'' ?R \<noteq> None" by (simp add: eval)
  show "\<not> fst (register_command ?d ?R)" by (simp add: eval)
  show "get_command ''note'' (snd (register_command ?d ?R)) = None" by (simp add: eval)
qed

end
