(* ===== verification/Tool_Output_Budget.thy ===== *)
theory Tool_Output_Budget
  imports Dict_Utils
begin

text \<open>
  The budget for tool output (\<open>kollabor_agent/tool_output_budget.py\<close>): a result that is too long for
  the model, on its own or together with the others of its batch, is saved to a file and replaced
  by a pointer with a preview; the same for the tool messages of older turns.

  A result and a message are records with the fields that the module reads; a missing metadata
  dictionary is an empty one, and the results of a batch are different objects. The file system is
  the state of the store: the files with their contents, and the random identifiers drawn so far.
  What the environment decides (the identifiers, whether a directory or a file can be written, the
  expansion of a home directory) is a record of functions. File permissions and log lines are left
  out.
\<close>

section \<open>Text\<close>

definition TOOL_OUTPUT_PATH_KEY :: string where "TOOL_OUTPUT_PATH_KEY = ''tool_output_path''"
definition TOOL_OUTPUT_RAW_CHARS_KEY :: string where "TOOL_OUTPUT_RAW_CHARS_KEY = ''tool_output_raw_chars''"
definition TOOL_OUTPUT_RAW_BYTES_KEY :: string where "TOOL_OUTPUT_RAW_BYTES_KEY = ''tool_output_raw_bytes''"
definition TOOL_OUTPUT_SPILLED_KEY :: string where "TOOL_OUTPUT_SPILLED_KEY = ''tool_output_spilled''"
definition TOOL_OUTPUT_SPILL_REASON_KEY :: string where "TOOL_OUTPUT_SPILL_REASON_KEY = ''tool_output_spill_reason''"
definition SPILL_FAILED_KEY :: string where "SPILL_FAILED_KEY = ''tool_output_spill_failed''"

definition as_positive_int :: "pyval option \<Rightarrow> int \<Rightarrow> nat" where
  "as_positive_int v dflt =
     nat (max 0 (case v of
        Some (PInt i) \<Rightarrow> i
      | Some (PFloat r) \<Rightarrow> if 0 \<le> r then \<lfloor>r\<rfloor> else \<lceil>r\<rceil>
      | Some (PStr s) \<Rightarrow> (case int_of_text s of Some i \<Rightarrow> i | None \<Rightarrow> dflt)
      | _ \<Rightarrow> dflt))"

text \<open>\<open>s.rfind("\n")\<close>, with \<open>None\<close> for \<open>-1\<close>.\<close>

definition last_newline :: "string \<Rightarrow> nat option" where
  "last_newline s = (if newline \<in> set s then Some (length s - 1 - length (takeWhile (\<lambda>c. c \<noteq> newline) (rev s))) else None)"

definition preview_text :: "string \<Rightarrow> nat \<Rightarrow> string" where
  "preview_text text max_chars =
     (if max_chars = 0 then []
      else if length text \<le> max_chars then text
      else let head = take max_chars text
           in case last_newline head of
                Some i \<Rightarrow> if i > max_chars div 2 then take i head else head
              | None \<Rightarrow> head)"

definition omission_notice :: "string \<Rightarrow> string" where
  "omission_notice subject = ''['' @ subject @ '' omitted; complete output is in artifact metadata]''"

definition bounded_omission :: "nat \<Rightarrow> string \<Rightarrow> string" where
  "bounded_omission limit subject =
     (if limit = 0 then omission_notice subject else take limit (omission_notice subject))"

text \<open>The characters that a file name keeps; a run of others becomes one hyphen.\<close>

definition safe_char :: "char \<Rightarrow> bool" where
  "safe_char c = (let n = of_char c :: nat in (48 \<le> n \<and> n \<le> 57) \<or> (65 \<le> n \<and> n \<le> 90) \<or> (97 \<le> n \<and> n \<le> 122) \<or>
     c \<in> {CHR ''.'', CHR ''_'', CHR ''-''})"

fun hyphenate :: "bool \<Rightarrow> string \<Rightarrow> string" where
  "hyphenate in_run [] = []"
| "hyphenate in_run (c # cs) =
     (if safe_char c then c # hyphenate False cs
      else if in_run then hyphenate True cs else CHR ''-'' # hyphenate True cs)"

definition strip_chars :: "char set \<Rightarrow> string \<Rightarrow> string" where
  "strip_chars A s = rev (dropWhile (\<lambda>c. c \<in> A) (rev (dropWhile (\<lambda>c. c \<in> A) s)))"

definition safe_name :: "string \<Rightarrow> string \<Rightarrow> string" where
  "safe_name value fallback =
     (let text = strip_chars {CHR ''-'', CHR ''.''} (hyphenate False (if value \<noteq> [] then value else fallback))
      in take 80 (if text \<noteq> [] then text else fallback))"

text \<open>\<open>len(s.encode("utf-8"))\<close> for code points below 256.\<close>

definition utf8_length :: "string \<Rightarrow> nat" where
  "utf8_length s = sum_list (map (\<lambda>c. if (of_char c :: nat) < 128 then 1 else 2) s)"

section \<open>The store\<close>

record tool_result =
  tr_success :: bool
  tr_output :: "string option"
  tr_error :: "string option"
  tr_id :: string
  tr_type :: string
  tr_metadata :: pydict

definition result_text :: "tool_result \<Rightarrow> string" where
  "result_text r = (case (if tr_success r then tr_output r else tr_error r) of None \<Rightarrow> [] | Some s \<Rightarrow> s)"

definition set_result_text :: "string \<Rightarrow> tool_result \<Rightarrow> tool_result" where
  "set_result_text s r = (if tr_success r then r\<lparr>tr_output := Some s\<rparr> else r\<lparr>tr_error := Some s\<rparr>)"

record output_env =
  uid :: "nat \<Rightarrow> string"
  can_mkdir :: bool
  can_write :: "string \<Rightarrow> bool"
  expanduser :: "string \<Rightarrow> string"

record artifact_store =
  root :: string
  output_files :: "(string, string) odict"
  drawn :: nat

definition artifact_path :: "output_env \<Rightarrow> artifact_store \<Rightarrow> string \<Rightarrow> string" where
  "artifact_path E S pre = root S @ ''/'' @ pre @ ''-'' @ uid E (drawn S) @ ''.output''"

text \<open>The loop over three identifiers: a name that exists is skipped, any other failure is raised.\<close>

fun allocate :: "output_env \<Rightarrow> string \<Rightarrow> string \<Rightarrow> nat \<Rightarrow> artifact_store \<Rightarrow> string py_result \<times> artifact_store" where
  "allocate E pre text 0 S = (Inl (OSError ''Could not allocate a unique tool-output artifact''), S)"
| "allocate E pre text (Suc n) S =
     (let path = artifact_path E S pre; S1 = S\<lparr>drawn := Suc (drawn S)\<rparr>
      in if path \<in> od_keys (output_files S) then allocate E pre text n S1
         else if \<not> can_write E path then (Inl (OSError ''cannot write''), S1)
         else (Inr path, S1\<lparr>output_files := od_put path text (output_files S)\<rparr>))"

definition write_output ::
  "output_env \<Rightarrow> string \<Rightarrow> string \<Rightarrow> string \<Rightarrow> artifact_store \<Rightarrow> string py_result \<times> artifact_store" where
  "write_output E text tool_id tool_type S =
     (if \<not> can_mkdir E then (Inl (OSError ''cannot create directory''), S)
      else allocate E (safe_name tool_type ''tool'' @ ''-'' @ safe_name tool_id ''call'') text 3 S)"

definition pointer :: "string \<Rightarrow> string \<Rightarrow> string \<Rightarrow> string" where
  "pointer path preview why =
     join_on [newline]
       ([''[tool output saved to .output file: '' @ path @ '']''] @
        (if why \<noteq> [] then [''[spill reason: '' @ why @ '']''] else []) @
        (if preview \<noteq> [] then [[], ''Preview:'', preview] else []))"

definition exn_str :: "py_exn \<Rightarrow> string" where
  "exn_str e = (case e of OSError s \<Rightarrow> s | RuntimeError s \<Rightarrow> s | ValueError s \<Rightarrow> s | KeyError s \<Rightarrow> s | TypeError s \<Rightarrow> s
     | AttributeError s \<Rightarrow> s | IndexError \<Rightarrow> [])"

text \<open>\<open>str(value)\<close> of a stored path.\<close>

definition path_of :: "pydict \<Rightarrow> string option" where
  "path_of m = (case od_get m TOOL_OUTPUT_PATH_KEY of Some (PStr s) \<Rightarrow> if s = [] then None else Some s | _ \<Rightarrow> None)"

definition existing_path :: "output_env \<Rightarrow> artifact_store \<Rightarrow> tool_result \<Rightarrow> string option" where
  "existing_path E S r =
     (case path_of (tr_metadata r) of
        None \<Rightarrow> None
      | Some p \<Rightarrow> let q = expanduser E p in if q \<in> od_keys (output_files S) then Some q else None)"

definition raw_chars_of :: "pydict \<Rightarrow> string \<Rightarrow> nat" where
  "raw_chars_of m text = as_positive_int (od_get m TOOL_OUTPUT_RAW_CHARS_KEY) (int (length text))"

definition set_meta :: "string \<Rightarrow> pyval \<Rightarrow> tool_result \<Rightarrow> tool_result" where
  "set_meta k v r = r\<lparr>tr_metadata := od_put k v (tr_metadata r)\<rparr>"

definition spill_notes :: "string \<Rightarrow> string \<Rightarrow> tool_result \<Rightarrow> tool_result" where
  "spill_notes why original r =
     set_meta TOOL_OUTPUT_SPILL_REASON_KEY (PStr why)
       (set_meta TOOL_OUTPUT_RAW_BYTES_KEY (PInt (int (utf8_length original)))
         (set_meta TOOL_OUTPUT_RAW_CHARS_KEY (PInt (int (raw_chars_of (tr_metadata r) original))) r))"

definition save_failed_text :: string where
  "save_failed_text = newline # newline #
     ''[tool output exceeded the inline budget, but the full output could not be saved.]''"

definition spilled :: "string \<Rightarrow> string \<Rightarrow> nat \<Rightarrow> string \<Rightarrow> tool_result \<Rightarrow> tool_result" where
  "spilled why original preview_chars path r =
     set_result_text (pointer path (preview_text original preview_chars) why)
       (set_meta TOOL_OUTPUT_SPILLED_KEY (PBool True) r)"

definition spill_result ::
  "output_env \<Rightarrow> string \<Rightarrow> nat \<Rightarrow> string \<Rightarrow> tool_result \<Rightarrow> artifact_store \<Rightarrow> string option \<times> tool_result \<times> artifact_store" where
  "spill_result E why preview_chars original r S =
     (let r1 = spill_notes why original r
      in case existing_path E S r1 of
           Some path \<Rightarrow> (Some path, spilled why original preview_chars path r1, S)
         | None \<Rightarrow>
             (case write_output E original (tr_id r) (tr_type r) S of
                (Inr path, S1) \<Rightarrow>
                  (Some path, spilled why original preview_chars path (set_meta TOOL_OUTPUT_PATH_KEY (PStr path) r1), S1)
              | (Inl e, S1) \<Rightarrow>
                  (None, set_result_text (preview_text original (max 1 preview_chars) @ save_failed_text)
                     (set_meta SPILL_FAILED_KEY (PStr (exn_str e)) r1), S1)))"

definition prepare_result ::
  "output_env \<Rightarrow> nat \<Rightarrow> nat \<Rightarrow> tool_result \<Rightarrow> artifact_store \<Rightarrow> bool \<times> tool_result \<times> artifact_store" where
  "prepare_result E max_chars preview_chars r S =
     (let text = result_text r
      in if existing_path E S r \<noteq> None
         then ((case od_get (tr_metadata r) TOOL_OUTPUT_SPILLED_KEY of Some v \<Rightarrow> truthy v | None \<Rightarrow> True), r, S)
         else if max_chars = 0 \<or> length text \<le> max_chars then (False, r, S)
         else case spill_result E ''per_result'' preview_chars text r S of (p, r', S') \<Rightarrow> (p \<noteq> None, r', S'))"

section \<open>A batch of results\<close>

record pack_stats =
  result_count :: nat
  raw_chars :: nat
  model_chars :: nat
  spilled_count :: nat
  batch_limit_chars :: "nat option"
  remaining_chars :: "nat option"

text \<open>What replaces a saved text when \<open>room\<close> characters are left.\<close>

definition fit_pointer :: "string \<Rightarrow> string \<Rightarrow> string \<Rightarrow> nat \<Rightarrow> nat \<Rightarrow> string \<Rightarrow> string" where
  "fit_pointer why subject path room preview_cap visible =
     (let pointer_only = pointer path [] why
      in if length pointer_only \<le> room
         then let with_preview = pointer path (preview_text visible (min preview_cap (room - length pointer_only))) why
              in if length with_preview \<le> room then with_preview else pointer_only
         else bounded_omission room subject)"

definition fit_result ::
  "output_env \<Rightarrow> nat \<Rightarrow> nat option \<Rightarrow> tool_result \<Rightarrow> artifact_store \<Rightarrow> bool \<times> tool_result \<times> artifact_store" where
  "fit_result E preview_chars remaining r S =
     (let visible = result_text r
      in case remaining of
           None \<Rightarrow> (False, r, S)
         | Some room \<Rightarrow>
             (if length visible \<le> room then (False, r, S)
              else case (case existing_path E S r of
                           Some p \<Rightarrow> (Some p, r, S)
                         | None \<Rightarrow> spill_result E ''aggregate'' preview_chars visible r S) of
                     (Some path, r1, S1) \<Rightarrow>
                       (True, set_meta TOOL_OUTPUT_SPILL_REASON_KEY (PStr ''aggregate'')
                          (set_result_text (fit_pointer ''aggregate'' ''tool output'' path room room visible) r1), S1)
                   | (None, r1, S1) \<Rightarrow> (False, set_result_text (preview_text (result_text r1) room) r1, S1)))"

fun prepare_all :: "output_env \<Rightarrow> nat \<Rightarrow> nat \<Rightarrow> tool_result list \<Rightarrow> artifact_store \<Rightarrow> tool_result list \<times> artifact_store" where
  "prepare_all E mc pc [] S = ([], S)"
| "prepare_all E mc pc (r # rs) S =
     (case prepare_result E mc pc r S of (_, r', S1) \<Rightarrow>
        (case prepare_all E mc pc rs S1 of (rs', S2) \<Rightarrow> (r' # rs', S2)))"

fun pack_loop ::
  "output_env \<Rightarrow> nat \<Rightarrow> nat option \<Rightarrow> pack_stats \<Rightarrow> tool_result list \<Rightarrow> artifact_store \<Rightarrow>
   pack_stats \<times> tool_result list \<times> artifact_store" where
  "pack_loop E pc remaining st [] S = (st\<lparr>remaining_chars := remaining\<rparr>, [], S)"
| "pack_loop E pc remaining st (r # rs) S =
     (case fit_result E pc remaining r S of (sp, r', S1) \<Rightarrow>
        (let st' = st\<lparr>raw_chars := raw_chars st + raw_chars_of (tr_metadata r) (result_text r),
                      spilled_count := spilled_count st + (if sp then 1 else 0),
                      model_chars := model_chars st + length (result_text r')\<rparr>
         in case pack_loop E pc (map_option (\<lambda>m. m - length (result_text r')) remaining) st' rs S1 of
              (st'', rs', S2) \<Rightarrow> (st'', r' # rs', S2)))"

definition pack_tool_results ::
  "output_env \<Rightarrow> pyval \<Rightarrow> pyval \<Rightarrow> pyval option \<Rightarrow> tool_result list \<Rightarrow> artifact_store \<Rightarrow>
   pack_stats \<times> tool_result list \<times> artifact_store" where
  "pack_tool_results E max_result preview limit rs S =
     (let mc = as_positive_int (Some max_result) 80000; pc = as_positive_int (Some preview) 12000;
          lim = map_option (\<lambda>v. as_positive_int (Some v) 0) limit;
          st = \<lparr>result_count = length rs, raw_chars = 0, model_chars = 0, spilled_count = 0,
                batch_limit_chars = lim, remaining_chars = lim\<rparr>
      in case prepare_all E mc pc rs S of (rs1, S1) \<Rightarrow> pack_loop E pc lim st rs1 S1)"

section \<open>Older messages\<close>

record message =
  msg_role :: string
  msg_content :: string
  msg_metadata :: pydict

definition meta_true :: "string \<Rightarrow> pydict \<Rightarrow> bool" where
  "meta_true k m = (case od_get m k of Some v \<Rightarrow> truthy v | None \<Rightarrow> False)"

definition is_tool_history_message :: "message \<Rightarrow> bool" where
  "is_tool_history_message m \<longleftrightarrow>
     (msg_role m = ''tool'' \<and> meta_true ''tool_call_id'' (msg_metadata m)) \<or> meta_true ''tool_output_batch'' (msg_metadata m)"

definition call_id_of :: "pydict \<Rightarrow> string" where
  "call_id_of m = (case od_get m ''tool_call_id'' of Some (PStr s) \<Rightarrow> s | Some _ \<Rightarrow> [] | None \<Rightarrow> ''history'')"

definition history_notes :: "string \<Rightarrow> pydict \<Rightarrow> pydict" where
  "history_notes original m =
     od_put TOOL_OUTPUT_RAW_BYTES_KEY (PInt (int (utf8_length original)))
       (od_put TOOL_OUTPUT_RAW_CHARS_KEY (PInt (int (length original)))
         (od_put TOOL_OUTPUT_SPILL_REASON_KEY (PStr ''history'')
           (od_put TOOL_OUTPUT_SPILLED_KEY (PBool True) m)))"

text \<open>The path of the saved text: the one of the metadata if its file exists, or a new file.\<close>

definition history_path ::
  "output_env \<Rightarrow> string \<Rightarrow> pydict \<Rightarrow> artifact_store \<Rightarrow> string py_result \<times> pydict \<times> artifact_store" where
  "history_path E original m S =
     (case map_option (expanduser E) (path_of m) of
        Some q \<Rightarrow> if q \<in> od_keys (output_files S) then (Inr q, m, S)
                  else (case write_output E original (call_id_of m) ''tool-history'' S of
                          (Inr p, S1) \<Rightarrow> (Inr p, od_put TOOL_OUTPUT_PATH_KEY (PStr p) m, S1)
                        | (Inl e, S1) \<Rightarrow> (Inl e, m, S1))
      | None \<Rightarrow> (case write_output E original (call_id_of m) ''tool-history'' S of
                   (Inr p, S1) \<Rightarrow> (Inr p, od_put TOOL_OUTPUT_PATH_KEY (PStr p) m, S1)
                 | (Inl e, S1) \<Rightarrow> (Inl e, m, S1)))"

text \<open>One message, when \<open>room\<close> characters are allowed for it.\<close>

definition shrink_message ::
  "output_env \<Rightarrow> nat \<Rightarrow> nat \<Rightarrow> message \<Rightarrow> artifact_store \<Rightarrow> bool \<times> message \<times> artifact_store" where
  "shrink_message E preview_chars room m S =
     (case history_path E (msg_content m) (msg_metadata m) S of
        (Inl e, md, S1) \<Rightarrow> (False, m\<lparr>msg_metadata := md, msg_content := bounded_omission room ''historical tool output''\<rparr>, S1)
      | (Inr path, md, S1) \<Rightarrow>
          (True, m\<lparr>msg_metadata := history_notes (msg_content m) md,
                   msg_content := fit_pointer ''history'' ''historical tool output'' path room preview_chars (msg_content m)\<rparr>, S1))"

fun history_loop ::
  "output_env \<Rightarrow> nat \<Rightarrow> nat \<Rightarrow> nat \<Rightarrow> nat \<Rightarrow> message list \<Rightarrow> artifact_store \<Rightarrow> nat \<times> nat \<times> message list \<times> artifact_store" where
  "history_loop E pc mc tot count [] S = (tot, count, [], S)"
| "history_loop E pc mc tot count (m # ms) S =
     (if \<not> is_tool_history_message m
      then case history_loop E pc mc tot count ms S of (t, c, ms', S') \<Rightarrow> (t, c, m # ms', S')
      else if tot \<le> mc then (tot, count, m # ms, S)
      else (let len = length (msg_content m)
            in case shrink_message E pc (mc - (tot - len)) m S of (sp, m', S1) \<Rightarrow>
                 (case history_loop E pc mc (tot - len + length (msg_content m')) (if sp then count + 1 else count) ms S1 of
                    (t, c, ms', S') \<Rightarrow> (t, c, m' # ms', S'))))"

definition visible_total :: "message list \<Rightarrow> nat" where
  "visible_total ms = sum_list (map (\<lambda>m. length (msg_content m)) (filter is_tool_history_message ms))"

definition pack_tool_history_messages ::
  "output_env \<Rightarrow> pyval option \<Rightarrow> pyval \<Rightarrow> message list \<Rightarrow> artifact_store \<Rightarrow> pack_stats \<times> message list \<times> artifact_store" where
  "pack_tool_history_messages E limit preview ms S =
     (let pc = as_positive_int (Some preview) 12000; lim = map_option (\<lambda>v. as_positive_int (Some v) 0) limit;
          tot = visible_total ms;
          st = \<lparr>result_count = length (filter is_tool_history_message ms), raw_chars = tot, model_chars = tot,
                spilled_count = 0, batch_limit_chars = lim, remaining_chars = map_option (\<lambda>m. m - tot) lim\<rparr>
      in case lim of
           None \<Rightarrow> (st, ms, S)
         | Some mc \<Rightarrow>
             (case history_loop E pc mc tot 0 ms S of (t, c, ms', S') \<Rightarrow>
                (st\<lparr>model_chars := t, remaining_chars := Some (mc - t), spilled_count := c\<rparr>, ms', S')))"

definition pack_tool_history_and_results ::
  "output_env \<Rightarrow> pyval option \<Rightarrow> pyval \<Rightarrow> pyval \<Rightarrow> message list \<Rightarrow> tool_result list \<Rightarrow> artifact_store \<Rightarrow>
   (pack_stats \<times> pack_stats) \<times> message list \<times> tool_result list \<times> artifact_store" where
  "pack_tool_history_and_results E limit max_result preview ms rs S =
     (case pack_tool_results E max_result preview limit rs S of (st, rs', S1) \<Rightarrow>
        (let left = map_option (\<lambda>v. PInt (int (as_positive_int (Some v) 0 - model_chars st))) limit
         in case pack_tool_history_messages E left preview ms S1 of (hst, ms', S2) \<Rightarrow> ((hst, st), ms', rs', S2)))"

section \<open>Bounds\<close>

lemma preview_prefix: "prefix (preview_text t n) t" and preview_length: "length (preview_text t n) \<le> n"
  by (auto simp: preview_text_def Let_def take_is_prefix split: option.splits)

lemma result_text_set [simp]: "result_text (set_result_text s r) = s"
  by (simp add: result_text_def set_result_text_def)

lemma result_text_meta [simp]: "result_text (set_meta k v r) = result_text r"
  by (simp add: result_text_def set_meta_def)

lemma metadata_set_text [simp]: "tr_metadata (set_result_text s r) = tr_metadata r"
  by (simp add: set_result_text_def)

lemma metadata_set_meta [simp]: "tr_metadata (set_meta k v r) = od_put k v (tr_metadata r)"
  by (simp add: set_meta_def)

lemma pointer_nonempty: "pointer p v w \<noteq> []"
  by (simp add: pointer_def join_Cons_nonempty split: if_splits)

lemma omission_nonempty: "bounded_omission n s \<noteq> []"
  by (simp add: bounded_omission_def omission_notice_def)

lemma fit_pointer_nonempty: "fit_pointer w s p room c v \<noteq> []"
  by (simp add: fit_pointer_def Let_def pointer_nonempty omission_nonempty)

lemma fit_pointer_bound:
  "length (fit_pointer w s p room c v) \<le> room \<or> (room = 0 \<and> fit_pointer w s p room c v = omission_notice s)"
  using pointer_nonempty [of p "[]" w]
  by (auto simp: fit_pointer_def Let_def bounded_omission_def)

lemma fit_result_bound:
  assumes "fit_result E pc (Some room) r S = (sp, r', S')"
  shows "length (result_text r') \<le> room \<or> result_text r' = omission_notice ''tool output''"
proof (cases "length (result_text r) \<le> room")
  case True
  with assms show ?thesis by (simp add: fit_result_def Let_def)
next
  case False
  obtain p r1 S1 where mid: "(case existing_path E S r of Some p \<Rightarrow> (Some p, r, S)
      | None \<Rightarrow> spill_result E ''aggregate'' pc (result_text r) r S) = (p, r1, S1)" by (metis prod_cases3)
  show ?thesis
  proof (cases p)
    case None
    with assms False mid preview_length show ?thesis by (auto simp: fit_result_def Let_def)
  next
    case (Some path)
    with assms False mid have "result_text r' = fit_pointer ''aggregate'' ''tool output'' path room room (result_text r)"
      by (auto simp: fit_result_def Let_def)
    then show ?thesis using fit_pointer_bound by metis
  qed
qed

definition counted :: "tool_result \<Rightarrow> nat" where
  "counted r = (if result_text r = omission_notice ''tool output'' then 0 else length (result_text r))"

definition text_total :: "tool_result list \<Rightarrow> nat" where
  "text_total rs = sum_list (map (\<lambda>r. length (result_text r)) rs)"

lemma pack_loop_bound:
  "pack_loop E pc (Some room) st rs S = (st', rs', S') \<Longrightarrow>
     sum_list (map counted rs') \<le> room \<and> length rs' = length rs \<and>
     model_chars st' = model_chars st + text_total rs' \<and> remaining_chars st' = Some (room - text_total rs')"
proof (induction rs arbitrary: room st S st' rs' S')
  case (Cons r rs)
  obtain sp r1 S1 where fit: "fit_result E pc (Some room) r S = (sp, r1, S1)" by (metis prod_cases3)
  define st1 where "st1 = st\<lparr>raw_chars := raw_chars st + raw_chars_of (tr_metadata r) (result_text r),
    spilled_count := spilled_count st + (if sp then 1 else 0), model_chars := model_chars st + length (result_text r1)\<rparr>"
  obtain st2 rs2 S2 where rest: "pack_loop E pc (Some (room - length (result_text r1))) st1 rs S1 = (st2, rs2, S2)"
    by (metis prod_cases3)
  have res: "st' = st2" "rs' = r1 # rs2" "S' = S2"
    using Cons.prems by (auto simp: fit rest [unfolded st1_def] Let_def)
  note IH = Cons.IH [OF rest]
  have "counted r1 = 0 \<or> (counted r1 = length (result_text r1) \<and> length (result_text r1) \<le> room)"
    using fit_result_bound [OF fit] by (auto simp: counted_def)
  with IH have "counted r1 + sum_list (map counted rs2) \<le> room" by linarith
  with IH show ?case by (simp add: res text_total_def st1_def)
qed (simp add: text_total_def)

lemma prepare_all_length: "length (fst (prepare_all E mc pc rs S)) = length rs"
  by (induction rs arbitrary: S) (simp_all add: case_prod_unfold)

section \<open>Nothing is lost\<close>

definition extends :: "artifact_store \<Rightarrow> artifact_store \<Rightarrow> bool" where
  "extends S S' \<longleftrightarrow> root S' = root S \<and> (\<forall>p t. od_get (output_files S) p = Some t \<longrightarrow> od_get (output_files S') p = Some t)"

lemma extends_refl [simp]: "extends S S"
  by (simp add: extends_def)

lemma extends_trans: "extends S T \<Longrightarrow> extends T U \<Longrightarrow> extends S U"
  by (simp add: extends_def)

lemma allocate_spec:
  "allocate E pre text n S = (res, S') \<Longrightarrow> extends S S' \<and>
     (\<forall>p. res = Inr p \<longrightarrow> od_get (output_files S') p = Some text \<and> prefix (root S @ ''/'') p)"
proof (induction n arbitrary: S)
  case (Suc n)
  show ?case
  proof (cases "artifact_path E S pre \<in> od_keys (output_files S)")
    case True
    with Suc.prems have "allocate E pre text n (S\<lparr>drawn := Suc (drawn S)\<rparr>) = (res, S')" by (simp add: Let_def)
    from Suc.IH [OF this] show ?thesis by (simp add: extends_def)
  next
    case False
    then have "od_get (output_files S) (artifact_path E S pre) = None" by (simp add: od_get_None_iff)
    moreover have "prefix (root S @ ''/'') (artifact_path E S pre)" by (simp add: artifact_path_def)
    ultimately show ?thesis
      using Suc.prems False by (auto simp: Let_def extends_def split: if_splits)
  qed
qed auto

lemma write_output_spec:
  "write_output E text i t S = (res, S') \<Longrightarrow> extends S S' \<and>
     (\<forall>p. res = Inr p \<longrightarrow> od_get (output_files S') p = Some text \<and> prefix (root S @ ''/'') p)"
  by (auto simp: write_output_def dest: allocate_spec split: if_splits)

lemmas meta_keys = TOOL_OUTPUT_PATH_KEY_def TOOL_OUTPUT_RAW_CHARS_KEY_def TOOL_OUTPUT_RAW_BYTES_KEY_def
  TOOL_OUTPUT_SPILLED_KEY_def TOOL_OUTPUT_SPILL_REASON_KEY_def SPILL_FAILED_KEY_def

lemma path_of_put [simp]:
  "path_of (od_put k v m) = (if k = TOOL_OUTPUT_PATH_KEY
     then (case v of PStr s \<Rightarrow> if s = [] then None else Some s | _ \<Rightarrow> None) else path_of m)"
  by (simp add: path_of_def)

definition save_failed :: "tool_result \<Rightarrow> bool" where
  "save_failed r \<longleftrightarrow> od_get (tr_metadata r) SPILL_FAILED_KEY \<noteq> None"

lemma save_failed_set [simp]:
  "save_failed (set_result_text t r) = save_failed r"
  "save_failed (set_meta k v r) = (k = SPILL_FAILED_KEY \<or> save_failed r)"
  by (simp_all add: save_failed_def)

text \<open>Where the text \<open>t\<close> of a result is: still in the result, in the file that its metadata names,
  or lost in a failure to save that its metadata reports.\<close>

definition kept :: "string \<Rightarrow> tool_result \<Rightarrow> artifact_store \<Rightarrow> bool" where
  "kept t r S \<longleftrightarrow>
     (result_text r = t \<and> path_of (tr_metadata r) = None) \<or>
     (\<exists>p. path_of (tr_metadata r) = Some p \<and> od_get (output_files S) p = Some t \<and> prefix (root S @ ''/'') p \<and>
        (t \<noteq> [] \<longrightarrow> result_text r \<noteq> [])) \<or>
     save_failed r"

lemma kept_extends: "kept t r S \<Longrightarrow> extends S S' \<Longrightarrow> kept t r S'"
  unfolding kept_def extends_def by metis

lemma spill_notes_sel [simp]:
  "path_of (tr_metadata (spill_notes w t r)) = path_of (tr_metadata r)"
  "save_failed (spill_notes w t r) = save_failed r"
  by (simp_all add: spill_notes_def meta_keys save_failed_def)

lemma spill_fresh:
  assumes "path_of (tr_metadata r) = None" and "result_text r = t" and "spill_result E w pc t r S = (p, r', S')"
  shows "extends S S' \<and> kept t r' S' \<and> (\<forall>q. p = Some q \<longrightarrow> path_of (tr_metadata r') = Some q \<and> od_get (output_files S') q = Some t \<and>
    prefix (root S @ ''/'') q) \<and> (p = None \<longrightarrow> save_failed r')"
proof -
  have none: "existing_path E S (spill_notes w t r) = None" using assms(1) by (simp add: existing_path_def)
  obtain res S1 where w: "write_output E t (tr_id r) (tr_type r) S = (res, S1)" by (metis prod.collapse)
  note spec = write_output_spec [OF w]
  show ?thesis
  proof (cases res)
    case (Inl e)
    with assms(3) none w spec show ?thesis
      by (auto simp: spill_result_def Let_def kept_def)
  next
    case (Inr q)
    then have q: "od_get (output_files S1) q = Some t" "prefix (root S @ ''/'') q" "extends S S1" using spec by auto
    then have "q \<noteq> []" by auto
    moreover have "r' = spilled w t pc q (set_meta TOOL_OUTPUT_PATH_KEY (PStr q) (spill_notes w t r))" "p = Some q" "S' = S1"
      using assms(3) none w Inr by (auto simp: spill_result_def Let_def)
    ultimately show ?thesis
      using q by (auto simp: spilled_def kept_def pointer_nonempty meta_keys extends_def)
  qed
qed

text \<open>A path below the root is a full one: expanding the home directory leaves it alone.\<close>

definition root_expanded :: "output_env \<Rightarrow> artifact_store \<Rightarrow> bool" where
  "root_expanded E S \<longleftrightarrow> (\<forall>p. prefix (root S @ ''/'') p \<longrightarrow> expanduser E p = p)"

lemma root_expanded_extends: "root_expanded E S \<Longrightarrow> extends S S' \<Longrightarrow> root_expanded E S'"
  by (simp add: root_expanded_def extends_def)

lemma saved_exists:
  "root_expanded E S \<Longrightarrow> path_of (tr_metadata r) = Some p \<Longrightarrow> od_get (output_files S) p = Some t \<Longrightarrow>
     prefix (root S @ ''/'') p \<Longrightarrow> existing_path E S r = Some p"
  by (simp add: existing_path_def root_expanded_def Let_def od_get_Some_key)

lemma prepare_kept:
  assumes "path_of (tr_metadata r) = None" and "prepare_result E mc pc r S = (b, r', S')"
  shows "extends S S' \<and> kept (result_text r) r' S'"
proof -
  have "existing_path E S r = None" using assms(1) by (simp add: existing_path_def)
  with assms show ?thesis
    using spill_fresh [OF assms(1) refl, of E "''per_result''" pc S]
    by (auto simp: prepare_result_def Let_def kept_def split: if_splits prod.splits)
qed

lemma spill_keys:
  assumes "spill_result E w pc t r S = (p, r', S')"
  shows "extends S S' \<and> (save_failed r \<longrightarrow> save_failed r')"
proof -
  obtain res S1 where w: "write_output E t (tr_id r) (tr_type r) S = (res, S1)" by (metis prod.collapse)
  with assms write_output_spec [OF w] show ?thesis
    by (auto simp: spill_result_def Let_def spilled_def split: option.splits sum.splits)
qed

lemma fit_keys:
  assumes "fit_result E pc room r S = (sp, r', S')"
  shows "extends S S' \<and> (save_failed r \<longrightarrow> save_failed r')"
proof -
  obtain p r1 S1 where mid: "(case existing_path E S r of Some p \<Rightarrow> (Some p, r, S)
      | None \<Rightarrow> spill_result E ''aggregate'' pc (result_text r) r S) = (p, r1, S1)" by (metis prod_cases3)
  then have "extends S S1 \<and> (save_failed r \<longrightarrow> save_failed r1)"
    using spill_keys by (auto split: option.splits)
  with assms mid show ?thesis
    by (auto simp: fit_result_def Let_def split: option.splits if_splits)
qed

lemma fit_kept:
  assumes "root_expanded E S" and "kept t r S" and fit: "fit_result E pc room r S = (sp, r', S')"
  shows "kept t r' S'"
proof -
  consider (failed) "save_failed r"
    | (plain) "result_text r = t" "path_of (tr_metadata r) = None"
    | (saved) p where "path_of (tr_metadata r) = Some p" "od_get (output_files S) p = Some t" "prefix (root S @ ''/'') p"
        "t \<noteq> [] \<longrightarrow> result_text r \<noteq> []"
    using assms(2) unfolding kept_def by (elim disjE exE conjE) simp_all
  then show ?thesis
  proof cases
    case failed
    then show ?thesis using fit_keys [OF fit] by (auto simp: kept_def)
  next
    case plain
    then have none: "existing_path E S r = None" by (simp add: existing_path_def)
    obtain p r1 S1 where sp: "spill_result E ''aggregate'' pc (result_text r) r S = (p, r1, S1)" by (metis prod_cases3)
    note fresh = spill_fresh [OF plain(2,1) sp [unfolded plain(1)]]
    from plain none sp fresh fit show ?thesis
      by (cases p) (auto simp: fit_result_def Let_def kept_def meta_keys fit_pointer_nonempty extends_def
          split: option.splits if_splits)
  next
    case (saved p)
    then have "existing_path E S r = Some p" using assms(1) saved_exists by blast
    with saved fit show ?thesis
      by (auto simp: fit_result_def Let_def kept_def meta_keys fit_pointer_nonempty split: option.splits if_splits)
  qed
qed

lemma prepare_all_kept:
  assumes "\<forall>r \<in> set rs. path_of (tr_metadata r) = None" and "prepare_all E mc pc rs S = (rs', S')"
  shows "extends S S' \<and> list_all2 (\<lambda>r r'. kept (result_text r) r' S') rs rs'"
  using assms
proof (induction rs arbitrary: S rs' S')
  case (Cons r rs)
  obtain b r1 S1 where p: "prepare_result E mc pc r S = (b, r1, S1)" by (metis prod_cases3)
  obtain rs2 S2 where rest: "prepare_all E mc pc rs S1 = (rs2, S2)" by (metis prod.collapse)
  from Cons.prems p rest have res: "rs' = r1 # rs2" "S' = S2" by auto
  have "path_of (tr_metadata r) = None" using Cons.prems(1) by simp
  note one = prepare_kept [OF this p]
  have IH: "extends S1 S2 \<and> list_all2 (\<lambda>r r'. kept (result_text r) r' S2) rs rs2"
    using Cons.IH [OF _ rest] Cons.prems(1) by simp
  with one kept_extends extends_trans show ?case unfolding res by (metis list_all2_Cons)
qed simp

lemma pack_loop_kept:
  assumes "root_expanded E S" and "list_all2 (\<lambda>t r. kept t r S) ts rs" and "pack_loop E pc room st rs S = (st', rs', S')"
  shows "extends S S' \<and> list_all2 (\<lambda>t r. kept t r S') ts rs'"
  using assms
proof (induction rs arbitrary: ts room st S st' rs' S')
  case (Cons r rs)
  obtain t ts2 where ts: "ts = t # ts2" "kept t r S" "list_all2 (\<lambda>t r. kept t r S) ts2 rs"
    using Cons.prems(2) by (auto simp: list_all2_Cons2)
  obtain sp r1 S1 where fit: "fit_result E pc room r S = (sp, r1, S1)" by (metis prod_cases3)
  note step = fit_keys [OF fit] fit_kept [OF Cons.prems(1) ts(2) fit]
  have "list_all2 (\<lambda>t r. kept t r S1) ts2 rs"
    using ts(3) by (rule list_all2_mono) (use step kept_extends in blast)
  moreover have "root_expanded E S1" using Cons.prems(1) step root_expanded_extends by blast
  ultimately have IH: "extends S1 S2 \<and> list_all2 (\<lambda>t r. kept t r S2) ts2 rs2"
    if "pack_loop E pc room' st2 rs S1 = (st3, rs2, S2)" for room' st2 st3 rs2 S2
    using Cons.IH that by blast
  obtain room' st2 st3 rs2 S2 where rest: "pack_loop E pc room' st2 rs S1 = (st3, rs2, S2)" "rs' = r1 # rs2" "S' = S2"
    using Cons.prems(3) by (auto simp: fit Let_def split: prod.splits)
  with IH [OF rest(1)] step show ?case
    unfolding rest ts(1) by (metis extends_trans kept_extends list_all2_Cons)
qed simp


definition demo_result :: "string \<Rightarrow> tool_result" where
  "demo_result t = \<lparr>tr_success = True, tr_output = Some t, tr_error = None, tr_id = ''1'', tr_type = ''terminal'', tr_metadata = []\<rparr>"

definition demo_output_env :: output_env where
  "demo_output_env = \<lparr>uid = show_nat, can_mkdir = True, can_write = \<lambda>_. True, expanduser = id\<rparr>"

definition demo_store :: artifact_store where
  "demo_store = \<lparr>root = ''/tmp'', output_files = [], drawn = 0\<rparr>"


section \<open>Older tool messages\<close>

definition history_notice :: string where
  "history_notice = omission_notice ''historical tool output''"

definition same_call :: "message \<Rightarrow> message \<Rightarrow> bool" where
  "same_call m m' \<longleftrightarrow> msg_role m' = msg_role m \<and> is_tool_history_message m' = is_tool_history_message m \<and>
     od_get (msg_metadata m') ''tool_call_id'' = od_get (msg_metadata m) ''tool_call_id''"

lemma history_path_meta:
  "history_path E t m S = (res, m', S') \<Longrightarrow> k \<noteq> TOOL_OUTPUT_PATH_KEY \<Longrightarrow> od_get m' k = od_get m k"
  by (auto simp: history_path_def split: option.splits if_splits prod.splits sum.splits)

lemma shrink_message_same:
  assumes "shrink_message E pc room m S = (sp, m', S')"
  shows "same_call m m'"
proof -
  obtain res md S1 where hp: "history_path E (msg_content m) (msg_metadata m) S = (res, md, S1)" by (metis prod_cases3)
  have "od_get md ''tool_call_id'' = od_get (msg_metadata m) ''tool_call_id''"
    "od_get md ''tool_output_batch'' = od_get (msg_metadata m) ''tool_output_batch''"
    using history_path_meta [OF hp] by (simp_all add: meta_keys)
  with assms hp show ?thesis
    by (auto simp: shrink_message_def same_call_def is_tool_history_message_def meta_true_def history_notes_def meta_keys
        split: sum.splits)
qed

lemma omission_bound: "length (bounded_omission room s) \<le> room \<or> (room = 0 \<and> bounded_omission room s = omission_notice s)"
  by (auto simp: bounded_omission_def)

lemma shrink_message_bound:
  assumes "shrink_message E pc room m S = (sp, m', S')"
  shows "length (msg_content m') \<le> room \<or> (room = 0 \<and> msg_content m' = history_notice)"
proof -
  obtain res md S1 where hp: "history_path E (msg_content m) (msg_metadata m) S = (res, md, S1)" by (metis prod_cases3)
  show ?thesis
  proof (cases res)
    case (Inl e)
    then have "msg_content m' = bounded_omission room ''historical tool output''"
      using assms hp by (auto simp: shrink_message_def)
    then show ?thesis using omission_bound unfolding history_notice_def by metis
  next
    case (Inr p)
    then have "msg_content m' = fit_pointer ''history'' ''historical tool output'' p room pc (msg_content m)"
      using assms hp by (auto simp: shrink_message_def)
    then show ?thesis using fit_pointer_bound unfolding history_notice_def by metis
  qed
qed

lemma shrink_message_nonempty:
  "shrink_message E pc room m S = (sp, m', S') \<Longrightarrow> msg_content m' \<noteq> []"
  by (auto simp: shrink_message_def fit_pointer_nonempty omission_nonempty split: prod.splits sum.splits)

lemma history_loop_done: "tot \<le> mc \<Longrightarrow> history_loop E pc mc tot c ms S = (tot, c, ms, S)"
  by (induction ms) (simp_all add: case_prod_unfold)

lemma visible_total_Cons:
  "visible_total (m # ms) = (if is_tool_history_message m then length (msg_content m) else 0) + visible_total ms"
  by (simp add: visible_total_def)

lemma history_loop_spec:
  assumes "history_loop E pc mc tot c ms S = (t, c', ms', S')" and "tot = k + visible_total ms"
  shows "t = k + visible_total ms' \<and> list_all2 same_call ms ms' \<and>
    list_all2 (\<lambda>m m'. \<not> is_tool_history_message m \<longrightarrow> m' = m) ms ms' \<and>
    (t \<le> mc \<or> (\<forall>m \<in> set ms'. is_tool_history_message m \<longrightarrow> msg_content m = history_notice))"
  using assms
proof (induction ms arbitrary: tot c S t c' ms' S' k)
  case (Cons m ms)
  show ?case
  proof (cases "is_tool_history_message m \<and> \<not> tot \<le> mc")
    case False
    show ?thesis
    proof (cases "tot \<le> mc")
      case True
      have "history_loop E pc mc tot c (m # ms) S = (tot, c, m # ms, S)" by (rule history_loop_done) (rule True)
      with Cons.prems(1) have "t = tot" "ms' = m # ms" by simp_all
      with True Cons.prems(2) show ?thesis by (simp add: list_all2_same same_call_def)
    next
      case tot: False
      with False have no: "\<not> is_tool_history_message m" by simp
      obtain t2 c2 ms2 S2 where rest: "history_loop E pc mc tot c ms S = (t2, c2, ms2, S2)" by (metis prod_cases4)
      with Cons.prems(1) no have res: "t = t2" "ms' = m # ms2" by auto
      have "tot = k + visible_total ms" using Cons.prems(2) no by (simp add: visible_total_Cons)
      from Cons.IH [OF rest this] no show ?thesis by (auto simp: res visible_total_Cons same_call_def)
    qed
  next
    case True
    let ?len = "length (msg_content m)"
    obtain sp m1 S1 where sh: "shrink_message E pc (mc - (tot - ?len)) m S = (sp, m1, S1)" by (metis prod_cases3)
    let ?tot = "tot - ?len + length (msg_content m1)"
    obtain t2 c2 ms2 S2 where rest: "history_loop E pc mc ?tot (if sp then c + 1 else c) ms S1 = (t2, c2, ms2, S2)"
      by (metis prod_cases4)
    have res: "t = t2" "ms' = m1 # ms2" using Cons.prems(1) True sh rest by (auto simp: Let_def)
    have same: "same_call m m1" by (rule shrink_message_same) (rule sh)
    have others: "tot - ?len = k + visible_total ms" using Cons.prems(2) True by (simp add: visible_total_Cons)
    then have "?tot = (k + length (msg_content m1)) + visible_total ms" by simp
    note IH = Cons.IH [OF rest this]
    have m1: "is_tool_history_message m1" using same True by (simp add: same_call_def)
    have "t2 \<le> mc \<or> msg_content m1 = history_notice"
    proof (cases "msg_content m1 = history_notice")
      case no: False
      have "0 < length (msg_content m1)" using shrink_message_nonempty [OF sh] by simp
      with no shrink_message_bound [OF sh] have "?tot \<le> mc" by linarith
      with rest have "t2 = ?tot" by (simp add: history_loop_done)
      with \<open>?tot \<le> mc\<close> show ?thesis by simp
    qed simp
    with IH m1 same True show ?thesis by (auto simp: res visible_total_Cons)
  qed
qed (simp add: visible_total_def)

text \<open>Packing the tool messages of older turns: afterwards they fit the limit together, or every
  one of them has been reduced to the one-line notice; the statistics count them exactly. Other
  messages are untouched, and each tool message keeps its place, its role and the identifier of the
  call it answers.\<close>

theorem packed_history_within_budget:
  assumes "pack_tool_history_messages E (Some limit) preview ms S = (st, ms', S')"
  shows "(visible_total ms' \<le> as_positive_int (Some limit) 0 \<or>
      (\<forall>m \<in> set ms'. is_tool_history_message m \<longrightarrow> msg_content m = history_notice)) \<and>
    model_chars st = visible_total ms' \<and> length ms' = length ms \<and>
    (\<forall>i < length ms. (\<not> is_tool_history_message (ms ! i) \<longrightarrow> ms' ! i = ms ! i) \<and> msg_role (ms' ! i) = msg_role (ms ! i) \<and>
       od_get (msg_metadata (ms' ! i)) ''tool_call_id'' = od_get (msg_metadata (ms ! i)) ''tool_call_id'')"
proof -
  let ?mc = "as_positive_int (Some limit) 0" and ?pc = "as_positive_int (Some preview) 12000"
  obtain t c ms2 S2 where run: "history_loop E ?pc ?mc (visible_total ms) 0 ms S = (t, c, ms2, S2)" by (metis prod_cases4)
  then have res: "ms' = ms2" "model_chars st = t" using assms by (auto simp: pack_tool_history_messages_def Let_def)
  from history_loop_spec [OF run, of 0] show ?thesis
    by (auto simp: res list_all2_conv_all_nth same_call_def)
qed

definition demo_message :: "string \<Rightarrow> message" where
  "demo_message t = \<lparr>msg_role = ''tool'', msg_content = t, msg_metadata = [(''tool_call_id'', PStr ''c1'')]\<rparr>"

theorem packed_history_within_budget_witness:
  "od_get (msg_metadata (fst (snd (pack_tool_history_messages demo_output_env (Some (PInt 3)) (PInt 5)
     [demo_message ''long text'', demo_message ''b''] demo_store)) ! 0)) ''tool_call_id'' = Some (PStr ''c1'')"
proof -
  let ?ms = "[demo_message ''long text'', demo_message ''b'']"
  obtain st ms' S' where run: "pack_tool_history_messages demo_output_env (Some (PInt 3)) (PInt 5) ?ms demo_store = (st, ms', S')"
    by (metis prod_cases3)
  from packed_history_within_budget [OF run]
  have "od_get (msg_metadata (ms' ! 0)) ''tool_call_id'' = od_get (msg_metadata (?ms ! 0)) ''tool_call_id''"
    by (metis length_Cons zero_less_Suc)
  with run show ?thesis by (simp add: demo_message_def)
qed

end
