(* ===== verification/Recurring_Jobs.thy ===== *)
theory Recurring_Jobs
  imports Dict_Utils "HOL-Library.Multiset"
begin

text \<open>
  The recurring jobs of the hub (\<open>plugins/hub/recurring_jobs.py\<close>): prompts that the coordinator sends
  on a schedule, with a cap on the messages per hour and a state that survives a restart.

  The configuration, the sending of a message, \<open>str()\<close> of a value that is no string, and whether
  the state file can be written are the environment. The result of a run carries the messages it
  tried to send. The jobs of a tick have different names and touch only their own entry, so they
  are run one after the other. A schedule is a number of seconds a float can hold. The \<open>sent\<close> list of an entry is a list whenever it is there.
\<close>

section \<open>Schedules\<close>

definition JOB_RULES :: string where
  "JOB_RULES = ''Job rules: never merge, approve, close, push or restart anything. Report what you find and ask the operator for those actions.''"

definition MIN_SCHEDULE_SECONDS :: nat where "MIN_SCHEDULE_SECONDS = 60"
definition DEFAULT_MAX_MESSAGES_PER_HOUR :: int where "DEFAULT_MAX_MESSAGES_PER_HOUR = 6"
definition WINDOW_SECONDS :: real where "WINDOW_SECONDS = 3600"

text \<open>The jobs with their schedule and prompt.\<close>

definition JOB_DEFAULTS :: "(string \<times> string \<times> string) list" where
  "JOB_DEFAULTS =
     [(''koordinator_refresh'', ''30m'',
       ''Refresh your session: re-read the work queue and each lane'' @ [CHR 0x27] @ ''s latest status, and flag any lane that has stalled.''),
      (''idle_sweep'', ''15m'',
       ''Idle sweep: list the agents that are idle while their lane still has open work, and wake each of them with one message.''),
      (''re_review'', ''30m'',
       ''Re-review check: find pull requests with open review findings that have new commits since the last review, and ask for a fresh review of each.''),
      (''kpi_rebuild'', ''1h'',
       ''Rebuild the KPI dashboard and its artifact pages from current data, and report anything that changed materially.''),
      (''hub_heartbeat'', ''5m'',
       ''Hub heartbeat: check for undelivered messages and for agents that have gone offline, and report any you find.'')]"

definition default_job_config :: "(string, pydict) odict" where
  "default_job_config =
     map (\<lambda>(name, schedule, prompt).
       (name, [(''enabled'', PBool False), (''schedule'', PStr schedule), (''target'', PStr ''koordinator''),
               (''prompt'', PStr prompt), (''max_messages_per_hour'', PInt DEFAULT_MAX_MESSAGES_PER_HOUR)])) JOB_DEFAULTS"

text \<open>One optional group \<open>(\d+)u\<close> of the pattern: the number before the unit, and the rest.\<close>

definition take_unit :: "char \<Rightarrow> string \<Rightarrow> string option \<times> string" where
  "take_unit u s =
     (let ds = takeWhile is_digit s; rest = dropWhile is_digit s
      in if ds \<noteq> [] \<and> rest \<noteq> [] \<and> hd rest = u then (Some ds, tl rest) else (None, s))"

text \<open>\<open>int(g or 0)\<close> of a group; \<open>int\<close> refuses more than 4300 digits.\<close>

definition group_value :: "string option \<Rightarrow> nat py_result" where
  "group_value g =
     (case g of
        None \<Rightarrow> Inr 0
      | Some ds \<Rightarrow> if length ds > 4300 then Inl (ValueError ''Exceeds the limit for integer string conversion'')
                   else Inr (case digits_value False 0 ds of Some n \<Rightarrow> n | None \<Rightarrow> 0))"

definition parse_schedule :: "string \<Rightarrow> nat py_result" where
  "parse_schedule text =
     (let s = str_lower (str_strip text);
          (h, s1) = take_unit CHR ''h'' s; (m, s2) = take_unit CHR ''m'' s1; (sec, s3) = take_unit CHR ''s'' s2
      in if s3 \<noteq> [] \<or> (h = None \<and> m = None \<and> sec = None) then Inl (ValueError ''invalid schedule'')
         else py_bind (group_value h) (\<lambda>hours. py_bind (group_value m) (\<lambda>minutes. py_bind (group_value sec) (\<lambda>seconds.
                let tot = hours * 3600 + minutes * 60 + seconds
                in if tot < MIN_SCHEDULE_SECONDS then Inl (ValueError ''schedule is under 60s'') else Inr tot))))"

section \<open>Jobs\<close>

datatype send_outcome = Delivered | NotAccepted | SendFailed string

record job_env =
  config_get :: "string \<Rightarrow> pyval option"
  send_message :: "string \<Rightarrow> string \<Rightarrow> string \<Rightarrow> send_outcome"
  py_str :: "pyval \<Rightarrow> string"
  state_writable :: bool

record recurring_jobs =
  job_state :: "(string, pydict) odict option"
  state_file :: "(string, pydict) odict option"
  running :: "string list"
  warned :: "string list"

definition new_jobs :: "(string, pydict) odict option \<Rightarrow> recurring_jobs" where
  "new_jobs f = \<lparr>job_state = None, state_file = f, running = [], warned = []\<rparr>"

definition read_state :: "recurring_jobs \<Rightarrow> (string, pydict) odict" where
  "read_state J = (case job_state J of Some st \<Rightarrow> st | None \<Rightarrow> (case state_file J of Some f \<Rightarrow> f | None \<Rightarrow> []))"

definition entry :: "string \<Rightarrow> recurring_jobs \<Rightarrow> pydict" where
  "entry name J = od_get_default (read_state J) name []"

definition put_entry :: "string \<Rightarrow> pydict \<Rightarrow> recurring_jobs \<Rightarrow> recurring_jobs" where
  "put_entry name e J = J\<lparr>job_state := Some (od_put name e (read_state J))\<rparr>"

definition write_state :: "job_env \<Rightarrow> recurring_jobs \<Rightarrow> recurring_jobs" where
  "write_state E J = (if state_writable E then J\<lparr>state_file := Some (read_state J), job_state := Some (read_state J)\<rparr>
                      else J\<lparr>job_state := Some (read_state J)\<rparr>)"

definition setting :: "job_env \<Rightarrow> string \<Rightarrow> string \<Rightarrow> pyval" where
  "setting E name k =
     (case config_get E (''plugins.hub.hub_jobs.'' @ name @ ''.'' @ k) of
        Some v \<Rightarrow> v
      | None \<Rightarrow> od_get_default (od_get_default default_job_config name []) k PNone)"

fun number :: "pyval \<Rightarrow> real option" where
  "number (PInt i) = Some (real_of_int i)"
| "number (PFloat r) = Some r"
| "number (PBool b) = Some (if b then 1 else 0)"
| "number _ = None"

definition schedule_of :: "job_env \<Rightarrow> string \<Rightarrow> nat py_result" where
  "schedule_of E name = parse_schedule (case setting E name ''schedule'' of PStr s \<Rightarrow> s | v \<Rightarrow> py_str E v)"

definition is_due :: "job_env \<Rightarrow> string \<Rightarrow> real \<Rightarrow> recurring_jobs \<Rightarrow> bool \<times> recurring_jobs" where
  "is_due E name now J =
     (if setting E name ''enabled'' \<noteq> PBool True then (False, J)
      else case schedule_of E name of
             Inl _ \<Rightarrow> (False, J\<lparr>warned := List.insert name (warned J)\<rparr>)
           | Inr interval \<Rightarrow>
               (let J1 = put_entry name (entry name J) (J\<lparr>warned := removeAll name (warned J)\<rparr>)
                in case (case od_get (entry name J1) ''last_run'' of Some v \<Rightarrow> number v | None \<Rightarrow> None) of
                     Some lr \<Rightarrow>
                       if lr > now
                       then (False, write_state E (put_entry name (od_put ''last_run'' (PFloat now) (entry name J1)) J1))
                       else (now - lr \<ge> real interval, J1)
                   | None \<Rightarrow> (False, write_state E (put_entry name (od_put ''last_run'' (PFloat now) (entry name J1)) J1))))"

definition item_text :: "job_env \<Rightarrow> pyval \<Rightarrow> string" where
  "item_text E v = (case v of PStr s \<Rightarrow> s | _ \<Rightarrow> py_str E v)"

definition targets :: "job_env \<Rightarrow> pyval \<Rightarrow> string list" where
  "targets E v =
     (let items = (case v of PList xs \<Rightarrow> xs | _ \<Rightarrow> [v])
      in map (\<lambda>x. str_strip (item_text E x)) (filter (\<lambda>x. truthy x \<and> str_strip (item_text E x) \<noteq> []) items))"

definition sent_times :: "pydict \<Rightarrow> real list" where
  "sent_times e = (case od_get e ''sent'' of Some (PList xs) \<Rightarrow> List.map_filter number xs | _ \<Rightarrow> [])"

definition recent :: "real \<Rightarrow> real \<Rightarrow> bool" where
  "recent now t \<longleftrightarrow> now - WINDOW_SECONDS < t \<and> t \<le> now"

text \<open>\<open>max(0, int(v))\<close>; here a boolean is a number.\<close>

definition message_cap :: "job_env \<Rightarrow> string \<Rightarrow> nat" where
  "message_cap E name =
     nat (case setting E name ''max_messages_per_hour'' of
        PInt i \<Rightarrow> max 0 i
      | PBool b \<Rightarrow> (if b then 1 else 0)
      | PFloat r \<Rightarrow> max 0 (if 0 \<le> r then \<lfloor>r\<rfloor> else \<lceil>r\<rceil>)
      | PStr s \<Rightarrow> (case int_of_text s of Some i \<Rightarrow> max 0 i | None \<Rightarrow> DEFAULT_MAX_MESSAGES_PER_HOUR)
      | _ \<Rightarrow> DEFAULT_MAX_MESSAGES_PER_HOUR)"

definition default_prompt :: "string \<Rightarrow> string" where
  "default_prompt name = (case od_get JOB_DEFAULTS name of Some (_, p) \<Rightarrow> p | None \<Rightarrow> [])"

definition job_content :: "job_env \<Rightarrow> string \<Rightarrow> string" where
  "job_content E name =
     (let v = setting E name ''prompt''
      in str_strip (if truthy v then item_text E v else default_prompt name) @ [newline, newline] @ JOB_RULES)"

record send_state =
  ss_recent :: "real list"
  ss_sent_any :: bool
  ss_error :: string
  ss_tried :: "(string \<times> string) list"

fun send_loop :: "job_env \<Rightarrow> string \<Rightarrow> nat \<Rightarrow> real \<Rightarrow> string list \<Rightarrow> send_state \<Rightarrow> send_state" where
  "send_loop E name cap now [] st = st"
| "send_loop E name cap now (t # ts) st =
     (if length (ss_recent st) \<ge> cap
      then st\<lparr>ss_error := ''message cap of '' @ show_nat cap @ '' per hour reached''\<rparr>
      else (let st1 = st\<lparr>ss_tried := ss_tried st @ [(t, job_content E name)]\<rparr>
            in send_loop E name cap now ts
                 (case send_message E name t (job_content E name) of
                    Delivered \<Rightarrow> st1\<lparr>ss_recent := ss_recent st @ [now], ss_sent_any := True\<rparr>
                  | NotAccepted \<Rightarrow> st1\<lparr>ss_error := t @ '' did not accept the message''\<rparr>
                  | SendFailed exc \<Rightarrow> st1\<lparr>ss_error := ''send to '' @ t @ '' failed ('' @ exc @ '')''\<rparr>)))"

definition run_inner :: "job_env \<Rightarrow> string \<Rightarrow> real \<Rightarrow> recurring_jobs \<Rightarrow> send_state \<times> recurring_jobs" where
  "run_inner E name now J =
     (let e = entry name J;
          st = send_loop E name (message_cap E name) now (targets E (setting E name ''target''))
                 \<lparr>ss_recent = filter (recent now) (sent_times e), ss_sent_any = False, ss_error = [], ss_tried = []\<rparr>
      in (st, write_state E (put_entry name
            (od_put ''last_error'' (PStr (ss_error st)) (od_put ''sent'' (PList (map PFloat (ss_recent st)))
              (od_put ''last_run'' (PFloat now) e))) J)))"

definition run_job :: "job_env \<Rightarrow> string \<Rightarrow> real \<Rightarrow> recurring_jobs \<Rightarrow> send_state \<times> recurring_jobs" where
  "run_job E name now J =
     (if name \<in> set (running J)
      then (\<lparr>ss_recent = [], ss_sent_any = False, ss_error = [], ss_tried = []\<rparr>, J)
      else case run_inner E name now (J\<lparr>running := name # running J\<rparr>) of
             (st, J1) \<Rightarrow> (st, J1\<lparr>running := removeAll name (running J1)\<rparr>))"

fun due_loop :: "job_env \<Rightarrow> real \<Rightarrow> string list \<Rightarrow> recurring_jobs \<Rightarrow> string list \<times> recurring_jobs" where
  "due_loop E now [] J = ([], J)"
| "due_loop E now (n # ns) J =
     (case is_due E n now J of (b, J1) \<Rightarrow>
        (case due_loop E now ns J1 of (ds, J2) \<Rightarrow> (if b then n # ds else ds, J2)))"

fun run_loop :: "job_env \<Rightarrow> real \<Rightarrow> string list \<Rightarrow> recurring_jobs \<Rightarrow> (string \<times> send_state) list \<times> recurring_jobs" where
  "run_loop E now [] J = ([], J)"
| "run_loop E now (n # ns) J =
     (case run_job E n now J of (st, J1) \<Rightarrow>
        (case run_loop E now ns J1 of (rs, J2) \<Rightarrow> ((n, st) # rs, J2)))"

definition tick :: "job_env \<Rightarrow> real \<Rightarrow> recurring_jobs \<Rightarrow> string list \<times> (string \<times> send_state) list \<times> recurring_jobs" where
  "tick E now J =
     (case due_loop E now (map fst JOB_DEFAULTS) J of (due, J1) \<Rightarrow>
        (case run_loop E now due J1 of (rs, J2) \<Rightarrow>
           (map fst (filter (\<lambda>(n, st). ss_sent_any st) rs), rs, J2)))"

section \<open>Entries\<close>

lemma read_put [simp]: "read_state (put_entry n e J) = od_put n e (read_state J)"
  by (simp add: read_state_def put_entry_def)

lemma read_write [simp]: "read_state (write_state E J) = read_state J"
  by (simp add: read_state_def write_state_def)

lemma read_other_fields [simp]:
  "read_state (J\<lparr>running := r\<rparr>) = read_state J" "read_state (J\<lparr>warned := w\<rparr>) = read_state J"
  by (simp_all add: read_state_def split: option.splits)

lemma entry_simps [simp]:
  "entry m (put_entry n e J) = (if m = n then e else entry m J)" "entry m (write_state E J) = entry m J"
  "entry m (J\<lparr>running := r\<rparr>) = entry m J" "entry m (J\<lparr>warned := w\<rparr>) = entry m J"
  by (simp_all add: entry_def od_get_default_def)

lemma running_simps [simp]:
  "running (put_entry n e J) = running J" "running (write_state E J) = running J"
  by (simp_all add: put_entry_def write_state_def)

definition last_run :: "string \<Rightarrow> recurring_jobs \<Rightarrow> real option" where
  "last_run n J = (case od_get (entry n J) ''last_run'' of Some v \<Rightarrow> number v | None \<Rightarrow> None)"

lemma is_due_running [simp]: "running (snd (is_due E n now J)) = running J"
  by (simp add: is_due_def Let_def split: sum.splits option.splits)

lemma is_due_other: "m \<noteq> n \<Longrightarrow> entry m (snd (is_due E n now J)) = entry m J"
  by (simp add: is_due_def Let_def split: sum.splits option.splits)

lemma is_due_sent: "sent_times (entry m (snd (is_due E n now J))) = sent_times (entry m J)"
  by (simp add: is_due_def Let_def sent_times_def split: sum.splits option.splits)

lemma is_due_yes:
  assumes "is_due E n now J = (True, J')"
  shows "setting E n ''enabled'' = PBool True \<and> entry n J' = entry n J \<and>
    (\<exists>interval lr. schedule_of E n = Inr interval \<and> last_run n J = Some lr \<and> lr \<le> now \<and> real interval \<le> now - lr)"
  using assms by (auto simp: is_due_def Let_def last_run_def split: if_splits sum.splits option.splits)

lemma run_inner_other: "m \<noteq> n \<Longrightarrow> entry m (snd (run_inner E n now J)) = entry m J"
  by (simp add: run_inner_def Let_def)

lemma run_inner_running [simp]: "running (snd (run_inner E n now J)) = running J"
  by (simp add: run_inner_def Let_def)

lemma run_job_other: "m \<noteq> n \<Longrightarrow> entry m (snd (run_job E n now J)) = entry m J"
  by (simp add: run_job_def case_prod_unfold run_inner_other)

lemma run_job_running: "running J = [] \<Longrightarrow> running (snd (run_job E n now J)) = []"
  by (simp add: run_job_def case_prod_unfold)

lemma run_job_last: "running J = [] \<Longrightarrow> last_run n (snd (run_job E n now J)) = Some now"
  by (simp add: run_job_def case_prod_unfold last_run_def run_inner_def Let_def)

lemma due_loop_spec:
  assumes "due_loop E now ns J = (ds, J')" and "distinct ns"
  shows "running J' = running J \<and> set ds \<subseteq> set ns \<and> distinct ds \<and>
    (\<forall>n \<in> set ds. \<exists>interval lr. setting E n ''enabled'' = PBool True \<and> schedule_of E n = Inr interval \<and>
       last_run n J = Some lr \<and> lr \<le> now \<and> real interval \<le> now - lr)"
  using assms
proof (induction ns arbitrary: J ds J')
  case (Cons n ns)
  obtain b J1 where d: "is_due E n now J = (b, J1)" by (metis prod.collapse)
  obtain ds1 J2 where rest: "due_loop E now ns J1 = (ds1, J2)" by (metis prod.collapse)
  have res: "ds = (if b then n # ds1 else ds1)" "J' = J2" using Cons.prems(1) by (auto simp: d rest)
  note IH = Cons.IH [OF rest]
  have "last_run m J1 = last_run m J" if "m \<in> set ns" for m
  proof -
    have "m \<noteq> n" using that Cons.prems(2) by auto
    then show ?thesis using is_due_other [of m n E now J] by (simp add: last_run_def d)
  qed
  moreover have "running J1 = running J" using is_due_running [of E n now J] by (simp add: d)
  ultimately show ?case using IH Cons.prems(2) is_due_yes [of E n now J J1] d
    unfolding res by (cases b) (fastforce simp: subset_iff)+
qed simp

lemma run_loop_other: "m \<notin> set ns \<Longrightarrow> entry m (snd (run_loop E now ns J)) = entry m J"
  by (induction ns arbitrary: J) (simp_all add: case_prod_unfold run_job_other)

lemma run_loop_spec:
  assumes "run_loop E now ns J = (rs, J')" and "distinct ns" and "running J = []"
  shows "map fst rs = ns \<and> running J' = [] \<and> (\<forall>n \<in> set ns. last_run n J' = Some now)"
  using assms
proof (induction ns arbitrary: J rs J')
  case (Cons n ns)
  obtain st J1 where r: "run_job E n now J = (st, J1)" by (metis prod.collapse)
  obtain rs1 J2 where rest: "run_loop E now ns J1 = (rs1, J2)" by (metis prod.collapse)
  have res: "rs = (n, st) # rs1" "J' = J2" using Cons.prems(1) by (auto simp: r rest)
  have J1: "running J1 = []" "last_run n J1 = Some now"
    using run_job_running [OF Cons.prems(3)] run_job_last [OF Cons.prems(3)] r by (metis snd_conv)+
  have "entry n J2 = entry n J1" using run_loop_other [of n ns E now J1] Cons.prems(2) rest by simp
  then have "last_run n J2 = Some now" using J1 by (simp add: last_run_def)
  with Cons.IH [OF rest _ J1(1)] Cons.prems(2) show ?case by (simp add: res)
qed simp

lemma job_names_distinct: "distinct (map fst JOB_DEFAULTS)"
  by (simp add: JOB_DEFAULTS_def)

lemma tick_spec:
  assumes "tick E now J = (names, rs, J')" and "running J = []"
  shows "running J' = [] \<and> set names \<subseteq> set (map fst rs) \<and>
    (\<forall>n \<in> set (map fst rs). last_run n J' = Some now \<and>
      (\<exists>interval lr. setting E n ''enabled'' = PBool True \<and> schedule_of E n = Inr interval \<and>
         last_run n J = Some lr \<and> real interval \<le> now - lr))"
proof -
  obtain ds J1 where d: "due_loop E now (map fst JOB_DEFAULTS) J = (ds, J1)" by (metis prod.collapse)
  obtain rs1 J2 where r: "run_loop E now ds J1 = (rs1, J2)" by (metis prod.collapse)
  have res: "names = map fst (filter (\<lambda>(n, st). ss_sent_any st) rs)" "rs = rs1" "J' = J2"
    using assms(1) by (auto simp: tick_def d r)
  note due = due_loop_spec [OF d job_names_distinct]
  then have "distinct ds" "running J1 = []" using assms(2) by simp_all
  note ran = run_loop_spec [OF r this]
  have "set names \<subseteq> set (map fst rs)" unfolding res by auto
  moreover have "set (map fst rs) = set ds" using ran by (simp add: res)
  ultimately show ?thesis using due ran unfolding res by blast
qed

section \<open>What a run sends\<close>

text \<open>The messages a run got delivered.\<close>

definition delivered :: "job_env \<Rightarrow> string \<Rightarrow> send_state \<Rightarrow> nat" where
  "delivered E n st = length (filter (\<lambda>(t, c). send_message E n t c = Delivered) (ss_tried st))"

lemma send_loop_spec:
  "\<exists>k. ss_recent (send_loop E n cap now ts st) = ss_recent st @ replicate k now \<and>
     delivered E n (send_loop E n cap now ts st) = delivered E n st + k \<and>
     (0 < k \<longrightarrow> length (ss_recent st) + k \<le> cap)"
proof (induction ts arbitrary: st)
  case (Cons t ts)
  show ?case
  proof (cases "length (ss_recent st) \<ge> cap")
    case True
    then show ?thesis by (intro exI [of _ 0]) (simp add: delivered_def)
  next
    case False
    define st1 where "st1 = st\<lparr>ss_tried := ss_tried st @ [(t, job_content E n)]\<rparr>"
    define st2 where "st2 = (case send_message E n t (job_content E n) of
        Delivered \<Rightarrow> st1\<lparr>ss_recent := ss_recent st @ [now], ss_sent_any := True\<rparr>
      | NotAccepted \<Rightarrow> st1\<lparr>ss_error := t @ '' did not accept the message''\<rparr>
      | SendFailed exc \<Rightarrow> st1\<lparr>ss_error := ''send to '' @ t @ '' failed ('' @ exc @ '')''\<rparr>)"
    define j where "j = (if send_message E n t (job_content E n) = Delivered then 1 else 0 :: nat)"
    have st2: "ss_recent st2 = ss_recent st @ replicate j now" "delivered E n st2 = delivered E n st + j"
      by (simp_all add: st2_def st1_def j_def delivered_def split: send_outcome.splits)
    have loop: "send_loop E n cap now (t # ts) st = send_loop E n cap now ts st2"
      using False unfolding st2_def st1_def by (simp only: send_loop.simps Let_def if_False)
    obtain k where k: "ss_recent (send_loop E n cap now ts st2) = ss_recent st2 @ replicate k now"
      "delivered E n (send_loop E n cap now ts st2) = delivered E n st2 + k"
      "0 < k \<longrightarrow> length (ss_recent st2) + k \<le> cap"
      using Cons.IH [of st2] by blast
    have "j \<le> 1" by (simp add: j_def)
    then show ?thesis using k False st2
      unfolding loop by (intro exI [of _ "j + k"]) (auto simp: replicate_add)
  qed
qed (intro exI [of _ 0], simp)

lemma sent_times_sent [simp]: "od_get e ''sent'' = Some (PList (map PFloat xs)) \<Longrightarrow> sent_times e = xs"
  by (induction xs arbitrary: e) (simp_all add: sent_times_def List.map_filter_def comp_def)

lemma run_job_sent:
  assumes "running J = []" and "run_job E n now J = (st, J')"
  obtains k where "delivered E n st = k"
    and "sent_times (entry n J') = filter (recent now) (sent_times (entry n J)) @ replicate k now"
    and "0 < k \<longrightarrow> length (sent_times (entry n J')) \<le> message_cap E n"
proof -
  define st0 where "st0 = \<lparr>ss_recent = filter (recent now) (sent_times (entry n J)), ss_sent_any = False, ss_error = [], ss_tried = []\<rparr>"
  have st: "st = send_loop E n (message_cap E n) now (targets E (setting E n ''target'')) st0"
    using assms by (auto simp: run_job_def run_inner_def Let_def st0_def)
  have J': "sent_times (entry n J') = ss_recent st"
    using assms by (auto simp: run_job_def run_inner_def Let_def intro!: sent_times_sent)
  obtain k where k: "ss_recent st = ss_recent st0 @ replicate k now" "delivered E n st = delivered E n st0 + k"
    "0 < k \<longrightarrow> length (ss_recent st0) + k \<le> message_cap E n"
    using send_loop_spec [of E n "message_cap E n" now "targets E (setting E n ''target'')" st0] unfolding st by blast
  have "delivered E n st0 = 0" "ss_recent st0 = filter (recent now) (sent_times (entry n J))"
    by (simp_all add: delivered_def st0_def)
  with k show ?thesis by (intro that [of k]) (simp_all add: J')
qed

section \<open>The state file\<close>

text \<open>The file holds what the jobs know: after a restart every entry is what it was.\<close>

definition saved :: "recurring_jobs \<Rightarrow> bool" where
  "saved J \<longleftrightarrow> (\<forall>n. entry n (new_jobs (state_file J)) = entry n J)"

lemma new_jobs_saved [simp]: "saved (new_jobs f)"
  by (simp add: saved_def new_jobs_def)

lemma saved_other_fields [simp]:
  "saved (J\<lparr>running := r\<rparr>) = saved J" "saved (J\<lparr>warned := w\<rparr>) = saved J"
  by (simp_all add: saved_def)

lemma saved_put_same: "saved J \<Longrightarrow> saved (put_entry n (entry n J) J)"
  by (simp add: saved_def) (simp add: put_entry_def)

lemma saved_write [simp]: "state_writable E \<Longrightarrow> saved (write_state E J)"
  by (simp add: saved_def write_state_def entry_def new_jobs_def read_state_def)

lemma is_due_saved: "state_writable E \<Longrightarrow> saved J \<Longrightarrow> saved (snd (is_due E n now J))"
  using saved_put_same [of "J\<lparr>warned := removeAll n (warned J)\<rparr>" n]
  by (simp add: is_due_def Let_def split: sum.splits option.splits)

lemma run_job_saved: "state_writable E \<Longrightarrow> saved J \<Longrightarrow> saved (snd (run_job E n now J))"
  by (simp add: run_job_def case_prod_unfold run_inner_def Let_def)

lemma due_loop_saved: "state_writable E \<Longrightarrow> saved J \<Longrightarrow> saved (snd (due_loop E now ns J))"
  by (induction ns arbitrary: J) (simp_all add: case_prod_unfold is_due_saved)

lemma run_loop_saved: "state_writable E \<Longrightarrow> saved J \<Longrightarrow> saved (snd (run_loop E now ns J))"
  by (induction ns arbitrary: J) (simp_all add: case_prod_unfold run_job_saved)

lemma tick_saved: "tick E now J = (names, rs, J') \<Longrightarrow> state_writable E \<Longrightarrow> saved J \<Longrightarrow> saved J'"
  using due_loop_saved [of E J now "map fst JOB_DEFAULTS"]
    run_loop_saved [of E "snd (due_loop E now (map fst JOB_DEFAULTS) J)" now "fst (due_loop E now (map fst JOB_DEFAULTS) J)"]
  by (auto simp: tick_def case_prod_unfold)

section \<open>One job over a tick\<close>

lemma due_loop_sent: "sent_times (entry m (snd (due_loop E now ns J))) = sent_times (entry m J)"
  by (induction ns arbitrary: J) (simp_all add: case_prod_unfold is_due_sent)

text \<open>A job whose last run is not in the future keeps its entry until it runs.\<close>

lemma is_due_keeps: "last_run m J = Some lr \<Longrightarrow> lr \<le> now \<Longrightarrow> entry m (snd (is_due E n now J)) = entry m J"
  by (cases "m = n") (auto simp: is_due_other is_due_def Let_def last_run_def split: sum.splits option.splits)

lemma due_loop_keeps: "last_run m J = Some lr \<Longrightarrow> lr \<le> now \<Longrightarrow> entry m (snd (due_loop E now ns J)) = entry m J"
proof (induction ns arbitrary: J)
  case (Cons n ns)
  note keep = is_due_keeps [OF Cons.prems, of E n]
  then have "last_run m (snd (is_due E n now J)) = Some lr" using Cons.prems by (simp add: last_run_def)
  with Cons.IH [of "snd (is_due E n now J)"] Cons.prems(2) keep show ?case by (simp add: case_prod_unfold)
qed simp

text \<open>What the runs of one job add to the log of deliveries.\<close>

definition run_log :: "job_env \<Rightarrow> real \<Rightarrow> (string \<times> send_state) list \<Rightarrow> (real \<times> string \<times> nat) list" where
  "run_log E now rs = map (\<lambda>(n, st). (now, n, delivered E n st)) rs"

definition sent_log :: "string \<Rightarrow> (real \<times> string \<times> nat) list \<Rightarrow> real list" where
  "sent_log n L = concat (map (\<lambda>(t, m, k). if m = n then replicate k t else []) L)"

lemma sent_log_append [simp]: "sent_log n (L @ M) = sent_log n L @ sent_log n M"
  by (simp add: sent_log_def)

lemma sent_log_other: "n \<notin> set (map fst rs) \<Longrightarrow> sent_log n (run_log E now rs) = []"
  by (induction rs) (auto simp: sent_log_def run_log_def)

definition one_run :: "job_env \<Rightarrow> string \<Rightarrow> real \<Rightarrow> real list \<Rightarrow> real list \<Rightarrow> real list \<Rightarrow> bool" where
  "one_run E n now old new sent \<longleftrightarrow>
     (sent = [] \<and> new = old) \<or>
     (\<exists>k. sent = replicate k now \<and> new = filter (recent now) old @ replicate k now \<and> (0 < k \<longrightarrow> length new \<le> message_cap E n))"

lemma run_loop_sent:
  assumes "run_loop E now ns J = (rs, J')" and "distinct ns" and "running J = []"
  shows "one_run E n now (sent_times (entry n J)) (sent_times (entry n J')) (sent_log n (run_log E now rs))"
  using assms
proof (induction ns arbitrary: J rs J')
  case (Cons m ns)
  obtain st J1 where r: "run_job E m now J = (st, J1)" by (metis prod.collapse)
  obtain rs1 J2 where rest: "run_loop E now ns J1 = (rs1, J2)" by (metis prod.collapse)
  have res: "rs = (m, st) # rs1" "J' = J2" using Cons.prems(1) by (auto simp: r rest)
  have J1: "running J1 = []" using run_job_running [OF Cons.prems(3)] r by (metis snd_conv)
  have ran: "map fst rs1 = ns" using run_loop_spec [OF rest _ J1] Cons.prems(2) by simp
  show ?case
  proof (cases "n = m")
    case True
    have keep: "entry n J2 = entry n J1" using run_loop_other [of n ns E now J1] Cons.prems(2) rest True by simp
    have log: "sent_log n (run_log E now rs) = replicate (delivered E n st) now"
      using sent_log_other [of n rs1 E now] ran Cons.prems(2) True
      by (simp add: res) (simp add: sent_log_def run_log_def)
    obtain k where "delivered E n st = k"
      "sent_times (entry n J1) = filter (recent now) (sent_times (entry n J)) @ replicate k now"
      "0 < k \<longrightarrow> length (sent_times (entry n J1)) \<le> message_cap E n"
      using run_job_sent [OF Cons.prems(3) r] True by metis
    then show ?thesis unfolding one_run_def log res(2) keep by auto
  next
    case False
    have "entry n J1 = entry n J" using run_job_other [OF False, of E now J] r by simp
    moreover have "sent_log n (run_log E now rs) = sent_log n (run_log E now rs1)"
      using False by (simp add: res sent_log_def run_log_def)
    ultimately show ?thesis using Cons.IH [OF rest _ J1] Cons.prems(2) by (simp add: res)
  qed
qed (simp add: one_run_def run_log_def sent_log_def)

lemma tick_sent:
  assumes "tick E now J = (names, rs, J')" and "running J = []"
  shows "one_run E n now (sent_times (entry n J)) (sent_times (entry n J')) (sent_log n (run_log E now rs))"
proof -
  obtain ds J1 where d: "due_loop E now (map fst JOB_DEFAULTS) J = (ds, J1)" by (metis prod.collapse)
  obtain rs1 J2 where r: "run_loop E now ds J1 = (rs1, J2)" by (metis prod.collapse)
  have res: "rs = rs1" "J' = J2" using assms(1) by (auto simp: tick_def d r)
  have "distinct ds" "running J1 = []" using due_loop_spec [OF d job_names_distinct] assms(2) by simp_all
  from run_loop_sent [OF r this, of n] show ?thesis
    using due_loop_sent [of n E now "map fst JOB_DEFAULTS" J] by (simp add: res d)
qed

lemma tick_keeps:
  assumes "tick E now J = (names, rs, J')" and "running J = []" and "last_run n J = Some lr" and "lr \<le> now"
    and "n \<notin> set (map fst rs)"
  shows "entry n J' = entry n J"
proof -
  obtain ds J1 where d: "due_loop E now (map fst JOB_DEFAULTS) J = (ds, J1)" by (metis prod.collapse)
  obtain rs1 J2 where r: "run_loop E now ds J1 = (rs1, J2)" by (metis prod.collapse)
  have res: "rs = rs1" "J' = J2" using assms(1) by (auto simp: tick_def d r)
  have "distinct ds" "running J1 = []" using due_loop_spec [OF d job_names_distinct] assms(2) by simp_all
  then have "n \<notin> set ds" using run_loop_spec [OF r] assms(5) by (simp add: res)
  then have "entry n J2 = entry n J1" using run_loop_other [of n ds E now J1] r by simp
  then show ?thesis using due_loop_keeps [OF assms(3,4), of E "map fst JOB_DEFAULTS"] by (simp add: res d)
qed

section \<open>Runs of the coordinator\<close>

text \<open>
  Ticks with a clock that does not go back, and restarts, which read the state file again. The log
  has the time, the job and the number of delivered messages of every run.
\<close>

inductive coordinator :: "(job_env \<Rightarrow> bool) \<Rightarrow> recurring_jobs \<Rightarrow> real \<Rightarrow> (real \<times> string \<times> nat) list \<Rightarrow> bool" for P where
  start: "coordinator P (new_jobs f) t []"
| ticked: "coordinator P J t L \<Longrightarrow> P E \<Longrightarrow> state_writable E \<Longrightarrow> t \<le> now \<Longrightarrow> tick E now J = (names, rs, J') \<Longrightarrow>
     coordinator P J' now (L @ run_log E now rs)"
| restarted: "coordinator P J t L \<Longrightarrow> coordinator P (new_jobs (state_file J)) t L"

lemma running_new_jobs [simp]: "running (new_jobs f) = []"
  by (simp add: new_jobs_def)

lemma coordinator_idle: "coordinator P J t L \<Longrightarrow> running J = [] \<and> saved J"
  by (induction rule: coordinator.induct) (auto simp: tick_spec tick_saved)

lemma run_log_names: "(s, n, k) \<in> set (run_log E now rs) \<Longrightarrow> s = now \<and> n \<in> set (map fst rs)"
  by (force simp: run_log_def)

lemma coordinator_log_past: "coordinator P J t L \<Longrightarrow> (s, n, k) \<in> set L \<Longrightarrow> s \<le> t"
  by (induction rule: coordinator.induct) (auto dest: run_log_names)

lemma sent_log_past: "coordinator P J t L \<Longrightarrow> s \<in> set (sent_log n L) \<Longrightarrow> s \<le> t"
  by (auto simp: sent_log_def dest: coordinator_log_past split: if_splits)

subsection \<open>The message cap\<close>

text \<open>What was sent in the last hour is in the entry of the job.\<close>

lemma one_run_covers:
  assumes run: "one_run E n now old new sent" and "t \<le> now" and past: "\<forall>s \<in># sl. s \<le> t"
    and cover: "\<And>T. t \<le> T \<Longrightarrow> filter_mset (recent T) sl \<subseteq># mset old" and T: "now \<le> T"
  shows "filter_mset (recent T) (sl + mset sent) \<subseteq># mset new"
proof -
  consider "sent = []" "new = old" | k where "sent = replicate k now" "new = filter (recent now) old @ replicate k now"
    using run by (auto simp: one_run_def)
  then show ?thesis
  proof cases
    case 1
    then show ?thesis using cover T \<open>t \<le> now\<close> by simp
  next
    case 2
    have "recent now s" if "s \<in># sl" "recent T s" for s
      using that past \<open>t \<le> now\<close> T by (fastforce simp: recent_def)
    then have eq: "filter_mset (recent now) (filter_mset (recent T) sl) = filter_mset (recent T) sl"
      by (auto simp: filter_mset_eq_conv)
    have "filter_mset (recent T) sl \<subseteq># mset (filter (recent now) old)"
      using multiset_filter_mono [OF cover [of T], of "recent now"] T \<open>t \<le> now\<close> by (simp add: eq)
    moreover have "filter_mset (recent T) (mset sent) \<subseteq># mset sent" by simp
    ultimately show ?thesis using 2 by (simp add: subset_mset.add_mono)
  qed
qed

lemma coordinator_covers:
  "coordinator P J t L \<Longrightarrow> t \<le> T \<Longrightarrow> filter_mset (recent T) (mset (sent_log n L)) \<subseteq># mset (sent_times (entry n J))"
proof (induction arbitrary: T rule: coordinator.induct)
  case (ticked J t L E now names rs J')
  have "filter_mset (recent T) (mset (sent_log n L) + mset (sent_log n (run_log E now rs))) \<subseteq># mset (sent_times (entry n J'))"
    using one_run_covers [OF tick_sent [OF ticked.hyps(5)] ticked.hyps(4) _ ticked.IH ticked.prems]
      coordinator_idle [OF ticked.hyps(1)] sent_log_past [OF ticked.hyps(1)] by auto
  then show ?case by simp
next
  case (restarted J t L)
  then show ?case using coordinator_idle [OF restarted.hyps] by (simp add: saved_def)
qed (simp add: sent_log_def)

lemma size_recent: "length (filter (recent T) xs) = size (filter_mset (recent T) (mset xs))"
  by (metis mset_filter size_mset)

lemma coordinator_capped:
  assumes cap: "\<And>E. P E \<Longrightarrow> message_cap E n \<le> cap" and "coordinator P J t L"
  shows "length (filter (recent T) (sent_log n L)) \<le> cap"
  using assms(2)
proof (induction rule: coordinator.induct)
  case (ticked J t L E now names rs J')
  let ?sent = "sent_log n (run_log E now rs)"
  have run: "one_run E n now (sent_times (entry n J)) (sent_times (entry n J')) ?sent"
    using tick_sent [OF ticked.hyps(5)] coordinator_idle [OF ticked.hyps(1)] by simp
  then have new: "s = now" if "s \<in> set ?sent" for s using that by (auto simp: one_run_def)
  have room: "length (sent_times (entry n J')) \<le> cap" if "?sent \<noteq> []"
    using run that cap [OF ticked.hyps(2)] by (auto simp: one_run_def)
  consider "?sent = []" | "T < now" | "now \<le> T" "?sent \<noteq> []" by fastforce
  then show ?case
  proof cases
    case 2
    then have "filter (recent T) ?sent = []" using new by (fastforce simp: recent_def filter_empty_conv)
    then show ?thesis using ticked.IH by simp
  next
    case 3
    have "coordinator P J' now (L @ run_log E now rs)" using ticked.hyps by (rule coordinator.ticked)
    from size_mset_mono [OF coordinator_covers [OF this 3(1), of n]]
    show ?thesis using room [OF 3(2)] by (simp only: size_recent size_mset) 
  qed (use ticked.IH in simp)
qed (simp_all add: sent_log_def)

subsection \<open>The schedule\<close>

lemma parse_schedule_min: "parse_schedule text = Inr s \<Longrightarrow> MIN_SCHEDULE_SECONDS \<le> s"
  by (auto simp: parse_schedule_def Let_def py_bind_Inr split: prod.splits if_splits)

text \<open>A job that has run has its last run on record.\<close>

lemma coordinator_last_run:
  "coordinator P J t L \<Longrightarrow> (s, n, k) \<in> set L \<Longrightarrow> \<exists>lr. last_run n J = Some lr \<and> s \<le> lr \<and> lr \<le> t"
proof (induction rule: coordinator.induct)
  case (ticked J t L E now names rs J')
  have idle: "running J = []" using coordinator_idle [OF ticked.hyps(1)] by simp
  show ?case
  proof (cases "n \<in> set (map fst rs)")
    case True
    then have "last_run n J' = Some now" using tick_spec [OF ticked.hyps(5) idle] by blast
    moreover have "s \<le> now"
      using ticked.prems coordinator_log_past [OF ticked.hyps(1)] ticked.hyps(4) by (fastforce dest: run_log_names)
    ultimately show ?thesis by simp
  next
    case False
    then have "(s, n, k) \<in> set L" using ticked.prems by (auto dest: run_log_names)
    then obtain lr where lr: "last_run n J = Some lr" "s \<le> lr" "lr \<le> t" using ticked.IH by blast
    have "entry n J' = entry n J" using tick_keeps [OF ticked.hyps(5) idle lr(1)] lr ticked.hyps(4) False by simp
    then show ?thesis using lr ticked.hyps(4) by (auto simp: last_run_def)
  qed
next
  case (restarted J t L)
  then show ?case using coordinator_idle [OF restarted.hyps] by (auto simp: saved_def last_run_def)
qed simp

lemma run_log_distinct:
  assumes "distinct (map fst rs)"
  shows "sorted_wrt (\<lambda>(s, m, _) (s', m', _). m = n \<and> m' = n \<longrightarrow> d \<le> s' - s) (run_log E now rs)"
  using assms by (induction rs) (force simp: run_log_def)+

lemma tick_distinct:
  assumes "tick E now J = (names, rs, J')" and "running J = []"
  shows "distinct (map fst rs)"
proof -
  obtain ds J1 where d: "due_loop E now (map fst JOB_DEFAULTS) J = (ds, J1)" by (metis prod.collapse)
  obtain rs1 J2 where r: "run_loop E now ds J1 = (rs1, J2)" by (metis prod.collapse)
  have "distinct ds" "running J1 = []" using due_loop_spec [OF d job_names_distinct] assms(2) by simp_all
  moreover have "rs = rs1" using assms(1) by (auto simp: tick_def d r)
  ultimately show ?thesis using run_loop_spec [OF r] by simp
qed

lemma coordinator_spaced:
  assumes every: "\<And>E i. P E \<Longrightarrow> schedule_of E n = Inr i \<Longrightarrow> d \<le> real i" and "coordinator P J t L"
  shows "sorted_wrt (\<lambda>(s, m, _) (s', m', _). m = n \<and> m' = n \<longrightarrow> d \<le> s' - s) L"
  using assms(2)
proof (induction rule: coordinator.induct)
  case (ticked J t L E now names rs J')
  have idle: "running J = []" using coordinator_idle [OF ticked.hyps(1)] by simp
  have "d \<le> s' - s" if old: "(s, n, k) \<in> set L" and new: "(s', n, k') \<in> set (run_log E now rs)" for s k s' k'
  proof -
    have "s' = now" "n \<in> set (map fst rs)" using run_log_names [OF new] by simp_all
    then obtain i lr where i: "schedule_of E n = Inr i" "last_run n J = Some lr" "real i \<le> now - lr"
      using tick_spec [OF ticked.hyps(5) idle] by blast
    have "s \<le> lr" using coordinator_last_run [OF ticked.hyps(1) old] i(2) by simp
    with every [OF ticked.hyps(2) i(1)] i(3) \<open>s' = now\<close> show ?thesis by simp
  qed
  with ticked.IH run_log_distinct [OF tick_distinct [OF ticked.hyps(5) idle]] show ?case
    by (auto simp: sorted_wrt_append)
qed simp_all

section \<open>Properties\<close>

text \<open>A configuration with one job, which has three targets and a cap of two messages.\<close>

definition demo_jobs :: job_env where
  "demo_jobs = \<lparr>
     config_get = (\<lambda>k. if k = ''plugins.hub.hub_jobs.hub_heartbeat.enabled'' then Some (PBool True)
                       else if k = ''plugins.hub.hub_jobs.hub_heartbeat.max_messages_per_hour'' then Some (PInt 2)
                       else if k = ''plugins.hub.hub_jobs.hub_heartbeat.target'' then Some (PList [PStr ''a'', PStr ''b'', PStr ''c''])
                       else None),
     send_message = (\<lambda>_ _ _. Delivered), py_str = (\<lambda>_. []), state_writable = True\<rparr>"

definition demo_file :: "(string, pydict) odict option" where
  "demo_file = Some [(''hub_heartbeat'', [(''last_run'', PFloat 0)])]"

lemma demo_jobs_run:
  "\<exists>J. coordinator (\<lambda>E. E = demo_jobs) J 600 [(300, ''hub_heartbeat'', 2), (600, ''hub_heartbeat'', 0)]"
proof -
  define J1 where "J1 = snd (snd (tick demo_jobs 300 (new_jobs demo_file)))"
  define rs1 where "rs1 = fst (snd (tick demo_jobs 300 (new_jobs demo_file)))"
  define rs2 where "rs2 = fst (snd (tick demo_jobs 600 (new_jobs (state_file J1))))"
  have first: "coordinator (\<lambda>E. E = demo_jobs) J1 300 ([] @ run_log demo_jobs 300 rs1)"
    by (rule ticked [OF start [of _ demo_file 0], where names = "fst (tick demo_jobs 300 (new_jobs demo_file))"])
      (simp_all add: J1_def rs1_def demo_jobs_def)
  have "coordinator (\<lambda>E. E = demo_jobs) (snd (snd (tick demo_jobs 600 (new_jobs (state_file J1))))) 600
      (([] @ run_log demo_jobs 300 rs1) @ run_log demo_jobs 600 rs2)"
    by (rule ticked [OF restarted [OF first], where names = "fst (tick demo_jobs 600 (new_jobs (state_file J1)))"])
      (simp_all add: rs2_def demo_jobs_def)
  moreover have "run_log demo_jobs 300 rs1 = [(300, ''hub_heartbeat'', 2)]" unfolding rs1_def by code_simp
  moreover have "run_log demo_jobs 600 rs2 = [(600, ''hub_heartbeat'', 0)]" unfolding rs2_def J1_def by code_simp
  ultimately show ?thesis by auto
qed





end
