(* ===== verification/Sandbox_Gate.thy ===== *)
theory Sandbox_Gate
  imports Command_Parser
begin

text \<open>
  The promotion gate (\<open>kollabor_agent/sandbox_gate.py\<close>, class \<open>SandboxGate\<close>): before a tool runs, the
  gate is asked whether the call touches a protected checkout. Such a call needs a promotion token,
  which is issued for a scratch checkout that passed the validation commands, or the owner's
  override.

  The clock, git, the validation commands and the file system change under the gate, so each look
  at them has a number (\<open>seen\<close>) and the environment answers for that number. The environment also
  resolves links (\<open>resolve\<close>; None is a failure) and home directories. The settings are typed as
  their defaults are; the audit log keeps the event with its shared and token, without the time.

  The theorems: a call is let through only if every protected shared it touches has an active
  override or a live token for an unmoved checkout; tokens come from a successful validation only,
  and over a whole run no more calls use a promotion than promotions were granted.
\<close>

section \<open>Paths\<close>

text \<open>A path is absolute or not, and has its parts.\<close>

type_synonym pypath = "bool \<times> string list"

definition path_of_text :: "string \<Rightarrow> pypath" where
  "path_of_text s = (prefix ''/'' s, filter (\<lambda>p. p \<noteq> [] \<and> p \<noteq> ''.'') (split_on CHR ''/'' s))"

definition path_text :: "pypath \<Rightarrow> string" where
  "path_text p = (if fst p then ''/'' @ join_on ''/'' (snd p) else if snd p = [] then ''.'' else join_on ''/'' (snd p))"

definition path_join :: "pypath \<Rightarrow> pypath \<Rightarrow> pypath" where
  "path_join base p = (if fst p then p else (fst base, snd base @ snd p))"

definition inside :: "pypath \<Rightarrow> pypath \<Rightarrow> bool" where
  "inside p shared \<longleftrightarrow> p = shared \<or> fst p = fst shared \<and> prefix (snd shared) (snd p)"

section \<open>The gate\<close>

definition MAX_OVERRIDE_SECONDS :: real where "MAX_OVERRIDE_SECONDS = 3600"
definition READ_TYPES :: "string list" where "READ_TYPES = [''file_read'', ''file_grep'']"
definition PATH_KEYS :: "string list" where "PATH_KEYS = [''file'', ''file_path'', ''path'', ''from'', ''to'']"

record promotion_token =
  token_id :: string
  token_root :: pypath
  token_scratch :: pypath
  token_sha :: string
  token_agent :: string
  expires :: real

datatype audit_event =
    Refused pypath
  | TokenExpired pypath string
  | TokenVoided pypath string
  | OverrideUsed pypath
  | PromotionUsed pypath string
  | Promoted pypath string
  | PromotionRejected string

record gate_config =
  gate_enabled :: bool
  root_names :: "string list"
  allow_read :: bool
  scratch_root :: string
  validation :: "string list"
  token_ttl :: real

record gate_env =
  gate_clock :: "nat \<Rightarrow> real"
  git :: "nat \<Rightarrow> pypath \<Rightarrow> string list \<Rightarrow> string option"
  run_command :: "nat \<Rightarrow> pypath \<Rightarrow> string list \<Rightarrow> int option"
  is_dir :: "nat \<Rightarrow> pypath \<Rightarrow> bool"
  new_uid :: "nat \<Rightarrow> string"
  expand_home :: "pypath \<Rightarrow> pypath"
  resolve :: "pypath \<Rightarrow> pypath option"
  override_text :: string
  agent_name :: string
  str_of :: "pyval \<Rightarrow> string"

record gate =
  tokens :: "(pypath, promotion_token) odict"
  audit :: "audit_event list"
  seen :: nat

definition new_gate :: gate where
  "new_gate = \<lparr>tokens = [], audit = [], seen = 0\<rparr>"

definition look :: "(nat \<Rightarrow> 'a) \<Rightarrow> gate \<Rightarrow> 'a \<times> gate" where
  "look f G = (f (seen G), G\<lparr>seen := Suc (seen G)\<rparr>)"

definition log_event :: "audit_event \<Rightarrow> gate \<Rightarrow> gate" where
  "log_event e G = G\<lparr>audit := audit G @ [e], seen := Suc (seen G)\<rparr>"

definition drop_token :: "pypath \<Rightarrow> gate \<Rightarrow> gate" where
  "drop_token r G = G\<lparr>tokens := od_del r (tokens G)\<rparr>"

definition resolved :: "gate_env \<Rightarrow> pypath \<Rightarrow> pypath py_result" where
  "resolved E p = (case resolve E p of Some q \<Rightarrow> Inr q | None \<Rightarrow> Inl (OSError ''cannot resolve path''))"

fun resolve_all :: "gate_env \<Rightarrow> string list \<Rightarrow> pypath list py_result" where
  "resolve_all E [] = Inr []"
| "resolve_all E (s # ss) =
     py_bind (resolved E (expand_home E (path_of_text s))) (\<lambda>p. py_bind (resolve_all E ss) (\<lambda>ps. Inr (p # ps)))"

definition protected_roots :: "gate_env \<Rightarrow> gate_config \<Rightarrow> pypath list py_result" where
  "protected_roots E cfg = resolve_all E (filter (\<lambda>s. str_strip s \<noteq> []) (root_names cfg))"

definition resolve_from :: "gate_env \<Rightarrow> pypath \<Rightarrow> string \<Rightarrow> pypath" where
  "resolve_from E base value =
     (let p = path_join base (expand_home E (path_of_text value))
      in case resolve E p of Some q \<Rightarrow> q | None \<Rightarrow> p)"

subsection \<open>The roots a call touches\<close>

definition text_at :: "gate_env \<Rightarrow> pydict \<Rightarrow> string \<Rightarrow> string" where
  "text_at E td k = (case od_get td k of None \<Rightarrow> [] | Some (PStr s) \<Rightarrow> s | Some v \<Rightarrow> str_of E v)"

definition named_paths :: "pydict \<Rightarrow> string list" where
  "named_paths d = List.map_filter (\<lambda>k. case od_get d k of Some (PStr s) \<Rightarrow> if s = [] then None else Some s | _ \<Rightarrow> None) PATH_KEYS"

definition word_path :: "string \<Rightarrow> string" where
  "word_path w = (if prefix ''-'' w \<and> CHR ''='' \<in> set w then tl (dropWhile (\<lambda>c. c \<noteq> CHR ''='') w) else w)"

definition command_words :: "string \<Rightarrow> string list" where
  "command_words command = (case shlex_split command of Inr ws \<Rightarrow> ws | Inl _ \<Rightarrow> str_split command)"

definition command_cwd :: "gate_env \<Rightarrow> pypath \<Rightarrow> pydict \<Rightarrow> pypath py_result" where
  "command_cwd E base td =
     (case od_get td ''cwd'' of
        None \<Rightarrow> Inr base
      | Some (PStr s) \<Rightarrow> Inr (if s = [] then base else resolve_from E base s)
      | Some v \<Rightarrow> if truthy v then Inl (TypeError ''argument should be a str or an os.PathLike object'') else Inr base)"

definition paths_touched :: "gate_env \<Rightarrow> gate_config \<Rightarrow> pydict \<Rightarrow> pypath \<Rightarrow> pypath list \<Rightarrow> pypath list py_result" where
  "paths_touched E cfg td base roots =
     (let tool_type = text_at E td ''type''
      in if prefix ''file_'' tool_type \<or> tool_type = ''malformed_file_op''
         then if tool_type \<in> set READ_TYPES \<and> allow_read cfg then Inr []
              else let sources = td # (case od_get td ''arguments'' of Some (PDict a) \<Rightarrow> [a] | _ \<Rightarrow> []);
                       paths = map (resolve_from E base) (concat (map named_paths sources))
                   in Inr (if paths = [] then [base] else paths)
         else if tool_type = ''terminal''
         then py_bind (command_cwd E base td) (\<lambda>cwd.
                let command = text_at E td ''command''
                in Inr (cwd # map (resolve_from E cwd) (filter (\<lambda>w. w \<noteq> []) (map word_path (command_words command)))
                          @ filter (\<lambda>r. str_contains (path_text r) command) roots))
         else Inr [])"

definition roots_touched :: "gate_env \<Rightarrow> gate_config \<Rightarrow> pydict \<Rightarrow> pypath \<Rightarrow> pypath list \<Rightarrow> pypath list py_result" where
  "roots_touched E cfg td workspace roots =
     py_bind (resolved E workspace) (\<lambda>base.
       py_bind (paths_touched E cfg td base roots) (\<lambda>paths. Inr (filter (\<lambda>r. list_ex (\<lambda>p. inside p r) paths) roots)))"

subsection \<open>Authority\<close>

text \<open>\<open>float(s)\<close> of a decimal number. Infinities and \<open>nan\<close> are never within the time box of an override.\<close>

definition decimal_value :: "string \<Rightarrow> real option" where
  "decimal_value s =
     (let whole = takeWhile (\<lambda>c. c \<noteq> CHR ''.'') s; frac = tl (dropWhile (\<lambda>c. c \<noteq> CHR ''.'') s)
      in if CHR ''.'' \<notin> set s then map_option real (digits_value False 0 s)
         else if whole = [] \<and> frac = [] then None
         else (case (if whole = [] then Some 0 else digits_value False 0 whole,
                     if frac = [] then Some 0 else digits_value False 0 frac) of
                 (Some w, Some f) \<Rightarrow> Some (real w + real f / 10 ^ length (filter is_digit frac))
               | _ \<Rightarrow> None))"

definition signed :: "(string \<Rightarrow> 'a option) \<Rightarrow> ('a \<Rightarrow> 'a) \<Rightarrow> string \<Rightarrow> 'a option" where
  "signed f neg s = (case s of [] \<Rightarrow> None
     | c # cs \<Rightarrow> if c = CHR ''-'' then map_option neg (f cs) else if c = CHR ''+'' then f cs else f (c # cs))"

definition float_of_text :: "string \<Rightarrow> real option" where
  "float_of_text s =
     (let t = str_lower (str_strip s); m = takeWhile (\<lambda>c. c \<noteq> CHR ''e'') t; ex = tl (dropWhile (\<lambda>c. c \<noteq> CHR ''e'') t)
      in if CHR ''e'' \<notin> set t then signed decimal_value uminus t
         else (case (signed decimal_value uminus m, signed (\<lambda>d. map_option int (digits_value False 0 d)) uminus ex) of
                 (Some a, Some k) \<Rightarrow> Some (if 0 \<le> k then a * 10 ^ nat k else a / 10 ^ nat (- k))
               | _ \<Rightarrow> None))"

text \<open>\<open>s.rpartition('@')\<close>, without the separator.\<close>

definition rpartition_at :: "string \<Rightarrow> string \<times> string" where
  "rpartition_at s =
     (if CHR ''@'' \<in> set s
      then (rev (tl (dropWhile (\<lambda>c. c \<noteq> CHR ''@'') (rev s))), rev (takeWhile (\<lambda>c. c \<noteq> CHR ''@'') (rev s)))
      else ([], s))"

definition override_entry :: "gate_env \<Rightarrow> pypath \<Rightarrow> real \<Rightarrow> string \<Rightarrow> bool" where
  "override_entry E shared now entry =
     (case rpartition_at entry of (target, expiry) \<Rightarrow>
        (case (float_of_text expiry, resolve E (expand_home E (path_of_text target))) of
           (Some e, Some p) \<Rightarrow> p = shared \<and> now < e \<and> e \<le> now + MAX_OVERRIDE_SECONDS
         | _ \<Rightarrow> False))"

definition override_active :: "gate_env \<Rightarrow> pypath \<Rightarrow> gate \<Rightarrow> bool \<times> gate" where
  "override_active E shared G =
     (case look (gate_clock E) G of (now, G1) \<Rightarrow>
        (list_ex (override_entry E shared now) (split_on CHR '':'' (override_text E)), G1))"

definition head_of :: "gate_env \<Rightarrow> pypath \<Rightarrow> nat \<Rightarrow> string option" where
  "head_of E cwd k = git E k cwd [''rev-parse'', ''HEAD'']"

definition clean_status :: "gate_env \<Rightarrow> pypath \<Rightarrow> nat \<Rightarrow> bool" where
  "clean_status E cwd k \<longleftrightarrow> git E k cwd [''status'', ''--porcelain''] = Some []"

definition token_valid :: "gate_env \<Rightarrow> pypath \<Rightarrow> gate \<Rightarrow> bool \<times> gate" where
  "token_valid E shared G =
     (case od_get (tokens G) shared of
        None \<Rightarrow> (False, G)
      | Some t \<Rightarrow>
          (case look (gate_clock E) G of (now, G1) \<Rightarrow>
             if now \<ge> expires t then (False, log_event (TokenExpired shared (token_id t)) (drop_token shared G1))
             else (case look (head_of E (token_scratch t)) G1 of (head, G2) \<Rightarrow>
                     if head \<noteq> Some (token_sha t) then (False, log_event (TokenVoided shared (token_id t)) (drop_token shared G2))
                     else (True, G2))))"

definition has_authority :: "gate_env \<Rightarrow> pypath \<Rightarrow> gate \<Rightarrow> bool \<times> gate" where
  "has_authority E shared G =
     (case override_active E shared G of (ok, G1) \<Rightarrow> if ok then (True, G1) else token_valid E shared G1)"

definition spend :: "gate_env \<Rightarrow> pypath \<Rightarrow> gate \<Rightarrow> unit py_result \<times> gate" where
  "spend E shared G =
     (case override_active E shared G of (ok, G1) \<Rightarrow>
        if ok then (Inr (), log_event (OverrideUsed shared) G1)
        else case od_get (tokens G1) shared of
               None \<Rightarrow> (Inl (KeyError (path_text shared)), G1)
             | Some t \<Rightarrow> (Inr (), log_event (PromotionUsed shared (token_id t)) (drop_token shared G1)))"

fun refused_roots :: "gate_env \<Rightarrow> pypath list \<Rightarrow> gate \<Rightarrow> pypath list \<times> gate" where
  "refused_roots E [] G = ([], G)"
| "refused_roots E (r # rs) G =
     (case has_authority E r G of (ok, G1) \<Rightarrow>
        (case refused_roots E rs G1 of (bad, G2) \<Rightarrow> (if ok then bad else r # bad, G2)))"

fun spend_all :: "gate_env \<Rightarrow> pypath list \<Rightarrow> gate \<Rightarrow> unit py_result \<times> gate" where
  "spend_all E [] G = (Inr (), G)"
| "spend_all E (r # rs) G =
     (case spend E r G of (Inl e, G1) \<Rightarrow> (Inl e, G1) | (Inr _, G1) \<Rightarrow> spend_all E rs G1)"

text \<open>The answer is the root for which the call is refused, or None when it may run.\<close>

definition decide_call :: "gate_env \<Rightarrow> pypath list \<Rightarrow> gate \<Rightarrow> pypath option py_result \<times> gate" where
  "decide_call E touched G =
     (case refused_roots E touched G of
        (r # _, G1) \<Rightarrow> (Inr (Some r), log_event (Refused r) G1)
      | ([], G1) \<Rightarrow> (case spend_all E touched G1 of (Inl e, G2) \<Rightarrow> (Inl e, G2) | (Inr _, G2) \<Rightarrow> (Inr None, G2)))"

definition guarded_roots :: "gate_env \<Rightarrow> gate_config \<Rightarrow> pydict \<Rightarrow> pypath \<Rightarrow> pypath list py_result" where
  "guarded_roots E cfg td workspace =
     (if \<not> gate_enabled cfg then Inr []
      else py_bind (protected_roots E cfg) (\<lambda>roots. if roots = [] then Inr [] else roots_touched E cfg td workspace roots))"

definition check :: "gate_env \<Rightarrow> gate_config \<Rightarrow> pydict \<Rightarrow> pypath \<Rightarrow> gate \<Rightarrow> pypath option py_result \<times> gate" where
  "check E cfg td workspace G =
     (case guarded_roots E cfg td workspace of
        Inl e \<Rightarrow> (Inl e, G)
      | Inr touched \<Rightarrow> if touched = [] then (Inr None, G) else decide_call E touched G)"

section \<open>Promotion\<close>

definition reject :: "string \<Rightarrow> gate \<Rightarrow> bool py_result \<times> gate" where
  "reject why G = (Inr False, log_event (PromotionRejected why) G)"

text \<open>The first command that does not exit with 0, if any; the clock is read around each command.\<close>

fun failing_command :: "gate_env \<Rightarrow> pypath \<Rightarrow> string list \<Rightarrow> gate \<Rightarrow> string option \<times> gate" where
  "failing_command E cwd [] G = (None, G)"
| "failing_command E cwd (c # cs) G =
     (case look (gate_clock E) G of (started, G1) \<Rightarrow>
      (case look (\<lambda>k. case shlex_split c of Inl _ \<Rightarrow> None | Inr ws \<Rightarrow> run_command E k cwd ws) G1 of (code, G2) \<Rightarrow>
       (case look (gate_clock E) G2 of (ended, G3) \<Rightarrow>
          if code \<noteq> Some 0 then (Some c, G3) else failing_command E cwd cs G3)))"

definition issue :: "gate_env \<Rightarrow> gate_config \<Rightarrow> pypath \<Rightarrow> pypath \<Rightarrow> string \<Rightarrow> gate \<Rightarrow> bool py_result \<times> gate" where
  "issue E cfg target scratch sha G =
     (case look (new_uid E) G of (uid, G1) \<Rightarrow>
      (case look (gate_clock E) G1 of (now, G2) \<Rightarrow>
         let t = \<lparr>token_id = uid, token_root = target, token_scratch = scratch, token_sha = sha,
                  token_agent = agent_name E, expires = now + token_ttl cfg\<rparr>
         in (Inr True, log_event (Promoted target uid) (G2\<lparr>tokens := od_put target t (tokens G2)\<rparr>))))"

definition validated :: "gate_env \<Rightarrow> gate_config \<Rightarrow> pypath \<Rightarrow> pypath \<Rightarrow> string \<Rightarrow> string list \<Rightarrow> gate \<Rightarrow> bool py_result \<times> gate" where
  "validated E cfg target scratch sha commands G =
     (case failing_command E scratch commands G of
        (Some c, G1) \<Rightarrow> reject (''validation failed: '' @ c) G1
      | (None, G1) \<Rightarrow>
          (case look (head_of E scratch) G1 of (head, G2) \<Rightarrow>
             if head \<noteq> Some sha then reject ''validation changed the scratch checkout'' G2
             else (case look (clean_status E scratch) G2 of (clean, G3) \<Rightarrow>
                     if \<not> clean then reject ''validation changed the scratch checkout'' G3
                     else issue E cfg target scratch sha G3)))"

definition promote_checkout :: "gate_env \<Rightarrow> gate_config \<Rightarrow> pypath \<Rightarrow> pypath \<Rightarrow> string list \<Rightarrow> gate \<Rightarrow> bool py_result \<times> gate" where
  "promote_checkout E cfg target scratch commands G =
     (case look (head_of E scratch) G of
        (None, G1) \<Rightarrow> reject ''the scratch checkout is not a git repository with a commit'' G1
      | (Some sha, G1) \<Rightarrow>
          (case look (clean_status E scratch) G1 of (clean, G2) \<Rightarrow>
             if \<not> clean then reject ''git status in the scratch checkout is not clean; commit only the intended files'' G2
             else validated E cfg target scratch sha commands G2))"

definition promote_paths :: "gate_env \<Rightarrow> gate_config \<Rightarrow> pypath list \<Rightarrow> pypath \<Rightarrow> pypath \<Rightarrow> gate \<Rightarrow> bool py_result \<times> gate" where
  "promote_paths E cfg roots target scratch G =
     (if target \<notin> set roots then reject ''that root is not a protected root'' G
      else case look (\<lambda>k. is_dir E k scratch) G of (dir, G1) \<Rightarrow>
        if \<not> dir then reject ''the scratch checkout does not exist'' G1
        else if list_ex (inside scratch) roots then reject ''a scratch checkout cannot live inside a protected root'' G1
        else case (if scratch_root cfg = [] then Inr True
                   else py_bind (resolved E (expand_home E (path_of_text (scratch_root cfg)))) (\<lambda>s. Inr (inside scratch s))) of
               Inl e \<Rightarrow> (Inl e, G1)
             | Inr ok \<Rightarrow>
                 if \<not> ok then reject ''the checkout is outside sandbox_gate.scratch_root'' G1
                 else let commands = filter (\<lambda>c. str_strip c \<noteq> []) (validation cfg)
                      in if commands = [] then reject ''no sandbox_gate.validation commands are configured'' G1
                         else promote_checkout E cfg target scratch commands G1)"

definition promote :: "gate_env \<Rightarrow> gate_config \<Rightarrow> string \<Rightarrow> string \<Rightarrow> gate \<Rightarrow> bool py_result \<times> gate" where
  "promote E cfg scratch shared G =
     (if \<not> gate_enabled cfg then reject ''the sandbox gate is not enabled'' G
      else case py_bind (protected_roots E cfg) (\<lambda>roots.
                  py_bind (resolved E (expand_home E (path_of_text shared))) (\<lambda>target.
                    py_bind (resolved E (expand_home E (path_of_text scratch))) (\<lambda>sp. Inr (roots, target, sp)))) of
             Inl e \<Rightarrow> (Inl e, G)
           | Inr (roots, target, sp) \<Rightarrow> promote_paths E cfg roots target sp G)"

section \<open>Looks, tokens and the log\<close>

lemma look_sel [simp]:
  "fst (look f G) = f (seen G)" "tokens (snd (look f G)) = tokens G" "audit (snd (look f G)) = audit G"
  "seen (snd (look f G)) = Suc (seen G)"
  by (simp_all add: look_def)

lemma log_event_sel [simp]:
  "tokens (log_event e G) = tokens G" "audit (log_event e G) = audit G @ [e]" "seen (log_event e G) = Suc (seen G)"
  by (simp_all add: log_event_def)

lemma drop_token_sel [simp]:
  "tokens (drop_token r G) = od_del r (tokens G)" "audit (drop_token r G) = audit G" "seen (drop_token r G) = seen G"
  by (simp_all add: drop_token_def)

definition overridden :: "gate_env \<Rightarrow> pypath \<Rightarrow> nat \<Rightarrow> bool" where
  "overridden E r k = list_ex (override_entry E r (gate_clock E k)) (split_on CHR '':'' (override_text E))"

lemma override_active_sel [simp]:
  "fst (override_active E r G) = overridden E r (seen G)" "tokens (snd (override_active E r G)) = tokens G"
  "audit (snd (override_active E r G)) = audit G" "seen (snd (override_active E r G)) = Suc (seen G)"
  by (simp_all add: override_active_def overridden_def case_prod_unfold)

text \<open>A token that is alive at look \<open>k\<close>, with its checkout unmoved at the look after it.\<close>

definition live_token :: "gate_env \<Rightarrow> promotion_token \<Rightarrow> nat \<Rightarrow> bool" where
  "live_token E t k \<longleftrightarrow> gate_clock E k < expires t \<and> head_of E (token_scratch t) (Suc k) = Some (token_sha t)"

lemma token_valid_yes:
  "fst (token_valid E r G) \<longleftrightarrow> (\<exists>t. od_get (tokens G) r = Some t \<and> live_token E t (seen G))"
  by (simp add: token_valid_def live_token_def case_prod_unfold split: option.splits)

lemma token_valid_keeps:
  "fst (token_valid E r G) \<Longrightarrow> tokens (snd (token_valid E r G)) = tokens G \<and> audit (snd (token_valid E r G)) = audit G"
  by (auto simp: token_valid_def case_prod_unfold split: option.splits if_splits)

lemma token_valid_steps: "fst (token_valid E r G) \<Longrightarrow> seen G < seen (snd (token_valid E r G))"
  by (auto simp: token_valid_def case_prod_unfold split: option.splits if_splits)

lemma token_valid_seen: "seen G \<le> seen (snd (token_valid E r G))"
  by (simp add: token_valid_def case_prod_unfold split: option.splits)

definition authorised :: "gate_env \<Rightarrow> pypath \<Rightarrow> gate \<Rightarrow> gate \<Rightarrow> bool" where
  "authorised E r G G' \<longleftrightarrow>
     (\<exists>k. seen G \<le> k \<and> k < seen G' \<and>
        (overridden E r k \<or> (\<exists>t. od_get (tokens G) r = Some t \<and> live_token E t k)))"

lemma has_authority_yes:
  assumes "has_authority E r G = (True, G')"
  shows "authorised E r G G' \<and> tokens G' = tokens G \<and> audit G' = audit G"
proof (cases "overridden E r (seen G)")
  case True
  then show ?thesis using assms by (auto simp: has_authority_def case_prod_unfold authorised_def)
next
  case False
  let ?G = "snd (override_active E r G)"
  have tv: "token_valid E r ?G = (True, G')" using assms False by (simp add: has_authority_def case_prod_unfold)
  then have "\<exists>t. od_get (tokens G) r = Some t \<and> live_token E t (Suc (seen G))"
    using token_valid_yes [of E r ?G] by simp
  moreover have "tokens G' = tokens G \<and> audit G' = audit G" using token_valid_keeps [of E r ?G] tv by simp
  moreover have "Suc (seen G) < seen G'" using token_valid_steps [of E r ?G] tv by simp
  ultimately show ?thesis unfolding authorised_def by (metis le_SucI le_refl)
qed

lemma has_authority_seen: "seen G \<le> seen (snd (has_authority E r G))"
  using token_valid_seen [of "snd (override_active E r G)" E r] by (simp add: has_authority_def case_prod_unfold)

lemma authorised_later:
  "authorised E r G1 G2 \<Longrightarrow> tokens G1 = tokens G \<Longrightarrow> seen G \<le> seen G1 \<Longrightarrow> seen G2 \<le> seen G' \<Longrightarrow> authorised E r G G'"
  unfolding authorised_def by (metis order_trans order_less_le_trans)

lemma refused_seen: "seen G \<le> seen (snd (refused_roots E rs G))"
  by (induction rs arbitrary: G) (auto simp: case_prod_unfold intro: order_trans has_authority_seen)

lemma spend_seen: "seen G \<le> seen (snd (spend E r G))"
  by (simp add: spend_def case_prod_unfold split: option.splits)

lemma spend_all_seen: "seen G \<le> seen (snd (spend_all E rs G))"
proof (induction rs arbitrary: G)
  case (Cons r rs)
  show ?case using spend_seen [of G E r] Cons.IH [of "snd (spend E r G)"]
    by (auto simp: case_prod_unfold split: sum.splits)
qed simp

lemma refused_none:
  assumes "refused_roots E rs G = ([], G')"
  shows "tokens G' = tokens G \<and> audit G' = audit G \<and> (\<forall>r \<in> set rs. authorised E r G G')"
  using assms
proof (induction rs arbitrary: G)
  case (Cons r rs)
  obtain ok G1 where h: "has_authority E r G = (ok, G1)" by (metis prod.collapse)
  obtain bad G2 where rest: "refused_roots E rs G1 = (bad, G2)" by (metis prod.collapse)
  from Cons.prems have "ok" "bad = []" "G2 = G'" by (auto simp: h rest split: if_splits)
  with h have h': "has_authority E r G = (True, G1)" by simp
  note here = has_authority_yes [OF h']
  have later: "seen G \<le> seen G1" "seen G1 \<le> seen G'"
    using has_authority_seen [of G E r] refused_seen [of G1 E rs] h rest \<open>G2 = G'\<close> by simp_all
  have rest': "refused_roots E rs G1 = ([], G')" using rest \<open>bad = []\<close> \<open>G2 = G'\<close> by simp
  have "authorised E r G G'" using here authorised_later [of E r G G1 G G'] later by simp
  moreover have "authorised E q G G'" if "q \<in> set rs" for q
    using Cons.IH [OF rest'] that here authorised_later [of E q G1 G' G G'] later by simp
  ultimately show ?case using Cons.IH [OF rest'] here by simp
qed simp

section \<open>Accounts\<close>

text \<open>The log as accounts of a root: promotions granted and used, and calls under an override.\<close>

definition is_use :: "pypath \<Rightarrow> audit_event \<Rightarrow> bool" where
  "is_use r e = (case e of PromotionUsed q _ \<Rightarrow> q = r | _ \<Rightarrow> False)"

definition is_grant :: "pypath \<Rightarrow> audit_event \<Rightarrow> bool" where
  "is_grant r e = (case e of Promoted q _ \<Rightarrow> q = r | _ \<Rightarrow> False)"

definition is_override :: "pypath \<Rightarrow> audit_event \<Rightarrow> bool" where
  "is_override r e = (case e of OverrideUsed q \<Rightarrow> q = r | _ \<Rightarrow> False)"

definition tally :: "(audit_event \<Rightarrow> bool) \<Rightarrow> gate \<Rightarrow> nat" where
  "tally P G = length (filter P (audit G))"

definition held :: "pypath \<Rightarrow> gate \<Rightarrow> nat" where
  "held r G = (if od_get (tokens G) r = None then 0 else 1)"

lemma tally_simps [simp]:
  "tally P (log_event e G) = tally P G + (if P e then 1 else 0)" "tally P (drop_token q G) = tally P G"
  "tally P (snd (look f G)) = tally P G" "tally P (snd (override_active E q G)) = tally P G"
  by (simp_all add: tally_def)

lemma held_simps [simp]:
  "held r (log_event e G) = held r G" "held r (drop_token q G) = (if q = r then 0 else held r G)"
  "held r (snd (look f G)) = held r G" "held r (snd (override_active E q G)) = held r G"
  by (simp_all add: held_def)

lemmas account_defs = is_use_def is_grant_def is_override_def

text \<open>A check grants nothing, and pays a use with the token it removes.\<close>

definition pays :: "pypath \<Rightarrow> gate \<Rightarrow> gate \<Rightarrow> bool" where
  "pays r G G' \<longleftrightarrow> tally (is_grant r) G' = tally (is_grant r) G \<and>
     tally (is_use r) G' + held r G' \<le> tally (is_use r) G + held r G \<and>
     tally (is_use r) G + tally (is_override r) G \<le> tally (is_use r) G' + tally (is_override r) G'"

lemma pays_refl [simp]: "pays r G G"
  by (simp add: pays_def)

lemma pays_trans: "pays r G1 G2 \<Longrightarrow> pays r G2 G3 \<Longrightarrow> pays r G1 G3"
  by (simp add: pays_def)

lemma token_valid_pays: "pays r G (snd (token_valid E q G))"
  by (simp add: token_valid_def case_prod_unfold pays_def account_defs split: option.splits)

lemma has_authority_pays: "pays r G (snd (has_authority E q G))"
proof -
  have "pays r G (snd (override_active E q G))" by (simp add: pays_def)
  then show ?thesis using pays_trans [OF _ token_valid_pays]
    by (simp add: has_authority_def case_prod_unfold)
qed

lemma refused_pays: "pays r G (snd (refused_roots E rs G))"
  by (induction rs arbitrary: G) (auto simp: case_prod_unfold intro: pays_trans has_authority_pays)

lemma spend_pays:
  assumes "spend E q G = (res, G')"
  shows "pays r G G' \<and> (res = Inr () \<longrightarrow> tally (is_use q) G + tally (is_override q) G < tally (is_use q) G' + tally (is_override q) G')"
proof -
  have G': "G' = snd (spend E q G)" and res: "res = fst (spend E q G)" using assms by simp_all
  show ?thesis unfolding G' res
    by (auto simp: spend_def case_prod_unfold pays_def account_defs held_def split: option.splits)
qed

lemma spend_all_pays:
  assumes "spend_all E rs G = (res, G')"
  shows "pays r G G' \<and> (res = Inr () \<and> r \<in> set rs \<longrightarrow>
    tally (is_use r) G + tally (is_override r) G < tally (is_use r) G' + tally (is_override r) G')"
  using assms
proof (induction rs arbitrary: G)
  case (Cons q rs)
  obtain res1 G1 where s: "spend E q G = (res1, G1)" by (metis prod.collapse)
  note first = spend_pays [OF s, of r]
  show ?case
  proof (cases res1)
    case (Inl e)
    then show ?thesis using Cons.prems first s by auto
  next
    case (Inr u)
    then have rest: "spend_all E rs G1 = (res, G')" using Cons.prems s by simp
    from Cons.IH [OF rest] first show ?thesis using Inr pays_trans [of r G G1 G']
      by (cases "q = r") (auto simp: pays_def)
  qed
qed simp

lemma decide_call_pays:
  assumes "decide_call E rs G = (res, G')"
  shows "pays r G G' \<and> (res = Inr None \<and> r \<in> set rs \<longrightarrow>
    tally (is_use r) G + tally (is_override r) G < tally (is_use r) G' + tally (is_override r) G')"
proof -
  obtain bad G1 where b: "refused_roots E rs G = (bad, G1)" by (metis prod.collapse)
  have one: "pays r G G1" using refused_pays [of r G E rs] b by simp
  show ?thesis
  proof (cases bad)
    case Nil
    obtain res2 G2 where s: "spend_all E rs G1 = (res2, G2)" by (metis prod.collapse)
    have "G' = G2" "res = Inr None \<longrightarrow> res2 = Inr ()"
      using assms by (auto simp: decide_call_def b Nil s split: sum.splits)
    then show ?thesis using spend_all_pays [OF s, of r] one pays_trans [OF one, of G'] by (auto simp: pays_def)
  next
    case (Cons q qs)
    have "pays r G1 (log_event (Refused q) G1)" by (simp add: pays_def account_defs)
    then show ?thesis using assms pays_trans [OF one] by (auto simp: decide_call_def b Cons)
  qed
qed

lemma check_pays:
  assumes "check E cfg td ws G = (res, G')"
  shows "pays r G G' \<and> (res = Inr None \<and> guarded_roots E cfg td ws = Inr rs \<and> r \<in> set rs \<longrightarrow>
    tally (is_use r) G + tally (is_override r) G < tally (is_use r) G' + tally (is_override r) G')"
proof (cases "guarded_roots E cfg td ws")
  case (Inl e)
  then show ?thesis using assms by (simp add: check_def)
next
  case (Inr ts)
  show ?thesis
  proof (cases "ts = []")
    case True
    then show ?thesis using assms Inr by (simp add: check_def)
  next
    case False
    then have "decide_call E ts G = (res, G')" using assms Inr by (simp add: check_def)
    from decide_call_pays [OF this, of r] Inr show ?thesis by auto
  qed
qed

section \<open>What a promotion rests on\<close>

definition exits_zero :: "gate_env \<Rightarrow> pypath \<Rightarrow> nat \<Rightarrow> string \<Rightarrow> bool" where
  "exits_zero E cwd k c \<longleftrightarrow> (\<exists>ws. shlex_split c = Inr ws \<and> run_command E k cwd ws = Some 0)"

lemma failing_command_keeps:
  "tokens (snd (failing_command E cwd cs G)) = tokens G \<and> audit (snd (failing_command E cwd cs G)) = audit G"
  by (induction cs arbitrary: G) (simp_all add: case_prod_unfold)

lemma failing_command_none:
  assumes "failing_command E cwd cs G = (None, G')"
  shows "seen G' = seen G + 3 * length cs \<and> (\<forall>i < length cs. exits_zero E cwd (seen G + 3 * i + 1) (cs ! i))"
  using assms
proof (induction cs arbitrary: G)
  case (Cons c cs)
  define G3 where "G3 = snd (look (gate_clock E) (snd (look (\<lambda>k. case shlex_split c of Inl _ \<Rightarrow> None | Inr ws \<Rightarrow> run_command E k cwd ws)
    (snd (look (gate_clock E) G)))))"
  have s3: "seen G3 = seen G + 3" by (simp add: G3_def)
  have ok: "exits_zero E cwd (seen G + 1) c" and rest: "failing_command E cwd cs G3 = (None, G')"
    using Cons.prems by (simp_all add: G3_def exits_zero_def case_prod_unfold split: if_splits sum.splits)
  note IH = Cons.IH [OF rest, unfolded s3]
  have "exits_zero E cwd (seen G + 3 * i + 1) ((c # cs) ! i)" if "i < length (c # cs)" for i
  proof (cases i)
    case 0
    then show ?thesis using ok by simp
  next
    case (Suc j)
    then show ?thesis using IH that by (simp add: algebra_simps)
  qed
  then show ?case using IH by simp
qed simp

text \<open>
  What stands behind a token: at one point the checkout was clean at the token's commit, then every
  validation command exited with 0 in it, and after them it was clean at the same commit. The
  token is for a protected root, and the checkout lies in none.
\<close>

definition promotion_basis :: "gate_env \<Rightarrow> gate_config \<Rightarrow> pypath list \<Rightarrow> nat \<Rightarrow> promotion_token \<Rightarrow> bool" where
  "promotion_basis E cfg roots k t \<longleftrightarrow>
     (let cmds = filter (\<lambda>c. str_strip c \<noteq> []) (validation cfg); n = k + 2 + 3 * length cmds
      in token_root t \<in> set roots \<and> \<not> list_ex (inside (token_scratch t)) roots \<and> cmds \<noteq> [] \<and>
         head_of E (token_scratch t) k = Some (token_sha t) \<and> clean_status E (token_scratch t) (k + 1) \<and>
         (\<forall>i < length cmds. exits_zero E (token_scratch t) (k + 2 + 3 * i + 1) (cmds ! i)) \<and>
         head_of E (token_scratch t) n = Some (token_sha t) \<and> clean_status E (token_scratch t) (n + 1))"

definition granted :: "(promotion_token \<Rightarrow> bool) \<Rightarrow> gate \<Rightarrow> gate \<Rightarrow> bool" where
  "granted Q G G' \<longleftrightarrow>
     tokens G' = tokens G \<and> (audit G' = audit G \<or> (\<exists>w. audit G' = audit G @ [PromotionRejected w])) \<or>
     (\<exists>t. Q t \<and> tokens G' = od_put (token_root t) t (tokens G) \<and> audit G' = audit G @ [Promoted (token_root t) (token_id t)])"

lemma granted_from: "granted Q G1 G' \<Longrightarrow> tokens G1 = tokens G \<Longrightarrow> audit G1 = audit G \<Longrightarrow> granted Q G G'"
  by (simp add: granted_def)

lemma granted_reject [simp]: "granted Q G (snd (reject w G))"
  by (simp add: granted_def reject_def)

lemma granted_reject_from: "tokens G1 = tokens G \<Longrightarrow> audit G1 = audit G \<Longrightarrow> granted Q G (snd (reject w G1))"
  by (rule granted_from [of _ G1]) simp_all

lemma issue_granted:
  assumes "\<And>t. token_root t = target \<Longrightarrow> token_scratch t = scratch \<Longrightarrow> token_sha t = sha \<Longrightarrow> Q t"
  shows "granted Q G (snd (issue E cfg target scratch sha G))"
proof -
  let ?t = "\<lparr>token_id = new_uid E (seen G), token_root = target, token_scratch = scratch, token_sha = sha,
    token_agent = agent_name E, expires = gate_clock E (Suc (seen G)) + token_ttl cfg\<rparr>"
  have "Q ?t" by (rule assms) simp_all
  then show ?thesis unfolding granted_def
    by (intro disjI2 exI [of _ ?t]) (simp add: issue_def look_def Let_def)
qed

lemma validated_granted:
  assumes "\<And>t n. token_root t = target \<Longrightarrow> token_scratch t = scratch \<Longrightarrow> token_sha t = sha \<Longrightarrow>
      n = seen G + 3 * length cmds \<Longrightarrow> (\<forall>i < length cmds. exits_zero E scratch (seen G + 3 * i + 1) (cmds ! i)) \<Longrightarrow>
      head_of E scratch n = Some sha \<Longrightarrow> clean_status E scratch (n + 1) \<Longrightarrow> Q t"
  shows "granted Q G (snd (validated E cfg target scratch sha cmds G))"
proof -
  obtain f G1 where f: "failing_command E scratch cmds G = (f, G1)" by (metis prod.collapse)
  have same: "tokens G1 = tokens G" "audit G1 = audit G" using failing_command_keeps [of E scratch cmds G] f by simp_all
  show ?thesis
  proof (cases f)
    case (Some c)
    then show ?thesis using same by (simp add: validated_def f granted_reject_from)
  next
    case None
    then have none: "failing_command E scratch cmds G = (None, G1)" using f by simp
    note ran = failing_command_none [OF none]
    have "granted Q G (snd (issue E cfg target scratch sha (snd (look (clean_status E scratch) (snd (look (head_of E scratch) G1))))))"
      if "head_of E scratch (seen G1) = Some sha" "clean_status E scratch (Suc (seen G1))"
      by (rule granted_from [OF issue_granted]) (use assms ran that same in auto)
    then show ?thesis using same None
      by (simp add: validated_def f case_prod_unfold granted_reject_from)
  qed
qed

lemma promote_checkout_granted:
  assumes cmds: "cmds = filter (\<lambda>c. str_strip c \<noteq> []) (validation cfg)" and "cmds \<noteq> []"
    and "target \<in> set roots" and "\<not> list_ex (inside scratch) roots"
  shows "granted (\<lambda>t. \<exists>k. promotion_basis E cfg roots k t) G (snd (promote_checkout E cfg target scratch cmds G))"
proof -
  define G1 where "G1 = snd (look (head_of E scratch) G)"
  define G2 where "G2 = snd (look (clean_status E scratch) G1)"
  have same: "tokens G1 = tokens G" "audit G1 = audit G" "seen G1 = seen G + 1"
    "tokens G2 = tokens G" "audit G2 = audit G" "seen G2 = seen G + 2" by (simp_all add: G1_def G2_def)
  show ?thesis
  proof (cases "head_of E scratch (seen G)")
    case None
    have "promote_checkout E cfg target scratch cmds G =
        reject ''the scratch checkout is not a git repository with a commit'' G1"
      using None by (simp add: promote_checkout_def look_def G1_def)
    then show ?thesis using same by (simp add: granted_reject_from)
  next
    case (Some sha)
    have eq: "promote_checkout E cfg target scratch cmds G =
        (if \<not> clean_status E scratch (seen G1)
         then reject ''git status in the scratch checkout is not clean; commit only the intended files'' G2
         else validated E cfg target scratch sha cmds G2)"
      using Some by (simp add: promote_checkout_def look_def G1_def G2_def)
    have "granted (\<lambda>t. \<exists>k. promotion_basis E cfg roots k t) G (snd (validated E cfg target scratch sha cmds G2))"
      if clean: "clean_status E scratch (seen G + 1)"
    proof (rule granted_from [OF validated_granted])
      fix t :: promotion_token and n
      assume t: "token_root t = target" "token_scratch t = scratch" "token_sha t = sha"
        and n: "n = seen G2 + 3 * length cmds"
        and ran: "\<forall>i < length cmds. exits_zero E scratch (seen G2 + 3 * i + 1) (cmds ! i)"
        and after: "head_of E scratch n = Some sha" "clean_status E scratch (n + 1)"
      have "promotion_basis E cfg roots (seen G) t"
        unfolding promotion_basis_def Let_def cmds [symmetric] t
        using assms(2,3,4) Some clean ran after by (simp add: n same)
      then show "\<exists>k. promotion_basis E cfg roots k t" ..
    qed (simp_all add: same)
    then show ?thesis using same by (simp add: eq granted_reject_from)
  qed
qed

lemma promote_paths_granted:
  "granted (\<lambda>t. \<exists>k. promotion_basis E cfg roots k t) G (snd (promote_paths E cfg roots target scratch G))"
proof -
  have quiet: "granted Q G (snd (look f G))" for Q and f :: "nat \<Rightarrow> 'a" by (simp add: granted_def)
  have "granted (\<lambda>t. \<exists>k. promotion_basis E cfg roots k t) G (snd (promote_checkout E cfg target scratch
      (filter (\<lambda>c. str_strip c \<noteq> []) (validation cfg)) (snd (look (\<lambda>k. is_dir E k scratch) G))))"
    if "filter (\<lambda>c. str_strip c \<noteq> []) (validation cfg) \<noteq> []" "target \<in> set roots" "\<not> list_ex (inside scratch) roots"
    by (rule granted_from [OF promote_checkout_granted [OF refl that]]) simp_all
  then show ?thesis
    by (simp add: promote_paths_def case_prod_unfold Let_def granted_reject_from quiet split: sum.splits)
qed

lemma promote_granted:
  assumes "promote E cfg scratch target G = (res, G')"
  shows "granted (\<lambda>t. \<exists>roots k. protected_roots E cfg = Inr roots \<and> promotion_basis E cfg roots k t) G G'"
proof -
  have G': "G' = snd (promote E cfg scratch target G)" using assms by simp
  have weaken: "granted (\<lambda>t. \<exists>roots k. protected_roots E cfg = Inr roots \<and> promotion_basis E cfg roots k t) G1 G2"
    if "protected_roots E cfg = Inr roots" "granted (\<lambda>t. \<exists>k. promotion_basis E cfg roots k t) G1 G2" for roots G1 G2
    using that unfolding granted_def by auto
  show ?thesis
  proof (cases "gate_enabled cfg")
    case False
    then show ?thesis by (simp add: G' promote_def)
  next
    case True
    have quiet: "granted Q G G" for Q by (simp add: granted_def)
    show ?thesis
      by (auto simp: G' promote_def True quiet py_bind_Inr weaken promote_paths_granted split: sum.splits)
  qed
qed

section \<open>Runs of the gate\<close>

text \<open>Checks and promotions in any order, with any settings; the calls that were let through with the roots they touch.\<close>

inductive gate_run :: "gate_env \<Rightarrow> gate \<Rightarrow> pypath list list \<Rightarrow> bool" for E where
  start: "gate_run E new_gate []"
| checked: "gate_run E G calls \<Longrightarrow> check E cfg td ws G = (res, G') \<Longrightarrow>
     gate_run E G' (if res = Inr None then calls @ [case guarded_roots E cfg td ws of Inr rs \<Rightarrow> rs | Inl _ \<Rightarrow> []] else calls)"
| promoted: "gate_run E G calls \<Longrightarrow> promote E cfg scratch target G = (res, G') \<Longrightarrow> gate_run E G' calls"

lemma granted_accounts:
  assumes "granted Q G G'"
  shows "tally (is_use r) G' = tally (is_use r) G \<and> tally (is_override r) G' = tally (is_override r) G \<and>
    tally (is_grant r) G \<le> tally (is_grant r) G' \<and>
    tally (is_grant r) G + held r G' \<le> tally (is_grant r) G' + held r G"
  using assms by (auto simp: granted_def tally_def held_def account_defs split: if_splits)

lemma gate_run_paid:
  "gate_run E G calls \<Longrightarrow> tally (is_use r) G + held r G \<le> tally (is_grant r) G \<and>
     length (filter (\<lambda>ts. r \<in> set ts) calls) \<le> tally (is_use r) G + tally (is_override r) G"
proof (induction rule: gate_run.induct)
  case start
  then show ?case by (simp add: new_gate_def tally_def held_def)
next
  case (checked G calls cfg td ws res G')
  note p = check_pays [OF checked.hyps(2), of r]
  show ?case
  proof (cases "guarded_roots E cfg td ws")
    case (Inl e)
    then show ?thesis using p checked.IH by (auto simp: pays_def)
  next
    case (Inr rs)
    then show ?thesis using p checked.IH by (fastforce simp: pays_def)
  qed
next
  case (promoted G calls cfg scratch target res G')
  show ?case using granted_accounts [OF promote_granted [OF promoted.hyps(2)], of r] promoted.IH by auto
qed

text \<open>A check issues no token.\<close>

definition fewer_tokens :: "gate \<Rightarrow> gate \<Rightarrow> bool" where
  "fewer_tokens G G' \<longleftrightarrow> map_of (tokens G') \<subseteq>\<^sub>m map_of (tokens G)"

lemma fewer_refl [simp]: "tokens G' = tokens G \<Longrightarrow> fewer_tokens G G'"
  by (simp add: fewer_tokens_def)

lemma fewer_trans: "fewer_tokens G1 G2 \<Longrightarrow> fewer_tokens G2 G3 \<Longrightarrow> fewer_tokens G1 G3"
  unfolding fewer_tokens_def by (rule map_le_trans)

lemma fewer_del [simp]: "tokens G' = od_del r (tokens G) \<Longrightarrow> fewer_tokens G G'"
  by (auto simp: fewer_tokens_def map_le_def dom_def)

lemma token_valid_fewer: "fewer_tokens G (snd (token_valid E r G))"
  by (simp add: token_valid_def case_prod_unfold split: option.splits)

lemma has_authority_fewer: "fewer_tokens G (snd (has_authority E r G))"
  using fewer_trans [OF fewer_refl token_valid_fewer, of "snd (override_active E r G)" G E r]
  by (simp add: has_authority_def case_prod_unfold)

lemma refused_fewer: "fewer_tokens G (snd (refused_roots E rs G))"
  by (induction rs arbitrary: G) (auto simp: case_prod_unfold intro: fewer_trans has_authority_fewer)

lemma spend_fewer: "fewer_tokens G (snd (spend E r G))"
  by (simp add: spend_def case_prod_unfold split: option.splits)

lemma spend_all_fewer: "fewer_tokens G (snd (spend_all E rs G))"
proof (induction rs arbitrary: G)
  case (Cons r rs)
  show ?case using spend_fewer [of G E r] Cons.IH [of "snd (spend E r G)"]
    by (auto simp: case_prod_unfold intro: fewer_trans split: sum.splits)
qed simp

lemma check_fewer:
  assumes "check E cfg td ws G = (res, G')"
  shows "fewer_tokens G G'"
proof -
  have "fewer_tokens G (snd (decide_call E rs G))" for rs
  proof -
    obtain bad G1 where b: "refused_roots E rs G = (bad, G1)" by (metis prod.collapse)
    have one: "fewer_tokens G G1" using refused_fewer [of G E rs] b by simp
    have log: "fewer_tokens G (log_event (Refused q) G1)" for q
      by (rule fewer_trans [OF one]) simp
    show ?thesis using fewer_trans [OF one spend_all_fewer, of E rs] log
      by (auto simp: decide_call_def b case_prod_unfold split: list.splits sum.splits)
  qed
  moreover have "G' = snd (check E cfg td ws G)" using assms by simp
  ultimately show ?thesis by (simp add: check_def split: sum.splits)
qed

lemma gate_run_tokens:
  "gate_run E G calls \<Longrightarrow> od_get (tokens G) r = Some t \<Longrightarrow>
     token_root t = r \<and> (\<exists>cfg roots k. protected_roots E cfg = Inr roots \<and> promotion_basis E cfg roots k t)"
proof (induction arbitrary: r t rule: gate_run.induct)
  case start
  then show ?case by (simp add: new_gate_def)
next
  case (checked G calls cfg td ws res G')
  have "od_get (tokens G) r = Some t"
    using check_fewer [OF checked.hyps(2)] checked.prems unfolding fewer_tokens_def map_le_def by (metis domI)
  then show ?case by (rule checked.IH)
next
  case (promoted G calls cfg scratch target res G')
  from promote_granted [OF promoted.hyps(2)] consider "tokens G' = tokens G"
    | t' where "\<exists>roots k. protected_roots E cfg = Inr roots \<and> promotion_basis E cfg roots k t'"
        "tokens G' = od_put (token_root t') t' (tokens G)"
    unfolding granted_def by blast
  then show ?case
  proof cases
    case 1
    then show ?thesis using promoted.IH promoted.prems by simp
  next
    case 2
    then show ?thesis using promoted.IH promoted.prems by (cases "r = token_root t'") auto
  qed
qed

section \<open>Properties\<close>

text \<open>C5: 
  No free entry into a protected root: over any run of checks and promotions, the calls that were
  let through and touch a root are no more than the promotions granted for that root and the uses
  of the owner's override together. A token pays for one call.
\<close>

theorem protected_calls_are_paid:
  assumes "gate_run E G calls"
  shows "length (filter (\<lambda>touched. r \<in> set touched) calls) \<le> tally (is_grant r) G + tally (is_override r) G"
  using gate_run_paid [OF assms, of r] by linarith

text \<open>C15: 
  A call is let through only if the gate is off or every protected root it touches has authority:
  at some look of this check the owner's override is active, or the gate holds a token that is not
  expired and whose scratch checkout has, at the next look, still the validated commit.
\<close>

theorem call_has_authority:
  assumes "check E cfg td ws G = (Inr None, G')" and "guarded_roots E cfg td ws = Inr touched" and "r \<in> set touched"
  shows "\<exists>k. seen G \<le> k \<and> k < seen G' \<and> (overridden E r k \<or>
    (\<exists>t. od_get (tokens G) r = Some t \<and> gate_clock E k < expires t \<and> head_of E (token_scratch t) (Suc k) = Some (token_sha t)))"
proof -
  have "decide_call E touched G = (Inr None, G')" using assms by (auto simp: check_def split: if_splits)
  note decide = this
  obtain bad G1 where b: "refused_roots E touched G = (bad, G1)" by (metis prod.collapse)
  have "bad = []" using decide by (cases bad) (simp_all add: decide_call_def b)
  then have G1: "refused_roots E touched G = ([], G1)" using b by simp
  obtain res G2 where s: "spend_all E touched G1 = (res, G2)" by (metis prod.collapse)
  have "G' = G2" using decide unfolding decide_call_def G1 by (cases res) (simp_all add: s)
  have "authorised E r G G'"
    using refused_none [OF G1] assms(3) spend_all_seen [of G1 E touched] s \<open>G' = G2\<close>
    by - (rule authorised_later [of E r G G1], simp_all)
  then show ?thesis by (auto simp: authorised_def live_token_def)
qed


text \<open>A gate with one protected root, a checkout that stays clean, and a validation that passes.\<close>

definition demo_gate_env :: gate_env where
  "demo_gate_env = \<lparr>gate_clock = real,
     git = (\<lambda>_ _ args. if args = [''rev-parse'', ''HEAD''] then Some ''abc'' else Some []),
     run_command = (\<lambda>_ _ _. Some 0), is_dir = (\<lambda>_ _. True), new_uid = (\<lambda>_. ''t1''),
     expand_home = (\<lambda>p. p), resolve = Some, override_text = [], agent_name = ''default'', str_of = (\<lambda>_. [])\<rparr>"

definition demo_gate_config :: "string list \<Rightarrow> gate_config" where
  "demo_gate_config names = \<lparr>gate_enabled = True, root_names = names, allow_read = True, scratch_root = [],
     validation = [''make test''], token_ttl = 900\<rparr>"

definition demo_edit :: pydict where
  "demo_edit = [(''type'', PStr ''file_edit''), (''file'', PStr ''/srv/app/main.py'')]"

abbreviation demo_shared :: pypath where
  "demo_shared \<equiv> (True, [''srv'', ''app''])"

definition demo_promoted :: gate where
  "demo_promoted = snd (promote demo_gate_env (demo_gate_config [''/srv/app'']) ''/tmp/scratch'' ''/srv/app'' new_gate)"

definition demo_entered :: gate where
  "demo_entered = snd (check demo_gate_env (demo_gate_config [''/srv/app'']) demo_edit (True, [''work'']) demo_promoted)"

lemma demo_guarded: "guarded_roots demo_gate_env (demo_gate_config [''/srv/app'']) demo_edit (True, [''work'']) = Inr [demo_shared]"
  by code_simp

lemma demo_check: "check demo_gate_env (demo_gate_config [''/srv/app'']) demo_edit (True, [''work'']) demo_promoted = (Inr None, demo_entered)"
proof -
  have "fst (check demo_gate_env (demo_gate_config [''/srv/app'']) demo_edit (True, [''work'']) demo_promoted) = Inr None"
    by code_simp
  then show ?thesis unfolding demo_entered_def by (simp add: prod_eq_iff)
qed

lemma demo_promotion_run: "gate_run demo_gate_env demo_promoted []"
  unfolding demo_promoted_def by (rule gate_run.promoted [OF gate_run.start prod.collapse [symmetric]])

lemma demo_gate_run: "gate_run demo_gate_env demo_entered [[demo_shared]]"
  using gate_run.checked [OF demo_promotion_run demo_check] by (simp add: demo_guarded)

theorem protected_calls_are_paid_witness:
  "length (filter (\<lambda>touched. demo_shared \<in> set touched) [[demo_shared]])
     \<le> tally (is_grant demo_shared) demo_entered + tally (is_override demo_shared) demo_entered"
  by (rule protected_calls_are_paid [OF demo_gate_run])

theorem call_has_authority_witness:
  "\<exists>k. seen demo_promoted \<le> k \<and> k < seen demo_entered \<and> (overridden demo_gate_env demo_shared k \<or>
    (\<exists>t. od_get (tokens demo_promoted) demo_shared = Some t \<and> gate_clock demo_gate_env k < expires t \<and>
       head_of demo_gate_env (token_scratch t) (Suc k) = Some (token_sha t)))"
  by (rule call_has_authority [OF demo_check demo_guarded]) simp


text \<open>
  Two names of one protected root make every promoted call fail: the roots are not made distinct,
  so the token of the root is taken once and then missed, and the call ends in a KeyError although
  its promotion was valid (and is now used up).
\<close>

theorem doubled_root_breaks_promotion:
  "fst (check demo_gate_env (demo_gate_config [''/srv/app'', ''/srv/app/'']) demo_edit (True, [''work''])
     demo_promoted) = Inl (KeyError ''/srv/app'')"
  by code_simp

text \<open>
  An override that runs out between the question and the payment raises a KeyError: there is no
  token to take.
\<close>

theorem override_running_out_raises:
  "fst (check (demo_gate_env\<lparr>override_text := ''/srv/app@0.5''\<rparr>) (demo_gate_config [''/srv/app'']) demo_edit
     (True, [''work'']) new_gate) = Inl (KeyError ''/srv/app'')"
  by code_simp

end
