(* ===== verification/Py_Bytes.thy ===== *)
theory Py_Bytes
  imports Kollab_Prelude "HOL-Library.Word"
begin

unbundle bit_operations_syntax

text \<open>
  Bytes as \<open>8 word\<close>, their ASCII and hexadecimal texts, and the url-safe Base64 of the standard
  library, with its decoder: characters outside the alphabet are skipped, and padding ends the text.
  What the encoder writes the decoder reads back.
\<close>

type_synonym byte = "8 word"

section \<open>Bytes and text\<close>

definition ascii_encode :: "string \<Rightarrow> byte list" where
  "ascii_encode = map (\<lambda>c. word_of_nat (of_char c))"

definition ascii_decode :: "byte list \<Rightarrow> string option" where
  "ascii_decode bs = (if list_all (\<lambda>b. b < 128) bs then Some (map (\<lambda>b. char_of (unat b)) bs) else None)"

definition is_ascii :: "char \<Rightarrow> bool" where
  "is_ascii c \<longleftrightarrow> (of_char c :: nat) < 128"

definition upper_char :: "char \<Rightarrow> char" where
  "upper_char c = (let n = of_char c :: nat in
     if (97 \<le> n \<and> n \<le> 122) \<or> (224 \<le> n \<and> n \<le> 254 \<and> n \<noteq> 247) then char_of (n - 32) else c)"

definition hex_digits :: string where
  "hex_digits = ''0123456789abcdef''"

fun index_of :: "'a \<Rightarrow> 'a list \<Rightarrow> nat" where
  "index_of x [] = 0"
| "index_of x (y # ys) = (if x = y then 0 else Suc (index_of x ys))"

fun from_hex :: "string \<Rightarrow> byte list" where
  "from_hex (a # b # cs) = word_of_nat (16 * index_of a hex_digits + index_of b hex_digits) # from_hex cs"
| "from_hex _ = []"

definition hex_text :: "byte list \<Rightarrow> string" where
  "hex_text bs = concat (map (\<lambda>b. [hex_digits ! (unat b div 16), hex_digits ! (unat b mod 16)]) bs)"

section \<open>Base64\<close>

definition b64_alphabet :: string where
  "b64_alphabet = ''ABCDEFGHIJKLMNOPQRSTUVWXYZabcdefghijklmnopqrstuvwxyz0123456789-_''"

definition b64_char :: "byte \<Rightarrow> char" where
  "b64_char b = b64_alphabet ! unat b"

text \<open>\<open>urlsafe_b64encode(bs).rstrip(b'=')\<close>\<close>

fun b64_encode :: "byte list \<Rightarrow> string" where
  "b64_encode [] = []"
| "b64_encode [a] = [b64_char (drop_bit 2 a), b64_char (push_bit 4 (a AND 3))]"
| "b64_encode [a, b] = [b64_char (drop_bit 2 a), b64_char (push_bit 4 (a AND 3) OR drop_bit 4 b), b64_char (push_bit 2 (b AND 15))]"
| "b64_encode (a # b # c # bs) =
     [b64_char (drop_bit 2 a), b64_char (push_bit 4 (a AND 3) OR drop_bit 4 b),
      b64_char (push_bit 2 (b AND 15) OR drop_bit 6 c), b64_char (c AND 63)] @ b64_encode bs"

text \<open>
  The decoder's loop over the text: the position in the group of four, the bits left over, and the
  padding characters since the last data character. The url-safe alphabet is mapped to the standard
  one first, so its own two characters and the standard ones count as data.
\<close>

definition b64_value :: "char \<Rightarrow> byte option" where
  "b64_value c =
     (if c \<in> set b64_alphabet then Some (word_of_nat (index_of c b64_alphabet))
      else if c = CHR ''+'' then Some 62 else if c = CHR ''/'' then Some 63 else None)"

fun b64_loop :: "nat \<Rightarrow> byte \<Rightarrow> nat \<Rightarrow> string \<Rightarrow> byte list py_result" where
  "b64_loop quad left pads [] = (if quad = 0 then Inr [] else Inl (ValueError ''Incorrect padding''))"
| "b64_loop quad left pads (c # cs) =
     (if c = CHR ''=''
      then if quad \<ge> 2 \<and> quad + Suc pads \<ge> 4 then Inr [] else b64_loop quad left (if quad \<ge> 2 then Suc pads else pads) cs
      else case b64_value c of
             None \<Rightarrow> b64_loop quad left pads cs
           | Some v \<Rightarrow>
               if quad = 0 then b64_loop 1 v 0 cs
               else if quad = 1 then py_bind (b64_loop 2 (v AND 15) 0 cs) (\<lambda>r. Inr ((push_bit 2 left OR drop_bit 4 v) # r))
               else if quad = 2 then py_bind (b64_loop 3 (v AND 3) 0 cs) (\<lambda>r. Inr ((push_bit 4 left OR drop_bit 2 v) # r))
               else py_bind (b64_loop 0 0 0 cs) (\<lambda>r. Inr ((push_bit 6 left OR v) # r)))"

definition b64_decode :: "string \<Rightarrow> byte list py_result" where
  "b64_decode s = (if list_all is_ascii s then b64_loop 0 0 0 s
                   else Inl (ValueError ''string argument should contain only ASCII characters''))"

section \<open>UTF-8\<close>

text \<open>
  \<open>encode("utf-8")\<close> of the characters, whose code points are below 256, and
  \<open>decode("utf-8", "ignore")\<close> of such text cut anywhere: what is not a whole character is skipped.
\<close>

definition utf8_char :: "char \<Rightarrow> byte list" where
  "utf8_char c = (let n = of_char c :: nat in
     if n < 128 then [word_of_nat n] else [word_of_nat (192 + n div 64), word_of_nat (128 + n mod 64)])"

definition utf8_encode :: "string \<Rightarrow> byte list" where
  "utf8_encode s = concat (map utf8_char s)"

fun utf8_decode_ignore :: "byte list \<Rightarrow> string" where
  "utf8_decode_ignore [] = []"
| "utf8_decode_ignore [b] = (if b < 128 then [char_of (unat b)] else [])"
| "utf8_decode_ignore (b # c # bs) =
     (if b < 128 then char_of (unat b) # utf8_decode_ignore (c # bs)
      else if (b = 194 \<or> b = 195) \<and> 128 \<le> c \<and> c < 192
      then char_of (64 * (unat b - 192) + (unat c - 128)) # utf8_decode_ignore bs
      else utf8_decode_ignore (c # bs))"

section \<open>Base64 is read back\<close>

definition sextet :: "byte \<Rightarrow> bool" where
  "sextet b \<longleftrightarrow> take_bit 6 b = b"

lemma sextet_less: "sextet b \<Longrightarrow> unat b < 64"
proof -
  assume "sextet b"
  then have "unat b = take_bit 6 (unat b)" by (metis sextet_def unsigned_take_bit_eq)
  then show ?thesis using take_bit_nat_less_exp [of 6 "unat b"] by simp
qed

lemma b64_value_char: "sextet b \<Longrightarrow> b64_value (b64_char b) = Some b \<and> b64_char b \<noteq> CHR ''='' \<and> is_ascii (b64_char b)"
proof -
  assume b: "sextet b"
  have "list_all (\<lambda>n. b64_value (b64_alphabet ! n) = Some (word_of_nat n) \<and> b64_alphabet ! n \<noteq> CHR ''='' \<and> is_ascii (b64_alphabet ! n)) [0..<64]"
    by code_simp
  then have "b64_value (b64_alphabet ! unat b) = Some (word_of_nat (unat b)) \<and> b64_alphabet ! unat b \<noteq> CHR ''='' \<and> is_ascii (b64_alphabet ! unat b)"
    using sextet_less [OF b] by (simp add: list_all_iff)
  then show ?thesis by (simp add: b64_char_def)
qed

text \<open>Equality of bytes bit by bit.\<close>

lemma byte_high: "8 \<le> n \<Longrightarrow> \<not> bit (b :: byte) n"
  using bit_imp_le_length [of b n] by auto

lemma byte_eqI:
  fixes v w :: byte
  assumes "bit v 0 = bit w 0" "bit v 1 = bit w 1" "bit v 2 = bit w 2" "bit v 3 = bit w 3"
    "bit v 4 = bit w 4" "bit v 5 = bit w 5" "bit v 6 = bit w 6" "bit v 7 = bit w 7"
  shows "v = w"
proof (rule bit_word_eqI)
  fix n
  assume "n < LENGTH(8)"
  then have "n \<in> {0, 1, 2, 3, 4, 5, 6, 7}" by auto
  then show "bit v n = bit w n" using assms by auto
qed

lemma sextets:
  fixes a b c :: byte
  shows "sextet (drop_bit 2 a)" "sextet (push_bit 4 (a AND 3))" "sextet (push_bit 4 (a AND 3) OR drop_bit 4 b)"
    "sextet (push_bit 2 (b AND 15))" "sextet (push_bit 2 (b AND 15) OR drop_bit 6 c)" "sextet (c AND 63)"
  unfolding sextet_def by (rule byte_eqI; simp add: bit_simps byte_high)+

lemma regroup:
  fixes a b c :: byte
  shows "push_bit 2 (drop_bit 2 a) OR drop_bit 4 (push_bit 4 (a AND 3)) = a"
    "push_bit 2 (drop_bit 2 a) OR drop_bit 4 (push_bit 4 (a AND 3) OR drop_bit 4 b) = a"
    "push_bit 4 ((push_bit 4 (a AND 3) OR drop_bit 4 b) AND 15) OR drop_bit 2 (push_bit 2 (b AND 15)) = b"
    "push_bit 4 ((push_bit 4 (a AND 3) OR drop_bit 4 b) AND 15) OR drop_bit 2 (push_bit 2 (b AND 15) OR drop_bit 6 c) = b"
    "push_bit 6 ((push_bit 2 (b AND 15) OR drop_bit 6 c) AND 3) OR (c AND 63) = c"
  by (rule byte_eqI; simp add: bit_simps byte_high)+

lemma b64_loop_char:
  assumes "sextet v"
  shows "b64_loop 0 left pads (b64_char v # cs) = b64_loop 1 v 0 cs"
    "b64_loop 1 left pads (b64_char v # cs) = py_bind (b64_loop 2 (v AND 15) 0 cs) (\<lambda>r. Inr ((push_bit 2 left OR drop_bit 4 v) # r))"
    "b64_loop 2 left pads (b64_char v # cs) = py_bind (b64_loop 3 (v AND 3) 0 cs) (\<lambda>r. Inr ((push_bit 4 left OR drop_bit 2 v) # r))"
    "b64_loop 3 left pads (b64_char v # cs) = py_bind (b64_loop 0 0 0 cs) (\<lambda>r. Inr ((push_bit 6 left OR v) # r))"
  using b64_value_char [OF assms] by simp_all

lemma b64_padding: "b64_loop 2 left 0 ''=='' = Inr []" "b64_loop 3 left 0 ''='' = Inr []"
  by simp_all

definition padding :: "nat \<Rightarrow> string" where
  "padding n = replicate ((4 - n mod 4) mod 4) CHR ''=''"

lemma padding_four: "padding (n + 4) = padding n" "padding 0 = []" "padding 2 = ''==''" "padding 3 = ''=''"
  by (simp_all add: padding_def numeral_2_eq_2)

lemma b64_four:
  assumes "sextet w" "sextet x" "sextet y" "sextet z"
  shows "b64_loop 0 left pads (b64_char w # b64_char x # b64_char y # b64_char z # cs) =
    py_bind (b64_loop 0 0 0 cs) (\<lambda>r. Inr ((push_bit 2 w OR drop_bit 4 x) # (push_bit 4 (x AND 15) OR drop_bit 2 y) #
      (push_bit 6 (y AND 3) OR z) # r))"
  unfolding b64_loop_char(1) [OF assms(1)] b64_loop_char(2) [OF assms(2)] b64_loop_char(3) [OF assms(3)] b64_loop_char(4) [OF assms(4)]
  by (cases "b64_loop 0 0 0 cs") simp_all

lemma b64_round_trip: "b64_loop 0 left pads (b64_encode bs @ padding (length (b64_encode bs))) = Inr bs"
proof (induction bs arbitrary: left pads rule: b64_encode.induct)
  case (4 a b c bs)
  let ?cs = "b64_encode bs @ padding (length (b64_encode bs))"
  have "b64_encode (a # b # c # bs) @ padding (length (b64_encode (a # b # c # bs))) =
      b64_char (drop_bit 2 a) # b64_char (push_bit 4 (a AND 3) OR drop_bit 4 b) #
      b64_char (push_bit 2 (b AND 15) OR drop_bit 6 c) # b64_char (c AND 63) # ?cs"
    using padding_four(1) [of "length (b64_encode bs)"] by (simp add: numeral_eq_Suc)
  then show ?case unfolding b64_four [OF sextets(1,3,5,6)] using "4.IH" [of 0 0]
    by (simp only: b64_four [OF sextets(1,3,5,6)] py_bind.simps regroup)
next
  case (3 a b)
  have "length (b64_encode [a, b]) = 3" by simp
  then show ?case unfolding b64_encode.simps
    by (simp only: padding_four append_Cons append_Nil b64_loop_char(1) [OF sextets(1)] b64_loop_char(2) [OF sextets(3)]
        b64_loop_char(3) [OF sextets(4)] b64_padding py_bind.simps regroup)
next
  case (2 a)
  have "length (b64_encode [a]) = 2" by simp
  then show ?case unfolding b64_encode.simps
    by (simp only: padding_four append_Cons append_Nil b64_loop_char(1) [OF sextets(1)] b64_loop_char(2) [OF sextets(2)]
        b64_padding py_bind.simps regroup)
qed (simp add: padding_four)

lemma b64_ascii: "list_all is_ascii (b64_encode bs @ padding n)"
proof -
  have "list_all is_ascii (b64_encode bs)"
    by (induction bs rule: b64_encode.induct) (simp_all only: b64_encode.simps list.pred_inject list_all_append b64_value_char sextets simp_thms)
  then show ?thesis by (auto simp: padding_def list_all_iff is_ascii_def)
qed

lemma b64_decode_encode: "b64_decode (b64_encode bs @ padding (length (b64_encode bs))) = Inr bs"
  by (simp only: b64_decode_def b64_ascii if_True b64_round_trip)

lemma b64_encode_empty: "b64_encode bs = [] \<longleftrightarrow> bs = []"
  by (cases bs rule: b64_encode.cases) simp_all

section \<open>Facts about texts of bytes\<close>

lemma hex_text_length [simp]: "length (hex_text bs) = 2 * length bs"
  by (induction bs) (simp_all add: hex_text_def)

lemma hex_text_ascii: "list_all is_ascii (hex_text bs)"
proof -
  have "is_ascii (hex_digits ! n)" if "n < 16" for n
  proof -
    have "list_all (\<lambda>n. is_ascii (hex_digits ! n)) [0..<16]" by code_simp
    with that show ?thesis by (simp add: list_all_iff)
  qed
  moreover have "unat (b :: byte) div 16 < 16" "unat b mod 16 < 16" for b
  proof -
    have "unat b < 2 ^ LENGTH(8)" by (rule unsigned_less)
    then show "unat b div 16 < 16" "unat b mod 16 < 16" by simp_all
  qed
  ultimately show ?thesis by (induction bs) (simp_all add: hex_text_def)
qed

lemma b64_length: "3 * length (b64_encode bs) \<le> 4 * length bs + 2"
  by (induction bs rule: b64_encode.induct) simp_all

lemma b64_no_dot: "CHR ''.'' \<notin> set (b64_encode bs)"
proof -
  have "b64_value CHR ''.'' = None" by code_simp
  then have "CHR ''.'' \<noteq> b64_char b" if "sextet b" for b using b64_value_char [OF that] by auto
  then show ?thesis using sextets
    by (induction bs rule: b64_encode.induct) (simp_all only: b64_encode.simps set_append list.set insert_iff empty_iff Un_iff simp_thms not_False_eq_True)
qed

end
