(* ===== verification/Enrollment_Codes.thy ===== *)
theory Enrollment_Codes
  imports Py_Bytes
begin

unbundle bit_operations_syntax

text \<open>
  Codes with which a device joins a network of the hub (\<open>plugins/hub/enrollment_codes.py\<close>): a short
  code of eight characters is made from forty random bits, shown to the user, typed in on the other
  device, and turned into a verifier, a key and a lookup tag.

  SHA-256, HMAC and scrypt are parameters (\<open>crypto\<close>); what the theorems need of them is the length of
  their digests.

  The theorems: a generated code survives display and typing, in either case and with or without
  its dash; different random values give different codes; a lookup tag survives its encoding;
  the key derivation is the one of RFC 5869; a wiped code gives nothing away.
\<close>

section \<open>Codes\<close>

definition CROCKFORD_ALPHABET :: string where
  "CROCKFORD_ALPHABET = ''0123456789ABCDEFGHJKMNPQRSTVWXYZ''"

definition CROCKFORD_LOWER :: string where
  "CROCKFORD_LOWER = str_lower CROCKFORD_ALPHABET"

definition OFFER_ID_LENGTH :: nat where "OFFER_ID_LENGTH = 32"
definition SECRET_LENGTH :: nat where "SECRET_LENGTH = 8"
definition SECRET_BYTES :: nat where "SECRET_BYTES = 5"

definition domain_bytes :: "string \<Rightarrow> byte list" where
  "domain_bytes s = ascii_encode s @ [0]"

definition KDF_DOMAIN :: "byte list" where "KDF_DOMAIN = domain_bytes ''kollab-relay-enrollment-code-v1''"
definition VERIFIER_DOMAIN :: "byte list" where "VERIFIER_DOMAIN = domain_bytes ''kollab-relay-enrollment-verifier-v1''"
definition ENVELOPE_SALT_DOMAIN :: "byte list" where "ENVELOPE_SALT_DOMAIN = domain_bytes ''kollab-relay-enrollment-envelope-salt-v1''"
definition ENVELOPE_INFO_DOMAIN :: "byte list" where "ENVELOPE_INFO_DOMAIN = domain_bytes ''kollab-relay-enrollment-envelope-key-v1''"
definition LOOKUP_DOMAIN :: "byte list" where "LOOKUP_DOMAIN = domain_bytes ''kollab-relay-enrollment-lookup-v1''"

record crypto =
  sha256 :: "byte list \<Rightarrow> byte list"
  hmac :: "byte list \<Rightarrow> byte list \<Rightarrow> byte list"
  scrypt :: "byte list \<Rightarrow> byte list \<Rightarrow> byte list"

definition validate_offer_id :: "string \<Rightarrow> byte list py_result" where
  "validate_offer_id offer_id =
     (if length offer_id \<noteq> OFFER_ID_LENGTH \<or> list_ex (\<lambda>c. c \<notin> set hex_digits) offer_id
      then Inl (ValueError ''invalid enrollment offer ID'') else Inr (from_hex offer_id))"

definition validate_secret :: "byte list \<Rightarrow> byte list py_result" where
  "validate_secret secret =
     (if length secret \<noteq> SECRET_LENGTH then Inl (ValueError ''invalid enrollment code secret'')
      else case ascii_decode secret of
             None \<Rightarrow> Inl (ValueError ''invalid enrollment code secret'')
           | Some text \<Rightarrow> if list_ex (\<lambda>c. c \<notin> set CROCKFORD_ALPHABET) text then Inl (ValueError ''invalid enrollment code secret'')
                          else Inr (ascii_encode text))"

record enrollment_code =
  offer_id :: string
  secret :: "byte list"

record enrollment_value =
  value_offer :: string
  key_value :: "byte list"

definition make_code :: "string \<Rightarrow> byte list \<Rightarrow> enrollment_code py_result" where
  "make_code offer sec =
     py_bind (validate_offer_id offer) (\<lambda>_. py_bind (validate_secret sec) (\<lambda>s. Inr \<lparr>offer_id = offer, secret = s\<rparr>))"

definition code_str :: "enrollment_code \<Rightarrow> string" where
  "code_str c = ''EnrollmentCode(offer_id='' @ offer_id c @ '', secret=<redacted>)''"

definition secret_bytes :: "enrollment_code \<Rightarrow> byte list py_result" where
  "secret_bytes c = (if length (secret c) \<noteq> SECRET_LENGTH then Inl (ValueError ''enrollment code has been cleared'') else Inr (secret c))"

definition secret_text :: "enrollment_code \<Rightarrow> string py_result" where
  "secret_text c = py_bind (secret_bytes c) (\<lambda>bs.
     case ascii_decode bs of Some s \<Rightarrow> Inr s | None \<Rightarrow> Inl (ValueError ''enrollment code has been cleared''))"

definition for_private_display :: "enrollment_code \<Rightarrow> string py_result" where
  "for_private_display c = py_bind (secret_text c) (\<lambda>s. Inr (take 4 s @ ''-'' @ drop 4 s))"

definition wipe :: "enrollment_code \<Rightarrow> enrollment_code" where
  "wipe c = c\<lparr>secret := []\<rparr>"

text \<open>Verifier and envelope key have the same shape: an offer and 32 bytes.\<close>

definition make_value :: "string \<Rightarrow> string \<Rightarrow> byte list \<Rightarrow> enrollment_value py_result" where
  "make_value what offer v =
     py_bind (validate_offer_id offer) (\<lambda>_.
       if length v \<noteq> 32 then Inl (ValueError what) else Inr \<lparr>value_offer = offer, key_value = v\<rparr>)"

definition value_bytes :: "string \<Rightarrow> enrollment_value \<Rightarrow> byte list py_result" where
  "value_bytes what v = (if length (key_value v) \<noteq> 32 then Inl (ValueError what) else Inr (key_value v))"

definition wipe_value :: "enrollment_value \<Rightarrow> enrollment_value" where
  "wipe_value v = v\<lparr>key_value := []\<rparr>"

definition for_protocol :: "enrollment_value \<Rightarrow> string py_result" where
  "for_protocol v = py_bind (value_bytes ''enrollment verifier has been cleared'' v) (\<lambda>bs. Inr (b64_encode bs))"

definition for_envelope_encryption :: "enrollment_value \<Rightarrow> byte list py_result" where
  "for_envelope_encryption v = value_bytes ''enrollment envelope key has been cleared'' v"

section \<open>Making and reading codes\<close>

definition bytes_value :: "byte list \<Rightarrow> int" where
  "bytes_value = foldl (\<lambda>n b. 256 * n + uint b) 0"

definition secret_digit :: "int \<Rightarrow> nat \<Rightarrow> nat" where
  "secret_digit v i = nat (drop_bit (5 * (SECRET_LENGTH - 1 - i)) v AND 31)"

definition secret_of_value :: "int \<Rightarrow> string" where
  "secret_of_value v = map (\<lambda>i. CROCKFORD_ALPHABET ! secret_digit v i) [0..<SECRET_LENGTH]"

text \<open>\<open>random_value\<close> is what \<open>secrets.token_bytes\<close> returned.\<close>

definition generate_enrollment_code :: "string \<Rightarrow> byte list \<Rightarrow> enrollment_code py_result" where
  "generate_enrollment_code offer random_value =
     py_bind (validate_offer_id offer) (\<lambda>_.
       if length random_value \<noteq> SECRET_BYTES then Inl (ValueError ''could not generate enrollment code'')
       else make_code offer (ascii_encode (secret_of_value (bytes_value random_value))))"

definition code_group :: "string \<Rightarrow> bool" where
  "code_group s \<longleftrightarrow> length s = 4 \<and> list_all (\<lambda>c. c \<in> set CROCKFORD_ALPHABET) s"

fun code_groups :: "nat \<Rightarrow> string \<Rightarrow> bool" where
  "code_groups 0 s = False"
| "code_groups (Suc 0) s = code_group s"
| "code_groups (Suc n) s = (code_group (take 4 s) \<and> drop 4 s \<noteq> [] \<and> hd (drop 4 s) = CHR ''-'' \<and> code_groups n (drop 5 s))"

definition split_join_code :: "string \<Rightarrow> (string \<times> string) py_result" where
  "split_join_code s =
     (let text = str_strip s
      in if length text = 24 \<and> text ! 4 = CHR ''-'' \<and> text ! 9 = CHR ''-'' \<and> text ! 14 = CHR ''-'' \<and> text ! 19 = CHR ''-''
         then let anchor = map upper_char (drop 10 text)
              in if \<not> code_groups 3 anchor then Inl (ValueError ''invalid enrollment code'') else Inr (take 9 text, anchor)
         else Inr (text, []))"

definition looks_like_join_code :: "string \<Rightarrow> bool" where
  "looks_like_join_code part \<longleftrightarrow> code_groups 2 part \<or> code_groups 5 part"

fun normalized :: "string \<Rightarrow> string py_result" where
  "normalized [] = Inr []"
| "normalized (c # cs) =
     (if \<not> is_ascii c then Inl (ValueError ''invalid enrollment code'')
      else if c \<in> set CROCKFORD_ALPHABET then py_bind (normalized cs) (\<lambda>r. Inr (c # r))
      else if c \<in> set CROCKFORD_LOWER then py_bind (normalized cs) (\<lambda>r. Inr (upper_char c # r))
      else Inl (ValueError ''invalid enrollment code''))"

definition parse_short_enrollment_code :: "string \<Rightarrow> byte list py_result" where
  "parse_short_enrollment_code s =
     py_bind (split_join_code s) (\<lambda>(stripped, _).
       py_bind (if length stripped = SECRET_LENGTH + 1 \<and> stripped ! 4 = CHR ''-'' then Inr (take 4 stripped @ drop 5 stripped)
                else if length stripped = SECRET_LENGTH then Inr stripped
                else Inl (ValueError ''invalid enrollment code''))
         (\<lambda>digits. py_bind (normalized digits) (\<lambda>n. Inr (ascii_encode n))))"

definition is_short_enrollment_code :: "string \<Rightarrow> bool" where
  "is_short_enrollment_code s = (case parse_short_enrollment_code s of Inr _ \<Rightarrow> True | Inl _ \<Rightarrow> False)"

section \<open>Derived values\<close>

text \<open>The loop of HKDF: \<open>count\<close> rounds from \<open>counter\<close> on, each with the block before it.\<close>

fun hkdf_loop :: "crypto \<Rightarrow> byte list \<Rightarrow> byte list \<Rightarrow> nat \<Rightarrow> nat \<Rightarrow> byte list \<Rightarrow> byte list \<Rightarrow> byte list" where
  "hkdf_loop C prk info counter 0 previous output = output"
| "hkdf_loop C prk info counter (Suc n) previous output =
     (let block = hmac C prk (previous @ info @ [word_of_nat counter])
      in hkdf_loop C prk info (Suc counter) n block (output @ block))"

definition hkdf_sha256 :: "crypto \<Rightarrow> byte list \<Rightarrow> byte list \<Rightarrow> byte list \<Rightarrow> nat \<Rightarrow> byte list py_result" where
  "hkdf_sha256 C ikm salt info len =
     (if len > 255 * 32 then Inl (ValueError ''invalid HKDF output length'')
      else Inr (take len (hkdf_loop C (hmac C salt ikm) info 1 ((len + 31) div 32) [] [])))"

definition derive_enrollment_code_verifier :: "crypto \<Rightarrow> enrollment_code \<Rightarrow> enrollment_value py_result" where
  "derive_enrollment_code_verifier C code =
     py_bind (validate_offer_id (offer_id code)) (\<lambda>oid.
       py_bind (secret_bytes code) (\<lambda>s.
         make_value ''invalid enrollment code verifier'' (offer_id code) (scrypt C s (sha256 C (KDF_DOMAIN @ oid)))))"

definition derive_enrollment_envelope_key :: "crypto \<Rightarrow> enrollment_code \<Rightarrow> enrollment_value py_result" where
  "derive_enrollment_envelope_key C code =
     py_bind (validate_offer_id (offer_id code)) (\<lambda>oid.
       py_bind (secret_bytes code) (\<lambda>s.
         py_bind (hkdf_sha256 C s (sha256 C (ENVELOPE_SALT_DOMAIN @ oid)) (ENVELOPE_INFO_DOMAIN @ oid) 32) (\<lambda>k.
           make_value ''invalid enrollment envelope key'' (offer_id code) k)))"

definition derive_enrollment_lookup_tag :: "crypto \<Rightarrow> byte list \<Rightarrow> string \<Rightarrow> string py_result" where
  "derive_enrollment_lookup_tag C sec origin =
     (if length sec \<noteq> SECRET_LENGTH then Inl (ValueError ''invalid enrollment code secret'')
      else if origin = [] then Inl (ValueError ''invalid origin'')
      else if \<not> list_all is_ascii origin then Inl (ValueError ''ordinal not in range(128)'')
      else Inr (b64_encode (hmac C (LOOKUP_DOMAIN @ ascii_encode origin) sec)))"

definition for_lookup_tag :: "crypto \<Rightarrow> string \<Rightarrow> enrollment_code \<Rightarrow> string py_result" where
  "for_lookup_tag C origin c = py_bind (secret_bytes c) (\<lambda>s. derive_enrollment_lookup_tag C s origin)"

definition enrollment_lookup_hash :: "crypto \<Rightarrow> string \<Rightarrow> string py_result" where
  "enrollment_lookup_hash C lookup =
     (if lookup = [] then Inl (ValueError ''invalid lookup tag'')
      else case b64_decode (lookup @ replicate ((4 - length lookup mod 4) mod 4) CHR ''='') of
             Inl _ \<Rightarrow> Inl (ValueError ''invalid lookup tag'')
           | Inr tag \<Rightarrow> if length tag \<noteq> 32 then Inl (ValueError ''invalid lookup tag'') else Inr (hex_text (sha256 C tag)))"

definition enrollment_verifier_hash :: "crypto \<Rightarrow> string \<Rightarrow> enrollment_value \<Rightarrow> string py_result" where
  "enrollment_verifier_hash C offer v =
     py_bind (validate_offer_id offer) (\<lambda>oid.
       if value_offer v \<noteq> offer then Inl (ValueError ''verifier belongs to a different offer'')
       else py_bind (value_bytes ''enrollment verifier has been cleared'' v) (\<lambda>bs. Inr (hex_text (hmac C (VERIFIER_DOMAIN @ oid) bs))))"

section \<open>Text of a code\<close>

lemma crockford_code: "c \<in> set CROCKFORD_ALPHABET \<Longrightarrow> (of_char c :: nat) \<in> {48..57} \<union> {65..90}"
  by (auto simp: CROCKFORD_ALPHABET_def)

lemma lower_crockford:
  assumes "c \<in> set CROCKFORD_ALPHABET"
  shows "of_char (lower_char c) = (if (of_char c :: nat) < 60 then of_char c else of_char c + 32 :: nat)"
  using crockford_code [OF assms] by (auto simp: lower_char_def Let_def)

lemma upper_lower_crockford:
  assumes "c \<in> set CROCKFORD_ALPHABET"
  shows "upper_char (lower_char c) = c"
proof -
  have "(of_char (upper_char (lower_char c)) :: nat) = of_char c"
    using crockford_code [OF assms] lower_crockford [OF assms] by (auto simp: upper_char_def Let_def)
  then show ?thesis by simp
qed

lemma crockford_char:
  assumes "c \<in> set CROCKFORD_ALPHABET"
  shows "is_ascii c" "\<not> is_space c" "c \<noteq> CHR ''-''" "normalized [c] = Inr [c]" "normalized [lower_char c] = Inr [c]"
    "\<not> is_space (lower_char c)" "lower_char c \<noteq> CHR ''-''"
proof -
  note code = crockford_code [OF assms] and low = lower_crockford [OF assms]
  show asc: "is_ascii c" using code by (auto simp: is_ascii_def)
  show "\<not> is_space c" "\<not> is_space (lower_char c)" using code low by (auto simp: is_space_def Let_def)
  show "c \<noteq> CHR ''-''" "lower_char c \<noteq> CHR ''-''" using code low by auto
  show "normalized [c] = Inr [c]" using asc assms by simp
  have "is_ascii (lower_char c)" using code low by (auto simp: is_ascii_def)
  moreover have "lower_char c = c" if "lower_char c \<in> set CROCKFORD_ALPHABET"
  proof -
    have "(of_char (lower_char c) :: nat) = of_char c" using crockford_code [OF that] code low by auto
    then show ?thesis by simp
  qed
  moreover have "lower_char c \<in> set CROCKFORD_LOWER" using assms by (simp add: CROCKFORD_LOWER_def str_lower_def)
  ultimately show "normalized [lower_char c] = Inr [c]" using upper_lower_crockford [OF assms] by simp
qed

lemma normalized_Cons: "normalized (c # cs) = py_bind (normalized [c]) (\<lambda>r. py_bind (normalized cs) (\<lambda>s. Inr (r @ s)))"
  by simp

lemma normalized_code:
  assumes "set s \<subseteq> set CROCKFORD_ALPHABET"
  shows "normalized s = Inr s" "normalized (map lower_char s) = Inr s"
proof -
  show "normalized s = Inr s" using assms
  proof (induction s)
    case (Cons c s)
    then show ?case using crockford_char(4) [of c] by (subst normalized_Cons) (simp del: normalized.simps(2))
  qed simp
  show "normalized (map lower_char s) = Inr s" using assms
  proof (induction s)
    case (Cons c s)
    then show ?case using crockford_char(5) [of c]
      by (simp only: list.map) (subst normalized_Cons, simp del: normalized.simps(2))
  qed simp
qed

lemma strip_blanks:
  assumes "list_all is_space pre" "list_all is_space post" "\<forall>c \<in> set s. \<not> is_space c" "s \<noteq> []"
  shows "str_strip (pre @ s @ post) = s"
proof -
  have nb: "dropWhile is_space t = t" if "\<forall>c \<in> set t. \<not> is_space c" for t
    using that by (cases t) auto
  have "dropWhile is_space (pre @ s @ post) = s @ post"
    using assms by (cases s) (auto simp: dropWhile_append2 list_all_iff)
  moreover have "dropWhile is_space (rev post @ rev s) = rev s"
    using assms nb [of "rev s"] by (subst dropWhile_append2) (auto simp: list_all_iff)
  ultimately show ?thesis by (simp add: str_strip_def)
qed

lemma ascii_round_trip:
  assumes "list_all is_ascii s"
  shows "ascii_decode (ascii_encode s) = Some s"
proof -
  have "unat (word_of_nat (of_char c) :: byte) = of_char c" if "is_ascii c" for c
    using that by (simp add: is_ascii_def unat_of_nat take_bit_nat_eq_self)
  moreover from this have "(word_of_nat (of_char c) :: byte) < 128" if "is_ascii c" for c
    using that by (simp add: word_less_nat_alt is_ascii_def)
  ultimately show ?thesis using assms
    by (auto simp: ascii_decode_def ascii_encode_def list_all_iff comp_def intro: map_idI)
qed

lemma ascii_encode_inj: "ascii_encode s = ascii_encode t \<Longrightarrow> list_all is_ascii s \<Longrightarrow> list_all is_ascii t \<Longrightarrow> s = t"
  by (metis ascii_round_trip option.inject)

lemma secret_digit_less: "secret_digit v i < 32"
proof -
  have "drop_bit k v AND 31 = take_bit 5 (drop_bit k v)" for k
    by (simp add: take_bit_eq_mask mask_eq_exp_minus_1)
  then show ?thesis using take_bit_int_less_exp [of 5 "drop_bit k v" for k] by (simp add: secret_digit_def nat_less_iff)
qed

lemma secret_chars: "set (secret_of_value v) \<subseteq> set CROCKFORD_ALPHABET" "length (secret_of_value v) = 8"
proof -
  have "length CROCKFORD_ALPHABET = 32" by (simp add: CROCKFORD_ALPHABET_def)
  then show "set (secret_of_value v) \<subseteq> set CROCKFORD_ALPHABET"
    using secret_digit_less by (auto simp: secret_of_value_def)
  show "length (secret_of_value v) = 8" by (simp add: secret_of_value_def SECRET_LENGTH_def)
qed

lemma crockford_ascii: "set s \<subseteq> set CROCKFORD_ALPHABET \<Longrightarrow> list_all is_ascii s"
  using crockford_char(1) by (auto simp: list_all_iff)

lemma generated_secret:
  assumes "generate_enrollment_code offer rnd = Inr code"
  shows "length rnd = 5 \<and> offer_id code = offer \<and> secret code = ascii_encode (secret_of_value (bytes_value rnd))"
proof -
  have "validate_secret (ascii_encode s) = Inr (ascii_encode s)" if "set s \<subseteq> set CROCKFORD_ALPHABET" "length s = 8" for s
    using that ascii_round_trip [OF crockford_ascii [OF that(1)]]
    by (auto simp: validate_secret_def SECRET_LENGTH_def ascii_encode_def list_ex_iff)
  from this [OF secret_chars] show ?thesis using assms
    by (auto simp: generate_enrollment_code_def make_code_def py_bind_Inr SECRET_BYTES_def split: if_splits)
qed

lemma parse_stripped:
  assumes "str_strip s = text" "length text \<noteq> 24"
  shows "parse_short_enrollment_code s = py_bind (if length text = 9 \<and> text ! 4 = CHR ''-'' then Inr (take 4 text @ drop 5 text)
     else if length text = 8 then Inr text else Inl (ValueError ''invalid enrollment code''))
       (\<lambda>digits. py_bind (normalized digits) (\<lambda>n. Inr (ascii_encode n)))"
  using assms by (simp add: parse_short_enrollment_code_def split_join_code_def SECRET_LENGTH_def Let_def)

section \<open>The value of the random bytes\<close>

lemma bytes_value_snoc: "bytes_value (bs @ [b]) = 256 * bytes_value bs + uint b"
  by (simp add: bytes_value_def)

lemma byte_range: "0 \<le> uint (b :: byte)" "uint (b :: byte) < 256"
  using uint_range_size [of b] by (simp_all add: word_size)

lemma bytes_value_range: "0 \<le> bytes_value bs \<and> bytes_value bs < 256 ^ length bs"
proof (induction bs rule: rev_induct)
  case (snoc b bs)
  have "bytes_value bs \<le> 256 ^ length bs - 1" using snoc by simp
  then show ?case using snoc byte_range [of b] by (simp add: bytes_value_snoc)
qed (simp add: bytes_value_def)

lemma base_256:
  fixes x y a b :: int
  assumes "256 * x + a = 256 * y + b" and "0 \<le> a" "a < 256" "0 \<le> b" "b < 256"
  shows "a = b \<and> x = y"
proof -
  have "a = (256 * x + a) mod 256" "b = (256 * y + b) mod 256" using assms(2-5) by simp_all
  then have "a = b" using assms(1) by simp
  then show ?thesis using assms(1) by simp
qed

lemma bytes_value_inj:
  "length bs = length cs \<Longrightarrow> bytes_value bs = bytes_value cs \<Longrightarrow> bs = cs"
proof (induction bs arbitrary: cs rule: rev_induct)
  case (snoc b bs)
  then obtain c cs' where cs: "cs = cs' @ [c]" by (cases cs rule: rev_cases) auto
  have eq: "256 * bytes_value bs + uint b = 256 * bytes_value cs' + uint c"
    using snoc.prems by (simp add: cs bytes_value_snoc)
  then have "uint b = uint c" "bytes_value bs = bytes_value cs'"
    using base_256 [OF eq] byte_range [of b] byte_range [of c] by simp_all
  then have "b = c" and "bs = cs'" using snoc.IH [of cs'] snoc.prems(1) by (simp_all add: cs word_uint_eq_iff)
  then show ?case by (simp add: cs)
qed simp

lemma digit_bits: "secret_digit v i = nat (take_bit 5 (drop_bit (5 * (7 - i)) v))"
  by (simp add: secret_digit_def SECRET_LENGTH_def take_bit_eq_mask mask_eq_exp_minus_1)

lemma digits_determine:
  assumes "\<forall>i < 8. secret_digit v i = secret_digit w i" and "0 \<le> v" "v < 2 ^ 40" "0 \<le> w" "w < 2 ^ 40"
  shows "v = w"
proof (rule bit_eqI)
  fix n
  show "bit v n = bit w n"
  proof (cases "n < 40")
    case True
    define i where "i = 7 - n div 5"
    have i: "i < 8" "7 - i = n div 5" using True by (auto simp: i_def)
    have "secret_digit v i = secret_digit w i" using assms(1) i(1) by simp
    then have "take_bit 5 (drop_bit (5 * (n div 5)) v) = take_bit 5 (drop_bit (5 * (n div 5)) w)"
      by (simp add: digit_bits i(2) eq_nat_nat_iff)
    then have "bit (take_bit 5 (drop_bit (5 * (n div 5)) v)) (n mod 5) = bit (take_bit 5 (drop_bit (5 * (n div 5)) w)) (n mod 5)"
      by simp
    then show ?thesis by (simp add: bit_take_bit_iff bit_drop_bit_eq)
  next
    case False
    have "\<not> bit x n" if "0 \<le> x" "x < 2 ^ 40" for x :: int
    proof -
      have "take_bit 40 x = x" using that by (simp add: take_bit_int_eq_self)
      then show ?thesis using False by (metis bit_take_bit_iff)
    qed
    then show ?thesis using assms by blast
  qed
qed

section \<open>Properties of codes\<close>

text \<open>C35: 
  A generated code can be shown, and what was shown is read back when it is typed with white space
  around it, in capital or small letters, with or without its dash.
\<close>

theorem typed_code_is_read_back:
  assumes "generate_enrollment_code offer rnd = Inr code" and "list_all is_space pre" and "list_all is_space post"
  shows "\<exists>shown. for_private_display code = Inr shown \<and>
    parse_short_enrollment_code (pre @ shown @ post) = Inr (secret code) \<and>
    parse_short_enrollment_code (pre @ str_lower shown @ post) = Inr (secret code) \<and>
    parse_short_enrollment_code (pre @ filter (\<lambda>c. c \<noteq> CHR ''-'') shown @ post) = Inr (secret code)"
proof -
  define s where "s = secret_of_value (bytes_value rnd)"
  have sec: "secret code = ascii_encode s" using generated_secret [OF assms(1)] by (simp add: s_def)
  have s: "set s \<subseteq> set CROCKFORD_ALPHABET" "length s = 8" using secret_chars by (simp_all add: s_def)
  have shown: "for_private_display code = Inr (take 4 s @ ''-'' @ drop 4 s)"
    using ascii_round_trip [OF crockford_ascii [OF s(1)]] s(2)
    by (simp add: for_private_display_def secret_text_def secret_bytes_def sec SECRET_LENGTH_def) (simp add: ascii_encode_def)
  have nosp: "\<not> is_space c" "\<not> is_space (lower_char c)" "c \<noteq> CHR ''-''" if "c \<in> set s" for c
    using that s(1) crockford_char by blast+
  have dash: "lower_char CHR ''-'' = CHR ''-''" "\<not> is_space CHR ''-''" by (simp_all add: lower_char_def is_space_def Let_def)
  have typed: "parse_short_enrollment_code (pre @ take 4 t @ CHR ''-'' # drop 4 t @ post) = Inr (secret code) \<and>
    parse_short_enrollment_code (pre @ t @ post) = Inr (secret code)"
    if t: "length t = 8" "\<forall>c \<in> set t. \<not> is_space c" "normalized t = Inr s" for t
  proof -
    let ?u = "take 4 t @ CHR ''-'' # drop 4 t"
    have "\<forall>c \<in> set ?u. \<not> is_space c" using t(2) dash by (auto dest: in_set_takeD in_set_dropD)
    from strip_blanks [OF assms(2,3) this]
    have "parse_short_enrollment_code (pre @ take 4 t @ CHR ''-'' # drop 4 t @ post) = Inr (secret code)"
      using t by (simp add: parse_stripped [of _ "take 4 t @ CHR ''-'' # drop 4 t"] sec nth_append)
    moreover have "t \<noteq> []" using t(1) by auto
    from strip_blanks [OF assms(2,3) t(2) this] have "parse_short_enrollment_code (pre @ t @ post) = Inr (secret code)"
      using t by (simp add: parse_stripped [of _ t] sec)
    ultimately show ?thesis ..
  qed
  have undash: "filter (\<lambda>c. c \<noteq> CHR ''-'') (take 4 s @ ''-'' @ drop 4 s) = s"
  proof -
    have "filter (\<lambda>c. c \<noteq> CHR ''-'') (take 4 s) = take 4 s" "filter (\<lambda>c. c \<noteq> CHR ''-'') (drop 4 s) = drop 4 s"
      using nosp(3) by (auto simp: filter_id_conv dest: in_set_takeD in_set_dropD)
    then show ?thesis by simp
  qed
  have low: "str_lower (take 4 s @ ''-'' @ drop 4 s) = take 4 (map lower_char s) @ ''-'' @ drop 4 (map lower_char s)"
    by (simp add: str_lower_def take_map drop_map dash)
  have "\<forall>c \<in> set s. \<not> is_space c" "\<forall>c \<in> set (map lower_char s). \<not> is_space c" using nosp by auto
  with typed [of s] typed [of "map lower_char s"] s(2) normalized_code [OF s(1)] show ?thesis
    by (intro exI [of _ "take 4 s @ ''-'' @ drop 4 s"]) (simp only: shown low undash, simp)
qed

text \<open>
  No randomness is lost: two codes with the same secret were made from the same five random bytes,
  so each of the \<open>2^40\<close> secrets is as likely as its bytes.
\<close>

theorem secret_determines_randomness:
  assumes "generate_enrollment_code offer rnd = Inr code" and "generate_enrollment_code offer' rnd' = Inr code'"
    and "secret code = secret code'"
  shows "rnd = rnd'"
proof -
  let ?v = "bytes_value rnd" and ?w = "bytes_value rnd'"
  note g = generated_secret [OF assms(1)] generated_secret [OF assms(2)]
  have "secret_of_value ?v = secret_of_value ?w"
    using assms(3) g ascii_encode_inj crockford_ascii [OF secret_chars(1)] by metis
  then have "\<forall>i < 8. CROCKFORD_ALPHABET ! secret_digit ?v i = CROCKFORD_ALPHABET ! secret_digit ?w i"
    by (simp add: secret_of_value_def SECRET_LENGTH_def)
  moreover have "distinct CROCKFORD_ALPHABET" "length CROCKFORD_ALPHABET = 32" by (simp_all add: CROCKFORD_ALPHABET_def)
  ultimately have "\<forall>i < 8. secret_digit ?v i = secret_digit ?w i"
    using secret_digit_less by (metis nth_eq_iff_index_eq)
  moreover have "0 \<le> bytes_value bs \<and> bytes_value bs < 2 ^ 40" if "length bs = 5" for bs
    using bytes_value_range [of bs] that by simp
  ultimately have "?v = ?w" using digits_determine g by blast
  then show ?thesis using bytes_value_inj g by simp
qed

section \<open>Properties of derived values\<close>

text \<open>
  The lookup tag a joining device sends and the hash the relay stores for it agree: the relay's hash
  is the hash of the code's MAC, for every origin.
\<close>

theorem lookup_tag_hashes_to_mac:
  assumes "\<And>k m. length (hmac C k m) = 32" and "generate_enrollment_code offer rnd = Inr code"
    and "origin \<noteq> []" and "list_all is_ascii origin"
  shows "py_bind (for_lookup_tag C origin code) (enrollment_lookup_hash C)
    = Inr (hex_text (sha256 C (hmac C (LOOKUP_DOMAIN @ ascii_encode origin) (secret code))))"
proof -
  have "length (secret code) = 8" using generated_secret [OF assms(2)] secret_chars(2) by (simp add: ascii_encode_def)
  then have tag: "for_lookup_tag C origin code = Inr (b64_encode (hmac C (LOOKUP_DOMAIN @ ascii_encode origin) (secret code)))"
    using assms by (simp add: for_lookup_tag_def secret_bytes_def derive_enrollment_lookup_tag_def SECRET_LENGTH_def)
  define t where "t = hmac C (LOOKUP_DOMAIN @ ascii_encode origin) (secret code)"
  have t: "length t = 32" using assms(1) by (simp add: t_def)
  then have "b64_encode t \<noteq> []" by (auto simp: b64_encode_empty)
  then have "enrollment_lookup_hash C (b64_encode t) = Inr (hex_text (sha256 C t))"
    using b64_decode_encode [of t] t by (simp add: enrollment_lookup_hash_def padding_def)
  then show ?thesis by (simp add: tag t_def)
qed

text \<open>The blocks of RFC 5869, from the first one on.\<close>

fun hkdf_block :: "crypto \<Rightarrow> byte list \<Rightarrow> byte list \<Rightarrow> nat \<Rightarrow> byte list" where
  "hkdf_block C prk info 0 = []"
| "hkdf_block C prk info (Suc i) = hmac C prk (hkdf_block C prk info i @ info @ [word_of_nat (Suc i)])"

lemma hkdf_loop_blocks:
  "hkdf_loop C prk info (Suc i) n (hkdf_block C prk info i) out
    = out @ concat (map (hkdf_block C prk info) [Suc i..<Suc i + n])"
proof (induction n arbitrary: i out)
  case (Suc n)
  have "[Suc i..<Suc i + Suc n] = Suc i # [Suc (Suc i)..<Suc (Suc i) + n]" by (simp add: upt_conv_Cons)
  then show ?case using Suc.IH [of "Suc i" "out @ hkdf_block C prk info (Suc i)"] by (simp add: Let_def)
qed simp

text \<open>C36: 
  The local key derivation is HKDF of RFC 5869: the first bytes of the blocks \<open>T(1), T(2), ...\<close>, where
  \<open>T(i)\<close> is the MAC of the block before it, the info and the number \<open>i\<close>; it has the length that
  was asked for, and fails for more than 255 blocks only.
\<close>

theorem hkdf_follows_rfc:
  assumes "\<And>k m. length (hmac C k m) = 32"
  shows "hkdf_sha256 C ikm salt info len =
    (if 255 * 32 < len then Inl (ValueError ''invalid HKDF output length'')
     else Inr (take len (concat (map (hkdf_block C (hmac C salt ikm) info) [1..<Suc ((len + 31) div 32)])))) \<and>
    (\<forall>okm. hkdf_sha256 C ikm salt info len = Inr okm \<longrightarrow> length okm = len)"
proof -
  let ?prk = "hmac C salt ikm" and ?n = "(len + 31) div 32"
  have loop: "hkdf_loop C ?prk info 1 ?n [] [] = concat (map (hkdf_block C ?prk info) [1..<Suc ?n])"
    using hkdf_loop_blocks [of C ?prk info 0 ?n "[]"] by simp
  have "length (hkdf_block C ?prk info i) = 32" if "1 \<le> i" for i using that assms by (cases i) simp_all
  then have "map length (map (hkdf_block C ?prk info) [1..<Suc ?n]) = map (\<lambda>_. 32) [1..<Suc ?n]"
    by (auto simp: comp_def)
  then have "length (concat (map (hkdf_block C ?prk info) [1..<Suc ?n])) = 32 * ?n"
    by (simp only: length_concat) (simp add: sum_list_triv)
  moreover have "len \<le> 32 * ?n" by simp
  ultimately have "length (take len (concat (map (hkdf_block C ?prk info) [1..<Suc ?n]))) = len"
    by (simp only: length_take min_def split: if_splits) simp
  then show ?thesis unfolding hkdf_sha256_def loop by (simp del: upt_Suc length_take)
qed

text \<open>
  A wiped code is of no use: showing it, looking it up, and deriving its verifier or its key all
  fail, whatever code it was; and no code is visible in its text form.
\<close>

theorem wiped_code_gives_nothing:
  "for_private_display (wipe c) = Inl (ValueError ''enrollment code has been cleared'') \<and>
   for_lookup_tag C origin (wipe c) = Inl (ValueError ''enrollment code has been cleared'') \<and>
   (\<nexists>v. derive_enrollment_code_verifier C (wipe c) = Inr v) \<and>
   (\<nexists>v. derive_enrollment_envelope_key C (wipe c) = Inr v) \<and>
   code_str (c\<lparr>secret := s\<rparr>) = code_str c"
proof -
  have "secret_bytes (wipe c) = Inl (ValueError ''enrollment code has been cleared'')"
    by (simp add: secret_bytes_def wipe_def SECRET_LENGTH_def)
  then show ?thesis
    by (simp add: for_private_display_def secret_text_def for_lookup_tag_def derive_enrollment_code_verifier_def
        derive_enrollment_envelope_key_def py_bind_Inr code_str_def)
qed

section \<open>Examples\<close>

definition demo_offer :: string where
  "demo_offer = ''0123456789abcdef0123456789abcdef''"

definition demo_crypto :: crypto where
  "demo_crypto = \<lparr>sha256 = (\<lambda>m. replicate 32 (word_of_nat (length m))), hmac = (\<lambda>k m. replicate 32 (word_of_nat (length k + length m))),
     scrypt = (\<lambda>s t. replicate 32 0)\<rparr>"

lemma demo_hmac: "length (hmac demo_crypto k m) = 32"
  by (simp add: demo_crypto_def)

lemma demo_generated: "\<exists>code. generate_enrollment_code demo_offer [1, 2, 3, 4, 255] = Inr code"
proof -
  have "case generate_enrollment_code demo_offer [1, 2, 3, 4, 255] of Inr _ \<Rightarrow> True | Inl _ \<Rightarrow> False" by code_simp
  then show ?thesis by (simp split: sum.splits)
qed

theorem typed_code_is_read_back_witness:
  "\<exists>code shown. for_private_display code = Inr shown \<and> parse_short_enrollment_code ('' '' @ str_lower shown @ []) = Inr (secret code)"
proof -
  obtain code where code: "generate_enrollment_code demo_offer [1, 2, 3, 4, 255] = Inr code" using demo_generated by blast
  have "list_all is_space '' ''" "list_all is_space []" by (simp_all add: is_space_def)
  from typed_code_is_read_back [OF code this] show ?thesis by blast
qed

theorem secret_determines_randomness_witness:
  "\<exists>code. generate_enrollment_code demo_offer [1, 2, 3, 4, 255] = Inr code \<and>
    (\<forall>rnd. generate_enrollment_code demo_offer rnd = Inr code \<longrightarrow> rnd = [1, 2, 3, 4, 255])"
proof -
  obtain code where code: "generate_enrollment_code demo_offer [1, 2, 3, 4, 255] = Inr code" using demo_generated by blast
  then show ?thesis using secret_determines_randomness [OF _ code refl] by blast
qed

theorem lookup_tag_hashes_to_mac_witness:
  "\<exists>code. py_bind (for_lookup_tag demo_crypto ''relay'' code) (enrollment_lookup_hash demo_crypto)
    = Inr (hex_text (sha256 demo_crypto (hmac demo_crypto (LOOKUP_DOMAIN @ ascii_encode ''relay'') (secret code))))"
proof -
  obtain code where code: "generate_enrollment_code demo_offer [1, 2, 3, 4, 255] = Inr code" using demo_generated by blast
  have "''relay'' \<noteq> []" "list_all is_ascii ''relay''" by (simp_all add: is_ascii_def)
  from lookup_tag_hashes_to_mac [OF demo_hmac code this] show ?thesis by blast
qed

theorem hkdf_follows_rfc_witness:
  "hkdf_sha256 demo_crypto [1] [2] [3] 40 =
    Inr (take 40 (concat (map (hkdf_block demo_crypto (hmac demo_crypto [2] [1]) [3]) [1..<Suc ((40 + 31) div 32)])))"
proof -
  have "\<not> 255 * 32 < (40 :: nat)" by simp
  then show ?thesis using hkdf_follows_rfc [OF demo_hmac, of "[1]" "[2]" "[3]" 40] by (simp only: if_False)
qed

end
