(* ===== verification/Py_Regex.thy ===== *)
theory Py_Regex
  imports Kollab_Prelude
begin

text \<open>
  The part of Python's \<open>re\<close> module that the sources use to look for a pattern in a string
  (\<open>pattern.search(s)\<close>, tested for a match only, so greedy and lazy repetition agree): character
  sets, \<open>.\<close>, alternatives, repetition, \<open>\b\<close>, \<open>$\<close>, a negative look-behind of one character, a
  look-ahead, and the flag \<open>(?i)\<close>.

  \<open>rmatch\<close> is the meaning of a pattern: it matches between two positions of a string.
  \<open>ends\<close> computes the positions where a match from a given position can end, and \<open>search\<close>
  tries every start. The main lemma, \<open>search_iff\<close>, relates the two.
\<close>

section \<open>Patterns\<close>

datatype cls = Lit char | Range char char | Space | NonSpace | WordC | Digit

datatype regex =
    Set bool "cls list"  \<comment> \<open>\<open>True\<close>: one of the classes; \<open>False\<close>: none of them\<close>
  | Dot
  | Eps
  | Bound
  | EndAnchor
  | NotBehind "cls list"
  | Ahead regex
  | Seq regex regex
  | Alt regex regex
  | Star regex

abbreviation ch :: "char \<Rightarrow> regex" where "ch c \<equiv> Set True [Lit c]"
abbreviation ws :: regex where "ws \<equiv> Set True [Space]"
abbreviation opt :: "regex \<Rightarrow> regex" where "opt r \<equiv> Alt r Eps"
abbreviation plus :: "regex \<Rightarrow> regex" where "plus r \<equiv> Seq r (Star r)"

definition lit :: "string \<Rightarrow> regex" where
  "lit w = foldr (\<lambda>c r. Seq (ch c) r) w Eps"

definition seqs :: "regex list \<Rightarrow> regex" where
  "seqs rs = foldr Seq rs Eps"

fun alts :: "regex list \<Rightarrow> regex" where
  "alts [] = Set True []"
| "alts [r] = r"
| "alts (r # s # rs) = Alt r (alts (s # rs))"

section \<open>Meaning\<close>

definition char_le :: "char \<Rightarrow> char \<Rightarrow> bool" where
  "char_le a b \<longleftrightarrow> (of_char a :: nat) \<le> of_char b"

text \<open>The flag is \<open>(?i)\<close>; the ranges under it are ranges of small letters.\<close>

fun in_cls :: "bool \<Rightarrow> char \<Rightarrow> cls \<Rightarrow> bool" where
  "in_cls ci c (Lit a) \<longleftrightarrow> c = a \<or> (ci \<and> lower_char c = lower_char a)"
| "in_cls ci c (Range a b) \<longleftrightarrow>
     (char_le a c \<and> char_le c b) \<or> (ci \<and> char_le a (lower_char c) \<and> char_le (lower_char c) b)"
| "in_cls ci c Space \<longleftrightarrow> is_space c"
| "in_cls ci c NonSpace \<longleftrightarrow> \<not> is_space c"
| "in_cls ci c WordC \<longleftrightarrow> is_word c"
| "in_cls ci c Digit \<longleftrightarrow> is_digit c"

definition in_set :: "bool \<Rightarrow> cls list \<Rightarrow> char \<Rightarrow> bool" where
  "in_set ci cs c \<longleftrightarrow> list_ex (in_cls ci c) cs"

definition at_bound :: "string \<Rightarrow> nat \<Rightarrow> bool" where
  "at_bound s i \<longleftrightarrow>
     (0 < i \<and> i \<le> length s \<and> is_word (s ! (i - 1))) \<noteq> (i < length s \<and> is_word (s ! i))"

definition at_end :: "string \<Rightarrow> nat \<Rightarrow> bool" where
  "at_end s i \<longleftrightarrow> i = length s \<or> (Suc i = length s \<and> s ! i = newline)"

inductive rmatch :: "bool \<Rightarrow> string \<Rightarrow> regex \<Rightarrow> nat \<Rightarrow> nat \<Rightarrow> bool" for ci s where
  set: "i < length s \<Longrightarrow> in_set ci cs (s ! i) = pos \<Longrightarrow> rmatch ci s (Set pos cs) i (Suc i)"
| dot: "i < length s \<Longrightarrow> s ! i \<noteq> newline \<Longrightarrow> rmatch ci s Dot i (Suc i)"
| eps: "rmatch ci s Eps i i"
| bound: "at_bound s i \<Longrightarrow> rmatch ci s Bound i i"
| end_anchor: "at_end s i \<Longrightarrow> rmatch ci s EndAnchor i i"
| not_behind: "\<not> (0 < i \<and> in_set ci cs (s ! (i - 1))) \<Longrightarrow> rmatch ci s (NotBehind cs) i i"
| ahead: "rmatch ci s r i j \<Longrightarrow> rmatch ci s (Ahead r) i i"
| seq: "rmatch ci s r i j \<Longrightarrow> rmatch ci s r' j k \<Longrightarrow> rmatch ci s (Seq r r') i k"
| alt1: "rmatch ci s r i j \<Longrightarrow> rmatch ci s (Alt r r') i j"
| alt2: "rmatch ci s r' i j \<Longrightarrow> rmatch ci s (Alt r r') i j"
| star0: "rmatch ci s (Star r) i i"
| star: "rmatch ci s r i j \<Longrightarrow> rmatch ci s (Star r) j k \<Longrightarrow> rmatch ci s (Star r) i k"

inductive_simps rmatch_simps [simp]:
  "rmatch ci s (Set pos cs) i j" "rmatch ci s Dot i j" "rmatch ci s Eps i j"
  "rmatch ci s Bound i j" "rmatch ci s EndAnchor i j" "rmatch ci s (NotBehind cs) i j"
  "rmatch ci s (Ahead r) i j" "rmatch ci s (Seq r r') i j" "rmatch ci s (Alt r r') i j"

inductive_cases star_cases: "rmatch ci s (Star r) i j"

lemma rmatch_bounds: "rmatch ci s r i j \<Longrightarrow> i \<le> length s \<Longrightarrow> i \<le> j \<and> j \<le> length s"
  by (induction rule: rmatch.induct) auto

text \<open>A repetition is a chain of matches.\<close>

lemma star_iff: "rmatch ci s (Star r) i j \<longleftrightarrow> (rmatch ci s r)\<^sup>*\<^sup>* i j"
proof
  have "rmatch ci s q i j \<Longrightarrow> q = Star r \<Longrightarrow> (rmatch ci s r)\<^sup>*\<^sup>* i j" for q
    by (induction rule: rmatch.induct) (auto intro: converse_rtranclp_into_rtranclp)
  then show "rmatch ci s (Star r) i j \<Longrightarrow> (rmatch ci s r)\<^sup>*\<^sup>* i j" by blast
  show "(rmatch ci s r)\<^sup>*\<^sup>* i j \<Longrightarrow> rmatch ci s (Star r) i j"
    by (induction rule: converse_rtranclp_induct) (auto intro: rmatch.star0 rmatch.star)
qed

section \<open>Computation\<close>

text \<open>The positions reachable from \<open>ps\<close>, by at most \<open>n\<close> rounds that each add a new one.\<close>

fun closure :: "nat \<Rightarrow> (nat \<Rightarrow> nat list) \<Rightarrow> nat list \<Rightarrow> nat list" where
  "closure 0 f ps = ps"
| "closure (Suc n) f ps =
     (let qs = filter (\<lambda>q. q \<notin> set ps) (concat (map f ps))
      in if qs = [] then ps else closure n f (remdups (ps @ qs)))"

fun ends :: "bool \<Rightarrow> string \<Rightarrow> regex \<Rightarrow> nat \<Rightarrow> nat list" where
  "ends ci s (Set pos cs) i = (if i < length s \<and> in_set ci cs (s ! i) = pos then [Suc i] else [])"
| "ends ci s Dot i = (if i < length s \<and> s ! i \<noteq> newline then [Suc i] else [])"
| "ends ci s Eps i = [i]"
| "ends ci s Bound i = (if at_bound s i then [i] else [])"
| "ends ci s EndAnchor i = (if at_end s i then [i] else [])"
| "ends ci s (NotBehind cs) i = (if 0 < i \<and> in_set ci cs (s ! (i - 1)) then [] else [i])"
| "ends ci s (Ahead r) i = (if ends ci s r i = [] then [] else [i])"
| "ends ci s (Seq r r') i = concat (map (ends ci s r') (ends ci s r i))"
| "ends ci s (Alt r r') i = ends ci s r i @ ends ci s r' i"
| "ends ci s (Star r) i = closure (Suc (length s)) (ends ci s r) [i]"

record pattern =
  ignore_case :: bool
  body :: regex

definition search :: "pattern \<Rightarrow> string \<Rightarrow> bool" where
  "search p s \<longleftrightarrow> list_ex (\<lambda>i. ends (ignore_case p) s (body p) i \<noteq> []) [0..<Suc (length s)]"

section \<open>The computation is right\<close>

definition step :: "(nat \<Rightarrow> nat list) \<Rightarrow> nat \<Rightarrow> nat \<Rightarrow> bool" where
  "step f i j \<longleftrightarrow> j \<in> set (f i)"

lemma closure_sound: "j \<in> set (closure n f ps) \<Longrightarrow> \<exists>i \<in> set ps. (step f)\<^sup>*\<^sup>* i j"
proof (induction n arbitrary: ps)
  case (Suc n)
  let ?qs = "filter (\<lambda>q. q \<notin> set ps) (concat (map f ps))"
  show ?case
  proof (cases "?qs = []")
    case False
    with Suc.prems have "j \<in> set (closure n f (remdups (ps @ ?qs)))" by (simp add: Let_def)
    from Suc.IH [OF this] obtain i where i: "i \<in> set (ps @ ?qs)" "(step f)\<^sup>*\<^sup>* i j" by auto
    show ?thesis
    proof (cases "i \<in> set ps")
      case False
      with i obtain k where "k \<in> set ps" "step f k i" by (auto simp: step_def)
      with i(2) show ?thesis by (meson converse_rtranclp_into_rtranclp)
    qed (use i in auto)
  qed (use Suc.prems in auto)
qed auto

lemma closed_reach:
  assumes "\<And>i. i \<in> P \<Longrightarrow> set (f i) \<subseteq> P" and "i \<in> P" and "(step f)\<^sup>*\<^sup>* i j"
  shows "j \<in> P"
  using assms(3,2,1) by (induction rule: rtranclp_induct) (auto simp: step_def)

text \<open>Every round adds a position, and there are at most \<open>m + 1\<close> of them.\<close>

lemma closure_complete:
  assumes "\<And>i. i \<le> m \<Longrightarrow> set (f i) \<subseteq> {..m}" and "set ps \<subseteq> {..m}" and "m + 1 < n + card (set ps)"
    and "i \<in> set ps" and "(step f)\<^sup>*\<^sup>* i j"
  shows "j \<in> set (closure n f ps)"
  using assms(2-5)
proof (induction n arbitrary: ps i)
  case 0
  have "card (set ps) \<le> m + 1" using card_mono [OF _ "0.prems"(1)] by simp
  with "0.prems"(2) show ?case by simp
next
  case (Suc n)
  let ?qs = "filter (\<lambda>q. q \<notin> set ps) (concat (map f ps))"
  show ?case
  proof (cases "?qs = []")
    case True
    then have "set (f i) \<subseteq> set ps" if "i \<in> set ps" for i using that by (auto simp: filter_empty_conv)
    with closed_reach [of "set ps" f i j] Suc.prems True show ?thesis by (simp add: Let_def)
  next
    case False
    then have "set ?qs \<noteq> {}" by (simp only: set_empty not_False_eq_True)
    then obtain q where q: "q \<in> set ?qs" by (metis ex_in_conv)
    have "card (set ps) < card (set (ps @ ?qs))"
      by (rule psubset_card_mono) (use q in auto)
    moreover have "set (ps @ ?qs) \<subseteq> {..m}" using Suc.prems(1) assms(1) by fastforce
    ultimately have "j \<in> set (closure n f (remdups (ps @ ?qs)))"
      by (intro Suc.IH [of _ i]) (use Suc.prems in auto)
    with False show ?thesis by (simp add: Let_def)
  qed
qed

lemma ends_iff:
  "i \<le> length s \<Longrightarrow> j \<in> set (ends ci s r i) \<longleftrightarrow> rmatch ci s r i j"
proof (induction r arbitrary: i j)
  case (Ahead r)
  then show ?case by (metis (no_types, lifting) ends.simps(7) list.set_intros(1) list.set(1)
        empty_iff neq_Nil_conv rmatch_simps(7) set_ConsD)
next
  case (Seq r r')
  then show ?case using rmatch_bounds [of ci s r i] by auto
next
  case (Star r)
  have le: "set (ends ci s r i) \<subseteq> {..length s}" if "i \<le> length s" for i
    using Star.IH [OF that] rmatch_bounds that by auto
  have steps: "i \<le> length s \<Longrightarrow> (step (ends ci s r))\<^sup>*\<^sup>* i j \<longleftrightarrow> (rmatch ci s r)\<^sup>*\<^sup>* i j" for i j
  proof
    show "(step (ends ci s r))\<^sup>*\<^sup>* i j" if "(rmatch ci s r)\<^sup>*\<^sup>* i j" "i \<le> length s"
      using that
    proof (induction rule: converse_rtranclp_induct)
      case (step y z)
      then have "step (ends ci s r) y z" by (simp add: Py_Regex.step_def Star.IH)
      with step rmatch_bounds [OF step.hyps(1)] show ?case
        by (auto intro: converse_rtranclp_into_rtranclp)
    qed simp
    show "(rmatch ci s r)\<^sup>*\<^sup>* i j" if "(step (ends ci s r))\<^sup>*\<^sup>* i j" "i \<le> length s"
      using that
    proof (induction rule: converse_rtranclp_induct)
      case (step y z)
      then have "rmatch ci s r y z" by (simp add: Py_Regex.step_def Star.IH)
      with step rmatch_bounds [OF this] show ?case
        by (auto intro: converse_rtranclp_into_rtranclp)
    qed simp
  qed
  have "j \<in> set (closure (Suc (length s)) (ends ci s r) [i]) \<longleftrightarrow> (step (ends ci s r))\<^sup>*\<^sup>* i j"
    using closure_sound [of j "Suc (length s)" "ends ci s r" "[i]"]
      closure_complete [of "length s" "ends ci s r" "[i]" "Suc (length s)" i j] le Star.prems
    by (auto simp del: closure.simps)
  with steps [OF Star.prems] show ?case by (simp add: star_iff del: closure.simps)
qed (auto intro: rmatch.intros)

definition found :: "bool \<Rightarrow> regex \<Rightarrow> string \<Rightarrow> bool" where
  "found ci r s \<longleftrightarrow> (\<exists>i j. i \<le> length s \<and> rmatch ci s r i j)"

lemma search_iff: "search p s \<longleftrightarrow> found (ignore_case p) (body p) s"
proof -
  have "ends ci s r i \<noteq> [] \<longleftrightarrow> (\<exists>j. rmatch ci s r i j)" if "i \<le> length s" for ci r i
    using ends_iff [OF that, of _ ci r] by (metis empty_iff list.set(1) list.set_intros(1) neq_Nil_conv)
  then have "search p s \<longleftrightarrow> (\<exists>i \<in> set [0..<Suc (length s)]. \<exists>j. rmatch (ignore_case p) s (body p) i j)"
    by (simp add: search_def list_ex_iff less_Suc_eq_le del: upt_Suc)
  then show ?thesis by (auto simp: found_def less_Suc_eq_le simp del: upt_Suc)
qed

section \<open>Patterns in a context\<close>

text \<open>
  A pattern that looks at nothing outside its match: without \<open>\b\<close>, \<open>$\<close> and the look-arounds.
  What it finds in a string it finds in every string around it.
\<close>

fun local_regex :: "regex \<Rightarrow> bool" where
  "local_regex Bound = False"
| "local_regex EndAnchor = False"
| "local_regex (NotBehind cs) = False"
| "local_regex (Ahead r) = False"
| "local_regex (Seq r r') \<longleftrightarrow> local_regex r \<and> local_regex r'"
| "local_regex (Alt r r') \<longleftrightarrow> local_regex r \<and> local_regex r'"
| "local_regex (Star r) \<longleftrightarrow> local_regex r"
| "local_regex _ = True"

lemma rmatch_context:
  "rmatch ci s r i j \<Longrightarrow> local_regex r \<Longrightarrow> rmatch ci (a @ s @ b) r (length a + i) (length a + j)"
proof (induction rule: rmatch.induct)
  case (star r i j k)
  then show ?case by (auto intro: rmatch.star)
qed (auto simp: nth_append intro: rmatch.star0)

lemma found_context: "found ci r s \<Longrightarrow> local_regex r \<Longrightarrow> found ci r (a @ s @ b)"
  unfolding found_def using rmatch_context by (metis add_le_mono1 append.assoc le_add1 length_append
      nat_add_left_cancel_le trans_le_add1)

subsection \<open>Literal text and runs of white space\<close>

lemma rmatch_lit:
  "i \<le> length s \<Longrightarrow> rmatch False s (lit w) i j \<longleftrightarrow> prefix w (drop i s) \<and> j = i + length w"
proof (induction w arbitrary: i)
  case Nil
  then show ?case by (auto simp: lit_def)
next
  case (Cons c w)
  have unfold: "lit (c # w) = Seq (ch c) (lit w)" by (simp add: lit_def)
  show ?case
  proof (cases "i < length s")
    case True
    then have "drop i s = s ! i # drop (Suc i) s" by (simp add: Cons_nth_drop_Suc)
    with True Cons.IH [of "Suc i"] show ?thesis by (auto simp: unfold in_set_def)
  qed (use Cons.prems in \<open>auto simp: unfold in_set_def\<close>)
qed

lemma local_lit [simp]: "local_regex (lit w)"
  by (induction w) (simp_all add: lit_def)

lemma local_seqs [simp]: "local_regex (seqs rs) \<longleftrightarrow> list_all local_regex rs"
  by (induction rs) (simp_all add: seqs_def)

lemma found_lit: "found False (lit w) s \<longleftrightarrow> str_contains w s"
proof -
  have "found False (lit w) s \<longleftrightarrow> (\<exists>i \<le> length s. prefix w (drop i s))"
    by (auto simp: found_def rmatch_lit)
  also have "\<dots> \<longleftrightarrow> sublist w s"
    by (metis (no_types, lifting) append_eq_conv_conj append_take_drop_id length_append le_add1
        prefix_def sublist_def)
  finally show ?thesis by (simp add: str_contains_sublist)
qed

lemma rmatch_append:
  assumes "rmatch False u r 0 (length u)" and "rmatch False v r' 0 (length v)"
    and "local_regex r" and "local_regex r'"
  shows "rmatch False (u @ v) (Seq r r') 0 (length (u @ v))"
  using rmatch_context [OF assms(1,3), of "[]" v] rmatch_context [OF assms(2,4), of u "[]"] by auto

lemma rmatch_whole_lit: "rmatch False w (lit w) 0 (length w)"
  by (simp add: rmatch_lit)

lemma rmatch_ws_star: "\<forall>c \<in> set w. is_space c \<Longrightarrow> rmatch ci w (Star ws) 0 (length w)"
proof (induction w)
  case (Cons c w)
  have "rmatch ci (c # w) ws 0 1" using Cons.prems by (simp add: in_set_def)
  moreover have "rmatch ci (c # w) (Star ws) 1 (1 + length w)"
    using rmatch_context [of ci w "Star ws" 0 "length w" "[c]" "[]"] Cons by simp
  ultimately show ?case by (auto intro: rmatch.star)
qed (simp add: rmatch.star0)

lemma rmatch_ws_plus:
  assumes "w \<noteq> []" and "\<forall>c \<in> set w. is_space c"
  shows "rmatch ci w (plus ws) 0 (length w)"
proof -
  obtain c v where w: "w = c # v" using assms(1) by (cases w) auto
  have "rmatch ci (c # v) (Star ws) 1 (1 + length v)"
    using rmatch_context [of ci v "Star ws" 0 "length v" "[c]" "[]"] rmatch_ws_star [of v ci] assms(2) w by simp
  with assms(2) w show ?thesis by (auto simp: in_set_def intro!: exI [of _ 1])
qed

lemma rmatch_alts: "rmatch ci s (alts rs) i j \<longleftrightarrow> (\<exists>r \<in> set rs. rmatch ci s r i j)"
  by (induction rs rule: alts.induct) (auto simp: in_set_def)

lemma rmatch_seqs:
  "rmatch ci s (seqs (r # rs)) i j \<longleftrightarrow> (\<exists>k. rmatch ci s r i k \<and> rmatch ci s (seqs rs) k j)"
  "rmatch ci s (seqs []) i j \<longleftrightarrow> i = j"
  by (auto simp: seqs_def)

section \<open>File name patterns\<close>

definition fullmatch :: "regex \<Rightarrow> string \<Rightarrow> bool" where
  "fullmatch r s \<longleftrightarrow> length s \<in> set (ends False s r 0)"

text \<open>\<open>fnmatch\<close>: the pattern is translated to a regular expression that must match the whole name.\<close>

fun class_items :: "string \<Rightarrow> cls list" where
  "class_items (a # h # b # cs) =
     (if h = CHR ''-'' then (if char_le a b then Range a b # class_items cs else class_items cs)
      else Lit a # class_items (h # b # cs))"
| "class_items (a # cs) = Lit a # class_items cs"
| "class_items [] = []"

definition class_regex :: "string \<Rightarrow> regex" where
  "class_regex stuff =
     (case stuff of
        c # cs \<Rightarrow> if c = CHR ''!'' then Set False (class_items cs) else Set True (class_items stuff)
      | [] \<Rightarrow> Set True [])"

text \<open>The text up to the bracket that closes a class, and the rest after it.\<close>

definition class_end :: "string \<Rightarrow> (string \<times> string) option" where
  "class_end ps =
     (let n = (if prefix ''!'' ps then 1 else 0);
          n = (if prefix '']'' (drop n ps) then Suc n else n);
          inner = takeWhile (\<lambda>c. c \<noteq> CHR '']'') (drop n ps)
      in if drop (n + length inner) ps = [] then None
         else Some (take n ps @ inner, drop (Suc (n + length inner)) ps))"

lemma class_end_shorter: "class_end ps = Some (stuff, rest) \<Longrightarrow> length rest < length ps"
  by (auto simp: class_end_def Let_def split: if_splits)

function fn_translate :: "string \<Rightarrow> regex list" where
  "fn_translate [] = []"
| "fn_translate (c # ps) =
     (if c = CHR ''*'' then Star (Set False []) # fn_translate ps
      else if c = CHR ''?'' then Set False [] # fn_translate ps
      else if c = CHR ''['' then
        (case class_end ps of
           None \<Rightarrow> ch c # fn_translate ps
         | Some (stuff, rest) \<Rightarrow> class_regex stuff # fn_translate rest)
      else ch c # fn_translate ps)"
  by pat_completeness auto
termination by (relation "measure length") (auto dest: class_end_shorter)

definition fnmatch :: "string \<Rightarrow> string \<Rightarrow> bool" where
  "fnmatch name pattern \<longleftrightarrow> fullmatch (seqs (fn_translate pattern)) name"

lemma fn_translate_plain:
  "set w \<inter> {CHR ''*'', CHR ''?'', CHR ''[''} = {} \<Longrightarrow> fn_translate (w @ ps) = map ch w @ fn_translate ps"
  by (induction w) auto

lemma rmatch_any_star: "i \<le> j \<Longrightarrow> j \<le> length s \<Longrightarrow> rmatch ci s (Star (Set False [])) i j"
proof (induction "j - i" arbitrary: i)
  case (Suc n)
  then have "rmatch ci s (Set False []) i (Suc i)" by (simp add: in_set_def)
  moreover have "rmatch ci s (Star (Set False [])) (Suc i) j" using Suc by simp
  ultimately show ?case by (rule rmatch.star)
qed (simp add: rmatch.star0)

lemma rmatch_chars:
  "i \<le> length s \<Longrightarrow> rmatch False s (seqs (map ch w @ rs)) i j \<longleftrightarrow>
     prefix w (drop i s) \<and> rmatch False s (seqs rs) (i + length w) j"
proof (induction w arbitrary: i)
  case (Cons c w)
  show ?case
  proof (cases "i < length s")
    case True
    then have "drop i s = s ! i # drop (Suc i) s" by (simp add: Cons_nth_drop_Suc)
    with True Cons.IH [of "Suc i"] show ?thesis by (auto simp: rmatch_seqs in_set_def)
  qed (use Cons.prems in \<open>auto simp: rmatch_seqs\<close>)
qed simp

text \<open>A pattern that is literal text and a final star matches the names with that prefix.\<close>

lemma fnmatch_prefix:
  assumes "set w \<inter> {CHR ''*'', CHR ''?'', CHR ''[''} = {}"
  shows "fnmatch name (w @ ''*'') \<longleftrightarrow> prefix w name"
proof -
  have "fnmatch name (w @ ''*'') \<longleftrightarrow> rmatch False name (seqs (map ch w @ [Star (Set False [])])) 0 (length name)"
    using assms by (simp add: fnmatch_def fullmatch_def ends_iff fn_translate_plain)
  also have "\<dots> \<longleftrightarrow> prefix w name"
    using rmatch_any_star [of "length w" "length name" name False] prefix_length_le [of w name]
    by (auto simp: rmatch_chars rmatch_seqs)
  finally show ?thesis .
qed

end
