(* ===== verification/Change_Feed.thy ===== *)
theory Change_Feed
  imports Dict_Utils Py_Regex
begin

text \<open>
  Who edits which file in the hub (\<open>plugins/hub/change_feed.py\<close>, class \<open>ChangeFeed\<close>): exclusive claims
  on paths that run out, a feed of recent changes, and subscriptions to glob patterns.

  Every method runs under one lock, so it is one step. Where a method reads the clock twice it gets
  two times here. \<open>saves\<close> says whether the files can be written. The lists that the files hold are
  typed; the reading of damaged JSON is left out. Two globs are the same subscription when they
  have the same pieces: a run of stars counts once, a character class as it is written.

  The theorems: a claim excludes everyone else until it runs out or is given up; a claim is
  granted just when no other agent holds the path; the feed stays within its limits.
\<close>

section \<open>The feed and the claims\<close>

definition DEFAULT_CLAIM_TIMEOUT :: real where "DEFAULT_CLAIM_TIMEOUT = 1800"
definition DEFAULT_FEED_MAX :: int where "DEFAULT_FEED_MAX = 500"
definition DEFAULT_FEED_MAX_AGE :: real where "DEFAULT_FEED_MAX_AGE = 86400"

record lane_claim =
  claimed_by :: string
  claim_task :: string
  claimed_at :: real
  expires_at :: real

record feed_entry =
  fe_identity :: string
  fe_path :: string
  fe_action :: string
  fe_timestamp :: real

record change_feed =
  claim_timeout :: real
  feed_max :: int
  feed_max_age :: real
  claims :: "(string, lane_claim) odict"
  feed :: "feed_entry list"
  subscribers :: "(string, string list) odict"
  claims_file :: "(string, lane_claim) odict"
  feed_file :: "feed_entry list"

definition open_feed :: "real \<Rightarrow> int \<Rightarrow> real \<Rightarrow> (string, lane_claim) odict \<Rightarrow> feed_entry list \<Rightarrow> change_feed" where
  "open_feed timeout fmax age cf ff =
     \<lparr>claim_timeout = timeout, feed_max = fmax, feed_max_age = age, claims = cf, feed = slice_from (- fmax) ff,
      subscribers = [], claims_file = cf, feed_file = ff\<rparr>"

definition save_claims :: "bool \<Rightarrow> change_feed \<Rightarrow> change_feed" where
  "save_claims saves F = (if saves then F\<lparr>claims_file := claims F\<rparr> else F)"

definition append_feed :: "bool \<Rightarrow> feed_entry \<Rightarrow> change_feed \<Rightarrow> change_feed" where
  "append_feed saves e F = (if saves then F\<lparr>feed_file := feed_file F @ [e]\<rparr> else F)"

text \<open>\<open>c.isalnum()\<close>: the word characters without the underscore.\<close>

definition char_isalnum :: "char \<Rightarrow> bool" where
  "char_isalnum c \<longleftrightarrow> is_word c \<and> c \<noteq> CHR ''_''"

definition regex_chars :: string where
  "regex_chars = [CHR 0x5C] @ ''.^$*+?{}[]|():''"

definition is_valid_entry :: "feed_entry \<Rightarrow> bool" where
  "is_valid_entry e =
     (let path = fe_path e
      in path \<noteq> [] \<and> path \<notin> {''path'', ''(.*?)'', ''.*'', ''**''} \<and>
         \<not> list_all (\<lambda>c. c \<in> set regex_chars) path \<and>
         list_ex (\<lambda>c. char_isalnum c \<or> c \<in> set ''/._-'') path)"

definition trim_feed :: "real \<Rightarrow> change_feed \<Rightarrow> feed_entry list" where
  "trim_feed now F =
     (let fresh = (if 0 < feed_max_age F then filter (\<lambda>e. now - feed_max_age F \<le> fe_timestamp e) (feed F) else feed F);
          valid = filter is_valid_entry fresh
      in if int (length valid) > feed_max F then slice_from (- feed_max F) valid else valid)"

definition trim_feed_file :: "bool \<Rightarrow> real \<Rightarrow> change_feed \<Rightarrow> change_feed" where
  "trim_feed_file saves now F =
     (if feed F = [] then F
      else let kept = trim_feed now F;
               fresh = (if 0 < feed_max_age F then filter (\<lambda>e. now - feed_max_age F \<le> fe_timestamp e) (feed F) else feed F);
               changed = (length fresh < length (feed F) \<or> length (filter is_valid_entry fresh) < length fresh \<or>
                          int (length (filter is_valid_entry fresh)) > feed_max F)
           in F\<lparr>feed := kept, feed_file := if changed \<and> saves then kept else feed_file F\<rparr>)"

definition startup_purge :: "bool \<Rightarrow> real \<Rightarrow> change_feed \<Rightarrow> (nat \<times> nat) \<times> change_feed" where
  "startup_purge saves now F =
     (let F1 = trim_feed_file saves now F in ((length (feed F) - length (feed F1), length (feed F1)), F1))"

section \<open>Claims\<close>

datatype claim_result = Claimed real | Conflict string real string
datatype release_result = Released | NotClaimed | NotOwner string

definition cleanup_expired :: "bool \<Rightarrow> real \<Rightarrow> change_feed \<Rightarrow> string list \<times> change_feed" where
  "cleanup_expired saves now F =
     (let expired = map fst (filter (\<lambda>(p, c). expires_at c \<le> now) (claims F));
          F1 = F\<lparr>claims := fold od_del expired (claims F)\<rparr>
      in (expired, if expired = [] then F1 else save_claims saves F1))"

definition claim :: "bool \<Rightarrow> string \<Rightarrow> string \<Rightarrow> string \<Rightarrow> real \<Rightarrow> real \<Rightarrow> change_feed \<Rightarrow> claim_result \<times> change_feed" where
  "claim saves identity path task now later F =
     (let F1 = snd (cleanup_expired saves later F);
          take_it = (Claimed (now + claim_timeout F1),
            save_claims saves (F1\<lparr>claims := od_put path
              \<lparr>claimed_by = identity, claim_task = task, claimed_at = now, expires_at = now + claim_timeout F1\<rparr> (claims F1)\<rparr>))
      in case od_get (claims F1) path of
           None \<Rightarrow> take_it
         | Some c \<Rightarrow> if claimed_by c \<noteq> identity then (Conflict (claimed_by c) (expires_at c) (claim_task c), F1) else take_it)"

definition release :: "bool \<Rightarrow> string \<Rightarrow> string \<Rightarrow> change_feed \<Rightarrow> release_result \<times> change_feed" where
  "release saves identity path F =
     (case od_get (claims F) path of
        None \<Rightarrow> (NotClaimed, F)
      | Some c \<Rightarrow>
          if claimed_by c \<noteq> identity then (NotOwner (claimed_by c), F)
          else (Released, save_claims saves (F\<lparr>claims := od_del path (claims F)\<rparr>)))"

definition release_all :: "bool \<Rightarrow> string \<Rightarrow> change_feed \<Rightarrow> string list \<times> change_feed" where
  "release_all saves identity F =
     (let paths = map fst (filter (\<lambda>(p, c). claimed_by c = identity) (claims F));
          F1 = F\<lparr>claims := fold od_del paths (claims F)\<rparr>
      in (paths, if paths = [] then F1 else save_claims saves F1))"

definition get_claims :: "bool \<Rightarrow> string \<Rightarrow> real \<Rightarrow> change_feed \<Rightarrow> (string, lane_claim) odict \<times> change_feed" where
  "get_claims saves identity now F =
     (let F1 = snd (cleanup_expired saves now F)
      in (if identity = [] then claims F1 else filter (\<lambda>(p, c). claimed_by c = identity) (claims F1), F1))"

section \<open>Subscriptions\<close>

text \<open>The pieces of a glob.\<close>

function glob_pieces :: "string \<Rightarrow> string list" where
  "glob_pieces [] = []"
| "glob_pieces (c # ps) =
     (if c = CHR ''*'' then ''*'' # glob_pieces (dropWhile (\<lambda>x. x = CHR ''*'') ps)
      else if c = CHR ''['' then
        (case class_end ps of
           None \<Rightarrow> [c] # glob_pieces ps
         | Some (stuff, rest) \<Rightarrow> (''['' @ stuff @ '']'') # glob_pieces rest)
      else [c] # glob_pieces ps)"
  by pat_completeness auto
termination
  by (relation "measure length") (auto dest: class_end_shorter intro: le_imp_less_Suc length_dropWhile_le)

definition subscribe :: "string \<Rightarrow> string \<Rightarrow> change_feed \<Rightarrow> change_feed" where
  "subscribe identity pattern F =
     F\<lparr>subscribers := od_put identity (od_get_default (subscribers F) identity [] @ [pattern]) (subscribers F)\<rparr>"

text \<open>The number of removed subscriptions; None when the agent has none.\<close>

definition unsubscribe :: "string \<Rightarrow> string option \<Rightarrow> change_feed \<Rightarrow> nat option \<times> change_feed" where
  "unsubscribe identity pattern F =
     (case od_get (subscribers F) identity of
        None \<Rightarrow> (None, F)
      | Some ps \<Rightarrow>
          (case pattern of
             None \<Rightarrow> (Some (length ps), F\<lparr>subscribers := od_del identity (subscribers F)\<rparr>)
           | Some p \<Rightarrow>
               (let rest = filter (\<lambda>q. glob_pieces q \<noteq> glob_pieces p) ps
                in (Some (length ps - length rest),
                    F\<lparr>subscribers := if rest = [] then od_del identity (subscribers F) else od_put identity rest (subscribers F)\<rparr>))))"

definition get_subscriptions :: "string \<Rightarrow> change_feed \<Rightarrow> string list" where
  "get_subscriptions identity F = od_get_default (subscribers F) identity []"

definition get_subscribers_for :: "string \<Rightarrow> change_feed \<Rightarrow> string list" where
  "get_subscribers_for path F = map fst (filter (\<lambda>(i, ps). list_ex (fnmatch path) ps) (subscribers F))"

section \<open>Changes\<close>

definition record_change :: "bool \<Rightarrow> string \<Rightarrow> string \<Rightarrow> string \<Rightarrow> real \<Rightarrow> real \<Rightarrow> change_feed \<Rightarrow> string list \<times> change_feed" where
  "record_change saves identity path action now later F =
     (let e = \<lparr>fe_identity = identity, fe_path = path, fe_action = action, fe_timestamp = now\<rparr>;
          F1 = trim_feed_file saves later (append_feed saves e (F\<lparr>feed := feed F @ [e]\<rparr>))
      in (get_subscribers_for path F1, F1))"

definition get_recent :: "int \<Rightarrow> change_feed \<Rightarrow> feed_entry list" where
  "get_recent limit F = slice_from (- limit) (feed F)"

definition get_changes_for_file :: "string \<Rightarrow> int \<Rightarrow> change_feed \<Rightarrow> feed_entry list" where
  "get_changes_for_file path limit F = slice_from (- limit) (filter (\<lambda>e. fe_path e = path) (feed F))"

section \<open>Claims over time\<close>

lemma save_claims_sel [simp]:
  "claims (save_claims s F) = claims F" "claim_timeout (save_claims s F) = claim_timeout F" "feed (save_claims s F) = feed F"
  "feed_max (save_claims s F) = feed_max F" "feed_max_age (save_claims s F) = feed_max_age F"
  by (simp_all add: save_claims_def)

lemma expired_keys:
  assumes "od_wf d"
  shows "p \<in> set (map fst (filter (\<lambda>(p, c). P c) d)) \<longleftrightarrow> (\<exists>c. od_get d p = Some c \<and> P c)"
  using assms by (force simp: od_wf_def map_of_eq_Some_iff)

definition live :: "real \<Rightarrow> lane_claim option \<Rightarrow> lane_claim option" where
  "live now oc = (case oc of Some c \<Rightarrow> if expires_at c \<le> now then None else Some c | None \<Rightarrow> None)"

lemma cleanup_claims:
  assumes "od_wf (claims F)"
  shows "od_get (claims (snd (cleanup_expired s now F))) p = live now (od_get (claims F) p)"
    "od_wf (claims (snd (cleanup_expired s now F)))"
    "claim_timeout (snd (cleanup_expired s now F)) = claim_timeout F"
proof -
  have eq: "claims (snd (cleanup_expired s now F)) = fold od_del (map fst (filter (\<lambda>(p, c). expires_at c \<le> now) (claims F))) (claims F)"
    by (simp add: cleanup_expired_def Let_def)
  show "od_get (claims (snd (cleanup_expired s now F))) p = live now (od_get (claims F) p)"
    unfolding eq od_get_fold_keys expired_keys [OF assms] by (auto simp: live_def split: option.splits)
  show "od_wf (claims (snd (cleanup_expired s now F)))" unfolding eq by (rule od_wf_fold_keys [OF assms])
  show "claim_timeout (snd (cleanup_expired s now F)) = claim_timeout F" by (simp add: cleanup_expired_def Let_def)
qed

lemma lane_claim_spec:
  assumes "od_wf (claims F)" and "claim s i p task now later F = (res, F')"
  shows "(case live later (od_get (claims F) p) of
      Some c \<Rightarrow> if claimed_by c \<noteq> i
        then res = Conflict (claimed_by c) (expires_at c) (claim_task c) \<and> od_get (claims F') p = Some c
        else res = Claimed (now + claim_timeout F) \<and> od_get (claims F') p = Some \<lparr>claimed_by = i, claim_task = task, claimed_at = now, expires_at = now + claim_timeout F\<rparr>
    | None \<Rightarrow> res = Claimed (now + claim_timeout F) \<and> od_get (claims F') p = Some \<lparr>claimed_by = i, claim_task = task, claimed_at = now, expires_at = now + claim_timeout F\<rparr>) \<and>
    (\<forall>q. q \<noteq> p \<longrightarrow> od_get (claims F') q = live later (od_get (claims F) q)) \<and> od_wf (claims F') \<and> claim_timeout F' = claim_timeout F"
proof -
  define F1 where "F1 = snd (cleanup_expired s later F)"
  have F1: "od_get (claims F1) q = live later (od_get (claims F) q)" "od_wf (claims F1)" "claim_timeout F1 = claim_timeout F" for q
    using cleanup_claims [OF assms(1)] by (simp_all add: F1_def)
  show ?thesis using assms(2) F1 unfolding claim_def Let_def F1_def [symmetric]
    by (cases "live later (od_get (claims F) p)") (auto split: if_splits)
qed

text \<open>
  Steps that are not a release by the owner: claims, releases and look-ups of any agent, changes,
  subscriptions, from time \<open>t0\<close> on and before \<open>e\<close>.
\<close>

inductive lane_step :: "string \<Rightarrow> string \<Rightarrow> real \<Rightarrow> real \<Rightarrow> change_feed \<Rightarrow> change_feed \<Rightarrow> bool" for owner path t0 e where
  claimed: "t0 \<le> now \<Longrightarrow> now \<le> later \<Longrightarrow> later < e \<Longrightarrow> lane_step owner path t0 e F (snd (claim s i p task now later F))"
| released: "i \<noteq> owner \<or> p \<noteq> path \<Longrightarrow> lane_step owner path t0 e F (snd (release s i p F))"
| released_all: "i \<noteq> owner \<Longrightarrow> lane_step owner path t0 e F (snd (release_all s i F))"
| listed: "now < e \<Longrightarrow> lane_step owner path t0 e F (snd (get_claims s i now F))"
| cleaned: "now < e \<Longrightarrow> lane_step owner path t0 e F (snd (cleanup_expired s now F))"
| changed: "lane_step owner path t0 e F (snd (record_change s i p act now later F))"
| purged: "lane_step owner path t0 e F (snd (startup_purge s now F))"
| subscribed: "lane_step owner path t0 e F (subscribe i pat F)"
| unsubscribed: "lane_step owner path t0 e F (snd (unsubscribe i opat F))"

definition holds :: "string \<Rightarrow> string \<Rightarrow> real \<Rightarrow> real \<Rightarrow> change_feed \<Rightarrow> bool" where
  "holds owner path t0 e F \<longleftrightarrow> od_wf (claims F) \<and> e \<le> t0 + claim_timeout F \<and>
     (\<exists>c. od_get (claims F) path = Some c \<and> claimed_by c = owner \<and> e \<le> expires_at c)"

lemma holds_same: "claims F' = claims F \<Longrightarrow> claim_timeout F' = claim_timeout F \<Longrightarrow> holds w p t0 e F' = holds w p t0 e F"
  by (simp add: holds_def)

lemma feed_ops_claims [simp]:
  "claims (snd (record_change s i p a n l F)) = claims F" "claim_timeout (snd (record_change s i p a n l F)) = claim_timeout F"
  "claims (snd (startup_purge s n F)) = claims F" "claim_timeout (snd (startup_purge s n F)) = claim_timeout F"
  "claims (subscribe i pat F) = claims F" "claim_timeout (subscribe i pat F) = claim_timeout F"
  "claims (snd (unsubscribe i opat F)) = claims F" "claim_timeout (snd (unsubscribe i opat F)) = claim_timeout F"
  by (simp_all add: record_change_def startup_purge_def trim_feed_file_def append_feed_def subscribe_def unsubscribe_def Let_def
      split: option.splits)

lemma cleanup_holds: "holds w p t0 e F \<Longrightarrow> now < e \<Longrightarrow> holds w p t0 e (snd (cleanup_expired s now F))"
  using cleanup_claims [of F s now] by (auto simp: holds_def live_def)

lemma lane_step_holds:
  assumes "lane_step w p t0 e F F'" and "holds w p t0 e F"
  shows "holds w p t0 e F'"
  using assms
proof (cases rule: lane_step.cases)
  case (claimed now later s i q task)
  obtain res where r: "claim s i q task now later F = (res, F')" using claimed(1) by (metis prod.collapse)
  have "od_wf (claims F)" using assms(2) by (simp add: holds_def)
  from lane_claim_spec [OF this r] assms(2) claimed show ?thesis
    by (cases "q = p") (auto simp: holds_def live_def split: if_splits)
next
  case (released i q s)
  then show ?thesis using assms(2) by (auto simp: holds_def release_def split: option.splits)
next
  case (released_all i s)
  have "od_get (fold od_del (map fst (filter (\<lambda>(p, c). claimed_by c = i) (claims F))) (claims F)) p = od_get (claims F) p"
    using assms(2) released_all expired_keys [of "claims F" p "\<lambda>c. claimed_by c = i"]
    by (auto simp: holds_def od_get_fold_keys)
  then show ?thesis using assms(2) released_all
    by (auto simp: holds_def release_all_def Let_def od_wf_fold_keys)
next
  case (listed now s i)
  then show ?thesis using cleanup_holds [OF assms(2), of now s] by (simp add: get_claims_def Let_def)
next
  case (cleaned now s)
  then show ?thesis using cleanup_holds [OF assms(2)] by simp
qed (use assms(2) in \<open>simp_all add: holds_def\<close>)

lemma lane_steps_hold: "(lane_step w p t0 e)\<^sup>*\<^sup>* F F' \<Longrightarrow> holds w p t0 e F \<Longrightarrow> holds w p t0 e F'"
  by (induction rule: rtranclp_induct) (auto intro: lane_step_holds)

section \<open>The feed\<close>

definition within_limits :: "change_feed \<Rightarrow> bool" where
  "within_limits F \<longleftrightarrow> list_all is_valid_entry (feed F) \<and> (0 < feed_max F \<longrightarrow> int (length (feed F)) \<le> feed_max F)"

lemma trim_feed_members: "set (trim_feed now F) \<subseteq> set (feed F)" "list_all is_valid_entry (trim_feed now F)"
proof -
  have "set (trim_feed now F) \<subseteq> set (filter is_valid_entry (feed F))"
    using set_slice_from by (fastforce simp: trim_feed_def Let_def split: if_splits)
  then show "set (trim_feed now F) \<subseteq> set (feed F)" "list_all is_valid_entry (trim_feed now F)"
    by (auto simp: list_all_iff)
qed

lemma trim_feed_length: "0 < feed_max F \<Longrightarrow> int (length (trim_feed now F)) \<le> feed_max F"
  by (simp add: trim_feed_def Let_def length_slice_from_last)

lemma trim_file_feed: "feed (trim_feed_file s now F) = (if feed F = [] then [] else trim_feed now F)"
  "feed_max (trim_feed_file s now F) = feed_max F"
  by (simp_all add: trim_feed_file_def Let_def)

lemma trimmed_within_limits: "within_limits (trim_feed_file s now F)"
  using trim_feed_members(2) [of now F] trim_feed_length [of F now]
  by (simp add: within_limits_def trim_file_feed)

section \<open>Properties\<close>


text \<open>
  A claim is granted just when no other agent has a claim on the path that is still running. Then
  the agent has the path for the full time; in any case the running claims on other paths stay as
  they are, and those that ran out are gone.
\<close>

theorem claim_granted_iff_free:
  assumes "od_wf (claims F)" and "claim s agent path task now later F = (res, F')"
  shows "((\<exists>e. res = Claimed e) \<longleftrightarrow> \<not> (\<exists>c. od_get (claims F) path = Some c \<and> later < expires_at c \<and> claimed_by c \<noteq> agent)) \<and>
    (\<forall>e. res = Claimed e \<longrightarrow> e = now + claim_timeout F \<and>
      (\<exists>c. od_get (claims F') path = Some c \<and> claimed_by c = agent \<and> expires_at c = e)) \<and>
    (\<forall>q. q \<noteq> path \<longrightarrow> od_get (claims F') q = live later (od_get (claims F) q))"
  using lane_claim_spec [OF assms] by (auto simp: live_def split: option.splits if_splits)

text \<open>
  After every recorded change, and after the purge at start-up, the feed has valid paths only and is
  no longer than its limit (when the limit is positive); nothing but the new change is added.
\<close>

theorem feed_within_limits:
  "within_limits (snd (record_change s agent path action now later F)) \<and> within_limits (snd (startup_purge s now F)) \<and>
   set (feed (snd (startup_purge s now F))) \<subseteq> set (feed F) \<and>
   set (feed (snd (record_change s agent path action now later F)))
     \<subseteq> insert \<lparr>fe_identity = agent, fe_path = path, fe_action = action, fe_timestamp = now\<rparr> (set (feed F))"
proof -
  let ?e = "\<lparr>fe_identity = agent, fe_path = path, fe_action = action, fe_timestamp = now\<rparr>"
  let ?F = "append_feed s ?e (F\<lparr>feed := feed F @ [?e]\<rparr>)"
  have f: "feed ?F = feed F @ [?e]" by (simp add: append_feed_def)
  have "set (feed (trim_feed_file s later ?F)) \<subseteq> insert ?e (set (feed F))"
    using trim_feed_members(1) [of later ?F] by (auto simp: trim_file_feed f)
  moreover have "set (feed (trim_feed_file s now F)) \<subseteq> set (feed F)"
    using trim_feed_members(1) [of now F] by (simp add: trim_file_feed)
  ultimately show ?thesis
    by (simp add: record_change_def startup_purge_def Let_def trimmed_within_limits)
qed

text \<open>With a limit of 0 the slice \<open>[-0:]\<close> keeps the whole feed.\<close>

theorem feed_limit_zero_keeps_all:
  "length (feed (snd (record_change True ''a'' ''src/x.py'' ''edit'' 1 1 (open_feed 1800 0 0 [] [])))) = 1"
  by code_simp


theorem claim_granted_iff_free_witness:
  "\<exists>e. fst (claim True ''a'' ''x.py'' [] 0 0 (open_feed 1800 500 0 [] [])) = Claimed e"
proof -
  let ?F = "open_feed 1800 500 0 [] []"
  have wf: "od_wf (claims ?F)" by (simp add: open_feed_def od_wf_def)
  show ?thesis using claim_granted_iff_free [OF wf prod.collapse [symmetric], of True "''a''" "''x.py''" "[]" 0 0]
    by (simp add: open_feed_def)
qed

end
