(* ===== verification/Task_Ledger.thy ===== *)
theory Task_Ledger
  imports Dict_Utils
begin

text \<open>
  The hub's durable task ledger (\<open>plugins/hub/task_ledger.py\<close>, classes \<open>TaskCard\<close> and
  \<open>TaskLedger\<close>): task cards, the open queue, QA review, terminal states, reminders, expected
  replies and coordinator dispatches.

  The ledger is a directory: one JSON file per card, named by the card's identifier, and two
  control files. Here a card file is the card it loads as, or unreadable; \<open>from_dict\<close> and
  \<open>to_dict\<close> are modelled beside it with their round trip. An unreadable file of expected replies
  counts as empty, an unreadable dispatch file (\<open>None\<close>) raises. Every operation takes the time as
  \<open>now\<close>, and the random identifier of a new card and the working directory as arguments. The
  order of the files is the order of the association list. Operations under a file lock are one
  step; the others load a card and save it later, which \<open>checkpoint_save\<close> keeps apart.
\<close>

section \<open>Task cards\<close>

definition TERMINAL_TASK_STATUSES :: "string set" where
  "TERMINAL_TASK_STATUSES = {''done'', ''failed'', ''closed'', ''cancelled'', ''obsolete''}"

definition EXPLICIT_TERMINAL_STATUSES :: "string set" where
  "EXPLICIT_TERMINAL_STATUSES = {''cancelled'', ''obsolete''}"

record checkpoint_entry =
  cp_ts :: real
  cp_note :: string
  cp_data :: pydict

record task_card =
  card_id :: string
  status :: string
  created_at :: real
  updated_at :: real
  assigner :: string
  assignee :: string
  directive :: string
  deliverable :: string
  report_to :: string
  priority :: int
  timeout_seconds :: real
  cron_interval :: real
  cron_active :: bool
  cron_ttl_seconds :: real
  snoozed_until :: real
  checkpoints :: "checkpoint_entry list"
  result :: "string option"
  error :: "string option"
  qa_reviewer :: "string option"
  qa_passed :: "bool option"
  qa_notes :: "string option"
  qa_requested_at :: "real option"
  terminal_reason :: "string option"
  terminal_actor :: "string option"
  terminal_message_id :: "string option"
  terminalized_at :: "real option"
  project :: string
  last_activity_at :: real
  stall_count :: int
  reassignments :: int

text \<open>The defaults of the data class.\<close>

definition new_card :: "string \<Rightarrow> real \<Rightarrow> string \<Rightarrow> task_card" where
  "new_card i now cwd =
     \<lparr>card_id = i, status = ''active'', created_at = now, updated_at = now, assigner = [], assignee = [],
      directive = [], deliverable = [], report_to = [], priority = 5, timeout_seconds = 0,
      cron_interval = 300, cron_active = True, cron_ttl_seconds = 7200, snoozed_until = 0,
      checkpoints = [], result = None, error = None, qa_reviewer = None, qa_passed = None,
      qa_notes = None, qa_requested_at = None, terminal_reason = None, terminal_actor = None,
      terminal_message_id = None, terminalized_at = None, project = cwd, last_activity_at = 0,
      stall_count = 0, reassignments = 0\<rparr>"

definition add_checkpoint :: "real \<Rightarrow> string \<Rightarrow> pydict \<Rightarrow> task_card \<Rightarrow> task_card" where
  "add_checkpoint now note data c =
     c\<lparr>checkpoints := checkpoints c @ [\<lparr>cp_ts = now, cp_note = note, cp_data = data\<rparr>], updated_at := now\<rparr>"

definition elapsed_seconds :: "real \<Rightarrow> task_card \<Rightarrow> real" where
  "elapsed_seconds now c = now - created_at c"

definition is_snoozed :: "real \<Rightarrow> task_card \<Rightarrow> bool" where
  "is_snoozed now c \<longleftrightarrow> snoozed_until c > now"

definition is_timed_out :: "real \<Rightarrow> task_card \<Rightarrow> bool" where
  "is_timed_out now c \<longleftrightarrow> timeout_seconds c > 0 \<and> elapsed_seconds now c > timeout_seconds c"

definition or_real :: "real \<Rightarrow> real \<Rightarrow> real" where
  "or_real a b = (if a \<noteq> 0 then a else b)"

definition qa_review_expired :: "real \<Rightarrow> task_card \<Rightarrow> bool" where
  "qa_review_expired now c \<longleftrightarrow> status c = ''qa_review'' \<and> cron_ttl_seconds c > 0 \<and>
     now - (case qa_requested_at c of None \<Rightarrow> updated_at c | Some t \<Rightarrow> or_real t (updated_at c)) > cron_ttl_seconds c"

definition last_checkpoint_note :: "task_card \<Rightarrow> string" where
  "last_checkpoint_note c = (if checkpoints c = [] then [] else cp_note (last (checkpoints c)))"

section \<open>Storage\<close>

definition opt_val :: "('a \<Rightarrow> pyval) \<Rightarrow> 'a option \<Rightarrow> pyval" where
  "opt_val f v = (case v of None \<Rightarrow> PNone | Some x \<Rightarrow> f x)"

definition checkpoint_dict :: "checkpoint_entry \<Rightarrow> pyval" where
  "checkpoint_dict e = PDict [(''ts'', PFloat (cp_ts e)), (''note'', PStr (cp_note e)), (''data'', PDict (cp_data e))]"

definition to_dict :: "task_card \<Rightarrow> pydict" where
  "to_dict c =
     [(''id'', PStr (card_id c)), (''status'', PStr (status c)), (''created_at'', PFloat (created_at c)),
      (''updated_at'', PFloat (updated_at c)), (''assigner'', PStr (assigner c)),
      (''assignee'', PStr (assignee c)), (''directive'', PStr (directive c)),
      (''deliverable'', PStr (deliverable c)), (''report_to'', PStr (report_to c)),
      (''priority'', PInt (priority c)), (''timeout_seconds'', PFloat (timeout_seconds c)),
      (''cron_interval'', PFloat (cron_interval c)), (''cron_active'', PBool (cron_active c)),
      (''cron_ttl_seconds'', PFloat (cron_ttl_seconds c)), (''snoozed_until'', PFloat (snoozed_until c)),
      (''checkpoints'', PList (map checkpoint_dict (checkpoints c))), (''result'', opt_val PStr (result c)),
      (''error'', opt_val PStr (error c)), (''qa_reviewer'', opt_val PStr (qa_reviewer c)),
      (''qa_passed'', opt_val PBool (qa_passed c)), (''qa_notes'', opt_val PStr (qa_notes c)),
      (''qa_requested_at'', opt_val PFloat (qa_requested_at c)),
      (''terminal_reason'', opt_val PStr (terminal_reason c)),
      (''terminal_actor'', opt_val PStr (terminal_actor c)),
      (''terminal_message_id'', opt_val PStr (terminal_message_id c)),
      (''terminalized_at'', opt_val PFloat (terminalized_at c)), (''project'', PStr (project c)),
      (''last_activity_at'', PFloat (last_activity_at c)), (''stall_count'', PInt (stall_count c)),
      (''reassignments'', PInt (reassignments c))]"

text \<open>
  Reading a card: unknown keys are dropped, missing ones have their default, and a number that
  \<open>float()\<close> does not accept gets its default too (\<open>parse\<close> is \<open>float()\<close> of a string; an infinite
  or undefined number is no value here). The other fields have their declared type.
\<close>

definition num_field :: "(string \<Rightarrow> real option) \<Rightarrow> pydict \<Rightarrow> string \<Rightarrow> real \<Rightarrow> real" where
  "num_field parse d k dflt =
     (case od_get d k of
        Some (PFloat r) \<Rightarrow> r
      | Some (PInt i) \<Rightarrow> real_of_int i
      | Some (PBool b) \<Rightarrow> if b then 1 else 0
      | Some (PStr s) \<Rightarrow> (case parse s of Some r \<Rightarrow> r | None \<Rightarrow> dflt)
      | _ \<Rightarrow> dflt)"

definition opt_num_field :: "(string \<Rightarrow> real option) \<Rightarrow> pydict \<Rightarrow> string \<Rightarrow> real option" where
  "opt_num_field parse d k =
     (case od_get d k of
        Some (PFloat r) \<Rightarrow> Some r
      | Some (PInt i) \<Rightarrow> Some (real_of_int i)
      | Some (PBool b) \<Rightarrow> Some (if b then 1 else 0)
      | Some (PStr s) \<Rightarrow> parse s
      | _ \<Rightarrow> None)"

definition str_field :: "pydict \<Rightarrow> string \<Rightarrow> string \<Rightarrow> string" where
  "str_field d k dflt = (case od_get d k of Some (PStr s) \<Rightarrow> s | _ \<Rightarrow> dflt)"

definition opt_str_field :: "pydict \<Rightarrow> string \<Rightarrow> string option" where
  "opt_str_field d k = (case od_get d k of Some (PStr s) \<Rightarrow> Some s | _ \<Rightarrow> None)"

definition int_field :: "pydict \<Rightarrow> string \<Rightarrow> int \<Rightarrow> int" where
  "int_field d k dflt = (case od_get d k of Some (PInt i) \<Rightarrow> i | _ \<Rightarrow> dflt)"

definition opt_bool_field :: "pydict \<Rightarrow> string \<Rightarrow> bool option" where
  "opt_bool_field d k = (case od_get d k of Some (PBool b) \<Rightarrow> Some b | _ \<Rightarrow> None)"

definition checkpoint_of :: "pyval \<Rightarrow> checkpoint_entry" where
  "checkpoint_of v = (let d = (case v of PDict d \<Rightarrow> d | _ \<Rightarrow> []) in
     \<lparr>cp_ts = (case od_get d ''ts'' of Some (PFloat r) \<Rightarrow> r | _ \<Rightarrow> 0), cp_note = str_field d ''note'' [],
      cp_data = (case od_get d ''data'' of Some (PDict e) \<Rightarrow> e | _ \<Rightarrow> [])\<rparr>)"

definition from_dict :: "(string \<Rightarrow> real option) \<Rightarrow> string \<Rightarrow> real \<Rightarrow> string \<Rightarrow> pydict \<Rightarrow> task_card" where
  "from_dict parse fresh now cwd d =
     \<lparr>card_id = str_field d ''id'' fresh, status = str_field d ''status'' ''active'',
      created_at = num_field parse d ''created_at'' now, updated_at = num_field parse d ''updated_at'' now,
      assigner = str_field d ''assigner'' [], assignee = str_field d ''assignee'' [],
      directive = str_field d ''directive'' [], deliverable = str_field d ''deliverable'' [],
      report_to = str_field d ''report_to'' [], priority = int_field d ''priority'' 5,
      timeout_seconds = num_field parse d ''timeout_seconds'' 0,
      cron_interval = num_field parse d ''cron_interval'' 300,
      cron_active = (case opt_bool_field d ''cron_active'' of Some b \<Rightarrow> b | None \<Rightarrow> True),
      cron_ttl_seconds = num_field parse d ''cron_ttl_seconds'' 7200,
      snoozed_until = num_field parse d ''snoozed_until'' 0,
      checkpoints = (case od_get d ''checkpoints'' of Some (PList xs) \<Rightarrow> map checkpoint_of xs | _ \<Rightarrow> []),
      result = opt_str_field d ''result'', error = opt_str_field d ''error'',
      qa_reviewer = opt_str_field d ''qa_reviewer'', qa_passed = opt_bool_field d ''qa_passed'',
      qa_notes = opt_str_field d ''qa_notes'', qa_requested_at = opt_num_field parse d ''qa_requested_at'',
      terminal_reason = opt_str_field d ''terminal_reason'', terminal_actor = opt_str_field d ''terminal_actor'',
      terminal_message_id = opt_str_field d ''terminal_message_id'',
      terminalized_at = opt_num_field (\<lambda>_. None) d ''terminalized_at'', project = str_field d ''project'' cwd,
      last_activity_at = num_field parse d ''last_activity_at'' 0, stall_count = int_field d ''stall_count'' 0,
      reassignments = int_field d ''reassignments'' 0\<rparr>"

datatype card_file = Card task_card | Unreadable

record pending_reply =
  r_task_id :: string
  r_assignee :: string
  r_requested_by :: string
  r_message_id :: string
  r_created_at :: real
  r_deadline_seconds :: int
  r_status :: string
  r_resolution :: "string option"
  r_terminal_status :: "string option"
  r_resolved_reason :: "string option"
  r_resolved_by :: "string option"
  r_resolved_at :: "real option"

record dispatch =
  d_dispatch_id :: string
  d_task_id :: string
  d_assigned_by :: string
  d_assignee :: string
  d_directive :: string
  d_message_id :: string
  d_thread_id :: string
  d_worktree :: string
  d_commit :: string
  d_status :: string
  d_created_at :: real
  d_updated_at :: real
  d_delivery_error :: "string option"
  d_report_message_id :: "string option"
  d_report :: "string option"
  d_reported_worktree :: "string option"
  d_reported_commit :: "string option"
  d_reported_at :: "real option"
  d_verified_by :: "string option"
  d_verification_note :: "string option"
  d_verified_at :: "real option"

record ledger =
  card_files :: "(string, card_file) odict"
  replies :: "pending_reply list"
  dispatches :: "dispatch list option"

definition empty_ledger :: ledger where
  "empty_ledger = \<lparr>card_files = [], replies = [], dispatches = Some []\<rparr>"

definition load :: "string \<Rightarrow> ledger \<Rightarrow> task_card option" where
  "load tid L = (case od_get (card_files L) tid of Some (Card c) \<Rightarrow> Some c | _ \<Rightarrow> None)"

definition write_card :: "task_card \<Rightarrow> ledger \<Rightarrow> ledger" where
  "write_card c L = L\<lparr>card_files := od_put (card_id c) (Card c) (card_files L)\<rparr>"

definition save :: "real \<Rightarrow> task_card \<Rightarrow> ledger \<Rightarrow> ledger" where
  "save now c L = write_card (c\<lparr>updated_at := now\<rparr>) L"

definition save_preserve :: "task_card \<Rightarrow> ledger \<Rightarrow> ledger" where
  "save_preserve c L = write_card c L"

definition load_mutable :: "string \<Rightarrow> ledger \<Rightarrow> task_card option" where
  "load_mutable tid L =
     (case load tid L of
        None \<Rightarrow> None
      | Some c \<Rightarrow> if status c \<in> TERMINAL_TASK_STATUSES then None else Some c)"

text \<open>The mutator returns the card to persist, or \<open>None\<close> to leave it. The file is the one of the
  identifier that was asked for.\<close>

definition mutate_locked ::
  "real \<Rightarrow> string \<Rightarrow> (task_card \<Rightarrow> task_card option) \<Rightarrow> bool \<Rightarrow> ledger \<Rightarrow> task_card option \<times> ledger" where
  "mutate_locked now tid f return_unchanged L =
     (case load tid L of
        None \<Rightarrow> (None, L)
      | Some c \<Rightarrow>
          (case f c of
             Some c' \<Rightarrow> (let c' = c'\<lparr>updated_at := now\<rparr>
                          in (Some c', L\<lparr>card_files := od_put tid (Card c') (card_files L)\<rparr>))
           | None \<Rightarrow> (if return_unchanged then Some c else None, L)))"

definition get_all :: "string option \<Rightarrow> ledger \<Rightarrow> task_card list" where
  "get_all st L = filter (\<lambda>c. st = None \<or> st = Some (status c))
     (List.map_filter (\<lambda>(k, f). load k L) (card_files L))"

section \<open>Operations on cards\<close>

definition blank :: "string \<Rightarrow> bool" where
  "blank s \<longleftrightarrow> str_strip s = []"

definition or_text :: "string \<Rightarrow> string \<Rightarrow> string" where
  "or_text a b = (if a \<noteq> [] then a else b)"

text \<open>The names of the required fields that are blank, for the error message.\<close>

definition missing_fields :: "(string \<times> string) list \<Rightarrow> string list" where
  "missing_fields required = map fst (filter (\<lambda>(name, value). blank value) required)"

record create_args =
  a_assigner :: string
  a_assignee :: string
  a_directive :: string
  a_deliverable :: string
  a_report_to :: string
  a_priority :: int
  a_timeout :: real
  a_cron_interval :: real
  a_status :: string
  a_card_id :: string

definition create :: "string \<Rightarrow> real \<Rightarrow> string \<Rightarrow> create_args \<Rightarrow> ledger \<Rightarrow> task_card py_result \<times> ledger" where
  "create fresh now cwd a L =
     (let missing = missing_fields [(''assigner'', a_assigner a), (''assignee'', a_assignee a),
                                    (''directive'', a_directive a)]
      in if missing \<noteq> []
         then (Inl (ValueError (''task assignment requires non-empty '' @ join_on '', '' missing)), L)
         else
           (let c = (new_card (or_text (a_card_id a) fresh) now cwd)
                  \<lparr>assigner := a_assigner a, assignee := a_assignee a, directive := a_directive a,
                   deliverable := a_deliverable a, report_to := or_text (a_report_to a) (a_assigner a),
                   priority := a_priority a, timeout_seconds := a_timeout a,
                   cron_interval := a_cron_interval a, status := a_status a,
                   cron_active := (a_status a \<noteq> ''standby'')\<rparr>;
                c = c\<lparr>updated_at := now\<rparr>
            in (Inr c, save now c L)))"

definition enqueue ::
  "string \<Rightarrow> real \<Rightarrow> string \<Rightarrow> string \<Rightarrow> string \<Rightarrow> string \<Rightarrow> int \<Rightarrow> real \<Rightarrow> string \<Rightarrow> ledger \<Rightarrow>
   task_card py_result \<times> ledger" where
  "enqueue fresh now asr dir deliv report prio tmo proj L =
     (let missing = missing_fields [(''assigner'', asr), (''directive'', dir)]
      in if missing \<noteq> []
         then (Inl (ValueError (''open task requires non-empty '' @ join_on '', '' missing)), L)
         else
           (let c = (new_card fresh now proj)
                  \<lparr>assigner := asr, assignee := [], directive := dir, deliverable := deliv,
                   report_to := or_text report asr, priority := prio, timeout_seconds := tmo,
                   status := ''open'', cron_active := False, project := proj, updated_at := now\<rparr>
            in (Inr c, save now c L)))"

definition claim_card :: "real \<Rightarrow> string \<Rightarrow> string \<Rightarrow> task_card \<Rightarrow> task_card option" where
  "claim_card now worker proj c =
     (if status c \<noteq> ''open'' \<or> assignee c \<noteq> [] then None
      else if proj \<noteq> [] \<and> project c \<noteq> [] \<and> project c \<noteq> proj then None
      else Some (add_checkpoint now (''claimed by '' @ worker) []
             (c\<lparr>assignee := worker, status := ''active'', cron_active := True, last_activity_at := now\<rparr>)))"

definition claim :: "real \<Rightarrow> string \<Rightarrow> string \<Rightarrow> string \<Rightarrow> ledger \<Rightarrow> task_card option \<times> ledger" where
  "claim now tid worker proj L =
     (if blank worker then (None, L) else mutate_locked now tid (claim_card now worker proj) False L)"

text \<open>Highest priority first, then oldest first: two stable sorts.\<close>

definition get_open :: "string \<Rightarrow> ledger \<Rightarrow> task_card list" where
  "get_open proj L =
     sort_key (\<lambda>c. - priority c) (sort_key created_at
       (filter (\<lambda>c. assignee c = [] \<and> (proj = [] \<or> project c = [] \<or> project c = proj))
         (get_all (Some ''open'') L)))"

fun claim_first :: "real \<Rightarrow> string \<Rightarrow> string \<Rightarrow> task_card list \<Rightarrow> ledger \<Rightarrow> task_card option \<times> ledger" where
  "claim_first now worker proj [] L = (None, L)"
| "claim_first now worker proj (c # cs) L =
     (case claim now (card_id c) worker proj L of
        (Some c', L') \<Rightarrow> (Some c', L')
      | (None, L') \<Rightarrow> claim_first now worker proj cs L')"

definition claim_next_open :: "real \<Rightarrow> string \<Rightarrow> string \<Rightarrow> ledger \<Rightarrow> task_card option \<times> ledger" where
  "claim_next_open now worker proj L = claim_first now worker proj (get_open proj L) L"

definition freshness :: "task_card \<Rightarrow> real" where
  "freshness c = or_real (last_activity_at c) (updated_at c)"

definition get_stalled :: "real \<Rightarrow> real \<Rightarrow> ledger \<Rightarrow> task_card list" where
  "get_stalled threshold now L =
     sort_key freshness
       (filter (\<lambda>c. \<not> snoozed_until c > now \<and> freshness c > 0 \<and> now - freshness c > threshold)
         (get_all (Some ''active'') L))"

definition requeue_card :: "real \<Rightarrow> string \<Rightarrow> task_card \<Rightarrow> task_card option" where
  "requeue_card now why c =
     (if status c \<noteq> ''active'' then None
      else Some (add_checkpoint now
             (''requeued to open queue (was '' @ or_text (assignee c) ''unassigned'' @ ''): '' @ or_text why ''stall timeout'') []
             (c\<lparr>status := ''open'', assignee := [], stall_count := stall_count c + 1,
                reassignments := reassignments c + 1, cron_active := False, last_activity_at := 0\<rparr>)))"

definition requeue_stalled :: "real \<Rightarrow> string \<Rightarrow> string \<Rightarrow> ledger \<Rightarrow> task_card option \<times> ledger" where
  "requeue_stalled now tid why L = mutate_locked now tid (requeue_card now why) False L"

text \<open>The second half of \<open>checkpoint\<close>: the card was loaded earlier, without a lock.\<close>

definition checkpoint_save :: "real \<Rightarrow> string \<Rightarrow> pydict \<Rightarrow> task_card \<Rightarrow> ledger \<Rightarrow> ledger" where
  "checkpoint_save now note data c L = save now ((add_checkpoint now note data c)\<lparr>last_activity_at := now\<rparr>) L"

definition checkpoint :: "real \<Rightarrow> string \<Rightarrow> string \<Rightarrow> pydict \<Rightarrow> ledger \<Rightarrow> bool \<times> ledger" where
  "checkpoint now tid note data L =
     (case load_mutable tid L of
        None \<Rightarrow> (False, L)
      | Some c \<Rightarrow> (True, checkpoint_save now note data c L))"

definition MAX_SNOOZE_SECONDS :: real where "MAX_SNOOZE_SECONDS = 3600"

definition snooze :: "real \<Rightarrow> string \<Rightarrow> real \<Rightarrow> ledger \<Rightarrow> task_card option \<times> ledger" where
  "snooze now tid minutes L =
     (case load_mutable tid L of
        None \<Rightarrow> (None, L)
      | Some c \<Rightarrow>
          (let c' = c\<lparr>snoozed_until := now + max 0 (min (minutes * 60) MAX_SNOOZE_SECONDS)\<rparr>
           in (Some c', save_preserve c' L)))"

text \<open>An update of a card that is not terminal, saved with the new time.\<close>

definition update_mutable :: "real \<Rightarrow> string \<Rightarrow> (task_card \<Rightarrow> task_card option) \<Rightarrow> ledger \<Rightarrow> task_card option \<times> ledger" where
  "update_mutable now tid f L =
     (case load_mutable tid L of
        None \<Rightarrow> (None, L)
      | Some c \<Rightarrow> (case f c of
                      None \<Rightarrow> (None, L)
                    | Some c' \<Rightarrow> (Some (c'\<lparr>updated_at := now\<rparr>), save now c' L)))"

definition complete :: "real \<Rightarrow> string \<Rightarrow> string \<Rightarrow> ledger \<Rightarrow> task_card option \<times> ledger" where
  "complete now tid res L = update_mutable now tid
     (\<lambda>c. Some (c\<lparr>status := ''done'', result := Some res, cron_active := False\<rparr>)) L"

definition request_qa :: "real \<Rightarrow> string \<Rightarrow> string \<Rightarrow> ledger \<Rightarrow> task_card option \<times> ledger" where
  "request_qa now tid res L = update_mutable now tid
     (\<lambda>c. Some (c\<lparr>status := ''qa_review'', result := Some res, cron_active := False, qa_requested_at := Some now\<rparr>)) L"

definition qa_approve :: "real \<Rightarrow> string \<Rightarrow> string \<Rightarrow> string \<Rightarrow> ledger \<Rightarrow> task_card option \<times> ledger" where
  "qa_approve now tid reviewer notes L = update_mutable now tid
     (\<lambda>c. Some (c\<lparr>status := ''closed'', qa_reviewer := Some reviewer, qa_passed := Some True,
                  qa_notes := Some notes, qa_requested_at := None, cron_active := False\<rparr>)) L"

definition qa_reject :: "real \<Rightarrow> string \<Rightarrow> string \<Rightarrow> string \<Rightarrow> ledger \<Rightarrow> task_card option \<times> ledger" where
  "qa_reject now tid reviewer notes L = update_mutable now tid
     (\<lambda>c. if status c \<noteq> ''qa_review'' then None
          else Some (c\<lparr>status := ''active'', qa_reviewer := Some reviewer, qa_passed := Some False,
                       qa_notes := Some notes, qa_requested_at := None, cron_active := True\<rparr>)) L"

section \<open>Terminal states\<close>

definition resolve_for_task :: "real \<Rightarrow> string \<Rightarrow> string \<Rightarrow> string \<Rightarrow> string \<Rightarrow> pending_reply \<Rightarrow> pending_reply" where
  "resolve_for_task now tid st why mid r =
     (if r_task_id r \<noteq> tid \<or> r_status r \<noteq> ''pending'' then r
      else r\<lparr>r_status := ''resolved'', r_resolution := Some ''task_terminalized'', r_terminal_status := Some st,
             r_resolved_reason := Some why, r_resolved_by := Some mid, r_resolved_at := Some now\<rparr>)"

definition resolve_replies_for_task :: "real \<Rightarrow> string \<Rightarrow> string \<Rightarrow> string \<Rightarrow> string \<Rightarrow> ledger \<Rightarrow> nat \<times> ledger" where
  "resolve_replies_for_task now tid st why mid L =
     (length (filter (\<lambda>r. r_task_id r = tid \<and> r_status r = ''pending'') (replies L)),
      L\<lparr>replies := map (resolve_for_task now tid st why mid) (replies L)\<rparr>)"

definition opt_text :: "string \<Rightarrow> string option" where
  "opt_text s = (if s = [] then None else Some s)"

definition terminal_card :: "real \<Rightarrow> string \<Rightarrow> string \<Rightarrow> string \<Rightarrow> string \<Rightarrow> task_card \<Rightarrow> task_card" where
  "terminal_card now st why actor mid c =
     add_checkpoint now (''task '' @ st @ '': '' @ why)
       [(''status'', PStr st), (''reason'', PStr why), (''actor'', PStr actor), (''message_id'', PStr mid)]
       (c\<lparr>status := st, cron_active := False, snoozed_until := 0, terminal_reason := Some why,
          terminal_actor := opt_text actor, terminal_message_id := opt_text mid, terminalized_at := Some now\<rparr>)"

definition terminalize ::
  "real \<Rightarrow> string \<Rightarrow> string \<Rightarrow> string \<Rightarrow> string \<Rightarrow> string \<Rightarrow> bool \<Rightarrow> ledger \<Rightarrow> task_card option py_result \<times> ledger" where
  "terminalize now tid st0 why0 actor mid preserve_active L =
     (let st = str_lower (str_strip st0); why = str_strip why0
      in if st \<notin> EXPLICIT_TERMINAL_STATUSES
         then (Inl (ValueError (''unsupported terminal task status: '' @ [CHR 0x27] @ st @ [CHR 0x27])), L)
         else if why = [] then (Inl (ValueError ''terminalization reason is required''), L)
         else case load tid L of
                None \<Rightarrow> (Inr None, L)
              | Some c \<Rightarrow>
                  (if status c \<in> TERMINAL_TASK_STATUSES \<or> (preserve_active \<and> status c = ''active'')
                   then (Inr (Some c), L)
                   else
                     (let c' = (terminal_card now st why actor mid c)\<lparr>updated_at := now\<rparr>;
                          L1 = (if preserve_active
                                then L\<lparr>card_files := od_put tid (Card c') (card_files L)\<rparr>
                                else write_card c' L)
                      in (Inr (Some c'), snd (resolve_replies_for_task now (card_id c') st why mid L1)))))"

definition cancel :: "real \<Rightarrow> string \<Rightarrow> ledger \<Rightarrow> bool \<times> ledger" where
  "cancel now tid L =
     (case terminalize now tid ''cancelled'' ''cancelled via task ledger'' [] [] False L of
        (Inr (Some c), L') \<Rightarrow> (True, L')
      | (_, L') \<Rightarrow> (False, L'))"

text \<open>The loop of \<open>get_active_for\<close> over the files, each loaded when its turn comes.\<close>

fun active_loop :: "real \<Rightarrow> string \<Rightarrow> string list \<Rightarrow> ledger \<Rightarrow> task_card list \<times> ledger" where
  "active_loop now who [] L = ([], L)"
| "active_loop now who (k # ks) L =
     (case load k L of
        None \<Rightarrow> active_loop now who ks L
      | Some c \<Rightarrow>
          (if assignee c = who \<and> status c = ''qa_review'' \<and> qa_review_expired now c
           then active_loop now who ks (snd (terminalize now (card_id c) ''obsolete''
                  ''QA review expired without reviewer action'' ''task-ledger'' [] False L))
           else case active_loop now who ks L of (cs, L') \<Rightarrow>
             (if assignee c = who \<and> status c \<in> {''active'', ''standby'', ''qa_review''} then c # cs else cs, L')))"

definition get_active_for :: "real \<Rightarrow> string \<Rightarrow> ledger \<Rightarrow> task_card list \<times> ledger" where
  "get_active_for now who L =
     (case active_loop now who (map fst (card_files L)) L of (cs, L') \<Rightarrow> (sort_key priority cs, L'))"

definition ttl_expired :: "real \<Rightarrow> task_card \<Rightarrow> bool" where
  "ttl_expired now c \<longleftrightarrow> cron_ttl_seconds c > 0 \<and> now - updated_at c > cron_ttl_seconds c"

definition cron_reason :: "task_card \<Rightarrow> string" where
  "cron_reason c = ''task-cron expired after '' @ show_nat (nat \<lfloor>cron_ttl_seconds c / 3600\<rfloor>) @ ''h without a checkpoint''"

fun cron_loop :: "real \<Rightarrow> task_card list \<Rightarrow> ledger \<Rightarrow> task_card list \<times> ledger" where
  "cron_loop now [] L = ([], L)"
| "cron_loop now (c # cs) L =
     (if ttl_expired now c
      then cron_loop now cs (snd (terminalize now (card_id c) ''obsolete'' (cron_reason c) ''task-cron'' [] False L))
      else case cron_loop now cs L of (due, L') \<Rightarrow>
        (if cron_active c \<and> \<not> snoozed_until c > now \<and> now - updated_at c \<ge> cron_interval c
         then c # due else due, L'))"

definition get_cron_due :: "real \<Rightarrow> ledger \<Rightarrow> task_card list \<times> ledger" where
  "get_cron_due now L = cron_loop now (get_all (Some ''active'') L) L"

definition is_stale :: "real \<Rightarrow> task_card \<Rightarrow> bool" where
  "is_stale cutoff c \<longleftrightarrow>
     status c \<in> {''closed'', ''failed'', ''done'', ''qa_review'', ''cancelled'', ''obsolete''} \<and> updated_at c < cutoff"

definition cleanup_stale :: "real \<Rightarrow> real \<Rightarrow> ledger \<Rightarrow> nat \<times> ledger" where
  "cleanup_stale now max_age_hours L =
     (let stale = filter (is_stale (now - max_age_hours * 3600)) (get_all None L)
      in (length stale, L\<lparr>card_files := fold (\<lambda>c. od_del (card_id c)) stale (card_files L)\<rparr>))"

section \<open>Expected replies\<close>

definition expect_reply ::
  "real \<Rightarrow> string \<Rightarrow> string \<Rightarrow> string \<Rightarrow> string \<Rightarrow> int \<Rightarrow> ledger \<Rightarrow> ledger" where
  "expect_reply now tid who requested_by mid deadline L =
     (if mid \<noteq> [] \<and> list_ex (\<lambda>r. r_message_id r = mid) (replies L) then L
      else L\<lparr>replies := replies L @
        [\<lparr>r_task_id = tid, r_assignee = who, r_requested_by = requested_by, r_message_id = mid,
          r_created_at = now, r_deadline_seconds = deadline, r_status = ''pending'', r_resolution = None,
          r_terminal_status = None, r_resolved_reason = None, r_resolved_by = None, r_resolved_at = None\<rparr>]\<rparr>)"

definition PENDING_REPLY_TTL :: real where "PENDING_REPLY_TTL = 86400"

definition pending_replies :: "real \<Rightarrow> ledger \<Rightarrow> pending_reply list \<times> ledger" where
  "pending_replies now L =
     (let old = (\<lambda>r. r_status r = ''pending'' \<and> now - r_created_at r > PENDING_REPLY_TTL);
          kept = (if list_ex old (replies L)
                  then filter (\<lambda>r. \<not> old r \<and> r_status r \<noteq> ''expired'') (replies L) else replies L)
      in (filter (\<lambda>r. r_status r = ''pending'') kept, L\<lparr>replies := kept\<rparr>))"

text \<open>\<open>for item in replies: if test: change it, write, return True\<close>\<close>

fun update_first :: "('a \<Rightarrow> bool) \<Rightarrow> ('a \<Rightarrow> 'a) \<Rightarrow> 'a list \<Rightarrow> bool \<times> 'a list" where
  "update_first P f [] = (False, [])"
| "update_first P f (x # xs) =
     (if P x then (True, f x # xs)
      else case update_first P f xs of (b, ys) \<Rightarrow> (b, x # ys))"

definition strong_markers :: "string list" where
  "strong_markers = [''task complete'', ''shipped'', ''resolved'', ''verdict'', ''no blockers'',
     ''review delivered'', ''done'']"

definition resolve_reply :: "real \<Rightarrow> string \<Rightarrow> string \<Rightarrow> string \<Rightarrow> string \<Rightarrow> ledger \<Rightarrow> bool \<times> ledger" where
  "resolve_reply now who evidence mid tid L =
     (if \<not> list_ex (\<lambda>m. str_contains m (str_lower evidence)) strong_markers then (False, L)
      else case update_first
             (\<lambda>r. r_assignee r = who \<and> r_status r = ''pending'' \<and> (tid = [] \<or> r_task_id r = tid))
             (\<lambda>r. r\<lparr>r_status := ''resolved'', r_resolved_by := Some mid, r_resolved_at := Some now\<rparr>)
             (replies L) of (ok, rs) \<Rightarrow> (ok, L\<lparr>replies := rs\<rparr>))"

definition resolve_pending_reply ::
  "real \<Rightarrow> string \<Rightarrow> string \<Rightarrow> string \<Rightarrow> string \<Rightarrow> string \<Rightarrow> ledger \<Rightarrow> bool \<times> ledger" where
  "resolve_pending_reply now mid why resolution st by L =
     (if mid = [] \<or> why = [] then (False, L)
      else case update_first (\<lambda>r. r_message_id r = mid \<and> r_status r = ''pending'')
             (\<lambda>r. r\<lparr>r_status := ''resolved'', r_resolution := Some resolution, r_terminal_status := Some st,
                    r_resolved_reason := Some why, r_resolved_by := Some by, r_resolved_at := Some now\<rparr>)
             (replies L) of (ok, rs) \<Rightarrow> (ok, L\<lparr>replies := rs\<rparr>))"

section \<open>Dispatches\<close>

definition DISPATCH_ACTIVE_STATUSES :: "string set" where
  "DISPATCH_ACTIVE_STATUSES = {''dispatching'', ''in_flight'', ''delivery_failed'', ''reported_unverified''}"

definition DISPATCH_TRANSITIONS :: "string \<Rightarrow> string set" where
  "DISPATCH_TRANSITIONS st =
     (if st \<in> {''dispatching'', ''in_flight'', ''delivery_failed''} then {''in_flight'', ''delivery_failed''} else {})"

definition with_dispatches :: "(dispatch list \<Rightarrow> 'a py_result \<times> dispatch list) \<Rightarrow> ledger \<Rightarrow> 'a py_result \<times> ledger" where
  "with_dispatches f L =
     (case dispatches L of
        None \<Rightarrow> (Inl (RuntimeError ''durable hub dispatch ledger is unreadable''), L)
      | Some ds \<Rightarrow> (case f ds of (res, ds') \<Rightarrow> (res, L\<lparr>dispatches := Some ds'\<rparr>)))"

record dispatch_args =
  p_task_id :: string
  p_assigned_by :: string
  p_assignee :: string
  p_directive :: string
  p_message_id :: string
  p_thread_id :: string
  p_worktree :: string
  p_commit :: string

definition new_dispatch :: "real \<Rightarrow> dispatch_args \<Rightarrow> dispatch" where
  "new_dispatch now a =
     \<lparr>d_dispatch_id = str_strip (p_message_id a), d_task_id = str_strip (p_task_id a),
      d_assigned_by = str_strip (p_assigned_by a), d_assignee = str_strip (p_assignee a),
      d_directive = p_directive a, d_message_id = str_strip (p_message_id a),
      d_thread_id = str_strip (p_thread_id a), d_worktree = str_strip (p_worktree a),
      d_commit = str_strip (p_commit a), d_status = ''dispatching'', d_created_at = now, d_updated_at = now,
      d_delivery_error = None, d_report_message_id = None, d_report = None, d_reported_worktree = None,
      d_reported_commit = None, d_reported_at = None, d_verified_by = None, d_verification_note = None,
      d_verified_at = None\<rparr>"

definition immutable_fields :: "dispatch \<Rightarrow> string list" where
  "immutable_fields d = [d_dispatch_id d, d_task_id d, d_assigned_by d, d_assignee d, d_directive d,
     d_message_id d, d_thread_id d, d_worktree d, d_commit d]"

definition record_dispatch :: "real \<Rightarrow> dispatch_args \<Rightarrow> ledger \<Rightarrow> dispatch py_result \<times> ledger" where
  "record_dispatch now a L =
     (if list_ex blank [p_task_id a, p_assigned_by a, p_assignee a, p_directive a, p_message_id a]
      then (Inl (ValueError ''dispatch task, assigner, assignee, directive, and message_id are required''), L)
      else with_dispatches (\<lambda>ds.
        let rec = new_dispatch now a
        in case List.find (\<lambda>d. d_message_id d = d_message_id rec) ds of
             Some d \<Rightarrow> (if immutable_fields d \<noteq> immutable_fields rec
                         then Inl (ValueError ''dispatch message_id already exists with a different immutable payload'')
                         else Inr d, ds)
           | None \<Rightarrow> (Inr rec, ds @ [rec])) L)"

definition get_dispatch :: "string \<Rightarrow> ledger \<Rightarrow> dispatch option py_result" where
  "get_dispatch did L =
     (if did = [] then Inr None
      else fst (with_dispatches (\<lambda>ds. (Inr (List.find (\<lambda>d. d_dispatch_id d = did) ds), ds)) L))"

definition get_dispatches_for :: "string \<Rightarrow> ledger \<Rightarrow> dispatch list py_result" where
  "get_dispatches_for who L =
     fst (with_dispatches (\<lambda>ds. (Inr (sort_key d_created_at
       (filter (\<lambda>d. d_assigned_by d = who \<and> d_status d \<in> DISPATCH_ACTIVE_STATUSES) ds)), ds)) L)"

definition get_dispatches_page :: "string \<Rightarrow> int \<Rightarrow> int \<Rightarrow> ledger \<Rightarrow> (dispatch list \<times> nat) py_result" where
  "get_dispatches_page who page per_page L =
     py_bind (get_dispatches_for who L) (\<lambda>ds.
       let newest = rev ds; n = nat (max per_page 1); start = nat (max page 1 - 1) * n
       in Inr (take n (drop start newest), length newest))"

text \<open>The first dispatch with the identifier is changed, unless \<open>f\<close> refuses.\<close>

definition change_dispatch :: "string \<Rightarrow> (dispatch \<Rightarrow> dispatch option) \<Rightarrow> dispatch list \<Rightarrow> bool \<times> dispatch list" where
  "change_dispatch did f ds =
     (case List.find (\<lambda>d. d_dispatch_id d = did) ds of
        None \<Rightarrow> (False, ds)
      | Some d \<Rightarrow> (case f d of
                      None \<Rightarrow> (False, ds)
                    | Some d' \<Rightarrow> update_first (\<lambda>d. d_dispatch_id d = did) (\<lambda>_. d') ds))"

definition update_dispatch :: "real \<Rightarrow> string \<Rightarrow> string \<Rightarrow> string \<Rightarrow> ledger \<Rightarrow> bool py_result \<times> ledger" where
  "update_dispatch now did st delivery_error L =
     (if st \<notin> {''in_flight'', ''delivery_failed''}
      then (Inl (ValueError (''unsupported dispatch delivery status: '' @ st)), L)
      else with_dispatches (\<lambda>ds.
        case change_dispatch did (\<lambda>d.
               if st \<noteq> d_status d \<and> st \<notin> DISPATCH_TRANSITIONS (d_status d) then None
               else Some (d\<lparr>d_status := st, d_updated_at := now,
                            d_delivery_error := (if st = ''delivery_failed'' \<and> delivery_error \<noteq> []
                                                 then Some (take 1000 delivery_error)
                                                 else if st = ''in_flight'' then None else d_delivery_error d)\<rparr>)) ds of
          (ok, ds') \<Rightarrow> (Inr ok, ds')) L)"

text \<open>The first line of a report.\<close>

definition first_line :: "string \<Rightarrow> string" where
  "first_line s = str_lower (str_strip (takeWhile (\<lambda>c. \<not> is_line_break c) (str_strip s)))"

record report_args =
  q_task_id :: string
  q_assignee :: string
  q_thread_id :: string
  q_message_id :: string
  q_report :: string
  q_worktree :: string
  q_commit :: string
  q_reply_to :: string

definition report_matches :: "report_args \<Rightarrow> dispatch \<Rightarrow> bool" where
  "report_matches a d \<longleftrightarrow> d_assignee d = q_assignee a \<and> (q_task_id a = [] \<or> d_task_id d = q_task_id a) \<and>
     (q_thread_id a = [] \<or> d_thread_id d = q_thread_id a) \<and> (q_reply_to a = [] \<or> d_message_id d = q_reply_to a)"

definition reported :: "real \<Rightarrow> report_args \<Rightarrow> dispatch \<Rightarrow> dispatch" where
  "reported now a d =
     d\<lparr>d_status := ''reported_unverified'', d_report_message_id := Some (q_message_id a),
       d_report := Some (take 4000 (q_report a)),
       d_reported_worktree := Some (take 2000 (str_strip (q_worktree a))),
       d_reported_commit := Some (take 256 (str_strip (q_commit a))), d_reported_at := Some now, d_updated_at := now\<rparr>"

definition record_dispatch_report :: "real \<Rightarrow> report_args \<Rightarrow> ledger \<Rightarrow> bool py_result \<times> ledger" where
  "record_dispatch_report now a L =
     (if blank (q_report a) \<or> (str_strip (q_worktree a) = [] \<and> str_strip (q_commit a) = []) \<or>
         first_line (q_report a) \<noteq> ''task complete'' \<or>
         (q_task_id a = [] \<and> q_thread_id a = [] \<and> q_reply_to a = [])
      then (Inr False, L)
      else with_dispatches (\<lambda>ds.
        if list_ex (\<lambda>d. report_matches a d \<and> d_status d = ''reported_unverified'' \<and>
             d_report_message_id d = Some (q_message_id a)) ds then (Inr True, ds)
        else
          (let open_idx = filter (\<lambda>i. report_matches a (ds ! i) \<and>
                 d_status (ds ! i) \<in> {''dispatching'', ''in_flight'', ''delivery_failed''}) [0..<length ds]
           in if open_idx = [] then (Inr False, ds)
              else (let i = hd (sort_key (\<lambda>i. d_created_at (ds ! i)) open_idx)
                    in (Inr True, ds[i := reported now a (ds ! i)])))) L)"

definition mark_dispatch_verified :: "real \<Rightarrow> string \<Rightarrow> string \<Rightarrow> string \<Rightarrow> ledger \<Rightarrow> bool py_result \<times> ledger" where
  "mark_dispatch_verified now did verified_by note L =
     (if did = [] \<or> blank verified_by \<or> blank note then (Inr False, L)
      else with_dispatches (\<lambda>ds.
        case change_dispatch did (\<lambda>d.
               if d_assigned_by d \<noteq> verified_by \<or> d_status d \<noteq> ''reported_unverified'' then None
               else Some (d\<lparr>d_status := ''verified'', d_verified_by := Some verified_by,
                            d_verification_note := Some (take 2000 (str_strip note)),
                            d_verified_at := Some now, d_updated_at := now\<rparr>)) ds of
          (ok, ds') \<Rightarrow> (Inr ok, ds')) L)"

section \<open>The card store\<close>

definition terminal :: "task_card \<Rightarrow> bool" where
  "terminal c \<longleftrightarrow> status c \<in> TERMINAL_TASK_STATUSES"

text \<open>Every card is in the file of its identifier.\<close>

definition keyed :: "ledger \<Rightarrow> bool" where
  "keyed L \<longleftrightarrow> od_wf (card_files L) \<and> (\<forall>k c. load k L = Some c \<longrightarrow> card_id c = k)"

lemma load_put [simp]:
  "load k (L\<lparr>card_files := od_put k' (Card c) (card_files L)\<rparr>) = (if k = k' then Some c else load k L)"
  by (simp add: load_def)

lemma load_write_card [simp]: "load k (write_card c L) = (if k = card_id c then Some c else load k L)"
  by (simp add: write_card_def)

lemma load_other_fields [simp]:
  "load k (L\<lparr>replies := rs\<rparr>) = load k L" "load k (L\<lparr>dispatches := ds\<rparr>) = load k L"
  by (simp_all add: load_def)

lemma load_same_files: "card_files L' = card_files L \<Longrightarrow> load k L' = load k L"
  by (simp add: load_def)

lemma keyed_same_files: "card_files L' = card_files L \<Longrightarrow> keyed L' = keyed L"
  by (simp add: keyed_def load_def)

lemma keyed_id: "keyed L \<Longrightarrow> load k L = Some c \<Longrightarrow> card_id c = k"
  by (simp add: keyed_def)

lemma keyed_empty [simp]: "keyed empty_ledger"
  by (simp add: keyed_def empty_ledger_def load_def)

lemma keyed_put:
  "keyed L \<Longrightarrow> card_id c = k \<Longrightarrow> keyed (L\<lparr>card_files := od_put k (Card c) (card_files L)\<rparr>)"
  by (simp add: keyed_def)

lemma keyed_write: "keyed L \<Longrightarrow> keyed (write_card c L)"
  by (simp add: write_card_def keyed_put)

lemma get_all_member:
  "c \<in> set (get_all st L) \<longleftrightarrow> (\<exists>k \<in> od_keys (card_files L). load k L = Some c) \<and> (st = None \<or> st = Some (status c))"
  unfolding get_all_def by (force simp: map_filter_def)

lemma load_in_files: "load k L = Some c \<Longrightarrow> k \<in> od_keys (card_files L)"
  by (auto simp: load_def dest: od_get_Some_key split: option.splits)

lemma get_all_iff:
  assumes "keyed L"
  shows "c \<in> set (get_all st L) \<longleftrightarrow> load (card_id c) L = Some c \<and> (st = None \<or> st = Some (status c))"
proof -
  have "(\<exists>k \<in> od_keys (card_files L). load k L = Some c) \<longleftrightarrow> load (card_id c) L = Some c"
    using assms by (metis keyed_id load_in_files)
  then show ?thesis by (simp add: get_all_member)
qed

text \<open>A step keeps the store well keyed and every terminal card as it is.\<close>

definition keeps_terminal :: "ledger \<Rightarrow> ledger \<Rightarrow> bool" where
  "keeps_terminal L L' \<longleftrightarrow> keyed L' \<and> (\<forall>k c. load k L = Some c \<longrightarrow> terminal c \<longrightarrow> load k L' = Some c)"

lemma keeps_refl: "keyed L \<Longrightarrow> keeps_terminal L L"
  by (simp add: keeps_terminal_def)

lemma keeps_trans: "keeps_terminal L L' \<Longrightarrow> keeps_terminal L' L'' \<Longrightarrow> keeps_terminal L L''"
  by (simp add: keeps_terminal_def)

lemma keeps_keyed: "keeps_terminal L L' \<Longrightarrow> keyed L'"
  by (simp add: keeps_terminal_def)

lemma keeps_same_files: "keyed L \<Longrightarrow> card_files L' = card_files L \<Longrightarrow> keeps_terminal L L'"
  by (simp add: keeps_terminal_def keyed_def load_def)

lemma keeps_put:
  assumes "keyed L" and "card_id c = k" and "\<And>c0. load k L = Some c0 \<Longrightarrow> \<not> terminal c0"
  shows "keeps_terminal L (L\<lparr>card_files := od_put k (Card c) (card_files L)\<rparr>)"
  using assms by (auto simp: keeps_terminal_def keyed_put)

lemma keeps_write:
  assumes "keyed L" and "\<And>c0. load (card_id c) L = Some c0 \<Longrightarrow> \<not> terminal c0"
  shows "keeps_terminal L (write_card c L)"
  unfolding write_card_def by (rule keeps_put) (use assms in auto)

lemma load_mutable_iff: "load_mutable tid L = Some c \<longleftrightarrow> load tid L = Some c \<and> \<not> terminal c"
  by (auto simp: load_mutable_def terminal_def split: option.splits)

lemma add_checkpoint_sel [simp]:
  "card_id (add_checkpoint now note data c) = card_id c" "status (add_checkpoint now note data c) = status c"
  "assignee (add_checkpoint now note data c) = assignee c" "updated_at (add_checkpoint now note data c) = now"
  "project (add_checkpoint now note data c) = project c" "priority (add_checkpoint now note data c) = priority c"
  by (simp_all add: add_checkpoint_def)

lemma terminal_card_sel [simp]:
  "card_id (terminal_card now st why actor mid c) = card_id c"
  "status (terminal_card now st why actor mid c) = st"
  by (simp_all add: terminal_card_def)

lemma claim_card_Some:
  "claim_card now w p c = Some c' \<Longrightarrow>
     status c = ''open'' \<and> assignee c = [] \<and> card_id c' = card_id c \<and> status c' = ''active'' \<and> assignee c' = w"
  by (auto simp: claim_card_def split: if_splits)

lemma requeue_card_Some:
  "requeue_card now why c = Some c' \<Longrightarrow>
     status c = ''active'' \<and> card_id c' = card_id c \<and> status c' = ''open'' \<and> assignee c' = []"
  by (auto simp: requeue_card_def split: if_splits)

lemma mutate_locked_keeps:
  assumes "keyed L" and "\<And>c c'. f c = Some c' \<Longrightarrow> \<not> terminal c \<and> card_id c' = card_id c"
  shows "keeps_terminal L (snd (mutate_locked now tid f b L))"
proof (cases "load tid L")
  case (Some c)
  with assms show ?thesis
    by (auto simp: mutate_locked_def Let_def keeps_refl keyed_id split: option.splits intro!: keeps_put)
qed (simp add: mutate_locked_def keeps_refl assms)

lemma update_mutable_keeps:
  assumes "keyed L" and "\<And>c c'. f c = Some c' \<Longrightarrow> card_id c' = card_id c"
  shows "keeps_terminal L (snd (update_mutable now tid f L))"
proof (cases "load_mutable tid L")
  case (Some c)
  then have "load tid L = Some c" and "\<not> terminal c" by (simp_all add: load_mutable_iff)
  with Some assms show ?thesis
    by (auto simp: update_mutable_def save_def keeps_refl keyed_id split: option.splits intro!: keeps_write)
qed (simp add: update_mutable_def keeps_refl assms)

lemma claim_keeps: "keyed L \<Longrightarrow> keeps_terminal L (snd (claim now tid w p L))"
  by (auto simp: claim_def keeps_refl terminal_def TERMINAL_TASK_STATUSES_def dest!: claim_card_Some
      intro!: mutate_locked_keeps)

lemma requeue_keeps: "keyed L \<Longrightarrow> keeps_terminal L (snd (requeue_stalled now tid why L))"
  by (auto simp: requeue_stalled_def terminal_def TERMINAL_TASK_STATUSES_def dest!: requeue_card_Some
      intro!: mutate_locked_keeps)

lemma claim_first_keeps: "keyed L \<Longrightarrow> keeps_terminal L (snd (claim_first now w p cs L))"
proof (induction cs arbitrary: L)
  case (Cons c cs)
  obtain r L' where cl: "claim now (card_id c) w p L = (r, L')" by (cases "claim now (card_id c) w p L")
  with claim_keeps [OF Cons.prems, of now "card_id c" w p] have "keeps_terminal L L'" by simp
  with cl Cons.IH [of L'] show ?case
    by (cases r) (auto intro: keeps_trans dest: keeps_keyed)
qed (simp add: keeps_refl)

lemma checkpoint_keeps: "keyed L \<Longrightarrow> keeps_terminal L (snd (checkpoint now tid note data L))"
  by (cases "load_mutable tid L")
    (auto simp: checkpoint_def checkpoint_save_def save_def keeps_refl keyed_id
      dest!: iffD1 [OF load_mutable_iff] intro!: keeps_write split: option.splits)

lemma snooze_keeps: "keyed L \<Longrightarrow> keeps_terminal L (snd (snooze now tid m L))"
  by (cases "load_mutable tid L")
    (auto simp: snooze_def save_preserve_def Let_def keeps_refl keyed_id
      dest!: iffD1 [OF load_mutable_iff] intro!: keeps_write split: option.splits)

section \<open>Terminal cards are final\<close>

lemma resolve_replies_files [simp]: "card_files (snd (resolve_replies_for_task now tid st why mid L)) = card_files L"
  by (simp add: resolve_replies_for_task_def)

lemma load_resolve_replies [simp]: "load k (snd (resolve_replies_for_task now tid st why mid L)) = load k L"
  by (rule load_same_files) simp

text \<open>Whether \<open>terminalize\<close> accepts its arguments, and whether it leaves the card alone.\<close>

definition terminal_request :: "string \<Rightarrow> string \<Rightarrow> bool" where
  "terminal_request st why \<longleftrightarrow> str_lower (str_strip st) \<in> EXPLICIT_TERMINAL_STATUSES \<and> str_strip why \<noteq> []"

lemma terminalize_unchanged:
  assumes "terminal_request st why" and "load tid L = Some c" and "terminal c \<or> (p \<and> status c = ''active'')"
  shows "terminalize now tid st why actor mid p L = (Inr (Some c), L)"
  using assms unfolding terminalize_def terminal_request_def Let_def terminal_def by auto

lemma terminalize_refused:
  "\<not> terminal_request st why \<Longrightarrow> \<exists>e. terminalize now tid st why actor mid p L = (Inl e, L)"
  unfolding terminalize_def terminal_request_def Let_def by auto

lemma terminalize_no_card:
  "terminal_request st why \<Longrightarrow> load tid L = None \<Longrightarrow> terminalize now tid st why actor mid p L = (Inr None, L)"
  unfolding terminalize_def terminal_request_def Let_def by auto

lemma terminalize_applied:
  assumes "keyed L" and "terminal_request st why" and "load tid L = Some c" and "\<not> terminal c"
    and "\<not> (p \<and> status c = ''active'')"
  shows "terminalize now tid st why actor mid p L =
    (let c' = (terminal_card now (str_lower (str_strip st)) (str_strip why) actor mid c)\<lparr>updated_at := now\<rparr>
     in (Inr (Some c'), snd (resolve_replies_for_task now tid (str_lower (str_strip st)) (str_strip why) mid
           (write_card c' L))))"
proof -
  have "card_id c = tid" using assms keyed_id by blast
  with assms show ?thesis
    unfolding terminalize_def terminal_request_def Let_def terminal_def write_card_def by auto
qed

lemma terminalize_cases:
  assumes "keyed L"
  obtains (kept) "snd (terminalize now tid st why actor mid p L) = L"
  | (applied) c where "load tid L = Some c" "\<not> terminal c" "terminal_request st why"
      "\<not> (p \<and> status c = ''active'')"
proof -
  consider "\<not> terminal_request st why" | "load tid L = None" "terminal_request st why"
    | c where "terminal_request st why" "load tid L = Some c" "terminal c \<or> (p \<and> status c = ''active'')"
    | c where "terminal_request st why" "load tid L = Some c" "\<not> terminal c" "\<not> (p \<and> status c = ''active'')"
    by (cases "load tid L") auto
  then show thesis
  proof cases
    case 1
    then show thesis using kept terminalize_refused by (metis snd_conv)
  next
    case 2
    then show thesis using kept terminalize_no_card by (metis snd_conv)
  next
    case 3
    then show thesis using kept terminalize_unchanged by (metis snd_conv)
  next
    case 4
    then show thesis using applied by blast
  qed
qed

lemma terminalize_keeps:
  assumes "keyed L"
  shows "keeps_terminal L (snd (terminalize now tid st why actor mid p L))"
  using assms
proof (cases rule: terminalize_cases [of L now tid st why actor mid p])
  case kept
  with assms show ?thesis by (simp add: keeps_refl)
next
  case (applied c)
  let ?st = "str_lower (str_strip st)" and ?why = "str_strip why"
  let ?W = "write_card ((terminal_card now ?st ?why actor mid c)\<lparr>updated_at := now\<rparr>) L"
  have "keeps_terminal L ?W" using assms applied by (intro keeps_write) (auto simp: keyed_id)
  moreover have "keeps_terminal ?W (snd (resolve_replies_for_task now tid ?st ?why mid ?W))"
    using assms by (intro keeps_same_files keyed_write) simp_all
  ultimately show ?thesis
    using assms applied by (simp add: terminalize_applied Let_def) (blast intro: keeps_trans)
qed

lemma cancel_snd:
  "snd (cancel now tid L) = snd (terminalize now tid ''cancelled'' ''cancelled via task ledger'' [] [] False L)"
  by (simp add: cancel_def split: prod.splits sum.splits option.splits)

lemma active_loop_keeps: "keyed L \<Longrightarrow> keeps_terminal L (snd (active_loop now who ks L))"
proof (induction ks arbitrary: L)
  case (Cons k ks)
  show ?case
  proof (cases "load k L")
    case (Some c)
    let ?L = "snd (terminalize now (card_id c) ''obsolete'' ''QA review expired without reviewer action'' ''task-ledger'' [] False L)"
    have "keeps_terminal L ?L" by (rule terminalize_keeps) (rule Cons.prems)
    then have "keeps_terminal L (snd (active_loop now who ks ?L))"
      using Cons.IH [of ?L] by (blast intro: keeps_trans dest: keeps_keyed)
    moreover have "keeps_terminal L (snd (active_loop now who ks L))" by (rule Cons.IH) (rule Cons.prems)
    ultimately show ?thesis using Some by (simp add: case_prod_unfold)
  qed (use Cons in simp)
qed (simp add: keeps_refl)

lemma cron_loop_keeps: "keyed L \<Longrightarrow> keeps_terminal L (snd (cron_loop now cs L))"
proof (induction cs arbitrary: L)
  case (Cons c cs)
  let ?L = "snd (terminalize now (card_id c) ''obsolete'' (cron_reason c) ''task-cron'' [] False L)"
  have "keeps_terminal L ?L" by (rule terminalize_keeps) (rule Cons.prems)
  then have "keeps_terminal L (snd (cron_loop now cs ?L))"
    using Cons.IH [of ?L] by (blast intro: keeps_trans dest: keeps_keyed)
  moreover have "keeps_terminal L (snd (cron_loop now cs L))" by (rule Cons.IH) (rule Cons.prems)
  ultimately show ?case by (simp add: case_prod_unfold)
qed (simp add: keeps_refl)

lemma create_keeps:
  "keyed L \<Longrightarrow> load (or_text (a_card_id a) fresh) L = None \<Longrightarrow> keeps_terminal L (snd (create fresh now cwd a L))"
  by (auto simp: create_def Let_def save_def new_card_def keeps_refl intro!: keeps_write)

lemma enqueue_keeps:
  "keyed L \<Longrightarrow> load fresh L = None \<Longrightarrow> keeps_terminal L (snd (enqueue fresh now asr dir deliv report prio tmo proj L))"
  by (auto simp: enqueue_def Let_def save_def new_card_def keeps_refl intro!: keeps_write)

lemma with_dispatches_files [simp]: "card_files (snd (with_dispatches f L)) = card_files L"
  by (simp add: with_dispatches_def split: option.splits prod.splits)

lemma control_files_only [simp]:
  "card_files (expect_reply now tid who rb mid dl L) = card_files L"
  "card_files (snd (pending_replies now L)) = card_files L"
  "card_files (snd (resolve_reply now who ev mid tid L)) = card_files L"
  "card_files (snd (resolve_pending_reply now mid why res st rb L)) = card_files L"
  "card_files (snd (record_dispatch now a L)) = card_files L"
  "card_files (snd (update_dispatch now did st err L)) = card_files L"
  "card_files (snd (record_dispatch_report now q L)) = card_files L"
  "card_files (snd (mark_dispatch_verified now did vb note L)) = card_files L"
  by (simp_all add: expect_reply_def pending_replies_def resolve_reply_def resolve_pending_reply_def Let_def
      record_dispatch_def update_dispatch_def record_dispatch_report_def mark_dispatch_verified_def
      split: prod.splits)

text \<open>
  One call of a ledger operation. A new card gets an identifier that no card has; the removal of
  old cards (\<open>cleanup_stale\<close>) is left out and has its own theorem.
\<close>

inductive ledger_step :: "ledger \<Rightarrow> ledger \<Rightarrow> bool" where
  create: "load (or_text (a_card_id a) fresh) L = None \<Longrightarrow> ledger_step L (snd (create fresh now cwd a L))"
| enqueue: "load fresh L = None \<Longrightarrow> ledger_step L (snd (enqueue fresh now asr dir deliv report prio tmo proj L))"
| claim: "ledger_step L (snd (claim now tid w proj L))"
| claim_next: "ledger_step L (snd (claim_next_open now w proj L))"
| requeue: "ledger_step L (snd (requeue_stalled now tid why L))"
| checkpoint: "ledger_step L (snd (checkpoint now tid note data L))"
| snooze: "ledger_step L (snd (snooze now tid m L))"
| complete: "ledger_step L (snd (complete now tid res L))"
| request_qa: "ledger_step L (snd (request_qa now tid res L))"
| qa_approve: "ledger_step L (snd (qa_approve now tid rv notes L))"
| qa_reject: "ledger_step L (snd (qa_reject now tid rv notes L))"
| terminalize: "ledger_step L (snd (terminalize now tid st why actor mid p L))"
| cancel: "ledger_step L (snd (cancel now tid L))"
| active_for: "ledger_step L (snd (get_active_for now who L))"
| cron_due: "ledger_step L (snd (get_cron_due now L))"
| expect: "ledger_step L (expect_reply now tid who rb mid dl L)"
| pending: "ledger_step L (snd (pending_replies now L))"
| resolve: "ledger_step L (snd (resolve_reply now who ev mid tid L))"
| resolve_pending: "ledger_step L (snd (resolve_pending_reply now mid why resn st rb L))"
| dispatch: "ledger_step L (snd (record_dispatch now d L))"
| delivery: "ledger_step L (snd (update_dispatch now did st err L))"
| report: "ledger_step L (snd (record_dispatch_report now q L))"
| verify: "ledger_step L (snd (mark_dispatch_verified now did vb note L))"

lemma ledger_step_keeps: "ledger_step L L' \<Longrightarrow> keyed L \<Longrightarrow> keeps_terminal L L'"
proof (induction rule: ledger_step.induct)
  case (active_for L now who)
  then show ?case using active_loop_keeps by (simp add: get_active_for_def split: prod.splits) (metis snd_conv)
next
  case (cron_due L now)
  then show ?case by (simp add: get_cron_due_def cron_loop_keeps)
qed (auto simp: claim_next_open_def complete_def request_qa_def qa_approve_def qa_reject_def cancel_snd
    intro: create_keeps enqueue_keeps claim_keeps claim_first_keeps requeue_keeps checkpoint_keeps snooze_keeps
      terminalize_keeps keeps_same_files intro!: update_mutable_keeps split: if_splits)

interpretation cards: settled_store load terminal keyed ledger_step
  by unfold_locales (use ledger_step_keeps in \<open>auto simp: keeps_terminal_def\<close>)

section \<open>Claims\<close>

definition claimable :: "string \<Rightarrow> task_card \<Rightarrow> bool" where
  "claimable proj c \<longleftrightarrow> status c = ''open'' \<and> assignee c = [] \<and> (proj = [] \<or> project c = [] \<or> project c = proj)"

definition claimed :: "real \<Rightarrow> string \<Rightarrow> task_card \<Rightarrow> task_card" where
  "claimed now w c = (add_checkpoint now (''claimed by '' @ w) []
     (c\<lparr>assignee := w, status := ''active'', cron_active := True, last_activity_at := now\<rparr>))\<lparr>updated_at := now\<rparr>"

lemma claimed_sel [simp]:
  "card_id (claimed now w c) = card_id c" "status (claimed now w c) = ''active''"
  "assignee (claimed now w c) = w" "priority (claimed now w c) = priority c"
  by (simp_all add: claimed_def)

lemma claim_spec:
  "claim now tid w proj L =
     (case load tid L of
        None \<Rightarrow> (None, L)
      | Some c \<Rightarrow> if \<not> blank w \<and> claimable proj c
                  then (Some (claimed now w c), L\<lparr>card_files := od_put tid (Card (claimed now w c)) (card_files L)\<rparr>)
                  else (None, L))"
  unfolding claim_def mutate_locked_def claim_card_def claimable_def claimed_def Let_def
  by (auto split: option.splits)

lemma get_open_member:
  "keyed L \<Longrightarrow> c \<in> set (get_open proj L) \<longleftrightarrow> load (card_id c) L = Some c \<and> claimable proj c"
  by (auto simp: get_open_def get_all_iff claimable_def)

text \<open>The order of the queue.\<close>

definition ahead :: "task_card \<Rightarrow> task_card \<Rightarrow> bool" where
  "ahead c d \<longleftrightarrow> priority d < priority c \<or> (priority d = priority c \<and> created_at c \<le> created_at d)"

lemma sorted_by_two_keys:
  fixes f :: "'a \<Rightarrow> 'b :: linorder" and g :: "'a \<Rightarrow> 'c :: linorder"
  shows "sorted_wrt (\<lambda>x y. f x < f y \<or> (f x = f y \<and> g x \<le> g y)) (sort_key f (sort_key g xs))"
proof -
  let ?ys = "sort_key f (sort_key g xs)"
  have f: "sorted (map f ?ys)" by simp
  have g: "sorted (map g (filter (\<lambda>y. f y = k) ?ys))" for k
    by (simp add: sort_key_stable sorted_filter)
  show ?thesis
    unfolding sorted_wrt_iff_nth_less
  proof (intro allI impI)
    fix i j assume ij: "i < j" "j < length ?ys"
    then have le: "f (?ys ! i) \<le> f (?ys ! j)" using f by (auto simp: sorted_iff_nth_mono)
    have "g (?ys ! i) \<le> g (?ys ! j)" if "f (?ys ! i) = f (?ys ! j)"
    proof -
      let ?P = "\<lambda>y. f y = f (?ys ! j)"
      have "?ys = take (Suc i) ?ys @ drop (Suc i) ?ys" by simp
      then have "filter ?P ?ys = filter ?P (take (Suc i) ?ys) @ filter ?P (drop (Suc i) ?ys)"
        by (metis filter_append)
      moreover have "?ys ! i \<in> set (filter ?P (take (Suc i) ?ys))"
        using ij that by (auto simp: in_set_conv_nth intro!: exI [of _ i])
      moreover have "?ys ! j \<in> set (filter ?P (drop (Suc i) ?ys))"
        using ij by (auto simp: in_set_conv_nth intro!: exI [of _ "j - Suc i"])
      ultimately show ?thesis using g [of "f (?ys ! j)"] by (auto simp: sorted_append)
    qed
    with le show "f (?ys ! i) < f (?ys ! j) \<or> f (?ys ! i) = f (?ys ! j) \<and> g (?ys ! i) \<le> g (?ys ! j)"
      by fastforce
  qed
qed

lemma get_open_sorted: "sorted_wrt ahead (get_open proj L)"
  unfolding get_open_def
  by (rule sorted_wrt_mono_rel [OF _ sorted_by_two_keys]) (auto simp: ahead_def)

lemma get_open_head:
  assumes "keyed L" and "get_open proj L = c # cs" and "load (card_id d) L = Some d" and "claimable proj d"
  shows "ahead c d"
proof -
  have "d \<in> set (c # cs)" using assms get_open_member by metis
  moreover have "sorted_wrt ahead (c # cs)" using get_open_sorted [of proj L] assms by simp
  ultimately show ?thesis by (auto simp: ahead_def)
qed

lemma claim_next_open_spec:
  assumes "keyed L" and "\<not> blank w"
  shows "claim_next_open now w proj L =
    (case get_open proj L of
       [] \<Rightarrow> (None, L)
     | c # cs \<Rightarrow> (Some (claimed now w c), L\<lparr>card_files := od_put (card_id c) (Card (claimed now w c)) (card_files L)\<rparr>))"
proof (cases "get_open proj L")
  case (Cons c cs)
  then have "load (card_id c) L = Some c" and "claimable proj c"
    using get_open_member [OF assms(1)] by (metis list.set_intros(1))+
  with Cons assms(2) show ?thesis by (simp add: claim_next_open_def claim_spec)
qed (simp add: claim_next_open_def)

text \<open>A card to show the theorems on.\<close>

definition demo_card :: "string \<Rightarrow> int \<Rightarrow> task_card" where
  "demo_card i p = (new_card i 10 [])\<lparr>status := ''open'', priority := p\<rparr>"

definition demo_ledger :: ledger where
  "demo_ledger = \<lparr>card_files = [(''a'', Card (demo_card ''a'' 3)), (''b'', Card (demo_card ''b'' 7))],
     replies = [], dispatches = Some []\<rparr>"

lemma demo_card_sel [simp]:
  "card_id (demo_card i p) = i" "status (demo_card i p) = ''open''" "priority (demo_card i p) = p"
  "assignee (demo_card i p) = []" "project (demo_card i p) = []" "created_at (demo_card i p) = 10"
  by (simp_all add: demo_card_def new_card_def)

lemma demo_ledger_load [simp]:
  "load k demo_ledger = (if k = ''a'' then Some (demo_card ''a'' 3) else if k = ''b'' then Some (demo_card ''b'' 7) else None)"
  by (simp add: load_def demo_ledger_def)

lemma demo_ledger_keyed [simp]: "keyed demo_ledger"
proof -
  have "od_wf (card_files demo_ledger)" by (simp add: demo_ledger_def od_wf_def)
  then show ?thesis by (auto simp: keyed_def)
qed

lemma not_blank_w [simp]: "\<not> blank ''w''" "\<not> blank ''v''"
  by (simp_all add: blank_def str_strip_empty_iff is_space_def)


text \<open>The first claim of an open card wins: it takes the card from the open queue, sets the
  worker and the status, and from then on a claim by anyone, at any time and for any project,
  returns nothing and changes nothing.\<close>

theorem first_claim_wins:
  assumes "claim now tid w proj L = (Some c, L')"
  shows "load tid L' = Some c \<and> assignee c = w \<and> status c = ''active'' \<and> \<not> blank w \<and>
    (\<exists>c0. load tid L = Some c0 \<and> status c0 = ''open'' \<and> assignee c0 = []) \<and>
    (\<forall>k. k \<noteq> tid \<longrightarrow> load k L' = load k L) \<and>
    (\<forall>now2 w2 proj2. claim now2 tid w2 proj2 L' = (None, L'))"
proof -
  obtain c0 where c0: "load tid L = Some c0" "\<not> blank w" "claimable proj c0" and c: "c = claimed now w c0"
      and L': "L' = L\<lparr>card_files := od_put tid (Card c) (card_files L)\<rparr>"
    using assms by (auto simp: claim_spec split: option.splits if_splits)
  have "claim now2 tid w2 proj2 L' = (None, L')" for now2 w2 proj2
    by (simp add: claim_spec L' claimable_def c)
  with c0 show ?thesis by (simp add: L' c claimable_def)
qed

text \<open>C28: \<open>claim_next_open\<close> always hands out the best open card: if any card is open, unassigned
  and of the worker's project (or of none), the worker gets one such that every other is of lower
  priority or of the same priority and not older; otherwise nothing is returned and nothing changes.\<close>

theorem claim_next_takes_best:
  assumes "keyed L" and "\<not> blank w" and "claim_next_open now w proj L = (r, L')"
  shows "case r of
      None \<Rightarrow> L' = L \<and> (\<forall>k c. load k L = Some c \<longrightarrow> \<not> claimable proj c)
    | Some c \<Rightarrow> load (card_id c) L' = Some c \<and> assignee c = w \<and> status c = ''active'' \<and>
        (\<exists>c0. load (card_id c) L = Some c0 \<and> claimable proj c0 \<and>
          (\<forall>k d. load k L = Some d \<longrightarrow> claimable proj d \<longrightarrow>
             priority d < priority c0 \<or> (priority d = priority c0 \<and> created_at c0 \<le> created_at d)))"
proof (cases "get_open proj L")
  case Nil
  have "\<not> claimable proj c" if "load k L = Some c" for k c
  proof -
    have "load (card_id c) L = Some c" using that assms(1) keyed_id by blast
    with Nil get_open_member [OF assms(1), of c proj] show ?thesis by simp
  qed
  with Nil assms show ?thesis by (auto simp: claim_next_open_spec)
next
  case (Cons c cs)
  have c: "load (card_id c) L = Some c" "claimable proj c"
    using Cons get_open_member [OF assms(1)] by (metis list.set_intros(1))+
  have best: "ahead c d" if "load k L = Some d" "claimable proj d" for k d
    using get_open_head [OF assms(1) Cons] that assms(1) keyed_id by metis
  from assms Cons have "r = Some (claimed now w c)"
    and "L' = L\<lparr>card_files := od_put (card_id c) (Card (claimed now w c)) (card_files L)\<rparr>"
    by (auto simp: claim_next_open_spec)
  with c best show ?thesis by (auto simp: ahead_def)
qed

definition demo_done :: task_card where
  "demo_done = (demo_card ''c'' 1)\<lparr>status := ''cancelled''\<rparr>"


theorem first_claim_wins_witness:
  "claim 40 ''a'' ''v'' [] (snd (claim 20 ''a'' ''w'' [] demo_ledger)) = (None, snd (claim 20 ''a'' ''w'' [] demo_ledger))"
proof -
  have "claim 20 ''a'' ''w'' [] demo_ledger =
      (Some (claimed 20 ''w'' (demo_card ''a'' 3)), snd (claim 20 ''a'' ''w'' [] demo_ledger))"
    by (simp add: claim_spec claimable_def)
  from first_claim_wins [OF this] show ?thesis by blast
qed

theorem claim_next_takes_best_witness:
  "\<exists>c. fst (claim_next_open 20 ''w'' [] demo_ledger) = Some c \<and> assignee c = ''w'' \<and> priority c = 7"
proof -
  have "get_open [] demo_ledger = [demo_card ''b'' 7, demo_card ''a'' 3]"
    by (simp add: get_open_def get_all_def demo_ledger_def load_def map_filter_def)
  then obtain L' where run: "claim_next_open 20 ''w'' [] demo_ledger = (Some (claimed 20 ''w'' (demo_card ''b'' 7)), L')"
    by (simp add: claim_next_open_spec)
  from claim_next_takes_best [OF demo_ledger_keyed not_blank_w(1) run] show ?thesis by (simp add: run)
qed

section \<open>Termination, reminders and clean-up\<close>

lemma resolve_for_task_sel [simp]:
  "r_task_id (resolve_for_task now tid st why mid r) = r_task_id r"
  "r_status (resolve_for_task now tid st why mid r) =
     (if r_task_id r = tid \<and> r_status r = ''pending'' then ''resolved'' else r_status r)"
  by (simp_all add: resolve_for_task_def)

lemma pending_after_resolve:
  assumes "r \<in> set (replies (snd (resolve_replies_for_task now tid st why mid L)))" and "r_task_id r = tid"
  shows "r_status r \<noteq> ''pending''"
proof -
  obtain x where "r = resolve_for_task now tid st why mid x"
    using assms by (auto simp: resolve_replies_for_task_def)
  with assms show ?thesis by simp
qed

text \<open>Terminating a live task. With a status and a reason that are accepted, a card that is not
  terminal (and not an active card that the caller asked to preserve) gets the normalised status,
  the reason and the time, its reminders stop, none of its expected replies stays pending, the
  replies of other tasks and the other cards are untouched; repeating the request, or any other
  accepted one, returns the same card and changes nothing.\<close>

theorem terminalize_settles:
  assumes "keyed L" and "load tid L = Some c" and "status c \<notin> TERMINAL_TASK_STATUSES"
    and "\<not> (preserve \<and> status c = ''active'')"
    and "str_lower (str_strip st) \<in> EXPLICIT_TERMINAL_STATUSES" and "str_strip why \<noteq> []"
    and "terminalize now tid st why actor mid preserve L = (r, L')"
  shows "\<exists>c'. r = Inr (Some c') \<and> load tid L' = Some c' \<and> status c' = str_lower (str_strip st) \<and>
    terminal_reason c' = Some (str_strip why) \<and> terminalized_at c' = Some now \<and> \<not> cron_active c' \<and>
    (\<forall>k. k \<noteq> tid \<longrightarrow> load k L' = load k L) \<and>
    (\<forall>r \<in> set (replies L'). r_task_id r = tid \<longrightarrow> r_status r \<noteq> ''pending'') \<and>
    filter (\<lambda>r. r_task_id r \<noteq> tid) (replies L') = filter (\<lambda>r. r_task_id r \<noteq> tid) (replies L) \<and>
    (\<forall>now2 st2 why2 actor2 mid2 p2.
       str_lower (str_strip st2) \<in> EXPLICIT_TERMINAL_STATUSES \<longrightarrow> str_strip why2 \<noteq> [] \<longrightarrow>
       terminalize now2 tid st2 why2 actor2 mid2 p2 L' = (Inr (Some c'), L'))"
proof -
  let ?st = "str_lower (str_strip st)" and ?why = "str_strip why"
  let ?c = "(terminal_card now ?st ?why actor mid c)\<lparr>updated_at := now\<rparr>"
  let ?R = "resolve_replies_for_task now tid ?st ?why mid (write_card ?c L)"
  have rL: "r = Inr (Some ?c)" "L' = snd ?R"
    using assms terminalize_applied [of L st why tid c preserve now actor mid]
    by (auto simp: terminal_request_def terminal_def Let_def)
  have id: "card_id c = tid" using assms keyed_id by blast
  have ld: "load tid L' = Some ?c" using rL id by simp
  have others: "\<forall>k. k \<noteq> tid \<longrightarrow> load k L' = load k L" using rL id by simp
  have "terminal ?c" using assms(5)
    by (auto simp: terminal_def EXPLICIT_TERMINAL_STATUSES_def TERMINAL_TASK_STATUSES_def)
  then have again: "terminalize now2 tid st2 why2 actor2 mid2 p2 L' = (Inr (Some ?c), L')"
    if "terminal_request st2 why2" for now2 st2 why2 actor2 mid2 p2
    using that ld terminalize_unchanged by blast
  have "filter (\<lambda>r. r_task_id r \<noteq> tid) (map (resolve_for_task now tid ?st ?why mid) rs)
      = filter (\<lambda>r. r_task_id r \<noteq> tid) rs" for rs
    by (induction rs) (auto simp: resolve_for_task_def)
  then have rest: "filter (\<lambda>r. r_task_id r \<noteq> tid) (replies L') = filter (\<lambda>r. r_task_id r \<noteq> tid) (replies L)"
    by (simp add: rL resolve_replies_for_task_def write_card_def)
  have "\<forall>r \<in> set (replies L'). r_task_id r = tid \<longrightarrow> r_status r \<noteq> ''pending''"
    unfolding rL using pending_after_resolve by blast
  moreover have "terminal_reason ?c = Some ?why" "terminalized_at ?c = Some now" "\<not> cron_active ?c"
    by (simp_all add: terminal_card_def add_checkpoint_def)
  ultimately show ?thesis
    using rL ld others rest again by (intro exI [of _ ?c]) (auto simp: terminal_request_def)
qed

lemma cancel_request [simp]:
  "str_lower (str_strip ''cancelled'') = ''cancelled''" "str_strip ''dup'' = ''dup''"
  by code_simp+

theorem terminalize_settles_witness:
  "\<exists>c'. load ''a'' (snd (terminalize 20 ''a'' ''cancelled'' ''dup'' [] [] False demo_ledger)) = Some c' \<and>
     status c' = ''cancelled''"
proof -
  have run: "terminalize 20 ''a'' ''cancelled'' ''dup'' [] [] False demo_ledger =
      (fst (terminalize 20 ''a'' ''cancelled'' ''dup'' [] [] False demo_ledger),
       snd (terminalize 20 ''a'' ''cancelled'' ''dup'' [] [] False demo_ledger))" by simp
  from terminalize_settles [OF demo_ledger_keyed _ _ _ _ _ run, of "demo_card ''a'' 3"] show ?thesis
    by (auto simp: TERMINAL_TASK_STATUSES_def EXPLICIT_TERMINAL_STATUSES_def)
qed

text \<open>A snooze is bounded: the card is silent for at most an hour from now (never into the
  past), only that field changes, so the time since the last progress, and with it the expiry,
  is not reset; a terminal or missing card is left alone.\<close>

theorem snooze_bounded:
  assumes "keyed L" and "snooze now tid minutes L = (r, L')"
  shows "case r of
      None \<Rightarrow> L' = L \<and> (\<forall>c. load tid L = Some c \<longrightarrow> status c \<in> TERMINAL_TASK_STATUSES)
    | Some c' \<Rightarrow> now \<le> snoozed_until c' \<and> snoozed_until c' \<le> now + 3600 \<and>
        (0 \<le> minutes \<and> minutes \<le> 60 \<longrightarrow> snoozed_until c' = now + minutes * 60) \<and>
        (\<exists>c. load tid L = Some c \<and> status c \<notin> TERMINAL_TASK_STATUSES \<and>
           c' = c\<lparr>snoozed_until := snoozed_until c'\<rparr> \<and> updated_at c' = updated_at c) \<and>
        (\<forall>k. load k L' = (if k = tid then Some c' else load k L))"
proof (cases "load_mutable tid L")
  case None
  with assms show ?thesis by (auto simp: snooze_def load_mutable_def split: option.splits if_splits)
next
  case (Some c)
  then have c: "load tid L = Some c" "status c \<notin> TERMINAL_TASK_STATUSES" "card_id c = tid"
    using assms keyed_id by (auto simp: load_mutable_iff terminal_def)
  from Some assms have "r = Some (c\<lparr>snoozed_until := now + max 0 (min (minutes * 60) 3600)\<rparr>)"
    and "L' = write_card (c\<lparr>snoozed_until := now + max 0 (min (minutes * 60) 3600)\<rparr>) L"
    by (auto simp: snooze_def save_preserve_def MAX_SNOOZE_SECONDS_def Let_def)
  with c show ?thesis by auto
qed

theorem snooze_bounded_witness:
  "\<exists>c. fst (snooze 20 ''a'' 90 demo_ledger) = Some c \<and> snoozed_until c \<le> 3620"
proof -
  have run: "snooze 20 ''a'' 90 demo_ledger = (fst (snooze 20 ''a'' 90 demo_ledger), snd (snooze 20 ''a'' 90 demo_ledger))"
    by simp
  have "fst (snooze 20 ''a'' 90 demo_ledger) \<noteq> None"
    by (simp add: snooze_def load_mutable_def TERMINAL_TASK_STATUSES_def Let_def)
  with snooze_bounded [OF demo_ledger_keyed run] show ?thesis by (auto split: option.splits)
qed

text \<open>The cron sweep ends every expired card it meets and lists the others that are due.\<close>

definition cron_due :: "real \<Rightarrow> task_card \<Rightarrow> bool" where
  "cron_due now c \<longleftrightarrow> cron_active c \<and> \<not> snoozed_until c > now \<and> now - updated_at c \<ge> cron_interval c"

lemma cron_loop_due: "fst (cron_loop now cs L) = filter (\<lambda>c. \<not> ttl_expired now c \<and> cron_due now c) cs"
  by (induction cs arbitrary: L) (auto simp: cron_due_def case_prod_unfold)

lemma obsolete_request [simp]: "str_lower (str_strip ''obsolete'') = ''obsolete''"
  by code_simp

lemma cron_reason_request: "terminal_request ''obsolete'' (cron_reason c)"
proof -
  have "CHR ''t'' \<in> set (cron_reason c)" and "\<not> is_space (CHR ''t'')"
    by (simp_all add: cron_reason_def is_space_def)
  then have "str_strip (cron_reason c) \<noteq> []" by (metis str_strip_empty_iff)
  then show ?thesis by (simp add: terminal_request_def EXPLICIT_TERMINAL_STATUSES_def)
qed


lemma cron_loop_loads:
  assumes "keyed L" and "\<forall>c \<in> set cs. load (card_id c) L = Some c \<and> \<not> terminal c" and "distinct (map card_id cs)"
  shows "(\<forall>k. (\<forall>c \<in> set cs. ttl_expired now c \<longrightarrow> card_id c \<noteq> k) \<longrightarrow> load k (snd (cron_loop now cs L)) = load k L) \<and>
    (\<forall>c \<in> set cs. ttl_expired now c \<longrightarrow>
       (\<exists>c'. load (card_id c) (snd (cron_loop now cs L)) = Some c' \<and> status c' = ''obsolete''))"
  using assms
proof (induction cs arbitrary: L)
  case (Cons c cs)
  show ?case
  proof (cases "ttl_expired now c")
    case True
    define M where "M = snd (terminalize now (card_id c) ''obsolete'' (cron_reason c) ''task-cron'' [] False L)"
    obtain c' where L: "\<And>k. load k M = (if k = card_id c then Some c' else load k L)" and c': "status c' = ''obsolete''"
    proof
      let ?c = "(terminal_card now ''obsolete'' (str_strip (cron_reason c)) ''task-cron'' [] c)\<lparr>updated_at := now\<rparr>"
      show "load k M = (if k = card_id c then Some ?c else load k L)" for k
        using Cons.prems by (simp add: M_def terminalize_applied cron_reason_request Let_def)
    qed simp
    have key: "keyed M" unfolding M_def by (rule keeps_keyed [OF terminalize_keeps]) (rule Cons.prems)
    have new: "card_id d \<noteq> card_id c" if "d \<in> set cs" for d
      using Cons.prems(3) that by (metis distinct.simps(2) imageI list.set_map list.simps(9))
    have "\<forall>d \<in> set cs. load (card_id d) M = Some d \<and> \<not> terminal d"
      using Cons.prems(2) new by (simp add: L)
    moreover have "distinct (map card_id cs)" using Cons.prems(3) by simp
    ultimately have IH: "(\<forall>k. (\<forall>d \<in> set cs. ttl_expired now d \<longrightarrow> card_id d \<noteq> k) \<longrightarrow> load k (snd (cron_loop now cs M)) = load k M)"
        "\<forall>d \<in> set cs. ttl_expired now d \<longrightarrow> (\<exists>d'. load (card_id d) (snd (cron_loop now cs M)) = Some d' \<and> status d' = ''obsolete'')"
      using Cons.IH [OF key] by blast+
    have run: "snd (cron_loop now (c # cs) L) = snd (cron_loop now cs M)" using True by (simp add: M_def)
    have "load (card_id c) (snd (cron_loop now cs M)) = Some c'"
      using IH(1) new L by simp
    then show ?thesis unfolding run using IH c' True L by simp
  next
    case False
    with Cons.IH [OF Cons.prems(1)] Cons.prems show ?thesis by (auto simp: case_prod_unfold)
  qed
qed simp

lemma get_all_ids_distinct:
  assumes "keyed L"
  shows "distinct (map card_id (get_all st L))"
proof -
  let ?ks = "map fst (card_files L)"
  have all: "List.map_filter (\<lambda>(k, f). load k L) (card_files L) = List.map_filter (\<lambda>k. load k L) ?ks"
    by (simp add: map_filter_def comp_def case_prod_unfold filter_map)
  have "map card_id (List.map_filter (\<lambda>k. load k L) ks) = filter (\<lambda>k. load k L \<noteq> None) ks" for ks
    using keyed_id [OF assms] by (induction ks) (auto simp: map_filter_simps split: option.splits)
  moreover have "distinct ?ks" using assms by (simp add: keyed_def od_wf_def)
  ultimately have "distinct (map card_id (List.map_filter (\<lambda>k. load k L) ?ks))" by simp
  then show ?thesis unfolding get_all_def all by (rule distinct_map_filter)
qed

text \<open>The reminder sweep. It reports exactly the active cards that are not expired, have their
  reminder on, are not snoozed and had no progress for their interval; every active card without
  progress for longer than its time to live is made obsolete, whether or not it is snoozed or its
  reminder is off; every other card is left as it was.\<close>

theorem cron_sweep:
  assumes "keyed L" and "get_cron_due now L = (due, L')"
  shows "(\<forall>c. c \<in> set due \<longleftrightarrow> load (card_id c) L = Some c \<and> status c = ''active'' \<and> \<not> ttl_expired now c \<and>
            cron_active c \<and> snoozed_until c \<le> now \<and> cron_interval c \<le> now - updated_at c) \<and>
    (\<forall>k c. load k L = Some c \<longrightarrow>
       (if status c = ''active'' \<and> cron_ttl_seconds c > 0 \<and> now - updated_at c > cron_ttl_seconds c
        then \<exists>c'. load k L' = Some c' \<and> status c' = ''obsolete''
        else load k L' = Some c))"
proof -
  let ?cs = "get_all (Some ''active'') L"
  have member: "c \<in> set ?cs \<longleftrightarrow> load (card_id c) L = Some c \<and> status c = ''active''" for c
    using get_all_iff [OF assms(1)] by auto
  have due: "due = filter (\<lambda>c. \<not> ttl_expired now c \<and> cron_due now c) ?cs"
    using assms(2) cron_loop_due unfolding get_cron_due_def by (metis fst_conv)
  have L': "L' = snd (cron_loop now ?cs L)" using assms(2) unfolding get_cron_due_def by (metis snd_conv)
  have "\<forall>c \<in> set ?cs. load (card_id c) L = Some c \<and> \<not> terminal c"
    by (auto simp: member terminal_def TERMINAL_TASK_STATUSES_def)
  note loop = cron_loop_loads [OF assms(1) this get_all_ids_distinct [OF assms(1)], of now, folded L']
  have "if status c = ''active'' \<and> ttl_expired now c
        then \<exists>c'. load k L' = Some c' \<and> status c' = ''obsolete'' else load k L' = Some c"
    if "load k L = Some c" for k c
  proof -
    have k: "card_id c = k" using that assms(1) keyed_id by blast
    show ?thesis
    proof (cases "status c = ''active'' \<and> ttl_expired now c")
      case True
      with that k have "c \<in> set ?cs" by (simp add: member)
      with True loop k show ?thesis by auto
    next
      case False
      have "card_id d \<noteq> k" if "d \<in> set ?cs" "ttl_expired now d" for d
        using that False \<open>load k L = Some c\<close> by (auto simp: member)
      then have "load k L' = load k L" using loop by blast
      with that False show ?thesis by auto
    qed
  qed
  then have "\<forall>k c. load k L = Some c \<longrightarrow>
       (if status c = ''active'' \<and> cron_ttl_seconds c > 0 \<and> now - updated_at c > cron_ttl_seconds c
        then \<exists>c'. load k L' = Some c' \<and> status c' = ''obsolete'' else load k L' = Some c)"
    unfolding ttl_expired_def by blast
  moreover have "\<forall>c. c \<in> set due \<longleftrightarrow> load (card_id c) L = Some c \<and> status c = ''active'' \<and> \<not> ttl_expired now c \<and>
            cron_active c \<and> snoozed_until c \<le> now \<and> cron_interval c \<le> now - updated_at c"
    by (simp add: due member cron_due_def not_less conj_ac)
  ultimately show ?thesis by blast
qed

definition demo_active :: task_card where
  "demo_active = (new_card ''c'' 10 [])\<lparr>snoozed_until := 9000\<rparr>"

lemma demo_active_sel [simp]:
  "card_id demo_active = ''c''" "status demo_active = ''active''" "updated_at demo_active = 10"
  "cron_ttl_seconds demo_active = 7200" "snoozed_until demo_active = 9000"
  by (simp_all add: demo_active_def new_card_def)

theorem cron_sweep_witness:
  "\<exists>c'. load ''c'' (snd (get_cron_due 8000 (write_card demo_active demo_ledger))) = Some c' \<and> status c' = ''obsolete''"
proof -
  let ?L = "write_card demo_active demo_ledger"
  have "keyed ?L" by (simp add: keyed_write)
  moreover obtain due L' where run: "get_cron_due 8000 ?L = (due, L')" by (cases "get_cron_due 8000 ?L")
  ultimately have "\<forall>k c. load k ?L = Some c \<longrightarrow>
       (if status c = ''active'' \<and> cron_ttl_seconds c > 0 \<and> 8000 - updated_at c > cron_ttl_seconds c
        then \<exists>c'. load k L' = Some c' \<and> status c' = ''obsolete'' else load k L' = Some c)"
    using cron_sweep by blast
  from this [rule_format, of "''c''" demo_active] run show ?thesis by simp
qed

text \<open>The clean-up removes exactly the finished cards (and those waiting for QA) that were not
  touched for the given number of hours, counts them, and leaves every other card as it was.\<close>

theorem cleanup_removes_stale_only:
  assumes "keyed L" and "cleanup_stale now hours L = (n, L')"
  shows "keyed L' \<and>
    (\<forall>k. load k L' = (case load k L of
        None \<Rightarrow> None
      | Some c \<Rightarrow> if status c \<in> TERMINAL_TASK_STATUSES \<union> {''qa_review''} \<and> updated_at c < now - hours * 3600
                  then None else Some c)) \<and>
    n = card {k. load k L \<noteq> None \<and> load k L' = None}"
proof -
  let ?old = "is_stale (now - hours * 3600)" and ?cs = "get_all None L"
  let ?ids = "card_id ` set (filter ?old ?cs)"
  have L': "L' = L\<lparr>card_files := fold (\<lambda>c. od_del (card_id c)) (filter ?old ?cs) (card_files L)\<rparr>"
    and n: "n = length (filter ?old ?cs)"
    using assms(2) by (auto simp: cleanup_stale_def Let_def)
  have ids: "k \<in> ?ids \<longleftrightarrow> (\<exists>c. load k L = Some c \<and> ?old c)" for k
  proof -
    have "k \<in> ?ids \<longleftrightarrow> (\<exists>c. card_id c = k \<and> load (card_id c) L = Some c \<and> ?old c)"
      unfolding image_iff set_filter get_all_iff [OF assms(1)] by blast
    then show ?thesis using keyed_id [OF assms(1)] by metis
  qed
  have ld: "load k L' = (if k \<in> ?ids then None else load k L)" for k
    by (simp add: L' load_def od_get_fold_del)
  then have "keyed L'" using assms(1) by (auto simp: keyed_def L' od_wf_fold_del)
  moreover have "load k L' = (case load k L of None \<Rightarrow> None | Some c \<Rightarrow>
      if status c \<in> TERMINAL_TASK_STATUSES \<union> {''qa_review''} \<and> updated_at c < now - hours * 3600 then None else Some c)" for k
  proof -
    have "?old c \<longleftrightarrow> status c \<in> TERMINAL_TASK_STATUSES \<union> {''qa_review''} \<and> updated_at c < now - hours * 3600" for c
      by (auto simp: is_stale_def TERMINAL_TASK_STATUSES_def)
    then show ?thesis unfolding ld ids by (auto split: option.splits)
  qed
  moreover have "{k. load k L \<noteq> None \<and> load k L' = None} = ?ids" unfolding ld using ids by auto
  moreover have "n = card ?ids"
  proof -
    have "distinct (map card_id (filter ?old ?cs))" by (rule distinct_map_filter) (rule get_all_ids_distinct [OF assms(1)])
    then show ?thesis unfolding n by (metis distinct_card length_map list.set_map)
  qed
  ultimately show ?thesis by simp
qed

theorem cleanup_removes_stale_only_witness:
  "load ''c'' (snd (cleanup_stale 9000 1 (write_card demo_done demo_ledger))) = None \<and>
   load ''a'' (snd (cleanup_stale 9000 1 (write_card demo_done demo_ledger))) = Some (demo_card ''a'' 3)"
proof -
  let ?L = "write_card demo_done demo_ledger"
  have "keyed ?L" by (simp add: keyed_write)
  moreover obtain n L' where run: "cleanup_stale 9000 1 ?L = (n, L')" by (cases "cleanup_stale 9000 1 ?L")
  ultimately have "\<forall>k. load k L' = (case load k ?L of
        None \<Rightarrow> None
      | Some c \<Rightarrow> if status c \<in> TERMINAL_TASK_STATUSES \<union> {''qa_review''} \<and> updated_at c < 9000 - 1 * 3600
                  then None else Some c)"
    using cleanup_removes_stale_only by blast
  with run show ?thesis
    by (simp add: demo_done_def demo_card_def new_card_def TERMINAL_TASK_STATUSES_def)
qed

text \<open>A checkpoint is loaded and saved in two steps without holding the card's lock. When the
  task is cancelled between them, the save puts the old card back: the task is live again and the
  record of the cancellation is gone.\<close>

theorem stale_checkpoint_reopens_task:
  assumes "keyed L" and "load_mutable tid L = Some c"
  shows "(\<exists>d. load tid (snd (cancel t1 tid L)) = Some d \<and> status d = ''cancelled'') \<and>
    (\<exists>d. load tid (checkpoint_save t2 note data c (snd (cancel t1 tid L))) = Some d \<and>
       status d = status c \<and> status d \<notin> TERMINAL_TASK_STATUSES \<and> terminal_reason d = terminal_reason c)"
proof -
  have c: "load tid L = Some c" "\<not> terminal c" "card_id c = tid"
    using assms keyed_id by (auto simp: load_mutable_iff)
  have "terminal_request ''cancelled'' ''cancelled via task ledger''"
    by (simp add: terminal_request_def EXPLICIT_TERMINAL_STATUSES_def str_strip_empty_iff is_space_def)
  then have "\<exists>d. load tid (snd (cancel t1 tid L)) = Some d \<and> status d = ''cancelled''"
    using assms c by (simp add: cancel_snd terminalize_applied Let_def)
  with c show ?thesis
    by (simp add: checkpoint_save_def save_def add_checkpoint_def terminal_def)
qed

theorem stale_checkpoint_reopens_task_witness:
  "\<exists>d. load ''a'' (checkpoint_save 30 ''half way'' [] (demo_card ''a'' 3) (snd (cancel 20 ''a'' demo_ledger))) = Some d \<and>
     status d = ''open''"
  using stale_checkpoint_reopens_task [OF demo_ledger_keyed, of "''a''" "demo_card ''a'' 3" 20 30 "''half way''" "[]"]
  by (auto simp: load_mutable_def TERMINAL_TASK_STATUSES_def)

lemma to_dict_get [simp]:
  "od_get (to_dict c) ''id'' = Some (PStr (card_id c))"
  "od_get (to_dict c) ''status'' = Some (PStr (status c))"
  "od_get (to_dict c) ''created_at'' = Some (PFloat (created_at c))"
  "od_get (to_dict c) ''updated_at'' = Some (PFloat (updated_at c))"
  "od_get (to_dict c) ''assigner'' = Some (PStr (assigner c))"
  "od_get (to_dict c) ''assignee'' = Some (PStr (assignee c))"
  "od_get (to_dict c) ''directive'' = Some (PStr (directive c))"
  "od_get (to_dict c) ''deliverable'' = Some (PStr (deliverable c))"
  "od_get (to_dict c) ''report_to'' = Some (PStr (report_to c))"
  "od_get (to_dict c) ''priority'' = Some (PInt (priority c))"
  "od_get (to_dict c) ''timeout_seconds'' = Some (PFloat (timeout_seconds c))"
  "od_get (to_dict c) ''cron_interval'' = Some (PFloat (cron_interval c))"
  "od_get (to_dict c) ''cron_active'' = Some (PBool (cron_active c))"
  "od_get (to_dict c) ''cron_ttl_seconds'' = Some (PFloat (cron_ttl_seconds c))"
  "od_get (to_dict c) ''snoozed_until'' = Some (PFloat (snoozed_until c))"
  "od_get (to_dict c) ''checkpoints'' = Some (PList (map checkpoint_dict (checkpoints c)))"
  "od_get (to_dict c) ''result'' = Some (opt_val PStr (result c))"
  "od_get (to_dict c) ''error'' = Some (opt_val PStr (error c))"
  "od_get (to_dict c) ''qa_reviewer'' = Some (opt_val PStr (qa_reviewer c))"
  "od_get (to_dict c) ''qa_passed'' = Some (opt_val PBool (qa_passed c))"
  "od_get (to_dict c) ''qa_notes'' = Some (opt_val PStr (qa_notes c))"
  "od_get (to_dict c) ''qa_requested_at'' = Some (opt_val PFloat (qa_requested_at c))"
  "od_get (to_dict c) ''terminal_reason'' = Some (opt_val PStr (terminal_reason c))"
  "od_get (to_dict c) ''terminal_actor'' = Some (opt_val PStr (terminal_actor c))"
  "od_get (to_dict c) ''terminal_message_id'' = Some (opt_val PStr (terminal_message_id c))"
  "od_get (to_dict c) ''terminalized_at'' = Some (opt_val PFloat (terminalized_at c))"
  "od_get (to_dict c) ''project'' = Some (PStr (project c))"
  "od_get (to_dict c) ''last_activity_at'' = Some (PFloat (last_activity_at c))"
  "od_get (to_dict c) ''stall_count'' = Some (PInt (stall_count c))"
  "od_get (to_dict c) ''reassignments'' = Some (PInt (reassignments c))"
  by (simp_all add: to_dict_def)

lemma read_fields:
  "od_get d k = Some (PFloat r) \<Longrightarrow> num_field parse d k dflt = r"
  "od_get d k = Some (PStr s) \<Longrightarrow> str_field d k s' = s"
  "od_get d k = Some (PInt i) \<Longrightarrow> int_field d k j = i"
  "od_get d k = Some (opt_val PStr u) \<Longrightarrow> opt_str_field d k = u"
  "od_get d k = Some (opt_val PBool b) \<Longrightarrow> opt_bool_field d k = b"
  "od_get d k = Some (PBool b') \<Longrightarrow> opt_bool_field d k = Some b'"
  "od_get d k = Some (opt_val PFloat q) \<Longrightarrow> opt_num_field parse d k = q"
  by (simp_all add: num_field_def str_field_def int_field_def opt_str_field_def opt_bool_field_def
      opt_num_field_def opt_val_def split: option.splits)

lemma checkpoint_round_trip: "map checkpoint_of (map checkpoint_dict es) = es"
  by (induction es) (simp_all add: checkpoint_of_def checkpoint_dict_def str_field_def)

text \<open>A card that is stored and read back is the same card, whatever the defaults of the reader
  (fresh identifier, time, directory) and its treatment of malformed numbers.\<close>

theorem card_round_trip: "from_dict parse fresh now cwd (to_dict c) = c"
  unfolding from_dict_def
  by (simp add: read_fields checkpoint_round_trip del: map_map)

end
