(* ===== verification/Dispatch_Life.thy ===== *)
theory Dispatch_Life
  imports Task_Ledger
begin

text \<open>
  The life of a coordinator dispatch in the ledger of \<open>plugins/hub/task_ledger.py\<close>: what holds of
  the stored dispatches in every ledger that the operations reach, and what may happen to one of
  them along a run. The operations are those of \<open>Task_Ledger\<close>.
\<close>

section \<open>The life of a dispatch\<close>

text \<open>
  What every stored dispatch satisfies: a reported one names the report's message and a worktree or
  a commit, a verified one was verified by the agent that assigned it, with a note.
\<close>

definition dispatch_wf :: "dispatch \<Rightarrow> bool" where
  "dispatch_wf d \<longleftrightarrow>
     d_message_id d = d_dispatch_id d \<and>
     d_status d \<in> {''dispatching'', ''in_flight'', ''delivery_failed'', ''reported_unverified'', ''verified''} \<and>
     (d_status d \<in> {''reported_unverified'', ''verified''} \<longrightarrow>
        d_report d \<noteq> None \<and> d_report_message_id d \<noteq> None \<and>
        (\<exists>w c. d_reported_worktree d = Some w \<and> d_reported_commit d = Some c \<and> (w \<noteq> [] \<or> c \<noteq> []))) \<and>
     (d_status d = ''verified'' \<longrightarrow> d_verified_by d = Some (d_assigned_by d) \<and> (\<exists>n. d_verification_note d = Some n \<and> n \<noteq> []))"

definition dispatch_list_ok :: "dispatch list \<Rightarrow> bool" where
  "dispatch_list_ok ds \<longleftrightarrow> distinct (map d_dispatch_id ds) \<and> (\<forall>d \<in> set ds. dispatch_wf d)"

definition dispatches_ok :: "ledger \<Rightarrow> bool" where
  "dispatches_ok L \<longleftrightarrow> (case dispatches L of None \<Rightarrow> True | Some ds \<Rightarrow> dispatch_list_ok ds)"

definition find_dispatch :: "string \<Rightarrow> ledger \<Rightarrow> dispatch option" where
  "find_dispatch did L = (case dispatches L of None \<Rightarrow> None | Some ds \<Rightarrow> List.find (\<lambda>d. d_dispatch_id d = did) ds)"

definition dispatch_rank :: "dispatch \<Rightarrow> nat" where
  "dispatch_rank d = (if d_status d = ''verified'' then 2 else if d_status d = ''reported_unverified'' then 1 else 0)"

text \<open>What may happen to a dispatch: its assignment is fixed, it only moves forward, and once
  verified it is fixed altogether.\<close>

definition advances :: "dispatch \<Rightarrow> dispatch \<Rightarrow> bool" where
  "advances d d' \<longleftrightarrow> immutable_fields d' = immutable_fields d \<and> dispatch_rank d \<le> dispatch_rank d' \<and>
     (dispatch_rank d = 2 \<longrightarrow> d' = d)"

lemma advances_refl [simp]: "advances d d"
  by (simp add: advances_def)

lemma advances_trans: "advances d d' \<Longrightarrow> advances d' d'' \<Longrightarrow> advances d d''"
  unfolding advances_def by (metis order_trans)

lemma advances_id: "advances d d' \<Longrightarrow> d_dispatch_id d' = d_dispatch_id d"
  by (simp add: advances_def immutable_fields_def)

lemma find_key:
  "distinct (map f xs) \<Longrightarrow> List.find (\<lambda>x. f x = k) xs = Some x \<longleftrightarrow> x \<in> set xs \<and> f x = k"
  by (induction xs) force+

lemma find_key_map: "List.find (\<lambda>x. f x = k) xs = None \<longleftrightarrow> k \<notin> f ` set xs"
  by (auto simp: find_None_iff)

text \<open>Every way in which an operation changes the list of dispatches.\<close>

definition list_advances :: "dispatch list \<Rightarrow> dispatch list \<Rightarrow> bool" where
  "list_advances ds ds' \<longleftrightarrow> dispatch_list_ok ds' \<and> (\<forall>d \<in> set ds. \<exists>d' \<in> set ds'. advances d d')"

lemma list_advances_refl: "dispatch_list_ok ds \<Longrightarrow> list_advances ds ds"
  unfolding list_advances_def using advances_refl by blast

lemma list_advances_update:
  assumes "dispatch_list_ok ds" and "i < length ds" and "advances (ds ! i) d'" and "dispatch_wf d'"
  shows "list_advances ds (ds[i := d'])"
proof -
  have "map d_dispatch_id (ds[i := d']) = map d_dispatch_id ds"
    by (metis advances_id [OF assms(3)] assms(2) list_update_id map_update nth_map)
  moreover have "\<forall>d \<in> set (ds[i := d']). dispatch_wf d"
    using assms(1,4) set_update_subset_insert [of ds i d'] unfolding dispatch_list_ok_def by blast
  moreover have "\<exists>e \<in> set (ds[i := d']). advances d e" if "d \<in> set ds" for d
  proof -
    from that have "\<exists>j < length ds. ds ! j = d" by (simp only: in_set_conv_nth)
    then obtain j where j: "j < length ds" "ds ! j = d" by (elim exE conjE)
    then have "(ds[i := d']) ! j \<in> set (ds[i := d'])" by simp
    moreover have "advances d ((ds[i := d']) ! j)" using j assms(2,3) by (cases "i = j") simp_all
    ultimately show ?thesis by blast
  qed
  ultimately show ?thesis using assms(1) by (simp add: list_advances_def dispatch_list_ok_def)
qed

lemma list_advances_new:
  "dispatch_list_ok ds \<Longrightarrow> d_dispatch_id d \<notin> d_dispatch_id ` set ds \<Longrightarrow> dispatch_wf d \<Longrightarrow> list_advances ds (ds @ [d])"
  unfolding list_advances_def dispatch_list_ok_def
  by (intro conjI ballI) (auto intro: rev_bexI [where P = "advances e" for e, OF _ advances_refl])

lemma list_advances_find:
  assumes "dispatch_list_ok ds" and "list_advances ds ds'" and "List.find (\<lambda>d. d_dispatch_id d = did) ds = Some d"
  shows "\<exists>d'. List.find (\<lambda>d. d_dispatch_id d = did) ds' = Some d' \<and> advances d d'"
proof -
  have "d \<in> set ds" and "d_dispatch_id d = did" using find_Some_in [OF assms(3)] by auto
  then obtain d' where "d' \<in> set ds'" "advances d d'" using assms(2) by (auto simp: list_advances_def)
  moreover have "distinct (map d_dispatch_id ds')" using assms(2) by (simp add: list_advances_def dispatch_list_ok_def)
  ultimately show ?thesis using \<open>d_dispatch_id d = did\<close> advances_id find_key by metis
qed

lemma update_first_nth:
  "List.find P xs = Some x \<Longrightarrow> \<exists>i < length xs. xs ! i = x \<and> update_first P (\<lambda>_. y) xs = (True, xs[i := y])"
proof (induction xs)
  case (Cons a xs)
  show ?case
  proof (cases "P a")
    case False
    then obtain i where "i < length xs" "xs ! i = x" "update_first P (\<lambda>_. y) xs = (True, xs[i := y])"
      using Cons by auto
    then show ?thesis using False by (intro exI [of _ "Suc i"]) simp
  qed (use Cons in \<open>auto intro!: exI [of _ 0]\<close>)
qed simp

lemma change_dispatch_cases:
  obtains (same) "snd (change_dispatch did f ds) = ds"
  | (changed) i d' where "i < length ds" "d_dispatch_id (ds ! i) = did" "f (ds ! i) = Some d'"
      "change_dispatch did f ds = (True, ds[i := d'])"
proof (cases "List.find (\<lambda>d. d_dispatch_id d = did) ds")
  case None
  then show thesis by (intro same) (simp add: change_dispatch_def)
next
  case (Some d)
  show thesis
  proof (cases "f d")
    case None
    then show thesis using Some by (intro same) (simp add: change_dispatch_def)
  next
    case (Some d')
    obtain i where "i < length ds" "ds ! i = d"
        "update_first (\<lambda>d. d_dispatch_id d = did) (\<lambda>_. d') ds = (True, ds[i := d'])"
      using update_first_nth [OF \<open>List.find (\<lambda>d. d_dispatch_id d = did) ds = Some d\<close>] by blast
    then show thesis
      using Some \<open>List.find _ ds = Some d\<close> find_Some_in [OF \<open>List.find _ ds = Some d\<close>]
      by (intro changed [of i d']) (auto simp: change_dispatch_def)
  qed
qed

lemma change_dispatch_advances:
  assumes "dispatch_list_ok ds"
    and "\<And>d d'. dispatch_wf d \<Longrightarrow> f d = Some d' \<Longrightarrow> advances d d' \<and> dispatch_wf d'"
  shows "list_advances ds (snd (change_dispatch did f ds))"
proof (cases rule: change_dispatch_cases [of did f ds])
  case same
  with assms show ?thesis by (simp add: list_advances_refl)
next
  case (changed i d')
  then have "dispatch_wf (ds ! i)" using assms(1) by (simp add: dispatch_list_ok_def)
  with changed assms show ?thesis by (auto intro!: list_advances_update)
qed

lemma record_dispatch_advances:
  assumes "dispatch_list_ok ds" and "d_dispatch_id r = d_message_id r" and "dispatch_wf r"
    and "List.find (\<lambda>d. d_message_id d = d_message_id r) ds = None"
  shows "list_advances ds (ds @ [r])"
proof (rule list_advances_new [OF assms(1) _ assms(3)])
  have "d_message_id d \<noteq> d_message_id r" if "d \<in> set ds" for d
    using assms(4) that by (auto simp: find_None_iff)
  moreover have "d_message_id d = d_dispatch_id d" if "d \<in> set ds" for d
    using assms(1) that by (auto simp: dispatch_list_ok_def dispatch_wf_def)
  ultimately show "d_dispatch_id r \<notin> d_dispatch_id ` set ds" using assms(2) by (metis imageE)
qed

lemma new_dispatch_wf: "dispatch_wf (new_dispatch now a)"
  by (simp add: dispatch_wf_def new_dispatch_def)

lemma delivery_advances:
  assumes "dispatch_wf d" and "st \<in> {''in_flight'', ''delivery_failed''}"
    and "st = d_status d \<or> st \<in> DISPATCH_TRANSITIONS (d_status d)"
  shows "advances d (d\<lparr>d_status := st, d_updated_at := t, d_delivery_error := e\<rparr>) \<and>
    dispatch_wf (d\<lparr>d_status := st, d_updated_at := t, d_delivery_error := e\<rparr>)"
proof -
  have "d_status d \<notin> {''reported_unverified'', ''verified''}"
    using assms(2,3) by (auto simp: DISPATCH_TRANSITIONS_def split: if_splits)
  with assms(1,2) show ?thesis
    by (auto simp: advances_def dispatch_rank_def immutable_fields_def dispatch_wf_def)
qed

lemma reported_advances:
  assumes "dispatch_wf d" and "d_status d \<in> {''dispatching'', ''in_flight'', ''delivery_failed''}"
    and "str_strip (q_worktree a) \<noteq> [] \<or> str_strip (q_commit a) \<noteq> []"
  shows "advances d (reported now a d) \<and> dispatch_wf (reported now a d)"
proof
  have "dispatch_rank d = 0" using assms(2) by (auto simp: dispatch_rank_def)
  then show "advances d (reported now a d)"
    by (simp add: advances_def immutable_fields_def reported_def)
  show "dispatch_wf (reported now a d)"
    using assms(1,3) unfolding dispatch_wf_def reported_def by simp
qed

lemma verified_advances:
  assumes "dispatch_wf d" and "d_assigned_by d = vb" and "d_status d = ''reported_unverified''" and "str_strip note \<noteq> []"
  shows "advances d (d\<lparr>d_status := ''verified'', d_verified_by := Some vb, d_verification_note := Some (take 2000 (str_strip note)),
      d_verified_at := Some t, d_updated_at := t\<rparr>) \<and>
    dispatch_wf (d\<lparr>d_status := ''verified'', d_verified_by := Some vb, d_verification_note := Some (take 2000 (str_strip note)),
      d_verified_at := Some t, d_updated_at := t\<rparr>)"
  using assms by (simp add: advances_def dispatch_rank_def immutable_fields_def dispatch_wf_def)

section \<open>Every operation\<close>

definition keeps_dispatches :: "ledger \<Rightarrow> ledger \<Rightarrow> bool" where
  "keeps_dispatches L L' \<longleftrightarrow>
     (case dispatches L of None \<Rightarrow> dispatches L' = None
      | Some ds \<Rightarrow> (\<exists>ds'. dispatches L' = Some ds' \<and> list_advances ds ds'))"

lemma keeps_dispatches_same: "dispatches_ok L \<Longrightarrow> dispatches L' = dispatches L \<Longrightarrow> keeps_dispatches L L'"
  by (auto simp: keeps_dispatches_def dispatches_ok_def list_advances_refl split: option.splits)

lemma with_dispatches_keeps:
  assumes "dispatches_ok L" and "\<And>ds. dispatch_list_ok ds \<Longrightarrow> list_advances ds (snd (f ds))"
  shows "keeps_dispatches L (snd (with_dispatches f L))"
  using assms by (auto simp: keeps_dispatches_def with_dispatches_def dispatches_ok_def case_prod_unfold split: option.splits)

lemma record_dispatch_keeps: "dispatches_ok L \<Longrightarrow> keeps_dispatches L (snd (record_dispatch now a L))"
  unfolding record_dispatch_def
  by (auto simp: keeps_dispatches_same Let_def list_advances_refl new_dispatch_def [of now a] split: option.splits
      intro!: with_dispatches_keeps record_dispatch_advances new_dispatch_wf [unfolded new_dispatch_def])

lemma change_dispatch_keeps:
  assumes "dispatches_ok L"
    and "\<And>d d'. dispatch_wf d \<Longrightarrow> f d = Some d' \<Longrightarrow> advances d d' \<and> dispatch_wf d'"
  shows "keeps_dispatches L (snd (with_dispatches (\<lambda>ds. case change_dispatch did f ds of (ok, ds') \<Rightarrow> (Inr ok, ds')) L))"
  by (rule with_dispatches_keeps [OF assms(1)]) (simp add: case_prod_unfold change_dispatch_advances assms(2))

lemma if_none_some: "(if b then None else Some x) = Some y \<longleftrightarrow> \<not> b \<and> y = x"
  by auto

lemma update_dispatch_keeps:
  assumes "dispatches_ok L"
  shows "keeps_dispatches L (snd (update_dispatch now did st err L))"
proof (cases "st \<in> {''in_flight'', ''delivery_failed''}")
  case True
  then have "\<not> st \<notin> {''in_flight'', ''delivery_failed''}" by simp
  note branch = if_not_P [OF this]
  show ?thesis
    unfolding update_dispatch_def branch
    by (rule change_dispatch_keeps [OF assms]) (use True delivery_advances in \<open>unfold if_none_some, blast\<close>)
qed (simp add: update_dispatch_def keeps_dispatches_same assms)

lemma mark_dispatch_verified_keeps:
  assumes "dispatches_ok L"
  shows "keeps_dispatches L (snd (mark_dispatch_verified now did vb note L))"
proof (cases "did = [] \<or> blank vb \<or> blank note")
  case False
  then have nb: "str_strip note \<noteq> []" by (simp add: blank_def)
  show ?thesis
    unfolding mark_dispatch_verified_def if_not_P [OF False]
    by (rule change_dispatch_keeps [OF assms]) (use nb verified_advances in \<open>unfold if_none_some, blast\<close>)
qed (auto simp: mark_dispatch_verified_def keeps_dispatches_same assms)

lemma sort_key_eq_Nil: "sort_key f xs = [] \<longleftrightarrow> xs = []"
  by (metis length_0_conv length_sort)

lemma record_report_keeps:
  assumes "dispatches_ok L"
  shows "keeps_dispatches L (snd (record_dispatch_report now a L))"
proof (cases "blank (q_report a) \<or> (str_strip (q_worktree a) = [] \<and> str_strip (q_commit a) = []) \<or>
    first_line (q_report a) \<noteq> ''task complete'' \<or> (q_task_id a = [] \<and> q_thread_id a = [] \<and> q_reply_to a = [])")
  case False
  then have place: "str_strip (q_worktree a) \<noteq> [] \<or> str_strip (q_commit a) \<noteq> []" by blast
  show ?thesis
    unfolding record_dispatch_report_def if_not_P [OF False]
  proof (rule with_dispatches_keeps [OF assms])
    fix ds
    assume ok: "dispatch_list_ok ds"
    let ?open = "filter (\<lambda>i. report_matches a (ds ! i) \<and>
      d_status (ds ! i) \<in> {''dispatching'', ''in_flight'', ''delivery_failed''}) [0..<length ds]"
    let ?i = "hd (sort_key (\<lambda>i. d_created_at (ds ! i)) ?open)"
    have "list_advances ds (ds[?i := reported now a (ds ! ?i)])" if "?open \<noteq> []"
    proof -
      have "sort_key (\<lambda>i. d_created_at (ds ! i)) ?open \<noteq> []"
        using that by (simp only: sort_key_eq_Nil not_False_eq_True)
      from hd_in_set [OF this] have "?i \<in> set ?open" by (simp only: set_sort)
      then have i: "?i < length ds" "d_status (ds ! ?i) \<in> {''dispatching'', ''in_flight'', ''delivery_failed''}" by simp_all
      then have "dispatch_wf (ds ! ?i)" using ok by (simp add: dispatch_list_ok_def)
      note adv = reported_advances [OF this i(2) place, of now]
      show ?thesis by (rule list_advances_update [OF ok i(1) conjunct1 [OF adv] conjunct2 [OF adv]])
    qed
    then show "list_advances ds (snd (if list_ex (\<lambda>d. report_matches a d \<and> d_status d = ''reported_unverified'' \<and>
             d_report_message_id d = Some (q_message_id a)) ds then (Inr True, ds)
        else let open_idx = ?open in if open_idx = [] then (Inr False, ds)
          else let i = hd (sort_key (\<lambda>i. d_created_at (ds ! i)) open_idx)
               in (Inr True, ds[i := reported now a (ds ! i)])))"
      unfolding Let_def using list_advances_refl [OF ok] by (simp del: sort_key_simps)
  qed
qed (auto simp: record_dispatch_report_def keeps_dispatches_same assms)

text \<open>The operations on cards and on expected replies leave the dispatch file alone.\<close>

lemma write_card_dispatches [simp]: "dispatches (write_card c L) = dispatches L"
  by (simp add: write_card_def)

lemma mutate_locked_dispatches [simp]: "dispatches (snd (mutate_locked now tid f b L)) = dispatches L"
  by (simp add: mutate_locked_def Let_def split: option.splits)

lemma update_mutable_dispatches [simp]: "dispatches (snd (update_mutable now tid f L)) = dispatches L"
  by (simp add: update_mutable_def save_def split: option.splits)

lemma claim_dispatches [simp]: "dispatches (snd (claim now tid w p L)) = dispatches L"
  by (simp add: claim_def)

lemma claim_first_dispatches [simp]: "dispatches (snd (claim_first now w p cs L)) = dispatches L"
proof (induction cs arbitrary: L)
  case (Cons c cs)
  obtain r L' where cl: "claim now (card_id c) w p L = (r, L')" by (cases "claim now (card_id c) w p L")
  then have "dispatches L' = dispatches L" by (metis claim_dispatches snd_conv)
  with cl Cons show ?case by (cases r) simp_all
qed simp

lemma terminalize_dispatches [simp]: "dispatches (snd (terminalize now tid st why actor mid p L)) = dispatches L"
  by (simp add: terminalize_def Let_def resolve_replies_for_task_def split: option.splits)

lemma active_loop_dispatches [simp]: "dispatches (snd (active_loop now who ks L)) = dispatches L"
  by (induction ks arbitrary: L) (simp_all add: case_prod_unfold split: option.splits)

lemma cron_loop_dispatches [simp]: "dispatches (snd (cron_loop now cs L)) = dispatches L"
  by (induction cs arbitrary: L) (simp_all add: case_prod_unfold)

lemma card_ops_dispatches:
  "dispatches (snd (create fresh now cwd ca L)) = dispatches L"
  "dispatches (snd (enqueue fresh now asr dir deliv rep prio tmo proj L)) = dispatches L"
  "dispatches (snd (checkpoint now tid txt data L)) = dispatches L"
  "dispatches (snd (snooze now tid m L)) = dispatches L"
  "dispatches (expect_reply now tid who rb mid dl L) = dispatches L"
  "dispatches (snd (pending_replies now L)) = dispatches L"
  "dispatches (snd (resolve_reply now who ev mid tid L)) = dispatches L"
  "dispatches (snd (resolve_pending_reply now mid why res st rb L)) = dispatches L"
  by (simp_all add: create_def enqueue_def checkpoint_def checkpoint_save_def snooze_def save_def save_preserve_def
      expect_reply_def pending_replies_def resolve_reply_def resolve_pending_reply_def Let_def
      split: option.splits prod.splits)

lemma ledger_step_dispatches: "ledger_step L L' \<Longrightarrow> dispatches_ok L \<Longrightarrow> keeps_dispatches L L'"
proof (induction rule: ledger_step.induct)
  case (active_for L now who)
  then show ?case
    by (intro keeps_dispatches_same) (simp_all add: get_active_for_def case_prod_unfold)
qed (simp_all add: keeps_dispatches_same card_ops_dispatches claim_next_open_def requeue_stalled_def complete_def
    request_qa_def qa_approve_def qa_reject_def cancel_snd get_cron_due_def
    record_dispatch_keeps update_dispatch_keeps record_report_keeps mark_dispatch_verified_keeps)

text \<open>The dispatch file is a store whose verified entries are final, for the same steps as the cards.\<close>

lemma ledger_step_find:
  assumes "ledger_step L L'" and "dispatches_ok L" and "find_dispatch did L = Some d"
  shows "\<exists>d'. find_dispatch did L' = Some d' \<and> advances d d'"
proof (cases "dispatches L")
  case (Some ds)
  with ledger_step_dispatches [OF assms(1,2)] obtain ds' where "dispatches L' = Some ds'" "list_advances ds ds'"
    by (auto simp: keeps_dispatches_def)
  with Some assms(2,3) list_advances_find [of ds ds' did d] show ?thesis
    by (simp add: find_dispatch_def dispatches_ok_def)
qed (use assms in \<open>simp add: find_dispatch_def\<close>)

lemma ledger_step_ok:
  assumes "ledger_step L L'" and "dispatches_ok L"
  shows "dispatches_ok L'"
  using ledger_step_dispatches [OF assms]
  by (auto simp: keeps_dispatches_def dispatches_ok_def list_advances_def split: option.splits)

interpretation disp: settled_store find_dispatch "\<lambda>d. d_status d = ''verified''" dispatches_ok ledger_step
proof unfold_locales
  fix L L' did d
  assume "ledger_step L L'" "dispatches_ok L" "find_dispatch did L = Some d" and v: "d_status d = ''verified''"
  from ledger_step_find [OF this(1,2,3)] obtain d' where "find_dispatch did L' = Some d'" "advances d d'"
    by (elim exE conjE)
  moreover have "d' = d" using \<open>advances d d'\<close> v by (simp add: advances_def dispatch_rank_def)
  ultimately show "find_dispatch did L' = Some d" by simp
qed (rule ledger_step_ok)

lemma dispatches_ok_empty [simp]: "dispatches_ok empty_ledger"
  by (simp add: dispatches_ok_def empty_ledger_def dispatch_list_ok_def)

lemma run_advances:
  assumes "ledger_step\<^sup>*\<^sup>* L L'" and "dispatches_ok L" and "find_dispatch did L = Some d"
  shows "\<exists>d'. find_dispatch did L' = Some d' \<and> advances d d'"
  using assms
proof (induction rule: rtranclp_induct)
  case base
  then show ?case using advances_refl by blast
next
  case (step M N)
  from step.IH [OF step.prems] obtain e where e: "find_dispatch did M = Some e" "advances d e" by (elim exE conjE)
  have "dispatches_ok M" using disp.run_inv [OF step.hyps(1)] step.prems(1) by simp
  from ledger_step_find [OF step.hyps(2) this e(1)] obtain e' where "find_dispatch did N = Some e'" "advances e e'"
    by (elim exE conjE)
  with advances_trans [OF e(2)] show ?case by (intro exI [of _ e']) simp
qed

text \<open>C13: In every ledger that the operations reach from the empty one, two dispatches never share
  an identifier, and a dispatch that counts as verified was first reported with a worktree or a
  commit and then signed, with a note, by the very agent that assigned it.\<close>

theorem verified_dispatch_was_signed:
  assumes "ledger_step\<^sup>*\<^sup>* empty_ledger L" and "dispatches L = Some ds"
  shows "distinct (map d_dispatch_id ds) \<and>
    (\<forall>d \<in> set ds. d_status d = ''verified'' \<longrightarrow>
       d_verified_by d = Some (d_assigned_by d) \<and> (\<exists>n. d_verification_note d = Some n \<and> n \<noteq> []) \<and>
       d_report d \<noteq> None \<and>
       (\<exists>w c. d_reported_worktree d = Some w \<and> d_reported_commit d = Some c \<and> (w \<noteq> [] \<or> c \<noteq> [])))"
proof -
  have "dispatches_ok L" using disp.run_inv [OF assms(1)] by simp
  then have "dispatch_list_ok ds" using assms(2) by (simp add: dispatches_ok_def)
  then show ?thesis unfolding dispatch_list_ok_def dispatch_wf_def by blast
qed

text \<open>C40: A dispatch only moves forward. Whatever operations follow, it stays in the ledger with the
  assignment it was recorded with (task, agents, directive, message, thread, worktree, commit), it
  never goes back from reported to in flight or from verified to reported, and once verified
  nothing in it changes.\<close>

theorem dispatch_moves_forward:
  assumes "ledger_step\<^sup>*\<^sup>* empty_ledger L" and "ledger_step\<^sup>*\<^sup>* L L'" and "find_dispatch did L = Some d"
  shows "\<exists>d'. find_dispatch did L' = Some d' \<and> immutable_fields d' = immutable_fields d \<and>
    (d_status d = ''reported_unverified'' \<longrightarrow> d_status d' \<in> {''reported_unverified'', ''verified''}) \<and>
    (d_status d = ''verified'' \<longrightarrow> d' = d)"
proof -
  have "dispatches_ok L" using disp.run_inv [OF assms(1)] by simp
  from run_advances [OF assms(2) this assms(3)] obtain d' where d': "find_dispatch did L' = Some d'" "advances d d'"
    by (elim exE conjE)
  moreover have "d_status d' \<in> {''reported_unverified'', ''verified''}" if "d_status d = ''reported_unverified''"
    using d'(2) that by (auto simp: advances_def dispatch_rank_def split: if_splits)
  ultimately show ?thesis by (intro exI [of _ d']) (simp add: advances_def dispatch_rank_def)
qed

text \<open>An assignment, its report and its verification.\<close>

definition demo_assignment :: dispatch_args where
  "demo_assignment = \<lparr>p_task_id = ''t1'', p_assigned_by = ''koord'', p_assignee = ''w'', p_directive = ''fix it'',
     p_message_id = ''m1'', p_thread_id = [], p_worktree = [], p_commit = []\<rparr>"

definition demo_report :: report_args where
  "demo_report = \<lparr>q_task_id = ''t1'', q_assignee = ''w'', q_thread_id = [], q_message_id = ''m2'',
     q_report = ''TASK COMPLETE'', q_worktree = [], q_commit = ''abc'', q_reply_to = []\<rparr>"

definition demo_recorded :: ledger where
  "demo_recorded = snd (record_dispatch 1 demo_assignment empty_ledger)"

definition demo_verified :: ledger where
  "demo_verified = snd (mark_dispatch_verified 3 ''m1'' ''koord'' ''ok'' (snd (record_dispatch_report 2 demo_report demo_recorded)))"

lemma demo_strips [simp]:
  "str_strip ''m1'' = ''m1''" "str_strip ''t1'' = ''t1''" "str_strip ''koord'' = ''koord''" "str_strip ''w'' = ''w''"
  "str_strip ''fix it'' = ''fix it''" "str_strip ''abc'' = ''abc''" "str_strip ''ok'' = ''ok''" "str_strip [] = []"
  "blank ''TASK COMPLETE'' = False" "first_line ''TASK COMPLETE'' = ''task complete''"
  by code_simp+

lemma demo_recorded_simp: "demo_recorded = empty_ledger\<lparr>dispatches := Some [new_dispatch 1 demo_assignment]\<rparr>"
  by (simp add: demo_recorded_def record_dispatch_def with_dispatches_def empty_ledger_def blank_def
      demo_assignment_def Let_def)

lemma demo_reported_simp:
  "snd (record_dispatch_report 2 demo_report demo_recorded) =
     empty_ledger\<lparr>dispatches := Some [reported 2 demo_report (new_dispatch 1 demo_assignment)]\<rparr>"
  by (simp add: record_dispatch_report_def demo_recorded_simp with_dispatches_def demo_report_def report_matches_def
      new_dispatch_def demo_assignment_def Let_def)

lemma demo_verified_simp:
  "\<exists>d. dispatches demo_verified = Some [d] \<and> d_status d = ''verified'' \<and> d_assigned_by d = ''koord''"
  by (simp add: demo_verified_def demo_reported_simp mark_dispatch_verified_def with_dispatches_def change_dispatch_def
      reported_def new_dispatch_def demo_assignment_def blank_def)

lemma demo_run: "ledger_step\<^sup>*\<^sup>* empty_ledger demo_recorded" "ledger_step\<^sup>*\<^sup>* demo_recorded demo_verified"
proof -
  show "ledger_step\<^sup>*\<^sup>* empty_ledger demo_recorded"
    unfolding demo_recorded_def by (rule r_into_rtranclp) (rule ledger_step.dispatch)
  show "ledger_step\<^sup>*\<^sup>* demo_recorded demo_verified"
    unfolding demo_verified_def
    by (rule rtranclp.rtrancl_into_rtrancl, rule r_into_rtranclp) (rule ledger_step.report ledger_step.verify)+
qed

theorem verified_dispatch_was_signed_witness:
  "\<exists>d. dispatches demo_verified = Some [d] \<and> d_verified_by d = Some ''koord'' \<and> d_report d \<noteq> None"
proof -
  obtain d where d: "dispatches demo_verified = Some [d]" "d_status d = ''verified''" "d_assigned_by d = ''koord''"
    using demo_verified_simp by (elim exE conjE)
  from verified_dispatch_was_signed [OF rtranclp_trans [OF demo_run] d(1)] d show ?thesis by simp
qed

theorem dispatch_moves_forward_witness:
  "\<exists>d'. find_dispatch ''m1'' demo_verified = Some d' \<and>
     immutable_fields d' = immutable_fields (new_dispatch 1 demo_assignment)"
proof -
  have "find_dispatch ''m1'' demo_recorded = Some (new_dispatch 1 demo_assignment)"
    by (simp add: demo_recorded_simp find_dispatch_def new_dispatch_def demo_assignment_def)
  from dispatch_moves_forward [OF demo_run this] show ?thesis by (elim exE conjE) (intro exI conjI)
qed

lemma find_last: "List.find P xs = None \<Longrightarrow> P y \<Longrightarrow> List.find P (xs @ [y]) = Some y"
  by (induction xs) (auto split: if_splits)

lemma record_dispatch_stored:
  assumes "record_dispatch now a L = (Inr d, L')"
  shows "\<exists>ds'. dispatches L' = Some ds' \<and> List.find (\<lambda>e. d_message_id e = str_strip (p_message_id a)) ds' = Some d \<and>
    immutable_fields d = immutable_fields (new_dispatch now a)"
proof -
  let ?P = "\<lambda>e. d_message_id e = str_strip (p_message_id a)"
  have ids: "d_message_id (new_dispatch now a) = str_strip (p_message_id a)" by (simp add: new_dispatch_def)
  have ok: "\<not> list_ex blank [p_task_id a, p_assigned_by a, p_assignee a, p_directive a, p_message_id a]"
    using assms unfolding record_dispatch_def by (rule contrapos_pn) simp
  note run = assms [unfolded record_dispatch_def if_not_P [OF ok] with_dispatches_def Let_def ids]
  then obtain ds where ds: "dispatches L = Some ds" by (cases "dispatches L") simp_all
  show ?thesis
  proof (cases "List.find ?P ds")
    case None
    with run ds have "d = new_dispatch now a" "dispatches L' = Some (ds @ [d])" by auto
    with find_last [OF None, of d] ids show ?thesis by simp
  next
    case (Some e)
    with run ds have "e = d" "dispatches L' = Some ds" "immutable_fields e = immutable_fields (new_dispatch now a)"
      by (auto split: if_splits)
    with Some show ?thesis by simp
  qed
qed

text \<open>Recording an assignment is safe to repeat: the same message again returns the stored
  dispatch and changes nothing, and the same message identifier with any other payload is an error
  that changes nothing.\<close>

theorem record_dispatch_replay:
  assumes "record_dispatch now a L = (Inr d, L')" and "str_strip (p_message_id b) = str_strip (p_message_id a)"
    and "\<not> list_ex blank [p_task_id b, p_assigned_by b, p_assignee b, p_directive b, p_message_id b]"
  shows "record_dispatch now2 b L' =
    (if immutable_fields (new_dispatch now2 b) = immutable_fields (new_dispatch now a) then Inr d
     else Inl (ValueError ''dispatch message_id already exists with a different immutable payload''), L')"
proof -
  let ?m = "str_strip (p_message_id a)"
  have ids: "d_message_id (new_dispatch now a) = ?m" "d_message_id (new_dispatch now2 b) = ?m"
    using assms(2) by (simp_all add: new_dispatch_def)
  obtain ds' where ds: "dispatches L' = Some ds'" and find: "List.find (\<lambda>e. d_message_id e = ?m) ds' = Some d"
    and imm: "immutable_fields d = immutable_fields (new_dispatch now a)"
    using record_dispatch_stored [OF assms(1)] by (elim exE conjE)
  have L': "L'\<lparr>dispatches := Some ds'\<rparr> = L'" using ds by simp
  show ?thesis
    unfolding record_dispatch_def if_not_P [OF assms(3)] with_dispatches_def ds Let_def ids
    by (simp add: find imm L' eq_commute [of "immutable_fields (new_dispatch now a)"])
qed

theorem record_dispatch_replay_witness:
  "record_dispatch 9 demo_assignment demo_recorded = (Inr (new_dispatch 1 demo_assignment), demo_recorded)"
proof -
  have run: "record_dispatch 1 demo_assignment empty_ledger = (Inr (new_dispatch 1 demo_assignment), demo_recorded)"
    by (simp add: demo_recorded_def record_dispatch_def with_dispatches_def empty_ledger_def blank_def
        demo_assignment_def Let_def)
  have "\<not> list_ex blank [p_task_id demo_assignment, p_assigned_by demo_assignment, p_assignee demo_assignment,
      p_directive demo_assignment, p_message_id demo_assignment]"
    by (simp add: demo_assignment_def blank_def)
  from record_dispatch_replay [OF run refl this, of 9] show ?thesis
    by (simp add: immutable_fields_def new_dispatch_def)
qed

end
