(* ===== verification/Py_Effects.thy ===== *)
theory Py_Effects
  imports Kollab_Prelude
begin

text \<open>
  Python methods that change an object and may raise: an operation takes the state and returns
  the new state with a value, or with the exception that left the method. An exception does not
  undo what was done before it; \<open>op_atomic\<close> is the block that does (a database transaction
  that rolls back). The triple \<open>op_hoare P m Q X\<close> states what holds when \<open>m\<close> returns
  (\<open>Q\<close>) and when it raises (\<open>X\<close>); \<open>op_keeps I m\<close> is that triple with one
  property of the state throughout. Its rules, collected in \<open>hoare_intros\<close>, follow the
  syntax of the operation.
\<close>

named_theorems hoare_intros "rules for what an operation keeps"
named_theorems op_simps "running an operation on a state"

section \<open>Operations\<close>

type_synonym ('s, 'e, 'a) op = "'s \<Rightarrow> ('e + 'a) \<times> 's"

definition op_return :: "'a \<Rightarrow> ('s, 'e, 'a) op" where
  "op_return x s = (Inr x, s)"

definition op_raise :: "'e \<Rightarrow> ('s, 'e, 'a) op" where
  "op_raise e s = (Inl e, s)"

definition op_read :: "('s \<Rightarrow> 'a) \<Rightarrow> ('s, 'e, 'a) op" where
  "op_read f s = (Inr (f s), s)"

definition op_modify :: "('s \<Rightarrow> 's) \<Rightarrow> ('s, 'e, unit) op" where
  "op_modify f s = (Inr (), f s)"

definition op_bind :: "('s, 'e, 'a) op \<Rightarrow> ('a \<Rightarrow> ('s, 'e, 'b) op) \<Rightarrow> ('s, 'e, 'b) op" where
  "op_bind m f s = (case m s of (Inl e, s') \<Rightarrow> (Inl e, s') | (Inr x, s') \<Rightarrow> f x s')"

definition op_then :: "('s, 'e, 'a) op \<Rightarrow> ('s, 'e, 'b) op \<Rightarrow> ('s, 'e, 'b) op" where
  "op_then m n = op_bind m (\<lambda>_. n)"

text \<open>\<open>try: ... except ... as e: ...\<close>; the handler raises the exception again when it is not its own.\<close>

definition op_catch :: "('s, 'e, 'a) op \<Rightarrow> ('e \<Rightarrow> ('s, 'e, 'a) op) \<Rightarrow> ('s, 'e, 'a) op" where
  "op_catch m h s = (case m s of (Inl e, s') \<Rightarrow> h e s' | (Inr x, s') \<Rightarrow> (Inr x, s'))"

text \<open>
  A transaction on a part of the state: \<open>undo\<close> puts the part of the first state back into the
  second one.
\<close>

definition op_atomic :: "('s \<Rightarrow> 's \<Rightarrow> 's) \<Rightarrow> ('s, 'e, 'a) op \<Rightarrow> ('s, 'e, 'a) op" where
  "op_atomic undo m s = (case m s of (Inl e, s') \<Rightarrow> (Inl e, undo s s') | (Inr x, s') \<Rightarrow> (Inr x, s'))"

text \<open>The outcome as a value, for \<open>try: ... finally: ...\<close>, which raises it again afterwards.\<close>

definition op_attempt :: "('s, 'e, 'a) op \<Rightarrow> ('s, 'e, 'e + 'a) op" where
  "op_attempt m s = (case m s of (y, s') \<Rightarrow> (Inr y, s'))"

definition op_outcome :: "'e + 'a \<Rightarrow> ('s, 'e, 'a) op" where
  "op_outcome y = (case y of Inl e \<Rightarrow> op_raise e | Inr x \<Rightarrow> op_return x)"

text \<open>A method of an object that is a field of another one.\<close>

definition op_on :: "('t \<Rightarrow> 's) \<Rightarrow> ('s \<Rightarrow> 't \<Rightarrow> 't) \<Rightarrow> ('s, 'e, 'a) op \<Rightarrow> ('t, 'e, 'a) op" where
  "op_on get put m t = (case m (get t) of (r, s') \<Rightarrow> (r, put s' t))"

primrec op_for :: "('a \<Rightarrow> ('s, 'e, unit) op) \<Rightarrow> 'a list \<Rightarrow> ('s, 'e, unit) op" where
  "op_for f [] = op_return ()"
| "op_for f (x # xs) = op_then (f x) (op_for f xs)"

section \<open>Evaluation\<close>

lemma op_return_run [op_simps]: "op_return x s = (Inr x, s)"
  by (simp add: op_return_def)

lemma op_raise_run [op_simps]: "op_raise e s = (Inl e, s)"
  by (simp add: op_raise_def)

lemma op_read_run [op_simps]: "op_read f s = (Inr (f s), s)"
  by (simp add: op_read_def)

lemma op_modify_run [op_simps]: "op_modify f s = (Inr (), f s)"
  by (simp add: op_modify_def)

lemma op_bind_Inr [simp]: "m s = (Inr x, s') \<Longrightarrow> op_bind m f s = f x s'"
  by (simp add: op_bind_def)

lemma op_bind_Inl [simp]: "m s = (Inl e, s') \<Longrightarrow> op_bind m f s = (Inl e, s')"
  by (simp add: op_bind_def)

lemma op_bind_return [simp]: "op_bind (op_return x) f = f x"
  by (rule ext) (simp add: op_bind_def op_simps)

lemma op_bind_raise [simp]: "op_bind (op_raise e) f = op_raise e"
  by (rule ext) (simp add: op_bind_def op_simps)

lemma op_bind_assoc: "op_bind (op_bind m f) g = op_bind m (\<lambda>x. op_bind (f x) g)"
  by (rule ext) (simp add: op_bind_def split: prod.split sum.split)

lemma op_bind_eq_Inr:
  "op_bind m f s = (Inr y, s'') \<longleftrightarrow> (\<exists>x s'. m s = (Inr x, s') \<and> f x s' = (Inr y, s''))"
  by (auto simp: op_bind_def split: prod.splits sum.splits)

lemma op_then_eq_Inr:
  "op_then m n s = (Inr y, s'') \<longleftrightarrow> (\<exists>x s'. m s = (Inr x, s') \<and> n s' = (Inr y, s''))"
  by (simp add: op_then_def op_bind_eq_Inr)

lemma op_atomic_eq_Inr: "op_atomic u m s = (Inr y, s') \<longleftrightarrow> m s = (Inr y, s')"
  by (auto simp: op_atomic_def split: prod.splits sum.splits)

text \<open>Whether a run returned.\<close>

definition op_returned :: "('e + 'a) \<times> 's \<Rightarrow> bool" where
  "op_returned p = (case fst p of Inr _ \<Rightarrow> True | Inl _ \<Rightarrow> False)"

lemma op_returned_iff: "op_returned p \<longleftrightarrow> (\<exists>x s. p = (Inr x, s))"
  by (cases p) (auto simp: op_returned_def split: sum.split)

section \<open>What an operation keeps\<close>

definition op_hoare ::
  "('s \<Rightarrow> bool) \<Rightarrow> ('s, 'e, 'a) op \<Rightarrow> ('a \<Rightarrow> 's \<Rightarrow> bool) \<Rightarrow> ('e \<Rightarrow> 's \<Rightarrow> bool) \<Rightarrow> bool" where
  "op_hoare P m Q X \<longleftrightarrow>
     (\<forall>s r s'. P s \<longrightarrow> m s = (r, s') \<longrightarrow> (case r of Inl e \<Rightarrow> X e s' | Inr x \<Rightarrow> Q x s'))"

abbreviation op_keeps :: "('s \<Rightarrow> bool) \<Rightarrow> ('s, 'e, 'a) op \<Rightarrow> bool" where
  "op_keeps I m \<equiv> op_hoare I m (\<lambda>_. I) (\<lambda>_. I)"

lemma op_hoareI:
  assumes "\<And>s x s'. P s \<Longrightarrow> m s = (Inr x, s') \<Longrightarrow> Q x s'"
    and "\<And>s e s'. P s \<Longrightarrow> m s = (Inl e, s') \<Longrightarrow> X e s'"
  shows "op_hoare P m Q X"
  using assms by (auto simp: op_hoare_def split: sum.split)

lemma op_hoare_Inr: "op_hoare P m Q X \<Longrightarrow> P s \<Longrightarrow> m s = (Inr x, s') \<Longrightarrow> Q x s'"
  by (fastforce simp: op_hoare_def)

lemma op_hoare_Inl: "op_hoare P m Q X \<Longrightarrow> P s \<Longrightarrow> m s = (Inl e, s') \<Longrightarrow> X e s'"
  by (fastforce simp: op_hoare_def)

lemma op_keepsI: "(\<And>s. I s \<Longrightarrow> I (snd (m s))) \<Longrightarrow> op_keeps I m"
  by (rule op_hoareI) force+

lemma op_keepsD: "op_keeps I m \<Longrightarrow> I s \<Longrightarrow> I (snd (m s))"
  by (cases "m s"; cases "fst (m s)") (auto dest: op_hoare_Inr op_hoare_Inl)

lemma op_hoare_snd: "op_hoare P m (\<lambda>_. Q) (\<lambda>_. Q) \<Longrightarrow> P s \<Longrightarrow> Q (snd (m s))"
  by (cases "m s"; cases "fst (m s)") (auto dest: op_hoare_Inr op_hoare_Inl)

lemma op_hoare_weaken:
  assumes "op_hoare P m Q X" and "\<And>s. P' s \<Longrightarrow> P s" and "\<And>x s. Q x s \<Longrightarrow> Q' x s" and "\<And>e s. X e s \<Longrightarrow> X' e s"
  shows "op_hoare P' m Q' X'"
  by (rule op_hoareI) (blast intro: assms op_hoare_Inr [OF assms(1)] op_hoare_Inl [OF assms(1)])+

lemma op_hoare_keep:
  "op_keeps I m \<Longrightarrow> (\<And>s. I s \<Longrightarrow> X s) \<Longrightarrow> op_hoare I m (\<lambda>_. I) (\<lambda>_. X)"
  by (erule op_hoare_weaken) simp_all

lemma op_hoare_return [hoare_intros]: "(\<And>s. P s \<Longrightarrow> Q x s) \<Longrightarrow> op_hoare P (op_return x) Q X"
  by (simp add: op_hoare_def op_simps)

lemma op_hoare_raise [hoare_intros]: "(\<And>s. P s \<Longrightarrow> X e s) \<Longrightarrow> op_hoare P (op_raise e) Q X"
  by (simp add: op_hoare_def op_simps)

lemma op_hoare_read: "(\<And>s. P s \<Longrightarrow> Q (f s) s) \<Longrightarrow> op_hoare P (op_read f) Q X"
  by (simp add: op_hoare_def op_simps)

lemma op_hoare_modify: "(\<And>s. P s \<Longrightarrow> Q () (f s)) \<Longrightarrow> op_hoare P (op_modify f) Q X"
  by (simp add: op_hoare_def op_simps)

lemma op_hoare_bind:
  assumes m: "op_hoare P m Q X" and f: "\<And>x. op_hoare (Q x) (f x) R X"
  shows "op_hoare P (op_bind m f) R X"
  by (rule op_hoareI)
    (auto simp: op_bind_def split: prod.splits sum.splits
      dest: op_hoare_Inr [OF m] op_hoare_Inl [OF m] op_hoare_Inr [OF f] op_hoare_Inl [OF f])

lemma op_hoare_then:
  "op_hoare P m (\<lambda>_. Q) X \<Longrightarrow> op_hoare Q n R X \<Longrightarrow> op_hoare P (op_then m n) R X"
  unfolding op_then_def by (rule op_hoare_bind)

lemma op_hoare_catch:
  assumes m: "op_hoare P m Q Y" and h: "\<And>e. op_hoare (Y e) (h e) Q X"
  shows "op_hoare P (op_catch m h) Q X"
  by (rule op_hoareI)
    (auto simp: op_catch_def split: prod.splits sum.splits
      dest: op_hoare_Inr [OF m] op_hoare_Inl [OF m] op_hoare_Inr [OF h] op_hoare_Inl [OF h])

lemma op_hoare_if [hoare_intros]:
  "(c \<Longrightarrow> op_hoare P m Q X) \<Longrightarrow> (\<not> c \<Longrightarrow> op_hoare P n Q X) \<Longrightarrow> op_hoare P (if c then m else n) Q X"
  by simp

lemma op_hoare_option [hoare_intros]:
  "(v = None \<Longrightarrow> op_hoare P m Q X) \<Longrightarrow> (\<And>x. v = Some x \<Longrightarrow> op_hoare P (f x) Q X) \<Longrightarrow>
     op_hoare P (case v of None \<Rightarrow> m | Some x \<Rightarrow> f x) Q X"
  by (cases v) auto

lemma op_hoare_sum [hoare_intros]:
  "(\<And>e. v = Inl e \<Longrightarrow> op_hoare P (f e) Q X) \<Longrightarrow> (\<And>x. v = Inr x \<Longrightarrow> op_hoare P (g x) Q X) \<Longrightarrow>
     op_hoare P (case v of Inl e \<Rightarrow> f e | Inr x \<Rightarrow> g x) Q X"
  by (cases v) auto

lemma op_hoare_bind_read: "(\<And>x. op_hoare P (f x) Q X) \<Longrightarrow> op_hoare P (op_bind (op_read g) f) Q X"
  by (rule op_hoare_bind [where Q = "\<lambda>_. P"]) (rule op_hoare_read)

lemma op_hoare_conj:
  "op_hoare P m Q X \<Longrightarrow> op_hoare P m Q' X' \<Longrightarrow> op_hoare P m (\<lambda>x s. Q x s \<and> Q' x s) (\<lambda>e s. X e s \<and> X' e s)"
  by (auto simp: op_hoare_def split: sum.splits)

lemma op_hoare_Let [hoare_intros]: "op_hoare P (f v) Q X \<Longrightarrow> op_hoare P (let x = v in f x) Q X"
  by simp

lemma op_keeps_read [hoare_intros]: "op_keeps I (op_read f)"
  by (rule op_hoare_read)

lemma op_keeps_modify [hoare_intros]: "(\<And>s. I s \<Longrightarrow> I (f s)) \<Longrightarrow> op_keeps I (op_modify f)"
  by (rule op_hoare_modify)

lemma op_keeps_bind [hoare_intros]: "op_keeps I m \<Longrightarrow> (\<And>x. op_keeps I (f x)) \<Longrightarrow> op_keeps I (op_bind m f)"
  by (rule op_hoare_bind)

lemma op_keeps_then [hoare_intros]: "op_keeps I m \<Longrightarrow> op_keeps I n \<Longrightarrow> op_keeps I (op_then m n)"
  by (rule op_hoare_then)

lemma op_keeps_catch [hoare_intros]: "op_keeps I m \<Longrightarrow> (\<And>e. op_keeps I (h e)) \<Longrightarrow> op_keeps I (op_catch m h)"
  by (rule op_hoare_catch)

lemma op_keeps_attempt [hoare_intros]: "op_keeps I m \<Longrightarrow> op_keeps I (op_attempt m)"
  by (rule op_keepsI) (auto simp: op_attempt_def split: prod.splits dest: op_keepsD)

lemma op_keeps_outcome [hoare_intros]: "op_keeps I (op_outcome y)"
  unfolding op_outcome_def by (intro hoare_intros)

lemma op_keeps_for [hoare_intros]: "(\<And>x. op_keeps I (f x)) \<Longrightarrow> op_keeps I (op_for f xs)"
  by (induction xs) (auto intro: hoare_intros)

text \<open>The value read, or returned, is remembered by a fact that later steps cannot change.\<close>

lemma op_keeps_bind_fact:
  assumes "op_hoare I m (\<lambda>x s. I s \<and> F x) (\<lambda>_. I)" and "\<And>x. F x \<Longrightarrow> op_keeps I (f x)"
  shows "op_keeps I (op_bind m f)"
proof (rule op_hoare_bind [OF assms(1)])
  fix x
  show "op_hoare (\<lambda>s. I s \<and> F x) (f x) (\<lambda>_. I) (\<lambda>_. I)"
    using assms(2) [of x] by (cases "F x") (auto intro: op_hoare_weaken simp: op_hoare_def)
qed

lemma op_keeps_read_fact:
  "(\<And>s. I s \<Longrightarrow> F (g s)) \<Longrightarrow> (\<And>x. F x \<Longrightarrow> op_keeps I (f x)) \<Longrightarrow> op_keeps I (op_bind (op_read g) f)"
  by (rule op_keeps_bind_fact [where F = F]) (simp_all add: op_hoare_def op_simps)

lemma op_hoare_read_if:
  "op_hoare (\<lambda>s. P s \<and> c s) m Q X \<Longrightarrow> op_hoare (\<lambda>s. P s \<and> \<not> c s) n Q X \<Longrightarrow>
     op_hoare P (op_bind (op_read c) (\<lambda>b. if b then m else n)) Q X"
  by (fastforce simp: op_hoare_def op_bind_def op_simps split: if_splits)

lemma op_hoare_bind_at:
  "(\<And>x. op_hoare (\<lambda>s. P s \<and> g s = x) (f x) Q X) \<Longrightarrow> op_hoare P (op_bind (op_read g) f) Q X"
  by (rule op_hoare_bind [where Q = "\<lambda>x s. P s \<and> g s = x"]) (simp_all add: op_hoare_def op_simps)

lemma op_keeps_atomic:
  assumes m: "op_keeps I m" and undo: "\<And>s s'. I s \<Longrightarrow> I (undo s s')"
  shows "op_keeps I (op_atomic undo m)"
  by (rule op_hoareI)
    (auto simp: op_atomic_def undo split: prod.splits sum.splits dest: op_hoare_Inr [OF m])

lemma op_keeps_on:
  assumes m: "op_keeps I m" and get_put: "\<And>s t. get (put s t) = s"
  shows "op_keeps (\<lambda>t. I (get t)) (op_on get put m)"
  by (rule op_hoareI)
    (auto simp: op_on_def get_put split: prod.splits dest: op_hoare_Inr [OF m] op_hoare_Inl [OF m])

end
