(* ===== verification/Goal_Store.thy ===== *)
theory Goal_Store
  imports Py_Effects Dict_Utils "HOL-Library.Char_ord" "HOL-Library.List_Lexorder" "HOL-Library.Product_Lexorder"
begin

text \<open>
  The durable goal store of \<open>kollabor/state/goal_store.py\<close>: one SQLite database per project
  with the goals, their events, attempts and evidence, and the staged attachment requests.

  The tables are the fields of \<open>goal_db\<close>: a table with a text primary key is an ordered
  dictionary by that key, a table that is only appended to is a list in row order. The
  constraints of the schema are part of the statements that write: a primary key or a
  \<open>UNIQUE\<close> column that is already there, and a second unfinished goal of one conversation (the
  partial index \<open>one_unfinished_goal_per_conversation\<close>), raise \<open>IntegrityError\<close>. JSON columns
  hold the values that \<open>json.loads\<close> reads back from \<open>json.dumps\<close>.

  A store is the database with what the process reads while it runs: the successive values of
  \<open>self._clock()\<close> and of \<open>uuid.uuid4().hex\<close>. A transaction (\<open>BEGIN IMMEDIATE\<close> ...
  \<open>COMMIT\<close> or \<open>ROLLBACK\<close>) is \<open>gs_transaction\<close>; rolling back restores the tables, not the
  clock. Interleaved writers, in this process or another one, are sequences of these
  operations, each of which is atomic.
\<close>

section \<open>Errors\<close>

datatype goal_exn =
    GoalStoreError string
  | GoalNotFound string
  | StaleVersion int
  | UnfinishedGoalExists string
  | GoalAttachmentRequestNotFound
  | GoalSubmissionConflict
  | GoalAttachmentRequestCommitted string
  | GoalAttachmentRequestConflict
  | LeaseHeld string
  | StaleEpoch int int
  | ConstraintError string
  | IntegrityError
  | GoalError string
  | PyError py_exn

text \<open>The classes below \<open>GoalStoreError\<close>.\<close>

fun is_store_error :: "goal_exn \<Rightarrow> bool" where
  "is_store_error IntegrityError = False"
| "is_store_error (GoalError _) = False"
| "is_store_error (PyError _) = False"
| "is_store_error _ = True"

section \<open>Records\<close>

definition TERMINAL_STATUSES :: "string list" where
  "TERMINAL_STATUSES = [''complete'', ''cleared'']"

definition ATTEMPT_STATES :: "string list" where
  "ATTEMPT_STATES = [''pending'', ''dispatched'', ''acked'', ''settled'', ''cancelled'', ''ambiguous'']"

definition MAX_REASON_CHARS :: nat where
  "MAX_REASON_CHARS = 600"

definition redact_reason :: "string option \<Rightarrow> string option" where
  "redact_reason reason =
     map_option (\<lambda>r. if length r > MAX_REASON_CHARS then take (MAX_REASON_CHARS - 3) r @ ''...'' else r) reason"

record goal_record =
  g_goal_id :: string
  g_conversation_uid :: string
  g_objective :: string
  g_status :: string
  g_project_root :: string
  g_created_at :: real
  g_updated_at :: real
  g_session_id :: "string option"
  g_turn_count :: int
  g_continuation_seq :: int
  g_tokens_used :: "real option"
  g_token_budget :: "real option"
  g_time_used_seconds :: real
  g_last_reason :: "string option"
  g_blocked_reason :: "string option"
  g_no_progress_count :: int
  g_last_evidence :: "pydict list"
  g_attachment_refs :: "pydict list"
  g_task_ids :: "string list"
  g_scope_snapshot :: pydict
  g_owner_daemon_id :: "string option"
  g_owner_lease_expires_at :: "real option"
  g_lease_epoch :: int
  g_record_version :: int
  g_execution_generation :: int
  g_auto_turn_limit :: int
  g_auto_time_limit_s :: int
  g_completion_declared :: bool
  g_pause_requested :: bool
  g_clear_requested :: bool
  g_pending_completion :: "pydict option"
  g_blocker_keys :: "string list"

definition g_short_id :: "goal_record \<Rightarrow> string" where
  "g_short_id r = take 8 (g_goal_id r)"

definition is_unfinished :: "goal_record \<Rightarrow> bool" where
  "is_unfinished r = (g_status r \<notin> set TERMINAL_STATUSES)"

record goal_event =
  e_event_id :: string
  e_goal_id :: string
  e_sequence :: int
  e_timestamp :: real
  e_kind :: string
  e_actor :: string
  e_daemon_id :: "string option"
  e_turn_id :: "string option"
  e_reason :: "string option"
  e_status_before :: "string option"
  e_status_after :: "string option"
  e_usage_delta :: "pydict option"
  e_evidence_refs :: "pyval list option"
  e_task_ids :: "string list option"
  e_redaction_version :: int

record goal_attempt =
  a_attempt_id :: string
  a_goal_id :: string
  a_conversation_uid :: string
  a_continuation_seq :: int
  a_lease_epoch :: int
  a_execution_generation :: int
  a_state :: string
  a_created_at :: real
  a_updated_at :: real
  a_provider_request_ref :: "string option"
  a_turn_id :: "string option"
  a_outcome :: "pydict option"
  a_usage_deltas :: "pydict list"

record goal_evidence =
  v_evidence_id :: string
  v_goal_id :: string
  v_attempt_id :: string
  v_turn_id :: "string option"
  v_tool_result_id :: string
  v_kind :: string
  v_ref :: string
  v_checksum :: "string option"
  v_tool_seq :: int
  v_is_mutating :: bool
  v_created_at :: real

record attachment_request =
  q_conversation_uid :: string
  q_command_preview :: string
  q_attachment_refs :: "pydict list"
  q_created_at :: real
  q_goal_id :: "string option"

record attachment_submission =
  u_conversation_uid :: string
  u_fingerprint :: string
  u_request_id :: string

record goal_db =
  goals :: "(string, goal_record) odict"
  goal_events :: "goal_event list"
  goal_attempts :: "(string, goal_attempt) odict"
  goal_evidence_rows :: "goal_evidence list"
  attachment_rows :: "(string, attachment_request) odict"
  submission_rows :: "(string, attachment_submission) odict"

record goal_store =
  gdb :: goal_db
  clock_values :: "nat \<Rightarrow> real"
  clock_reads :: nat
  uuid_values :: "nat \<Rightarrow> string"
  uuid_reads :: nat

type_synonym 'a store_op = "(goal_store, goal_exn, 'a) op"

definition empty_db :: goal_db where
  "empty_db = \<lparr>goals = [], goal_events = [], goal_attempts = [], goal_evidence_rows = [],
     attachment_rows = [], submission_rows = []\<rparr>"

definition new_store :: "(nat \<Rightarrow> real) \<Rightarrow> (nat \<Rightarrow> string) \<Rightarrow> goal_store" where
  "new_store clock uuids = \<lparr>gdb = empty_db, clock_values = clock, clock_reads = 0,
     uuid_values = uuids, uuid_reads = 0\<rparr>"

section \<open>Field updates\<close>

text \<open>
  The keyword arguments of \<open>transition\<close> and \<open>update_fields\<close>: one constructor for each key of
  \<open>_UPDATABLE\<close> with the type of its column, and \<open>U_other\<close> for any other key.
\<close>

datatype goal_update =
    U_status string
  | U_session_id "string option"
  | U_turn_count int
  | U_continuation_seq int
  | U_tokens_used "real option"
  | U_token_budget "real option"
  | U_time_used_seconds real
  | U_last_reason "string option"
  | U_blocked_reason "string option"
  | U_no_progress_count int
  | U_last_evidence "pydict list"
  | U_attachment_refs "pydict list"
  | U_task_ids "string list"
  | U_scope_snapshot pydict
  | U_pending_completion "pydict option"
  | U_owner_daemon_id "string option"
  | U_owner_lease_expires_at "real option"
  | U_lease_epoch int
  | U_execution_generation int
  | U_pause_requested bool
  | U_clear_requested bool
  | U_completion_declared bool
  | U_blocker_keys "string list"
  | U_auto_turn_limit int
  | U_auto_time_limit_s int
  | U_other string

fun is_updatable :: "goal_update \<Rightarrow> bool" where
  "is_updatable (U_other _) = False"
| "is_updatable _ = True"

fun set_field :: "goal_update \<Rightarrow> goal_record \<Rightarrow> goal_record" where
  "set_field (U_status v) r = r\<lparr>g_status := v\<rparr>"
| "set_field (U_session_id v) r = r\<lparr>g_session_id := v\<rparr>"
| "set_field (U_turn_count v) r = r\<lparr>g_turn_count := v\<rparr>"
| "set_field (U_continuation_seq v) r = r\<lparr>g_continuation_seq := v\<rparr>"
| "set_field (U_tokens_used v) r = r\<lparr>g_tokens_used := v\<rparr>"
| "set_field (U_token_budget v) r = r\<lparr>g_token_budget := v\<rparr>"
| "set_field (U_time_used_seconds v) r = r\<lparr>g_time_used_seconds := v\<rparr>"
| "set_field (U_last_reason v) r = r\<lparr>g_last_reason := v\<rparr>"
| "set_field (U_blocked_reason v) r = r\<lparr>g_blocked_reason := v\<rparr>"
| "set_field (U_no_progress_count v) r = r\<lparr>g_no_progress_count := v\<rparr>"
| "set_field (U_last_evidence v) r = r\<lparr>g_last_evidence := v\<rparr>"
| "set_field (U_attachment_refs v) r = r\<lparr>g_attachment_refs := v\<rparr>"
| "set_field (U_task_ids v) r = r\<lparr>g_task_ids := v\<rparr>"
| "set_field (U_scope_snapshot v) r = r\<lparr>g_scope_snapshot := v\<rparr>"
| "set_field (U_pending_completion v) r = r\<lparr>g_pending_completion := v\<rparr>"
| "set_field (U_owner_daemon_id v) r = r\<lparr>g_owner_daemon_id := v\<rparr>"
| "set_field (U_owner_lease_expires_at v) r = r\<lparr>g_owner_lease_expires_at := v\<rparr>"
| "set_field (U_lease_epoch v) r = r\<lparr>g_lease_epoch := v\<rparr>"
| "set_field (U_execution_generation v) r = r\<lparr>g_execution_generation := v\<rparr>"
| "set_field (U_pause_requested v) r = r\<lparr>g_pause_requested := v\<rparr>"
| "set_field (U_clear_requested v) r = r\<lparr>g_clear_requested := v\<rparr>"
| "set_field (U_completion_declared v) r = r\<lparr>g_completion_declared := v\<rparr>"
| "set_field (U_blocker_keys v) r = r\<lparr>g_blocker_keys := v\<rparr>"
| "set_field (U_auto_turn_limit v) r = r\<lparr>g_auto_turn_limit := v\<rparr>"
| "set_field (U_auto_time_limit_s v) r = r\<lparr>g_auto_time_limit_s := v\<rparr>"
| "set_field (U_other _) r = r"

section \<open>Clock, identifiers and transactions\<close>

definition gs_now :: "real store_op" where
  "gs_now s = (Inr (clock_values s (clock_reads s)), s\<lparr>clock_reads := Suc (clock_reads s)\<rparr>)"

definition gs_uuid :: "string store_op" where
  "gs_uuid s = (Inr (uuid_values s (uuid_reads s)), s\<lparr>uuid_reads := Suc (uuid_reads s)\<rparr>)"

definition gs_rollback :: "goal_store \<Rightarrow> goal_store \<Rightarrow> goal_store" where
  "gs_rollback s s' = s'\<lparr>gdb := gdb s\<rparr>"

definition gs_transaction :: "'a store_op \<Rightarrow> 'a store_op" where
  "gs_transaction m = op_atomic gs_rollback m"

text \<open>One statement that writes: it raises when a constraint of the schema is violated.\<close>

definition gs_execute :: "(goal_db \<Rightarrow> goal_db option) \<Rightarrow> unit store_op" where
  "gs_execute stmt s =
     (case stmt (gdb s) of
        None \<Rightarrow> (Inl IntegrityError, s)
      | Some db \<Rightarrow> (Inr (), s\<lparr>gdb := db\<rparr>))"

definition gs_select :: "(goal_db \<Rightarrow> 'a) \<Rightarrow> 'a store_op" where
  "gs_select q = op_read (\<lambda>s. q (gdb s))"

section \<open>Statements\<close>

definition db_unfinished_other :: "string \<Rightarrow> string \<Rightarrow> goal_db \<Rightarrow> bool" where
  "db_unfinished_other gid uid db =
     (\<exists>(k, r) \<in> set (goals db). k \<noteq> gid \<and> g_conversation_uid r = uid \<and> is_unfinished r)"

text \<open>\<open>INSERT INTO goals\<close> and \<open>UPDATE goals ... WHERE goal_id = ?\<close>, with the primary key and the partial unique index.\<close>

definition db_insert_goal :: "goal_record \<Rightarrow> goal_db \<Rightarrow> goal_db option" where
  "db_insert_goal r db =
     (if od_get (goals db) (g_goal_id r) \<noteq> None \<or>
         is_unfinished r \<and> db_unfinished_other (g_goal_id r) (g_conversation_uid r) db
      then None
      else Some (db\<lparr>goals := od_put (g_goal_id r) r (goals db)\<rparr>))"

definition db_write_goal :: "string \<Rightarrow> goal_record \<Rightarrow> goal_db \<Rightarrow> goal_db option" where
  "db_write_goal gid r db =
     (if is_unfinished r \<and> db_unfinished_other gid (g_conversation_uid r) db then None
      else Some (db\<lparr>goals := od_put gid r (goals db)\<rparr>))"

definition db_insert_event :: "goal_event \<Rightarrow> goal_db \<Rightarrow> goal_db option" where
  "db_insert_event e db =
     (if e_event_id e \<in> set (map e_event_id (goal_events db)) then None
      else Some (db\<lparr>goal_events := goal_events db @ [e]\<rparr>))"

definition db_insert_attempt :: "goal_attempt \<Rightarrow> goal_db \<Rightarrow> goal_db option" where
  "db_insert_attempt a db =
     (if od_get (goal_attempts db) (a_attempt_id a) \<noteq> None \<or>
         (\<exists>(k, b) \<in> set (goal_attempts db). a_goal_id b = a_goal_id a \<and> a_continuation_seq b = a_continuation_seq a)
      then None
      else Some (db\<lparr>goal_attempts := od_put (a_attempt_id a) a (goal_attempts db)\<rparr>))"

definition db_write_attempt :: "string \<Rightarrow> goal_attempt \<Rightarrow> goal_db \<Rightarrow> goal_db option" where
  "db_write_attempt aid a db = Some (db\<lparr>goal_attempts := od_put aid a (goal_attempts db)\<rparr>)"

definition db_insert_evidence :: "goal_evidence \<Rightarrow> goal_db \<Rightarrow> goal_db option" where
  "db_insert_evidence v db =
     (if v_evidence_id v \<in> set (map v_evidence_id (goal_evidence_rows db)) then None
      else Some (db\<lparr>goal_evidence_rows := goal_evidence_rows db @ [v]\<rparr>))"

definition db_insert_request :: "string \<Rightarrow> attachment_request \<Rightarrow> goal_db \<Rightarrow> goal_db option" where
  "db_insert_request rid q db =
     (if od_get (attachment_rows db) rid \<noteq> None then None
      else Some (db\<lparr>attachment_rows := od_put rid q (attachment_rows db)\<rparr>))"

definition db_write_request :: "string \<Rightarrow> attachment_request \<Rightarrow> goal_db \<Rightarrow> goal_db option" where
  "db_write_request rid q db = Some (db\<lparr>attachment_rows := od_put rid q (attachment_rows db)\<rparr>)"

definition db_delete_request :: "string \<Rightarrow> goal_db \<Rightarrow> goal_db option" where
  "db_delete_request rid db = Some (db\<lparr>attachment_rows := od_del rid (attachment_rows db)\<rparr>)"

definition db_insert_submission :: "string \<Rightarrow> attachment_submission \<Rightarrow> goal_db \<Rightarrow> goal_db option" where
  "db_insert_submission key u db =
     (if od_get (submission_rows db) key \<noteq> None \<or>
         (\<exists>(k, w) \<in> set (submission_rows db). u_request_id w = u_request_id u)
      then None
      else Some (db\<lparr>submission_rows := od_put key u (submission_rows db)\<rparr>))"

section \<open>Events\<close>

text \<open>\<open>SELECT COALESCE(MAX(sequence), 0) + 1 FROM goal_events WHERE goal_id = ?\<close>\<close>

definition next_sequence :: "string \<Rightarrow> goal_db \<Rightarrow> int" where
  "next_sequence gid db =
     (case map e_sequence (filter (\<lambda>e. e_goal_id e = gid) (goal_events db)) of
        [] \<Rightarrow> 1
      | n # ns \<Rightarrow> fold max ns n + 1)"

text \<open>What a call of \<open>_append_event_row\<close> names; the other columns are filled in there.\<close>

record event_args =
  ea_kind :: string
  ea_actor :: string
  ea_daemon_id :: "string option"
  ea_turn_id :: "string option"
  ea_reason :: "string option"
  ea_status_before :: "string option"
  ea_status_after :: "string option"
  ea_usage_delta :: "pydict option"
  ea_evidence_refs :: "pyval list option"
  ea_task_ids :: "string list option"

definition event_defaults :: "string \<Rightarrow> event_args" where
  "event_defaults kind = \<lparr>ea_kind = kind, ea_actor = ''system'', ea_daemon_id = None, ea_turn_id = None,
     ea_reason = None, ea_status_before = None, ea_status_after = None, ea_usage_delta = None,
     ea_evidence_refs = None, ea_task_ids = None\<rparr>"

text \<open>A list or dictionary column is \<open>NULL\<close> when the value is empty.\<close>

definition null_if_empty :: "'a list option \<Rightarrow> 'a list option" where
  "null_if_empty v = (if v = Some [] then None else v)"

definition append_event_row :: "string \<Rightarrow> event_args \<Rightarrow> unit store_op" where
  "append_event_row gid a =
     op_bind gs_uuid (\<lambda>eid.
     op_bind (gs_select (next_sequence gid)) (\<lambda>sq.
     op_bind gs_now (\<lambda>now.
     gs_execute (db_insert_event
       \<lparr>e_event_id = eid, e_goal_id = gid, e_sequence = sq, e_timestamp = now, e_kind = ea_kind a,
        e_actor = ea_actor a, e_daemon_id = ea_daemon_id a, e_turn_id = ea_turn_id a,
        e_reason = redact_reason (ea_reason a), e_status_before = ea_status_before a,
        e_status_after = ea_status_after a, e_usage_delta = null_if_empty (ea_usage_delta a),
        e_evidence_refs = null_if_empty (ea_evidence_refs a), e_task_ids = null_if_empty (ea_task_ids a),
        e_redaction_version = 1\<rparr>))))"

definition sql_limit :: "int \<Rightarrow> 'a list \<Rightarrow> 'a list" where
  "sql_limit n xs = (if n < 0 then xs else take (nat n) xs)"

definition gs_events :: "string \<Rightarrow> int \<Rightarrow> string option \<Rightarrow> goal_event list store_op" where
  "gs_events gid limit kind = gs_select (\<lambda>db. sql_limit limit (sort_key (\<lambda>e. - e_sequence e)
     (filter (\<lambda>e. e_goal_id e = gid \<and> (kind = None \<or> kind = Some (e_kind e))) (goal_events db))))"

section \<open>Goals\<close>

definition gs_get :: "string \<Rightarrow> goal_record store_op" where
  "gs_get gid = op_bind (gs_select (\<lambda>db. od_get (goals db) gid)) (\<lambda>row.
     case row of None \<Rightarrow> op_raise (GoalNotFound gid) | Some r \<Rightarrow> op_return r)"

definition active_goal :: "string \<Rightarrow> goal_db \<Rightarrow> goal_record option" where
  "active_goal uid db =
     List.find (\<lambda>r. g_conversation_uid r = uid \<and> is_unfinished r) (map snd (goals db))"

definition gs_get_active :: "string \<Rightarrow> goal_record option store_op" where
  "gs_get_active uid = gs_select (active_goal uid)"

definition gs_history :: "string \<Rightarrow> int \<Rightarrow> goal_record list store_op" where
  "gs_history uid limit = gs_select (\<lambda>db. sql_limit limit (sort_key (\<lambda>r. - g_updated_at r)
     (filter (\<lambda>r. g_conversation_uid r = uid \<and> \<not> is_unfinished r) (map snd (goals db)))))"

record goal_args =
  ga_conversation_uid :: string
  ga_objective :: string
  ga_project_root :: string
  ga_session_id :: "string option"
  ga_token_budget :: "real option"
  ga_auto_turn_limit :: int
  ga_auto_time_limit_s :: int
  ga_attachment_refs :: "pydict list"
  ga_task_ids :: "string list"
  ga_scope_snapshot :: pydict
  ga_attachment_request_id :: "string option"

definition fresh_goal :: "string \<Rightarrow> real \<Rightarrow> goal_args \<Rightarrow> goal_record" where
  "fresh_goal gid now a =
     \<lparr>g_goal_id = gid, g_conversation_uid = ga_conversation_uid a, g_objective = ga_objective a,
      g_status = ''active'', g_project_root = ga_project_root a, g_created_at = now, g_updated_at = now,
      g_session_id = ga_session_id a, g_turn_count = 0, g_continuation_seq = 0, g_tokens_used = None,
      g_token_budget = ga_token_budget a, g_time_used_seconds = 0, g_last_reason = None,
      g_blocked_reason = None, g_no_progress_count = 0, g_last_evidence = [],
      g_attachment_refs = ga_attachment_refs a, g_task_ids = ga_task_ids a,
      g_scope_snapshot = ga_scope_snapshot a, g_owner_daemon_id = None, g_owner_lease_expires_at = None,
      g_lease_epoch = 0, g_record_version = 1, g_execution_generation = 1,
      g_auto_turn_limit = ga_auto_turn_limit a, g_auto_time_limit_s = ga_auto_time_limit_s a,
      g_completion_declared = False, g_pause_requested = False, g_clear_requested = False,
      g_pending_completion = None, g_blocker_keys = []\<rparr>"

definition given_id :: "string option \<Rightarrow> string option" where
  "given_id v = (if v = Some [] then None else v)"

text \<open>The attachments of the new goal: the direct ones, or those of the staged request.\<close>

definition request_refs :: "goal_args \<Rightarrow> pydict list store_op" where
  "request_refs a =
     (case given_id (ga_attachment_request_id a) of
        None \<Rightarrow> op_return (ga_attachment_refs a)
      | Some rid \<Rightarrow>
          if ga_attachment_refs a \<noteq> [] then op_raise (GoalStoreError ''cannot combine request and direct attachments'')
          else op_bind (gs_select (\<lambda>db. od_get (attachment_rows db) rid)) (\<lambda>row.
            case row of
              None \<Rightarrow> op_raise GoalAttachmentRequestNotFound
            | Some q \<Rightarrow>
                if q_conversation_uid q \<noteq> ga_conversation_uid a then op_raise GoalAttachmentRequestNotFound
                else (case given_id (q_goal_id q) of
                  None \<Rightarrow> op_return (q_attachment_refs q)
                | Some gid \<Rightarrow> op_bind (gs_select (\<lambda>db. od_get (goals db) gid)) (\<lambda>previous.
                    case previous of
                      Some p \<Rightarrow>
                        if g_objective p = ga_objective a \<and> g_token_budget p = ga_token_budget a
                        then op_raise (GoalAttachmentRequestCommitted gid)
                        else op_raise GoalAttachmentRequestConflict
                    | None \<Rightarrow> op_raise GoalAttachmentRequestConflict))))"

definition consume_request :: "string option \<Rightarrow> string \<Rightarrow> string \<Rightarrow> unit store_op" where
  "consume_request rid uid gid =
     (case given_id rid of
        None \<Rightarrow> op_return ()
      | Some rid \<Rightarrow> op_bind (gs_select (\<lambda>db. od_get (attachment_rows db) rid)) (\<lambda>row.
          case row of
            Some q \<Rightarrow> if q_conversation_uid q = uid
              then gs_execute (db_write_request rid (q\<lparr>q_goal_id := Some gid, q_attachment_refs := []\<rparr>))
              else op_return ()
          | None \<Rightarrow> op_return ()))"

definition gs_create :: "goal_args \<Rightarrow> goal_record store_op" where
  "gs_create a =
     op_bind gs_now (\<lambda>now.
     op_bind gs_uuid (\<lambda>gid.
     op_catch
       (gs_transaction
         (op_bind (request_refs a) (\<lambda>refs.
          let record = (fresh_goal gid now a)\<lparr>g_attachment_refs := refs\<rparr> in
          op_then (gs_execute (db_insert_goal record))
         (op_then (append_event_row gid ((event_defaults ''created'')
              \<lparr>ea_actor := ''user'', ea_status_after := Some ''active'', ea_task_ids := Some (ga_task_ids a)\<rparr>))
         (op_then (consume_request (ga_attachment_request_id a) (ga_conversation_uid a) gid)
           (op_return record))))))
       (\<lambda>exc. if exc = IntegrityError
          then op_bind (gs_get_active (ga_conversation_uid a)) (\<lambda>existing.
            case existing of
              Some other \<Rightarrow> op_raise (UnfinishedGoalExists (g_goal_id other))
            | None \<Rightarrow> op_raise (ConstraintError ''constraint failed''))
          else op_raise exc)))"

text \<open>The keyword arguments of \<open>transition\<close> that go into the event.\<close>

record transition_args =
  ta_actor :: string
  ta_daemon_id :: "string option"
  ta_turn_id :: "string option"
  ta_reason :: "string option"
  ta_evidence_refs :: "pyval list option"

definition transition_defaults :: transition_args where
  "transition_defaults = \<lparr>ta_actor = ''daemon'', ta_daemon_id = None, ta_turn_id = None,
     ta_reason = None, ta_evidence_refs = None\<rparr>"

definition check_updatable :: "goal_update list \<Rightarrow> unit store_op" where
  "check_updatable us =
     (if list_all is_updatable us then op_return () else op_raise (GoalStoreError ''non-updatable fields''))"

text \<open>The record that the \<open>UPDATE\<close> leaves: the fields set, the version one higher, the time of the write.\<close>

definition updated_record :: "goal_update list \<Rightarrow> real \<Rightarrow> goal_record \<Rightarrow> goal_record" where
  "updated_record us now r =
     (fold set_field us r)\<lparr>g_record_version := g_record_version r + 1, g_updated_at := now\<rparr>"

fun update_status :: "goal_update \<Rightarrow> string option \<Rightarrow> string option" where
  "update_status (U_status v) _ = Some v"
| "update_status _ st = st"

definition transition_tx ::
  "string \<Rightarrow> int \<Rightarrow> string \<Rightarrow> transition_args \<Rightarrow> goal_update list \<Rightarrow> unit store_op" where
  "transition_tx gid expected_version event_kind a us =
     op_bind (gs_select (\<lambda>db. od_get (goals db) gid)) (\<lambda>row.
     case row of
       None \<Rightarrow> op_raise (GoalNotFound gid)
     | Some r \<Rightarrow>
         if g_record_version r \<noteq> expected_version then op_raise (StaleVersion (g_record_version r))
         else
           op_bind gs_now (\<lambda>now.
           op_then (gs_execute (db_write_goal gid (updated_record us now r)))
           (append_event_row gid ((event_defaults event_kind)
             \<lparr>ea_actor := ta_actor a, ea_daemon_id := ta_daemon_id a, ea_turn_id := ta_turn_id a,
              ea_reason := ta_reason a, ea_status_before := Some (g_status r),
              ea_status_after := fold update_status us (Some (g_status r)),
              ea_evidence_refs := ta_evidence_refs a\<rparr>))))"

definition gs_transition ::
  "string \<Rightarrow> int \<Rightarrow> string \<Rightarrow> transition_args \<Rightarrow> goal_update list \<Rightarrow> goal_record store_op" where
  "gs_transition gid expected_version event_kind a us =
     op_then (check_updatable us)
    (op_then (gs_transaction (transition_tx gid expected_version event_kind a us)) (gs_get gid))"

definition gs_update_fields :: "string \<Rightarrow> int \<Rightarrow> goal_update list \<Rightarrow> goal_record store_op" where
  "gs_update_fields gid expected_version us =
     op_then (check_updatable us)
    (op_then
      (gs_transaction
        (op_bind gs_now (\<lambda>now.
         op_bind (gs_select (\<lambda>db. od_get (goals db) gid)) (\<lambda>row.
         case row of
           None \<Rightarrow> op_raise (GoalNotFound gid)
         | Some r \<Rightarrow>
             if g_record_version r \<noteq> expected_version then op_raise (StaleVersion (g_record_version r))
             else gs_execute (db_write_goal gid (updated_record us now r))))))
      (gs_get gid))"

section \<open>Attachment requests\<close>

definition request_preview :: "string \<Rightarrow> string" where
  "request_preview command_text =
     (let preview = join_on '' '' (str_split command_text) in
      take 160 (if str_contains ''data:image/'' (str_lower preview) \<or> str_contains ''base64'' (str_lower preview)
        then ''[command text hidden]'' else preview))"

definition gs_stage_attachment_request :: "string \<Rightarrow> string \<Rightarrow> pydict list \<Rightarrow> string store_op" where
  "gs_stage_attachment_request uid command_text refs =
     (if uid = [] \<or> refs = [] then op_raise (GoalStoreError ''attachment request requires a conversation and images'')
      else
        op_bind gs_uuid (\<lambda>rid.
        op_bind gs_now (\<lambda>now.
        op_then (gs_execute (db_insert_request rid
          \<lparr>q_conversation_uid = uid, q_command_preview = request_preview command_text,
           q_attachment_refs = refs, q_created_at = now, q_goal_id = None\<rparr>))
        (op_return rid))))"

record submission_receipt =
  sr_request_id :: string
  sr_goal_id :: "string option"
  sr_discarded :: bool

definition gs_attachment_submission :: "string \<Rightarrow> string \<Rightarrow> string \<Rightarrow> submission_receipt option store_op" where
  "gs_attachment_submission key uid fingerprint =
     op_bind (gs_select (\<lambda>db. map_option (\<lambda>u. (u, od_get (attachment_rows db) (u_request_id u)))
         (od_get (submission_rows db) key))) (\<lambda>row.
     case row of
       None \<Rightarrow> op_return None
     | Some (u, q) \<Rightarrow>
         if u_conversation_uid u \<noteq> uid \<or> u_fingerprint u \<noteq> fingerprint then op_raise GoalSubmissionConflict
         else op_return (Some \<lparr>sr_request_id = u_request_id u,
           sr_goal_id = (case q of None \<Rightarrow> None | Some q \<Rightarrow> q_goal_id q), sr_discarded = (q = None)\<rparr>))"

definition gs_stage_attachment_submission ::
  "string \<Rightarrow> string \<Rightarrow> string \<Rightarrow> string \<Rightarrow> pydict list \<Rightarrow> (submission_receipt \<times> bool) store_op" where
  "gs_stage_attachment_submission key uid fingerprint command_text refs =
     gs_transaction
       (op_bind (gs_attachment_submission key uid fingerprint) (\<lambda>existing.
        case existing of
          Some receipt \<Rightarrow> op_return (receipt, False)
        | None \<Rightarrow>
            op_bind (gs_stage_attachment_request uid command_text refs) (\<lambda>rid.
            op_then (gs_execute (db_insert_submission key
              \<lparr>u_conversation_uid = uid, u_fingerprint = fingerprint, u_request_id = rid\<rparr>))
            (op_return (\<lparr>sr_request_id = rid, sr_goal_id = None, sr_discarded = False\<rparr>, True)))))"

text \<open>The rows of a conversation, \<open>ORDER BY created_at, request_id\<close>.\<close>

definition conversation_requests :: "string \<Rightarrow> goal_db \<Rightarrow> (string \<times> attachment_request) list" where
  "conversation_requests uid db = sort_key (\<lambda>(rid, q). (q_created_at q, rid))
     (filter (\<lambda>(rid, q). q_conversation_uid q = uid) (attachment_rows db))"

definition gs_pending_attachment_requests :: "string \<Rightarrow> (string \<times> string) list store_op" where
  "gs_pending_attachment_requests uid = gs_select (\<lambda>db.
     map (\<lambda>(rid, q). (rid, q_command_preview q))
       (filter (\<lambda>(rid, q). q_goal_id q = None) (conversation_requests uid db)))"

definition gs_attachment_requests :: "string \<Rightarrow> (string \<times> string \<times> string option) list store_op" where
  "gs_attachment_requests uid = gs_select (\<lambda>db.
     map (\<lambda>(rid, q). (rid, q_command_preview q, q_goal_id q)) (conversation_requests uid db))"

definition gs_attachment_request :: "string \<Rightarrow> string \<Rightarrow> (string \<times> string option) option store_op" where
  "gs_attachment_request uid rid = gs_select (\<lambda>db.
     case od_get (attachment_rows db) rid of
       Some q \<Rightarrow> if q_conversation_uid q = uid then Some (rid, q_goal_id q) else None
     | None \<Rightarrow> None)"

definition gs_discard_attachment_request :: "string \<Rightarrow> string \<Rightarrow> bool store_op" where
  "gs_discard_attachment_request uid rid =
     op_bind (gs_select (\<lambda>db. od_get (attachment_rows db) rid)) (\<lambda>row.
     case row of
       Some q \<Rightarrow>
         if q_conversation_uid q = uid \<and> q_goal_id q = None
         then op_then (gs_execute (db_delete_request rid)) (op_return True)
         else op_return False
     | None \<Rightarrow> op_return False)"

section \<open>Attempts\<close>

definition gs_get_attempt :: "string \<Rightarrow> goal_attempt store_op" where
  "gs_get_attempt aid = op_bind (gs_select (\<lambda>db. od_get (goal_attempts db) aid)) (\<lambda>row.
     case row of None \<Rightarrow> op_raise (GoalNotFound aid) | Some a \<Rightarrow> op_return a)"

definition attempts_of :: "string \<Rightarrow> goal_db \<Rightarrow> goal_attempt list" where
  "attempts_of gid db =
     sort_key a_continuation_seq (filter (\<lambda>a. a_goal_id a = gid) (map snd (goal_attempts db)))"

definition unfinished_of :: "string \<Rightarrow> goal_db \<Rightarrow> goal_attempt list" where
  "unfinished_of gid db =
     sort_key a_continuation_seq
       (filter (\<lambda>a. a_goal_id a = gid \<and> a_state a \<notin> {''settled'', ''cancelled'', ''ambiguous''})
         (map snd (goal_attempts db)))"

definition gs_attempts :: "string \<Rightarrow> goal_attempt list store_op" where
  "gs_attempts gid = gs_select (attempts_of gid)"

definition gs_unfinished_attempts :: "string \<Rightarrow> goal_attempt list store_op" where
  "gs_unfinished_attempts gid = gs_select (unfinished_of gid)"

definition gs_insert_attempt ::
  "string \<Rightarrow> int \<Rightarrow> int \<Rightarrow> int \<Rightarrow> string \<Rightarrow> string option \<Rightarrow> goal_attempt store_op" where
  "gs_insert_attempt gid sq epoch generation st conversation_uid =
     (if st \<notin> set ATTEMPT_STATES then op_raise (GoalStoreError ''invalid attempt state'')
      else
        op_bind gs_now (\<lambda>now.
        op_bind (case conversation_uid of
            Some uid \<Rightarrow> op_return uid
          | None \<Rightarrow> op_bind (gs_get gid) (\<lambda>r. op_return (g_conversation_uid r))) (\<lambda>uid.
        op_bind gs_uuid (\<lambda>aid.
        let attempt = \<lparr>a_attempt_id = aid, a_goal_id = gid, a_conversation_uid = uid,
              a_continuation_seq = sq, a_lease_epoch = epoch, a_execution_generation = generation,
              a_state = st, a_created_at = now, a_updated_at = now, a_provider_request_ref = None,
              a_turn_id = None, a_outcome = None, a_usage_deltas = []\<rparr> in
        op_then
          (op_catch (gs_transaction (gs_execute (db_insert_attempt attempt)))
            (\<lambda>exc. if exc = IntegrityError then op_raise (ConstraintError ''attempt already exists'') else op_raise exc))
          (op_return attempt)))))"

text \<open>\<open>UPDATE goal_attempts SET ... WHERE attempt_id = ? AND lease_epoch = ?\<close>\<close>

definition fenced_attempt_update :: "string \<Rightarrow> int \<Rightarrow> (goal_attempt \<Rightarrow> goal_attempt) \<Rightarrow> goal_attempt store_op" where
  "fenced_attempt_update aid epoch sets =
     op_bind gs_now (\<lambda>now.
     op_bind (gs_select (\<lambda>db. od_get (goal_attempts db) aid)) (\<lambda>row.
     case row of
       None \<Rightarrow> op_raise (GoalNotFound aid)
     | Some a \<Rightarrow>
         if a_lease_epoch a \<noteq> epoch then op_raise (StaleEpoch epoch (a_lease_epoch a))
         else op_then (gs_execute (db_write_attempt aid ((sets a)\<lparr>a_updated_at := now\<rparr>))) (gs_get_attempt aid)))"

definition gs_mark_ack :: "string \<Rightarrow> int \<Rightarrow> string option \<Rightarrow> goal_attempt store_op" where
  "gs_mark_ack aid epoch provider_ref =
     fenced_attempt_update aid epoch (\<lambda>a. a\<lparr>a_state := ''acked'', a_provider_request_ref := provider_ref\<rparr>)"

definition gs_settle_attempt :: "string \<Rightarrow> int \<Rightarrow> string option \<Rightarrow> pydict \<Rightarrow> pydict list \<Rightarrow> goal_attempt store_op" where
  "gs_settle_attempt aid epoch turn_id outcome usage_deltas =
     fenced_attempt_update aid epoch (\<lambda>a. a\<lparr>a_state := ''settled'', a_turn_id := turn_id,
       a_outcome := Some outcome, a_usage_deltas := usage_deltas\<rparr>)"

definition gs_cancel_attempt :: "string \<Rightarrow> int \<Rightarrow> goal_attempt store_op" where
  "gs_cancel_attempt aid epoch = fenced_attempt_update aid epoch (\<lambda>a. a\<lparr>a_state := ''cancelled''\<rparr>)"

section \<open>Lease and recovery\<close>

definition lease_held :: "string \<Rightarrow> real \<Rightarrow> goal_record \<Rightarrow> bool" where
  "lease_held daemon now r =
     (case (g_owner_daemon_id r, g_owner_lease_expires_at r) of
        (Some owner, Some expires) \<Rightarrow> owner \<noteq> daemon \<and> expires > now
      | _ \<Rightarrow> False)"

definition gs_claim :: "string \<Rightarrow> string \<Rightarrow> real \<Rightarrow> int option \<Rightarrow> goal_record store_op" where
  "gs_claim gid daemon lease_seconds expected_version =
     op_bind gs_now (\<lambda>now.
     op_bind (gs_get gid) (\<lambda>r.
     if lease_held daemon now r then op_raise (LeaseHeld (the (g_owner_daemon_id r)))
     else
       let version = (case expected_version of
           Some v \<Rightarrow> if v = 0 then g_record_version r else v
         | None \<Rightarrow> g_record_version r) in
       gs_transition gid version ''claimed''
         (transition_defaults\<lparr>ta_actor := ''daemon'', ta_daemon_id := Some daemon\<rparr>)
         [U_owner_daemon_id (Some daemon), U_owner_lease_expires_at (Some (now + lease_seconds))]))"

record recovery_report =
  rr_cancelled :: "string list"
  rr_ambiguous :: "string list"
  rr_epoch :: int

text \<open>One unfinished attempt: a pending one is cancelled, one that was dispatched or acknowledged is ambiguous.\<close>

definition recovered_state :: "goal_attempt \<Rightarrow> string" where
  "recovered_state a = (if a_state a = ''pending'' then ''cancelled'' else ''ambiguous'')"

definition recover_attempt :: "int \<Rightarrow> real \<Rightarrow> goal_attempt \<Rightarrow> unit store_op" where
  "recover_attempt epoch now a =
     op_bind (gs_select (\<lambda>db. od_get (goal_attempts db) (a_attempt_id a))) (\<lambda>row.
     case row of
       None \<Rightarrow> op_return ()
     | Some b \<Rightarrow> gs_execute (db_write_attempt (a_attempt_id a)
         (b\<lparr>a_state := recovered_state a, a_lease_epoch := epoch, a_updated_at := now\<rparr>)))"

definition CUT_OFF_REASON :: string where
  "CUT_OFF_REASON = ''a turn was cut off before it finished: check its work, then /goal resume''"

definition recovered_goal :: "int \<Rightarrow> string \<Rightarrow> real \<Rightarrow> real \<Rightarrow> bool \<Rightarrow> goal_record \<Rightarrow> goal_record" where
  "recovered_goal epoch daemon expires now ambiguous r =
     (let r' = r\<lparr>g_lease_epoch := epoch, g_owner_daemon_id := Some daemon,
            g_owner_lease_expires_at := Some expires, g_updated_at := now,
            g_record_version := g_record_version r + 1\<rparr> in
      if ambiguous then r'\<lparr>g_status := ''paused'', g_blocked_reason := Some CUT_OFF_REASON,
            g_last_reason := Some CUT_OFF_REASON\<rparr>
      else r')"

definition gs_recover_lease :: "string \<Rightarrow> string \<Rightarrow> real \<Rightarrow> (goal_record \<times> recovery_report) store_op" where
  "gs_recover_lease gid daemon lease_seconds =
     op_bind gs_now (\<lambda>now.
     op_bind (gs_transaction
       (op_bind (gs_get gid) (\<lambda>r.
        if lease_held daemon now r then op_raise (LeaseHeld (the (g_owner_daemon_id r)))
        else
          op_bind (gs_unfinished_attempts gid) (\<lambda>atts.
          let epoch = g_lease_epoch r + 1;
              report = \<lparr>rr_cancelled = map a_attempt_id (filter (\<lambda>a. a_state a = ''pending'') atts),
                rr_ambiguous = map a_attempt_id (filter (\<lambda>a. a_state a \<noteq> ''pending'') atts), rr_epoch = epoch\<rparr>;
              ambiguous = (rr_ambiguous report \<noteq> []);
              reason = (if ambiguous then Some CUT_OFF_REASON else None) in
          op_then (op_for (recover_attempt epoch now) atts)
         (op_then (gs_execute (db_write_goal gid (recovered_goal epoch daemon (now + lease_seconds) now ambiguous r)))
         (op_then (append_event_row gid ((event_defaults ''lease_recovered'')
            \<lparr>ea_daemon_id := Some daemon, ea_reason := reason, ea_status_before := Some (g_status r),
             ea_status_after := Some (if ambiguous then ''paused'' else g_status r)\<rparr>))
         (op_then
            (if ambiguous then append_event_row gid ((event_defaults ''reconcile_paused'')
               \<lparr>ea_daemon_id := Some daemon, ea_reason := reason, ea_status_before := Some (g_status r),
                ea_status_after := Some ''paused''\<rparr>)
             else op_return ())
            (op_return report))))))))
     (\<lambda>report. op_bind (gs_get gid) (\<lambda>r. op_return (r, report))))"

section \<open>Evidence\<close>

record evidence_args =
  va_goal_id :: string
  va_attempt_id :: string
  va_tool_result_id :: string
  va_kind :: string
  va_ref :: string
  va_tool_seq :: int
  va_turn_id :: "string option"
  va_checksum :: "string option"
  va_is_mutating :: bool

definition gs_record_evidence :: "evidence_args \<Rightarrow> goal_evidence store_op" where
  "gs_record_evidence a =
     op_bind gs_now (\<lambda>now.
     op_bind gs_uuid (\<lambda>vid.
     let ev = \<lparr>v_evidence_id = vid, v_goal_id = va_goal_id a, v_attempt_id = va_attempt_id a,
           v_turn_id = va_turn_id a, v_tool_result_id = va_tool_result_id a, v_kind = va_kind a,
           v_ref = va_ref a, v_checksum = va_checksum a, v_tool_seq = va_tool_seq a,
           v_is_mutating = va_is_mutating a, v_created_at = now\<rparr> in
     op_then (gs_execute (db_insert_evidence ev)) (op_return ev)))"

definition evidence_of :: "string \<Rightarrow> goal_db \<Rightarrow> goal_evidence list" where
  "evidence_of gid db = sort_key v_created_at (filter (\<lambda>v. v_goal_id v = gid) (goal_evidence_rows db))"

definition gs_evidence_for :: "string \<Rightarrow> goal_evidence list store_op" where
  "gs_evidence_for gid = gs_select (evidence_of gid)"

section \<open>What a write keeps\<close>

text \<open>
  The two kinds of write to a goal, a caller's fields and the recovery of a lease, keep what
  identifies the goal and move its version one on.
\<close>

definition goal_write :: "goal_record \<Rightarrow> goal_record \<Rightarrow> bool" where
  "goal_write r r' \<longleftrightarrow>
     g_goal_id r' = g_goal_id r \<and> g_conversation_uid r' = g_conversation_uid r \<and>
     g_objective r' = g_objective r \<and> g_project_root r' = g_project_root r \<and>
     g_created_at r' = g_created_at r \<and> g_record_version r' = g_record_version r + 1"

definition attempt_write :: "goal_attempt \<Rightarrow> goal_attempt \<Rightarrow> bool" where
  "attempt_write a a' \<longleftrightarrow>
     a_attempt_id a' = a_attempt_id a \<and> a_goal_id a' = a_goal_id a \<and>
     a_conversation_uid a' = a_conversation_uid a \<and> a_continuation_seq a' = a_continuation_seq a \<and>
     a_execution_generation a' = a_execution_generation a \<and> a_created_at a' = a_created_at a \<and>
     a_state a' \<in> set ATTEMPT_STATES"

lemma set_field_keeps [simp]:
  "g_goal_id (set_field u r) = g_goal_id r" "g_conversation_uid (set_field u r) = g_conversation_uid r"
  "g_objective (set_field u r) = g_objective r" "g_project_root (set_field u r) = g_project_root r"
  "g_created_at (set_field u r) = g_created_at r" "g_record_version (set_field u r) = g_record_version r"
  by (cases u; simp)+

lemma set_fields_keep [simp]:
  "g_goal_id (fold set_field us r) = g_goal_id r"
  "g_conversation_uid (fold set_field us r) = g_conversation_uid r"
  "g_objective (fold set_field us r) = g_objective r"
  "g_project_root (fold set_field us r) = g_project_root r"
  "g_created_at (fold set_field us r) = g_created_at r"
  "g_record_version (fold set_field us r) = g_record_version r"
  by (induction us arbitrary: r) simp_all

lemma goal_write_updated: "goal_write r (updated_record us now r)"
  by (simp add: goal_write_def updated_record_def)

lemma goal_write_recovered: "goal_write r (recovered_goal epoch daemon expires now amb r)"
  by (simp add: goal_write_def recovered_goal_def Let_def)

lemma update_status_fold: "fold update_status us (Some (g_status r)) = Some (g_status (fold set_field us r))"
proof (induction us arbitrary: r)
  case (Cons u us)
  have "update_status u (Some (g_status r)) = Some (g_status (set_field u r))" by (cases u) simp_all
  then show ?case using Cons.IH [of "set_field u r"] by simp
qed simp

lemma attempt_states [simp]:
  "''pending'' \<in> set ATTEMPT_STATES" "''dispatched'' \<in> set ATTEMPT_STATES" "''acked'' \<in> set ATTEMPT_STATES"
  "''settled'' \<in> set ATTEMPT_STATES" "''cancelled'' \<in> set ATTEMPT_STATES" "''ambiguous'' \<in> set ATTEMPT_STATES"
  by (simp_all add: ATTEMPT_STATES_def)

lemma recovered_state_in [simp]: "recovered_state a \<in> set ATTEMPT_STATES"
  by (simp add: recovered_state_def)

lemma gs_select_eq: "gs_select q s = (r, s') \<longleftrightarrow> r = Inr (q (gdb s)) \<and> s' = s"
  by (auto simp: gs_select_def op_simps)

lemma gs_select_run [op_simps]: "gs_select q s = (Inr (q (gdb s)), s)"
  by (simp add: gs_select_eq)

lemma gs_get_eq:
  "gs_get gid s = (case od_get (goals (gdb s)) gid of None \<Rightarrow> Inl (GoalNotFound gid) | Some r \<Rightarrow> Inr r, s)"
  by (simp add: gs_get_def op_bind_def op_simps split: option.split)

section \<open>Properties that every operation keeps\<close>

text \<open>
  A property of the database is kept by an operation of the store when the statements keep it.
  \<open>table_property\<close> has the statements other than the write of a goal: the assumptions say what
  the code guarantees of a row when it writes it, and the operations that write goals are treated
  up to that write. \<open>db_property\<close> adds that any write of a goal keeps the property; then every
  operation does, with whatever arguments. Each invariant below is an interpretation.
\<close>

locale table_property =
  fixes J :: "goal_db \<Rightarrow> bool"
  assumes insert_goal: "J db \<Longrightarrow> db_insert_goal ((fresh_goal gid now a)\<lparr>g_attachment_refs := refs\<rparr>) db = Some db' \<Longrightarrow> J db'"
    and insert_event: "J db \<Longrightarrow> e_sequence e = next_sequence (e_goal_id e) db \<Longrightarrow> db_insert_event e db = Some db' \<Longrightarrow> J db'"
    and insert_attempt: "J db \<Longrightarrow> a_state b \<in> set ATTEMPT_STATES \<Longrightarrow> db_insert_attempt b db = Some db' \<Longrightarrow> J db'"
    and write_attempt: "J db \<Longrightarrow> od_get (goal_attempts db) aid = Some b \<Longrightarrow> attempt_write b b' \<Longrightarrow> db_write_attempt aid b' db = Some db' \<Longrightarrow> J db'"
    and insert_evidence: "J db \<Longrightarrow> db_insert_evidence v db = Some db' \<Longrightarrow> J db'"
    and insert_request: "J db \<Longrightarrow> db_insert_request rid q db = Some db' \<Longrightarrow> J db'"
    and write_request: "J db \<Longrightarrow> db_write_request rid q db = Some db' \<Longrightarrow> J db'"
    and delete_request: "J db \<Longrightarrow> db_delete_request rid db = Some db' \<Longrightarrow> J db'"
    and insert_submission: "J db \<Longrightarrow> db_insert_submission key u db = Some db' \<Longrightarrow> J db'"
begin

abbreviation ok :: "goal_store \<Rightarrow> bool" where
  "ok s \<equiv> J (gdb s)"

lemma keeps_now: "op_hoare (\<lambda>s. P (gdb s)) gs_now (\<lambda>_ s. P (gdb s)) (\<lambda>_ s. P (gdb s))"
  by (simp add: op_hoare_def gs_now_def)

lemma keeps_uuid: "op_hoare (\<lambda>s. P (gdb s)) gs_uuid (\<lambda>_ s. P (gdb s)) (\<lambda>_ s. P (gdb s))"
  by (simp add: op_hoare_def gs_uuid_def)

lemma keeps_select: "op_keeps ok (gs_select q)"
  unfolding gs_select_def by (rule op_hoare_read)

lemma keeps_row:
  "op_hoare ok (gs_select (\<lambda>db. od_get (tab db) k)) (\<lambda>row s. J (gdb s) \<and> od_get (tab (gdb s)) k = row) (\<lambda>_. ok)"
  unfolding gs_select_def by (rule op_hoare_read) simp

lemma keeps_execute:
  assumes "\<And>db db'. P db \<Longrightarrow> stmt db = Some db' \<Longrightarrow> J db'" and "\<And>db. P db \<Longrightarrow> J db"
  shows "op_hoare (\<lambda>s. P (gdb s)) (gs_execute stmt) (\<lambda>_. ok) (\<lambda>_. ok)"
  by (rule op_hoareI) (auto simp: gs_execute_def assms split: option.splits)

lemma keeps_transaction: "op_keeps ok m \<Longrightarrow> op_keeps ok (gs_transaction m)"
  unfolding gs_transaction_def by (rule op_keeps_atomic) (simp_all add: gs_rollback_def)

lemmas base_rules = keeps_now keeps_uuid keeps_select keeps_transaction

lemma keeps_append_event: "op_keeps ok (append_event_row gid a)"
proof -
  have sel: "op_hoare ok (gs_select (next_sequence gid)) (\<lambda>sq s. J (gdb s) \<and> sq = next_sequence gid (gdb s)) (\<lambda>_. ok)"
    unfolding gs_select_def by (rule op_hoare_read) simp
  have ins: "op_hoare (\<lambda>s. J (gdb s) \<and> sq = next_sequence gid (gdb s)) (op_bind gs_now (\<lambda>now. gs_execute (db_insert_event (e now))))
      (\<lambda>_. ok) (\<lambda>_. ok)" if e: "\<And>now. e_goal_id (e now) = gid" "\<And>now. e_sequence (e now) = sq" for sq e
  proof (rule op_hoare_bind)
    show "op_hoare (\<lambda>s. J (gdb s) \<and> sq = next_sequence gid (gdb s)) gs_now
        (\<lambda>_ s. J (gdb s) \<and> sq = next_sequence gid (gdb s)) (\<lambda>_. ok)"
      by (rule op_hoare_weaken [OF keeps_now [of "\<lambda>db. J db \<and> sq = next_sequence gid db"]]) simp_all
    show "op_hoare (\<lambda>s. J (gdb s) \<and> sq = next_sequence gid (gdb s)) (gs_execute (db_insert_event (e x)))
        (\<lambda>_. ok) (\<lambda>_. ok)" for x
      by (rule keeps_execute) (metis e insert_event)+
  qed
  show ?thesis
    unfolding append_event_row_def
    by (rule op_hoare_bind [OF keeps_uuid [of J]], rule op_hoare_bind, rule sel, rule ins) simp_all
qed

lemma keeps_get: "op_keeps ok (gs_get gid)"
  unfolding gs_get_def by (intro hoare_intros base_rules)

lemma keeps_get_row:
  "op_hoare ok (gs_get gid) (\<lambda>r s. J (gdb s) \<and> od_get (goals (gdb s)) gid = Some r) (\<lambda>_. ok)"
  unfolding gs_get_def gs_select_def by (rule op_hoareI) (auto simp: op_bind_def op_simps split: option.splits)

lemma keeps_check: "op_keeps ok (check_updatable us)"
  unfolding check_updatable_def by (intro hoare_intros)

lemma keeps_request_refs: "op_keeps ok (request_refs a)"
  unfolding request_refs_def by (intro hoare_intros base_rules)

lemma keeps_request_write: "op_keeps ok (gs_execute (db_write_request rid q))"
  by (rule keeps_execute) (auto intro: write_request)

lemma keeps_consume: "op_keeps ok (consume_request rid uid gid)"
  unfolding consume_request_def by (intro hoare_intros base_rules keeps_request_write)

lemma keeps_insert_goal:
  "op_keeps ok (gs_execute (db_insert_goal ((fresh_goal gid now a)\<lparr>g_attachment_refs := refs\<rparr>)))"
  by (rule keeps_execute) (auto intro: insert_goal)

lemma keeps_create: "op_keeps ok (gs_create a)"
  unfolding gs_create_def gs_get_active_def
  by (intro hoare_intros base_rules keeps_request_refs keeps_insert_goal keeps_append_event keeps_consume)

lemma keeps_cond_now:
  "op_hoare (\<lambda>s. J (gdb s) \<and> P (gdb s)) gs_now (\<lambda>_ s. J (gdb s) \<and> P (gdb s)) (\<lambda>_. ok)"
  by (rule op_hoare_weaken [OF keeps_now [of "\<lambda>db. J db \<and> P db"]]) simp_all

lemma keeps_cond_row:
  "op_hoare (\<lambda>s. J (gdb s) \<and> P (gdb s)) (gs_select (\<lambda>db. od_get (goals db) gid))
     (\<lambda>row s. J (gdb s) \<and> P (gdb s) \<and> od_get (goals (gdb s)) gid = row) (\<lambda>_. ok)"
  unfolding gs_select_def by (rule op_hoare_read) simp

lemma keeps_cond_get:
  "op_hoare (\<lambda>s. J (gdb s) \<and> P (gdb s)) (gs_get gid)
     (\<lambda>r s. J (gdb s) \<and> P (gdb s) \<and> od_get (goals (gdb s)) gid = Some r) (\<lambda>_. ok)"
  by (rule op_hoareI) (auto simp: gs_get_eq split: option.splits)

lemma keeps_transaction_if:
  "op_hoare (\<lambda>s. J (gdb s) \<and> P (gdb s)) m (\<lambda>_. ok) (\<lambda>_. ok) \<Longrightarrow>
   op_hoare (\<lambda>s. J (gdb s) \<and> P (gdb s)) (gs_transaction m) (\<lambda>_. ok) (\<lambda>_. ok)"
  unfolding gs_transaction_def
  by (rule op_hoareI) (auto simp: op_atomic_def gs_rollback_def split: prod.splits sum.splits dest: op_hoare_Inr)

lemma keeps_check_if: "op_hoare (\<lambda>s. J (gdb s) \<and> P (gdb s)) (check_updatable us) (\<lambda>_ s. J (gdb s) \<and> P (gdb s)) (\<lambda>_. ok)"
  unfolding check_updatable_def by (auto intro!: op_hoare_if op_hoare_return op_hoare_raise)

text \<open>A write of the goal keeps the property when its row is the one with the expected version.\<close>

lemma keeps_write_if:
  assumes w: "\<And>db db' r. J db \<Longrightarrow> P db \<Longrightarrow> od_get (goals db) gid = Some r \<Longrightarrow> g_record_version r = v \<Longrightarrow>
      db_write_goal gid (f r) db = Some db' \<Longrightarrow> J db'"
    and "g_record_version r = v"
  shows "op_hoare (\<lambda>s. J (gdb s) \<and> P (gdb s) \<and> od_get (goals (gdb s)) gid = Some r)
    (gs_execute (db_write_goal gid (f r))) (\<lambda>_. ok) (\<lambda>_. ok)"
  by (rule keeps_execute [where P = "\<lambda>db. J db \<and> P db \<and> od_get (goals db) gid = Some r"])
    (use assms in blast)+

lemma keeps_transition_if:
  assumes w: "\<And>db db' r now. J db \<Longrightarrow> P db \<Longrightarrow> od_get (goals db) gid = Some r \<Longrightarrow> g_record_version r = v \<Longrightarrow>
      db_write_goal gid (updated_record us now r) db = Some db' \<Longrightarrow> J db'"
  shows "op_hoare (\<lambda>s. J (gdb s) \<and> P (gdb s)) (gs_transition gid v kind a us) (\<lambda>_. ok) (\<lambda>_. ok)"
proof -
  have body: "op_hoare (\<lambda>s. J (gdb s) \<and> P (gdb s)) (transition_tx gid v kind a us) (\<lambda>_. ok) (\<lambda>_. ok)"
    unfolding transition_tx_def
  proof (rule op_hoare_bind [OF keeps_cond_row], rule op_hoare_option, goal_cases)
    case (2 row r)
    show ?case unfolding \<open>row = Some r\<close>
    proof (rule op_hoare_if)
      assume v: "\<not> g_record_version r \<noteq> v"
      then have v: "g_record_version r = v" by simp
      note wr = keeps_write_if [where P = P and v = v and gid = gid and f = "updated_record us now" for now, OF w v]
      show "op_hoare (\<lambda>s. J (gdb s) \<and> P (gdb s) \<and> od_get (goals (gdb s)) gid = Some r)
          (op_bind gs_now (\<lambda>now. op_then (gs_execute (db_write_goal gid (updated_record us now r))) (append_event_row gid e)))
          (\<lambda>_. ok) (\<lambda>_. ok)" for e
        by (rule op_hoare_bind [OF keeps_cond_now], rule op_hoare_then [OF wr keeps_append_event])
    qed (rule op_hoare_raise, simp)
  qed (rule op_hoare_raise, simp)
  show ?thesis unfolding gs_transition_def
    by (rule op_hoare_then [OF keeps_check_if], rule op_hoare_then [OF keeps_transaction_if [OF body]], rule keeps_get)
qed

lemma keeps_update_fields_if:
  assumes w: "\<And>db db' r now. J db \<Longrightarrow> P db \<Longrightarrow> od_get (goals db) gid = Some r \<Longrightarrow> g_record_version r = v \<Longrightarrow>
      db_write_goal gid (updated_record us now r) db = Some db' \<Longrightarrow> J db'"
  shows "op_hoare (\<lambda>s. J (gdb s) \<and> P (gdb s)) (gs_update_fields gid v us) (\<lambda>_. ok) (\<lambda>_. ok)"
  unfolding gs_update_fields_def
proof (rule op_hoare_then [OF keeps_check_if], rule op_hoare_then [OF keeps_transaction_if keeps_get],
    rule op_hoare_bind [OF keeps_cond_now], rule op_hoare_bind [OF keeps_cond_row], rule op_hoare_option, goal_cases)
  case (2 now row r)
  show ?case unfolding \<open>row = Some r\<close>
  proof (rule op_hoare_if)
    assume "\<not> g_record_version r \<noteq> v"
    then have v: "g_record_version r = v" by simp
    show "op_hoare (\<lambda>s. J (gdb s) \<and> P (gdb s) \<and> od_get (goals (gdb s)) gid = Some r)
        (gs_execute (db_write_goal gid (updated_record us now r))) (\<lambda>_. ok) (\<lambda>_. ok)"
      by (rule keeps_write_if [where P = P and v = v and gid = gid and f = "updated_record us now", OF w v])
  qed (rule op_hoare_raise, simp)
qed (rule op_hoare_raise, simp)

lemma keeps_stage_request: "op_keeps ok (gs_stage_attachment_request uid txt refs)"
  unfolding gs_stage_attachment_request_def
  by (intro hoare_intros base_rules) (auto intro!: keeps_execute intro: insert_request)

lemma keeps_submission: "op_keeps ok (gs_attachment_submission key uid fp)"
  unfolding gs_attachment_submission_def
  by (rule op_keeps_bind [OF keeps_select]) (auto intro!: hoare_intros split: option.split)

lemma keeps_stage_submission: "op_keeps ok (gs_stage_attachment_submission key uid fp txt refs)"
  unfolding gs_stage_attachment_submission_def
  by (intro hoare_intros base_rules keeps_submission keeps_stage_request)
    (auto intro!: keeps_execute intro: insert_submission)

lemma keeps_discard_request: "op_keeps ok (gs_discard_attachment_request uid rid)"
  unfolding gs_discard_attachment_request_def
  by (intro hoare_intros base_rules) (auto intro!: keeps_execute intro: delete_request)

lemma keeps_attempt_insert:
  "a_state b \<in> set ATTEMPT_STATES \<Longrightarrow> op_keeps ok (gs_execute (db_insert_attempt b))"
  by (rule keeps_execute) (blast intro: insert_attempt)+

lemma keeps_insert_attempt: "op_keeps ok (gs_insert_attempt gid sq ep gen st uid)"
  unfolding gs_insert_attempt_def
  by (intro hoare_intros base_rules keeps_get keeps_attempt_insert) simp_all

lemma keeps_attempt_write:
  assumes "attempt_write b b'"
  shows "op_hoare (\<lambda>s. J (gdb s) \<and> od_get (goal_attempts (gdb s)) aid = Some b) (gs_execute (db_write_attempt aid b'))
    (\<lambda>_. ok) (\<lambda>_. ok)"
  by (rule keeps_execute [where P = "\<lambda>db. J db \<and> od_get (goal_attempts db) aid = Some b"])
    (blast intro: write_attempt assms)+

lemma keeps_get_attempt: "op_keeps ok (gs_get_attempt aid)"
  unfolding gs_get_attempt_def by (intro hoare_intros base_rules)

lemma keeps_fenced:
  assumes "\<And>b t. attempt_write b ((sets b)\<lparr>a_updated_at := t\<rparr>)"
  shows "op_keeps ok (fenced_attempt_update aid ep sets)"
  unfolding fenced_attempt_update_def
  by (intro op_keeps_bind [OF keeps_now] op_hoare_bind [OF keeps_row [where tab = goal_attempts]])
    (auto intro!: op_hoare_raise op_hoare_if op_hoare_then [OF keeps_attempt_write] keeps_get_attempt assms
      split: option.split)

lemma keeps_mark_ack: "op_keeps ok (gs_mark_ack aid ep pref)"
  unfolding gs_mark_ack_def by (rule keeps_fenced) (simp add: attempt_write_def)

lemma keeps_settle: "op_keeps ok (gs_settle_attempt aid ep tid oc us)"
  unfolding gs_settle_attempt_def by (rule keeps_fenced) (simp add: attempt_write_def)

lemma keeps_cancel: "op_keeps ok (gs_cancel_attempt aid ep)"
  unfolding gs_cancel_attempt_def by (rule keeps_fenced) (simp add: attempt_write_def)

lemma keeps_record_evidence: "op_keeps ok (gs_record_evidence a)"
  unfolding gs_record_evidence_def
  by (intro hoare_intros base_rules) (auto intro!: keeps_execute intro: insert_evidence)

lemma keeps_recover_attempt:
  "op_keeps (\<lambda>s. J (gdb s) \<and> od_get (goals (gdb s)) gid = Some r) (recover_attempt ep now a)"
proof (rule op_keepsI)
  fix s :: goal_store
  assume s: "J (gdb s) \<and> od_get (goals (gdb s)) gid = Some r"
  show "J (gdb (snd (recover_attempt ep now a s))) \<and> od_get (goals (gdb (snd (recover_attempt ep now a s)))) gid = Some r"
  proof (cases "od_get (goal_attempts (gdb s)) (a_attempt_id a)")
    case None
    then show ?thesis using s by (simp add: recover_attempt_def gs_select_def op_bind_def op_simps)
  next
    case (Some b)
    let ?b = "b\<lparr>a_state := recovered_state a, a_lease_epoch := ep, a_updated_at := now\<rparr>"
    have "attempt_write b ?b" by (simp add: attempt_write_def)
    then have "J ((gdb s)\<lparr>goal_attempts := od_put (a_attempt_id a) ?b (goal_attempts (gdb s))\<rparr>)"
      using s Some by (blast intro: write_attempt [where b' = ?b] db_write_attempt_def)
    then show ?thesis using s Some
      by (simp add: recover_attempt_def gs_select_def op_bind_def op_simps gs_execute_def db_write_attempt_def)
  qed
qed

lemma keeps_recover_lease_if:
  assumes w: "\<And>db db' r ep ex now amb. J db \<Longrightarrow> od_get (goals db) gid = Some r \<Longrightarrow>
      db_write_goal gid (recovered_goal ep d ex now amb r) db = Some db' \<Longrightarrow> J db'"
  shows "op_keeps ok (gs_recover_lease gid d secs)"
proof -
  have atts: "op_hoare (\<lambda>s. J (gdb s) \<and> od_get (goals (gdb s)) gid = Some r) (gs_unfinished_attempts gid)
      (\<lambda>_ s. J (gdb s) \<and> od_get (goals (gdb s)) gid = Some r) (\<lambda>_. ok)" for r
    unfolding gs_unfinished_attempts_def gs_select_def by (rule op_hoare_read) simp
  have loop: "op_hoare (\<lambda>s. J (gdb s) \<and> od_get (goals (gdb s)) gid = Some r)
      (op_for (recover_attempt ep now) atts) (\<lambda>_ s. J (gdb s) \<and> od_get (goals (gdb s)) gid = Some r) (\<lambda>_. ok)" for r ep now atts
    by (rule op_hoare_weaken [OF op_keeps_for [OF keeps_recover_attempt [where gid = gid and r = r]]]) blast+
  have wr: "op_hoare (\<lambda>s. J (gdb s) \<and> od_get (goals (gdb s)) gid = Some r)
      (gs_execute (db_write_goal gid (recovered_goal ep d ex now amb r))) (\<lambda>_. ok) (\<lambda>_. ok)" for r ep ex now amb
    by (rule keeps_execute [where P = "\<lambda>db. J db \<and> od_get (goals db) gid = Some r"]) (use w in blast)+
  show ?thesis
    unfolding gs_recover_lease_def Let_def
    by (intro op_keeps_bind [OF keeps_now] op_keeps_bind [OF keeps_transaction] op_hoare_bind [OF keeps_get_row])
      (auto intro!: op_hoare_if op_hoare_raise op_hoare_return op_hoare_bind [OF atts] op_hoare_then [OF loop]
        op_hoare_then [OF wr] op_hoare_then [OF keeps_append_event] op_keeps_then op_keeps_bind keeps_append_event keeps_get)
qed

end

locale db_property = table_property J for J +
  assumes write_goal: "J db \<Longrightarrow> od_get (goals db) gid = Some r \<Longrightarrow> goal_write r r' \<Longrightarrow> db_write_goal gid r' db = Some db' \<Longrightarrow> J db'"
begin

lemma keeps_transition: "op_keeps ok (gs_transition gid v kind a us)"
proof -
  have "op_hoare (\<lambda>s. J (gdb s) \<and> True) (gs_transition gid v kind a us) (\<lambda>_. ok) (\<lambda>_. ok)"
    by (rule keeps_transition_if [where P = "\<lambda>_. True"]) (rule write_goal [OF _ _ goal_write_updated])
  then show ?thesis by simp
qed

lemma keeps_update_fields: "op_keeps ok (gs_update_fields gid v us)"
proof -
  have "op_hoare (\<lambda>s. J (gdb s) \<and> True) (gs_update_fields gid v us) (\<lambda>_. ok) (\<lambda>_. ok)"
    by (rule keeps_update_fields_if [where P = "\<lambda>_. True"]) (rule write_goal [OF _ _ goal_write_updated])
  then show ?thesis by simp
qed

lemma keeps_claim: "op_keeps ok (gs_claim gid d secs v)"
  unfolding gs_claim_def by (intro hoare_intros base_rules keeps_get keeps_transition)

lemma keeps_recover_lease: "op_keeps ok (gs_recover_lease gid d secs)"
  by (rule keeps_recover_lease_if) (blast intro: write_goal goal_write_recovered)

end

section \<open>Runs of the store\<close>

text \<open>
  One operation of the store by any client, with any arguments, whether it returns or raises. The
  methods that only read leave the database alone; they are not listed.
\<close>

inductive store_step :: "goal_store \<Rightarrow> goal_store \<Rightarrow> bool" where
  step_create: "store_step s (snd (gs_create a s))"
| step_transition: "store_step s (snd (gs_transition gid v kind ta us s))"
| step_update_fields: "store_step s (snd (gs_update_fields gid v us s))"
| step_claim: "store_step s (snd (gs_claim gid d secs ver s))"
| step_recover: "store_step s (snd (gs_recover_lease gid d secs s))"
| step_insert_attempt: "store_step s (snd (gs_insert_attempt gid sq ep gen st uid s))"
| step_mark_ack: "store_step s (snd (gs_mark_ack aid ep pref s))"
| step_settle: "store_step s (snd (gs_settle_attempt aid ep tid oc us s))"
| step_cancel: "store_step s (snd (gs_cancel_attempt aid ep s))"
| step_evidence: "store_step s (snd (gs_record_evidence va s))"
| step_stage_request: "store_step s (snd (gs_stage_attachment_request uid txt refs s))"
| step_stage_submission: "store_step s (snd (gs_stage_attachment_submission key uid fp txt refs s))"
| step_discard_request: "store_step s (snd (gs_discard_attachment_request uid rid s))"

abbreviation store_run :: "goal_store \<Rightarrow> goal_store \<Rightarrow> bool" where
  "store_run \<equiv> store_step\<^sup>*\<^sup>*"

context db_property
begin

lemma keeps_step: "store_step s s' \<Longrightarrow> J (gdb s) \<Longrightarrow> J (gdb s')"
  by (erule store_step.cases)
    (simp_all add: op_keepsD [OF keeps_create] op_keepsD [OF keeps_transition] op_keepsD [OF keeps_update_fields]
      op_keepsD [OF keeps_claim] op_keepsD [OF keeps_recover_lease] op_keepsD [OF keeps_insert_attempt]
      op_keepsD [OF keeps_mark_ack] op_keepsD [OF keeps_settle] op_keepsD [OF keeps_cancel]
      op_keepsD [OF keeps_record_evidence] op_keepsD [OF keeps_stage_request]
      op_keepsD [OF keeps_stage_submission] op_keepsD [OF keeps_discard_request])

lemma keeps_run: "store_run s s' \<Longrightarrow> J (gdb s) \<Longrightarrow> J (gdb s')"
  by (induction rule: rtranclp_induct) (auto intro: keeps_step)

end

section \<open>Well-formed databases\<close>

text \<open>
  The types the rest of the code relies on: every row is filed under its own identifier, versions
  start at one, the state of an attempt is one of the six, a goal has one attempt for each
  sequence number, and the events of a goal are numbered 1, 2, 3, ... in the order they were
  written.
\<close>

definition goals_wf :: "goal_db \<Rightarrow> bool" where
  "goals_wf db \<longleftrightarrow> od_wf (goals db) \<and>
     (\<forall>gid r. od_get (goals db) gid = Some r \<longrightarrow> g_goal_id r = gid \<and> 1 \<le> g_record_version r)"

definition attempts_wf :: "goal_db \<Rightarrow> bool" where
  "attempts_wf db \<longleftrightarrow> od_wf (goal_attempts db) \<and>
     (\<forall>aid a. od_get (goal_attempts db) aid = Some a \<longrightarrow> a_attempt_id a = aid \<and> a_state a \<in> set ATTEMPT_STATES) \<and>
     (\<forall>aid bid a b. od_get (goal_attempts db) aid = Some a \<longrightarrow> od_get (goal_attempts db) bid = Some b \<longrightarrow>
        a_goal_id a = a_goal_id b \<longrightarrow> a_continuation_seq a = a_continuation_seq b \<longrightarrow> aid = bid)"

definition goal_log :: "string \<Rightarrow> goal_db \<Rightarrow> goal_event list" where
  "goal_log gid db = filter (\<lambda>e. e_goal_id e = gid) (goal_events db)"

definition events_wf :: "goal_db \<Rightarrow> bool" where
  "events_wf db \<longleftrightarrow> distinct (map e_event_id (goal_events db)) \<and>
     (\<forall>gid. map e_sequence (goal_log gid db) = map int [1..<Suc (length (goal_log gid db))])"

definition rows_wf :: "goal_db \<Rightarrow> bool" where
  "rows_wf db \<longleftrightarrow> distinct (map v_evidence_id (goal_evidence_rows db)) \<and> od_wf (attachment_rows db) \<and>
     od_wf (submission_rows db) \<and> distinct (map (\<lambda>(k, u). u_request_id u) (submission_rows db))"

definition db_wf :: "goal_db \<Rightarrow> bool" where
  "db_wf db \<longleftrightarrow> goals_wf db \<and> attempts_wf db \<and> events_wf db \<and> rows_wf db"

definition one_unfinished :: "goal_db \<Rightarrow> bool" where
  "one_unfinished db \<longleftrightarrow>
     (\<forall>gid hid r q. od_get (goals db) gid = Some r \<longrightarrow> od_get (goals db) hid = Some q \<longrightarrow>
        g_conversation_uid r = g_conversation_uid q \<longrightarrow> is_unfinished r \<longrightarrow> is_unfinished q \<longrightarrow> gid = hid)"

lemma fold_max_last: "sorted (n # ns) \<Longrightarrow> fold max ns n = last (n # ns)" for n :: int
  by (induction ns arbitrary: n) (auto simp: max_def)

lemma next_sequence_wf: "events_wf db \<Longrightarrow> next_sequence gid db = int (length (goal_log gid db)) + 1"
proof -
  assume "events_wf db"
  then have sq: "map e_sequence (goal_log gid db) = map int [1..<Suc (length (goal_log gid db))]"
    by (simp add: events_wf_def)
  show ?thesis
  proof (cases "map e_sequence (goal_log gid db)")
    case Nil
    then show ?thesis by (simp add: next_sequence_def goal_log_def)
  next
    case (Cons n ns)
    have "sorted (n # ns)" unfolding Cons [symmetric] sq by (simp add: sorted_map del: upt_Suc)
    moreover have "last (n # ns) = int (length (goal_log gid db))"
      unfolding Cons [symmetric] sq using Cons by (cases "goal_log gid db") (auto simp: last_map)
    ultimately show ?thesis using Cons fold_max_last [of n ns] by (simp add: next_sequence_def goal_log_def)
  qed
qed

lemma goals_wf_put: "goals_wf db \<Longrightarrow> g_goal_id r = gid \<Longrightarrow> 1 \<le> g_record_version r \<Longrightarrow> goals_wf (db\<lparr>goals := od_put gid r (goals db)\<rparr>)"
  by (simp add: goals_wf_def)

lemma events_wf_append:
  assumes wf: "events_wf db" and sq: "e_sequence e = next_sequence (e_goal_id e) db"
    and fresh: "e_event_id e \<notin> set (map e_event_id (goal_events db))"
  shows "events_wf (db\<lparr>goal_events := goal_events db @ [e]\<rparr>)"
proof -
  have "map e_sequence (goal_log gid (db\<lparr>goal_events := goal_events db @ [e]\<rparr>)) =
      map int [1..<Suc (length (goal_log gid (db\<lparr>goal_events := goal_events db @ [e]\<rparr>)))]" for gid
  proof -
    have "map e_sequence (goal_log gid db) = map int [1..<Suc (length (goal_log gid db))]"
      using wf by (simp add: events_wf_def)
    moreover have "goal_log gid (db\<lparr>goal_events := goal_events db @ [e]\<rparr>) =
        goal_log gid db @ (if e_goal_id e = gid then [e] else [])"
      by (simp add: goal_log_def)
    ultimately show ?thesis using next_sequence_wf [OF wf, of gid] sq by auto
  qed
  then show ?thesis using wf fresh by (simp add: events_wf_def)
qed

lemma attempts_wf_put:
  assumes wf: "attempts_wf db" and b: "a_attempt_id b = aid" "a_state b \<in> set ATTEMPT_STATES"
    and uniq: "\<And>k c. od_get (goal_attempts db) k = Some c \<Longrightarrow> a_goal_id c = a_goal_id b \<Longrightarrow>
      a_continuation_seq c = a_continuation_seq b \<Longrightarrow> k = aid"
  shows "attempts_wf (db\<lparr>goal_attempts := od_put aid b (goal_attempts db)\<rparr>)"
  unfolding attempts_wf_def using wf b uniq
  by (auto simp: attempts_wf_def split: if_splits)

lemma od_get_in: "od_get d k = Some v \<Longrightarrow> (k, v) \<in> set d"
  by (rule map_of_SomeD)

lemma attempts_wf_insert: "attempts_wf db \<Longrightarrow> a_state b \<in> set ATTEMPT_STATES \<Longrightarrow> db_insert_attempt b db = Some db' \<Longrightarrow> attempts_wf db'"
  by (auto simp: db_insert_attempt_def split: if_splits intro!: attempts_wf_put dest: od_get_in)

lemma attempts_wf_write:
  assumes wf: "attempts_wf db" and get: "od_get (goal_attempts db) aid = Some b" and w: "attempt_write b b'"
  shows "attempts_wf (db\<lparr>goal_attempts := od_put aid b' (goal_attempts db)\<rparr>)"
proof (rule attempts_wf_put [OF wf])
  show "a_attempt_id b' = aid" "a_state b' \<in> set ATTEMPT_STATES"
    using wf get w by (auto simp: attempts_wf_def attempt_write_def)
  show "k = aid" if "od_get (goal_attempts db) k = Some c" "a_goal_id c = a_goal_id b'"
      "a_continuation_seq c = a_continuation_seq b'" for k c
    using wf get w that unfolding attempts_wf_def attempt_write_def by metis
qed

lemma goals_wf_write: "goals_wf db \<Longrightarrow> od_get (goals db) gid = Some r \<Longrightarrow> goal_write r r' \<Longrightarrow>
    goals_wf (db\<lparr>goals := od_put gid r' (goals db)\<rparr>)"
  by (rule goals_wf_put) (fastforce simp: goals_wf_def goal_write_def)+

lemma wf_other_tables [simp]:
  "goals_wf (db\<lparr>goal_events := x\<rparr>) = goals_wf db" "goals_wf (db\<lparr>goal_attempts := y\<rparr>) = goals_wf db"
  "goals_wf (db\<lparr>goal_evidence_rows := z\<rparr>) = goals_wf db" "goals_wf (db\<lparr>attachment_rows := q\<rparr>) = goals_wf db"
  "goals_wf (db\<lparr>submission_rows := w\<rparr>) = goals_wf db"
  "attempts_wf (db\<lparr>goal_events := x\<rparr>) = attempts_wf db" "attempts_wf (db\<lparr>goals := g\<rparr>) = attempts_wf db"
  "attempts_wf (db\<lparr>goal_evidence_rows := z\<rparr>) = attempts_wf db" "attempts_wf (db\<lparr>attachment_rows := q\<rparr>) = attempts_wf db"
  "attempts_wf (db\<lparr>submission_rows := w\<rparr>) = attempts_wf db"
  "events_wf (db\<lparr>goals := g\<rparr>) = events_wf db" "events_wf (db\<lparr>goal_attempts := y\<rparr>) = events_wf db"
  "events_wf (db\<lparr>goal_evidence_rows := z\<rparr>) = events_wf db" "events_wf (db\<lparr>attachment_rows := q\<rparr>) = events_wf db"
  "events_wf (db\<lparr>submission_rows := w\<rparr>) = events_wf db"
  "rows_wf (db\<lparr>goals := g\<rparr>) = rows_wf db" "rows_wf (db\<lparr>goal_attempts := y\<rparr>) = rows_wf db"
  "rows_wf (db\<lparr>goal_events := x\<rparr>) = rows_wf db"
  by (simp_all add: goals_wf_def attempts_wf_def events_wf_def goal_log_def rows_wf_def)

lemma fresh_goal_sel [simp]:
  "g_goal_id ((fresh_goal gid now a)\<lparr>g_attachment_refs := refs\<rparr>) = gid"
  "g_record_version ((fresh_goal gid now a)\<lparr>g_attachment_refs := refs\<rparr>) = 1"
  "g_conversation_uid ((fresh_goal gid now a)\<lparr>g_attachment_refs := refs\<rparr>) = ga_conversation_uid a"
  "g_status ((fresh_goal gid now a)\<lparr>g_attachment_refs := refs\<rparr>) = ''active''"
  by (simp_all add: fresh_goal_def)

interpretation wf: db_property db_wf
proof
  fix db db' gid now a refs
  assume "db_wf db" "db_insert_goal ((fresh_goal gid now a)\<lparr>g_attachment_refs := refs\<rparr>) db = Some db'"
  then show "db_wf db'" by (auto simp: db_insert_goal_def db_wf_def intro: goals_wf_put split: if_splits)
next
  fix db db' gid r r'
  assume "db_wf db" "od_get (goals db) gid = Some r" "goal_write r r'" "db_write_goal gid r' db = Some db'"
  then show "db_wf db'" by (auto simp: db_write_goal_def db_wf_def intro: goals_wf_write split: if_splits)
next
  fix db db' e
  assume "db_wf db" "e_sequence e = next_sequence (e_goal_id e) db" "db_insert_event e db = Some db'"
  then show "db_wf db'" by (auto simp: db_insert_event_def db_wf_def intro: events_wf_append split: if_splits)
next
  fix db db' b
  assume wf: "db_wf db" and b: "a_state b \<in> set ATTEMPT_STATES" and ins: "db_insert_attempt b db = Some db'"
  have "attempts_wf db'" using wf b ins by (auto simp: db_wf_def intro: attempts_wf_insert)
  then show "db_wf db'" using wf ins by (auto simp: db_insert_attempt_def db_wf_def split: if_splits)
next
  fix db db' aid b b'
  assume "db_wf db" "od_get (goal_attempts db) aid = Some b" "attempt_write b b'" "db_write_attempt aid b' db = Some db'"
  then show "db_wf db'" by (auto simp: db_write_attempt_def db_wf_def intro: attempts_wf_write)
next
  fix db db' key u
  assume "db_wf db" "db_insert_submission key u db = Some db'"
  then show "db_wf db'"
    by (fastforce simp: db_insert_submission_def db_wf_def rows_wf_def od_put_new od_get_None_iff od_wf_def split: if_splits)
qed (auto simp: db_insert_evidence_def db_insert_request_def db_write_request_def db_delete_request_def
      db_wf_def rows_wf_def split: if_splits)

lemma one_unfinished_put:
  assumes one: "one_unfinished db" and free: "is_unfinished r \<Longrightarrow> \<not> db_unfinished_other gid (g_conversation_uid r) db"
  shows "one_unfinished (db\<lparr>goals := od_put gid r (goals db)\<rparr>)"
proof -
  have "k = gid" if "od_get (goals db) k = Some q" "g_conversation_uid q = g_conversation_uid r" "is_unfinished q" "is_unfinished r" for k q
    using free [OF that(4)] that od_get_in [OF that(1)] by (auto simp: db_unfinished_other_def)
  then show ?thesis using one by (simp add: one_unfinished_def)
qed

interpretation single: db_property one_unfinished
proof
  fix db db' gid now a refs
  assume "one_unfinished db" "db_insert_goal ((fresh_goal gid now a)\<lparr>g_attachment_refs := refs\<rparr>) db = Some db'"
  then show "one_unfinished db'"
    by (auto simp: db_insert_goal_def intro!: one_unfinished_put split: if_splits)
next
  fix db db' gid r r'
  assume "one_unfinished db" "db_write_goal gid r' db = Some db'"
  then show "one_unfinished db'"
    by (auto simp: db_write_goal_def intro!: one_unfinished_put split: if_splits)
qed (auto simp: db_insert_event_def db_insert_attempt_def db_write_attempt_def db_insert_evidence_def
      db_insert_request_def db_write_request_def db_delete_request_def db_insert_submission_def
      one_unfinished_def split: if_splits)

section \<open>History\<close>

text \<open>
  How a later database relates to an earlier one: no goal and no attempt is lost or renamed, a
  goal whose version is the same is the same record, and the event log and the evidence only grow.
\<close>

definition goal_after :: "goal_record \<Rightarrow> goal_record \<Rightarrow> bool" where
  "goal_after r r' \<longleftrightarrow>
     r' = r \<or> g_record_version r < g_record_version r' \<and> g_goal_id r' = g_goal_id r \<and>
       g_conversation_uid r' = g_conversation_uid r \<and> g_objective r' = g_objective r \<and>
       g_project_root r' = g_project_root r \<and> g_created_at r' = g_created_at r"

definition attempt_after :: "goal_attempt \<Rightarrow> goal_attempt \<Rightarrow> bool" where
  "attempt_after a a' \<longleftrightarrow>
     a_attempt_id a' = a_attempt_id a \<and> a_goal_id a' = a_goal_id a \<and>
     a_conversation_uid a' = a_conversation_uid a \<and> a_continuation_seq a' = a_continuation_seq a \<and>
     a_execution_generation a' = a_execution_generation a \<and> a_created_at a' = a_created_at a"

definition db_extends :: "goal_db \<Rightarrow> goal_db \<Rightarrow> bool" where
  "db_extends db db' \<longleftrightarrow>
     (\<forall>gid r. od_get (goals db) gid = Some r \<longrightarrow> (\<exists>r'. od_get (goals db') gid = Some r' \<and> goal_after r r')) \<and>
     (\<forall>aid a. od_get (goal_attempts db) aid = Some a \<longrightarrow>
        (\<exists>a'. od_get (goal_attempts db') aid = Some a' \<and> attempt_after a a')) \<and>
     prefix (goal_events db) (goal_events db') \<and> prefix (goal_evidence_rows db) (goal_evidence_rows db')"

lemma goal_after_refl [simp]: "goal_after r r"
  by (simp add: goal_after_def)

lemma goal_after_write: "goal_after r q \<Longrightarrow> goal_write q q' \<Longrightarrow> goal_after r q'"
  by (auto simp: goal_after_def goal_write_def)

lemma attempt_after_refl [simp]: "attempt_after a a"
  by (simp add: attempt_after_def)

lemma attempt_after_write: "attempt_after a b \<Longrightarrow> attempt_write b b' \<Longrightarrow> attempt_after a b'"
  by (simp add: attempt_after_def attempt_write_def)

lemma db_extends_refl [simp]: "db_extends db db"
  by (simp add: db_extends_def)

lemma db_extends_put_goal:
  assumes ext: "db_extends db0 db"
    and after: "\<And>r. od_get (goals db) gid = Some r \<Longrightarrow> goal_write r r'"
  shows "db_extends db0 (db\<lparr>goals := od_put gid r' (goals db)\<rparr>)"
  using ext after goal_after_write unfolding db_extends_def by (auto split: if_splits) (metis option.inject)

lemma db_extends_put_attempt:
  assumes ext: "db_extends db0 db"
    and after: "\<And>b. od_get (goal_attempts db) aid = Some b \<Longrightarrow> attempt_write b b'"
  shows "db_extends db0 (db\<lparr>goal_attempts := od_put aid b' (goal_attempts db)\<rparr>)"
  using ext after attempt_after_write unfolding db_extends_def by (auto split: if_splits) (metis option.inject)

lemma db_extends_events: "db_extends db0 db \<Longrightarrow> db_extends db0 (db\<lparr>goal_events := goal_events db @ es\<rparr>)"
  by (simp add: db_extends_def)

lemma db_extends_evidence: "db_extends db0 db \<Longrightarrow> db_extends db0 (db\<lparr>goal_evidence_rows := goal_evidence_rows db @ vs\<rparr>)"
  by (simp add: db_extends_def)

interpretation ext: db_property "db_extends db0" for db0
proof
  fix db db' gid now a refs
  assume "db_extends db0 db" "db_insert_goal ((fresh_goal gid now a)\<lparr>g_attachment_refs := refs\<rparr>) db = Some db'"
  then show "db_extends db0 db'"
    by (auto simp: db_insert_goal_def intro!: db_extends_put_goal split: if_splits)
next
  fix db db' gid r r'
  assume "db_extends db0 db" "od_get (goals db) gid = Some r" "goal_write r r'" "db_write_goal gid r' db = Some db'"
  then show "db_extends db0 db'"
    by (auto simp: db_write_goal_def intro!: db_extends_put_goal split: if_splits)
next
  fix db db' b
  assume "db_extends db0 db" "db_insert_attempt b db = Some db'"
  then show "db_extends db0 db'"
    by (auto simp: db_insert_attempt_def intro!: db_extends_put_attempt split: if_splits)
next
  fix db db' aid b b'
  assume "db_extends db0 db" "od_get (goal_attempts db) aid = Some b" "attempt_write b b'" "db_write_attempt aid b' db = Some db'"
  then show "db_extends db0 db'" by (auto simp: db_write_attempt_def intro!: db_extends_put_attempt)
qed (auto simp: db_insert_event_def db_insert_evidence_def db_insert_request_def db_write_request_def
      db_delete_request_def db_insert_submission_def db_extends_def split: if_splits)

section \<open>What the operations do\<close>

lemma gs_now_db [simp]: "gdb (snd (gs_now s)) = gdb s"
  by (simp add: gs_now_def)

lemma gs_now_Inr: "gs_now s = (Inr now, s') \<Longrightarrow> gdb s' = gdb s"
  by (auto simp: gs_now_def)

lemma gs_uuid_Inr: "gs_uuid s = (Inr v, s') \<Longrightarrow> gdb s' = gdb s"
  by (auto simp: gs_uuid_def)

lemma gs_execute_Inr: "gs_execute stmt s = (Inr u, s') \<longleftrightarrow> (\<exists>db. stmt (gdb s) = Some db \<and> s' = s\<lparr>gdb := db\<rparr>)"
  by (auto simp: gs_execute_def split: option.splits)

lemma append_event_Inr:
  assumes "append_event_row gid a s = (Inr u, s')"
  shows "\<exists>e. gdb s' = (gdb s)\<lparr>goal_events := goal_events (gdb s) @ [e]\<rparr> \<and> e_goal_id e = gid \<and>
    e_sequence e = next_sequence gid (gdb s) \<and> e_kind e = ea_kind a \<and> e_actor e = ea_actor a \<and>
    e_daemon_id e = ea_daemon_id a \<and> e_turn_id e = ea_turn_id a \<and> e_reason e = redact_reason (ea_reason a) \<and>
    e_status_before e = ea_status_before a \<and> e_status_after e = ea_status_after a"
  using assms unfolding append_event_row_def
  by (auto simp: op_bind_eq_Inr gs_select_eq gs_execute_Inr gs_now_def gs_uuid_def db_insert_event_def split: if_splits)

lemma insert_attempt_Inr:
  assumes "gs_insert_attempt gid sq ep gen st uid s = (Inr a, s')"
  shows "db_insert_attempt a (gdb s) = Some (gdb s') \<and> goals (gdb s') = goals (gdb s) \<and> st \<in> set ATTEMPT_STATES \<and>
    a_goal_id a = gid \<and> a_continuation_seq a = sq \<and> a_lease_epoch a = ep \<and> a_execution_generation a = gen \<and> a_state a = st"
proof -
  have caught: "op_catch m (\<lambda>e. if e = IntegrityError then op_raise x else op_raise e) t = (Inr y, t') \<longleftrightarrow> m t = (Inr y, t')"
    for m :: "unit store_op" and x t y t'
    by (auto simp: op_catch_def op_simps split: prod.splits sum.splits)
  obtain u s1 where "gs_execute (db_insert_attempt a) s1 = (Inr u, s')" "gdb s1 = gdb s" "st \<in> set ATTEMPT_STATES"
      "a_goal_id a = gid" "a_continuation_seq a = sq" "a_lease_epoch a = ep" "a_execution_generation a = gen" "a_state a = st"
    using assms unfolding gs_insert_attempt_def Let_def gs_transaction_def
    by (auto simp: op_bind_eq_Inr op_then_eq_Inr caught op_atomic_eq_Inr op_simps gs_get_eq
        dest!: gs_now_Inr gs_uuid_Inr split: if_splits option.splits)
  then show ?thesis by (auto simp: gs_execute_Inr db_insert_attempt_def split: if_splits)
qed

text \<open>The event a transition appends.\<close>

definition transition_event :: "string \<Rightarrow> string \<Rightarrow> transition_args \<Rightarrow> goal_record \<Rightarrow> goal_record \<Rightarrow> goal_db \<Rightarrow> goal_event \<Rightarrow> bool" where
  "transition_event gid kind a r r' db e \<longleftrightarrow>
     e_goal_id e = gid \<and> e_sequence e = next_sequence gid db \<and> e_kind e = kind \<and> e_actor e = ta_actor a \<and>
     e_daemon_id e = ta_daemon_id a \<and> e_turn_id e = ta_turn_id a \<and> e_reason e = redact_reason (ta_reason a) \<and>
     e_status_before e = Some (g_status r) \<and> e_status_after e = Some (g_status r')"

lemma next_sequence_goals [simp]: "next_sequence gid (db\<lparr>goals := g\<rparr>) = next_sequence gid db"
  by (simp add: next_sequence_def)

lemma updated_status [simp]: "g_status (updated_record us now r) = g_status (fold set_field us r)"
  by (simp add: updated_record_def)

lemma transition_tx_Inr:
  assumes "transition_tx gid v kind a us s = (Inr u, s')"
  shows "\<exists>r now e. od_get (goals (gdb s)) gid = Some r \<and> g_record_version r = v \<and>
    transition_event gid kind a r (updated_record us now r) (gdb s) e \<and>
    gdb s' = (gdb s)\<lparr>goals := od_put gid (updated_record us now r) (goals (gdb s)), goal_events := goal_events (gdb s) @ [e]\<rparr>"
proof -
  obtain r now s1 s2 where r: "od_get (goals (gdb s)) gid = Some r" "g_record_version r = v"
    and now: "gs_now s = (Inr now, s1)"
    and w: "gs_execute (db_write_goal gid (updated_record us now r)) s1 = (Inr (), s2)"
    and ev: "append_event_row gid ((event_defaults kind)
                 \<lparr>ea_actor := ta_actor a, ea_daemon_id := ta_daemon_id a, ea_turn_id := ta_turn_id a,
                  ea_reason := ta_reason a, ea_status_before := Some (g_status r),
                  ea_status_after := fold update_status us (Some (g_status r)),
                  ea_evidence_refs := ta_evidence_refs a\<rparr>) s2 = (Inr (), s')"
    using assms unfolding transition_tx_def
    by (auto simp: op_then_eq_Inr op_bind_eq_Inr gs_select_eq op_simps split: if_splits option.splits)
  have db: "gdb s2 = (gdb s)\<lparr>goals := od_put gid (updated_record us now r) (goals (gdb s))\<rparr>"
    using w gs_now_Inr [OF now] by (auto simp: gs_execute_Inr db_write_goal_def split: if_splits)
  obtain e where e: "gdb s' = (gdb s2)\<lparr>goal_events := goal_events (gdb s2) @ [e]\<rparr>"
      "transition_event gid kind a r (updated_record us now r) (gdb s) e"
    using append_event_Inr [OF ev] by (auto simp: transition_event_def db event_defaults_def update_status_fold)
  then show ?thesis using r db by auto
qed

lemma transition_split:
  "gs_transition gid v kind a us s =
     (if \<not> list_all is_updatable us then (Inl (GoalStoreError ''non-updatable fields''), s)
      else case transition_tx gid v kind a us s of
        (Inl x, s') \<Rightarrow> (Inl x, s'\<lparr>gdb := gdb s\<rparr>)
      | (Inr u, s') \<Rightarrow> gs_get gid s')"
  by (simp add: gs_transition_def check_updatable_def gs_transaction_def op_then_def op_bind_def op_atomic_def
      gs_rollback_def op_simps split: prod.split sum.split)

lemma transition_Inr:
  assumes "gs_transition gid v kind a us s = (Inr r', s')"
  shows "\<exists>r now e. od_get (goals (gdb s)) gid = Some r \<and> g_record_version r = v \<and> r' = updated_record us now r \<and>
    transition_event gid kind a r r' (gdb s) e \<and>
    gdb s' = (gdb s)\<lparr>goals := od_put gid r' (goals (gdb s)), goal_events := goal_events (gdb s) @ [e]\<rparr>"
proof -
  obtain s1 where tx: "transition_tx gid v kind a us s = (Inr (), s1)" and get: "gs_get gid s1 = (Inr r', s')"
    using assms by (auto simp: transition_split split: if_splits prod.splits sum.splits)
  obtain r now e where r: "od_get (goals (gdb s)) gid = Some r" "g_record_version r = v"
      "transition_event gid kind a r (updated_record us now r) (gdb s) e"
      "gdb s1 = (gdb s)\<lparr>goals := od_put gid (updated_record us now r) (goals (gdb s)), goal_events := goal_events (gdb s) @ [e]\<rparr>"
    using transition_tx_Inr [OF tx] by (elim exE conjE)
  have "r' = updated_record us now r" "s' = s1" using get r(4) by (simp_all add: gs_get_eq)
  then show ?thesis using r by auto
qed

lemma transition_stale:
  assumes "od_get (goals (gdb s)) gid = Some r" and "g_record_version r \<noteq> v" and "list_all is_updatable us"
  shows "gs_transition gid v kind a us s = (Inl (StaleVersion (g_record_version r)), s)"
  using assms by (simp add: transition_split transition_tx_def op_bind_def op_simps)

lemma transition_raises: "gs_transition gid v kind a us s = (Inl x, s') \<Longrightarrow> gdb s' = gdb s"
  by (auto simp: transition_split gs_get_eq split: if_splits prod.splits sum.splits option.splits dest!: transition_tx_Inr)

lemma update_fields_Inr:
  assumes "gs_update_fields gid v us s = (Inr r', s')"
  shows "\<exists>r now. od_get (goals (gdb s)) gid = Some r \<and> g_record_version r = v \<and> r' = updated_record us now r \<and>
    gdb s' = (gdb s)\<lparr>goals := od_put gid r' (goals (gdb s))\<rparr>"
proof -
  obtain r now s1 s2 where r: "od_get (goals (gdb s1)) gid = Some r" "g_record_version r = v" and now: "gs_now s = (Inr now, s1)"
    and w: "gs_execute (db_write_goal gid (updated_record us now r)) s1 = (Inr (), s2)" and get: "gs_get gid s2 = (Inr r', s')"
    using assms unfolding gs_update_fields_def check_updatable_def gs_transaction_def
    by (auto simp: op_then_eq_Inr op_bind_eq_Inr op_atomic_eq_Inr gs_select_eq op_simps split: if_splits option.splits)
  have db: "gdb s2 = (gdb s)\<lparr>goals := od_put gid (updated_record us now r) (goals (gdb s))\<rparr>"
    using w gs_now_Inr [OF now] by (auto simp: gs_execute_Inr db_write_goal_def split: if_splits)
  then have "r' = updated_record us now r" "s' = s2" using get by (simp_all add: gs_get_eq)
  then show ?thesis using r db gs_now_Inr [OF now] by auto
qed
subsection \<open>Recovery\<close>

definition recover_step :: "int \<Rightarrow> real \<Rightarrow> goal_attempt \<Rightarrow> (string, goal_attempt) odict \<Rightarrow> (string, goal_attempt) odict" where
  "recover_step ep now a t =
     (case od_get t (a_attempt_id a) of
        None \<Rightarrow> t
      | Some b \<Rightarrow> od_put (a_attempt_id a) (b\<lparr>a_state := recovered_state a, a_lease_epoch := ep, a_updated_at := now\<rparr>) t)"

lemma recover_attempt_run:
  "recover_attempt ep now a s = (Inr (), s\<lparr>gdb := (gdb s)\<lparr>goal_attempts := recover_step ep now a (goal_attempts (gdb s))\<rparr>\<rparr>)"
  by (simp add: recover_attempt_def op_bind_def op_simps gs_execute_def db_write_attempt_def recover_step_def split: option.split)

lemma recover_for_run:
  "op_for (recover_attempt ep now) atts s =
     (Inr (), s\<lparr>gdb := (gdb s)\<lparr>goal_attempts := fold (recover_step ep now) atts (goal_attempts (gdb s))\<rparr>\<rparr>)"
  by (induction atts arbitrary: s) (simp_all add: op_simps op_then_def op_bind_def recover_attempt_run)

lemma recover_step_get:
  "od_get (recover_step ep now a t) k =
     (if k = a_attempt_id a
      then map_option (\<lambda>b. b\<lparr>a_state := recovered_state a, a_lease_epoch := ep, a_updated_at := now\<rparr>) (od_get t k)
      else od_get t k)"
  by (simp add: recover_step_def split: option.split)

lemma recover_fold_other: "k \<notin> a_attempt_id ` set atts \<Longrightarrow> od_get (fold (recover_step ep now) atts t) k = od_get t k"
  by (induction atts arbitrary: t) (simp_all add: recover_step_get)

lemma recover_fold_get:
  assumes "distinct (map a_attempt_id atts)" and "a \<in> set atts" and "od_get t (a_attempt_id a) = Some b"
  shows "od_get (fold (recover_step ep now) atts t) (a_attempt_id a) =
    Some (b\<lparr>a_state := recovered_state a, a_lease_epoch := ep, a_updated_at := now\<rparr>)"
  using assms
proof (induction atts arbitrary: t)
  case (Cons c cs)
  then show ?case
    by (cases "c = a") (auto simp: recover_fold_other recover_step_get image_iff)
qed simp

lemma distinct_map_sort_filter: "distinct (map f xs) \<Longrightarrow> distinct (map f (sort_key g (filter P xs)))"
  by (auto simp: distinct_map intro: inj_on_subset)

lemma unfinished_rows:
  assumes "attempts_wf db"
  shows "distinct (map a_attempt_id (unfinished_of gid db))"
    and "a \<in> set (unfinished_of gid db) \<longleftrightarrow> od_get (goal_attempts db) (a_attempt_id a) = Some a \<and>
      a_goal_id a = gid \<and> a_state a \<notin> {''settled'', ''cancelled'', ''ambiguous''}"
proof -
  have key: "a_attempt_id c = k" if "(k, c) \<in> set (goal_attempts db)" for k c
    using that assms by (simp add: attempts_wf_def od_wf_def)
  have ids: "map a_attempt_id (map snd (goal_attempts db)) = map fst (goal_attempts db)"
    using key by (auto simp: case_prod_unfold)
  have "distinct (map a_attempt_id (map snd (goal_attempts db)))"
    unfolding ids using assms by (simp add: attempts_wf_def od_wf_def)
  then show "distinct (map a_attempt_id (unfinished_of gid db))"
    unfolding unfinished_of_def by (rule distinct_map_sort_filter)
  have "od_get (goal_attempts db) (a_attempt_id a) = Some a" if "(k, a) \<in> set (goal_attempts db)" for k
    using that key [OF that] assms by (simp add: attempts_wf_def od_wf_def)
  then have "a \<in> snd ` set (goal_attempts db) \<longleftrightarrow> od_get (goal_attempts db) (a_attempt_id a) = Some a"
    by (force dest: od_get_in)
  then show "a \<in> set (unfinished_of gid db) \<longleftrightarrow> od_get (goal_attempts db) (a_attempt_id a) = Some a \<and>
      a_goal_id a = gid \<and> a_state a \<notin> {''settled'', ''cancelled'', ''ambiguous''}"
    by (auto simp: unfinished_of_def)
qed

lemma recover_Inr:
  assumes "gs_recover_lease gid d secs s = (Inr (r', rep), s')"
  shows "\<exists>r now. od_get (goals (gdb s)) gid = Some r \<and> \<not> lease_held d now r \<and> rr_epoch rep = g_lease_epoch r + 1 \<and>
    rr_ambiguous rep = map a_attempt_id (filter (\<lambda>a. a_state a \<noteq> ''pending'') (unfinished_of gid (gdb s))) \<and>
    r' = recovered_goal (rr_epoch rep) d (now + secs) now (rr_ambiguous rep \<noteq> []) r \<and>
    goal_attempts (gdb s') = fold (recover_step (rr_epoch rep) now) (unfinished_of gid (gdb s)) (goal_attempts (gdb s)) \<and>
    goals (gdb s') = od_put gid r' (goals (gdb s))"
proof -
  have ev: "goal_attempts (gdb t') = goal_attempts (gdb t) \<and> goals (gdb t') = goals (gdb t)"
    if "append_event_row gid e t = (Inr u, t')" for e t u t'
    using append_event_Inr [OF that] by auto
  show ?thesis
    using assms unfolding gs_recover_lease_def gs_transaction_def Let_def gs_unfinished_attempts_def
    by (auto simp: op_bind_eq_Inr op_then_eq_Inr op_atomic_eq_Inr gs_get_eq gs_select_eq op_simps recover_for_run
        gs_execute_Inr db_write_goal_def dest!: gs_now_Inr ev split: if_splits option.splits)
qed

lemma fenced_stale:
  assumes "od_get (goal_attempts (gdb s)) aid = Some a" and "a_lease_epoch a \<noteq> ep"
  shows "\<exists>s'. fenced_attempt_update aid ep sets s = (Inl (StaleEpoch ep (a_lease_epoch a)), s') \<and> gdb s' = gdb s"
  using assms by (simp add: fenced_attempt_update_def op_bind_def op_simps gs_now_def)

lemma recovered_attempts:
  assumes wf: "attempts_wf (gdb s)" and "gs_recover_lease gid d secs s = (Inr (r, rep), s')"
    and a: "a \<in> set (unfinished_of gid (gdb s))"
  shows "\<exists>a'. od_get (goal_attempts (gdb s')) (a_attempt_id a) = Some a' \<and> a_state a' = recovered_state a \<and>
    a_lease_epoch a' = rr_epoch rep"
proof -
  obtain now where "goal_attempts (gdb s') =
      fold (recover_step (rr_epoch rep) now) (unfinished_of gid (gdb s)) (goal_attempts (gdb s))"
    using recover_Inr [OF assms(2)] by blast
  then show ?thesis
    using recover_fold_get [OF unfinished_rows(1) [OF wf] a] a unfinished_rows(2) [OF wf] by auto
qed

lemma recovered_none_left:
  assumes wf: "db_wf (gdb s)" and rec: "gs_recover_lease gid d secs s = (Inr (r, rep), s')"
  shows "unfinished_of gid (gdb s') = []"
proof -
  have at: "attempts_wf (gdb s)" using wf by (simp add: db_wf_def)
  have at': "attempts_wf (gdb s')"
    using op_keepsD [OF wf.keeps_recover_lease wf, of gid d secs] rec by (simp add: db_wf_def)
  obtain now where fold: "goal_attempts (gdb s') =
      fold (recover_step (rr_epoch rep) now) (unfinished_of gid (gdb s)) (goal_attempts (gdb s))"
    using recover_Inr [OF rec] by blast
  have "False" if a: "a \<in> set (unfinished_of gid (gdb s'))" for a
  proof (cases "a_attempt_id a \<in> a_attempt_id ` set (unfinished_of gid (gdb s))")
    case True
    then obtain b where b: "b \<in> set (unfinished_of gid (gdb s))" "a_attempt_id b = a_attempt_id a" by auto
    then have "a_state a = recovered_state b"
      using recovered_attempts [OF at rec b(1)] a unfinished_rows(2) [OF at', of a gid] by auto
    then show False using a unfinished_rows(2) [OF at', of a gid] by (auto simp: recovered_state_def split: if_splits)
  next
    case False
    then have "od_get (goal_attempts (gdb s)) (a_attempt_id a) = Some a"
      using a unfinished_rows(2) [OF at', of a gid] recover_fold_other [OF False] by (simp add: fold)
    then have "a \<in> set (unfinished_of gid (gdb s))"
      using a unfinished_rows(2) [OF at', of a gid] unfinished_rows(2) [OF at, of a gid] by simp
    then show False using False by auto
  qed
  then show ?thesis by (cases "unfinished_of gid (gdb s')") auto
qed

section \<open>Theorems\<close>

lemma new_store_db [simp]: "gdb (new_store clk ids) = empty_db"
  by (simp add: new_store_def)

lemma empty_db_wf: "db_wf empty_db" "one_unfinished empty_db"
  by (simp_all add: db_wf_def goals_wf_def attempts_wf_def events_wf_def rows_wf_def goal_log_def
      one_unfinished_def empty_db_def)

text \<open>C17: Whatever sequence of operations the clients run on a new store, with whatever arguments and
  however many of them raise, the database stays well formed: rows are filed under their own
  identifiers, versions are positive, attempt states are among the six, a goal has at most one
  attempt for a sequence number, and its events are numbered 1, 2, 3, ... without a gap.
\<close>

theorem stored_rows_well_typed:
  assumes "store_run (new_store clk ids) s"
  shows "db_wf (gdb s)"
  using wf.keeps_run [OF assms] empty_db_wf(1) by simp

text \<open>C16: In every database the operations can reach, a conversation has at most one goal that is
  neither complete nor cleared.
\<close>

theorem one_unfinished_goal:
  assumes "store_run (new_store clk ids) s"
    and "od_get (goals (gdb s)) gid = Some r" and "od_get (goals (gdb s)) hid = Some q"
    and "g_conversation_uid r = g_conversation_uid q" and "is_unfinished r" and "is_unfinished q"
  shows "gid = hid"
proof -
  have "one_unfinished (gdb s)" using single.keeps_run [OF assms(1)] empty_db_wf(2) by simp
  then show ?thesis using assms(2-) unfolding one_unfinished_def by blast
qed

text \<open>C4: No lost update. A client reads a goal; any operations of other clients follow; then the
  client writes with the version it read. If the write succeeds, the goal it overwrote is exactly
  the record that was read, the new record is that one with the client's fields, and one event
  with the next sequence number was appended in the same transaction. If the goal changed in
  between, the write raises \<open>StaleVersion\<close> and the store is left as it was.
\<close>

theorem compare_and_swap_loses_nothing:
  assumes read: "gs_get gid s = (Inr r, s)" and run: "store_run s t"
    and upd: "list_all is_updatable us"
  shows "case gs_transition gid (g_record_version r) kind a us t of
      (Inr r', t') \<Rightarrow>
        od_get (goals (gdb t)) gid = Some r \<and> (\<exists>now. r' = updated_record us now r) \<and>
        od_get (goals (gdb t')) gid = Some r' \<and>
        (\<exists>e. goal_events (gdb t') = goal_events (gdb t) @ [e] \<and> transition_event gid kind a r r' (gdb t) e)
    | (Inl x, t') \<Rightarrow>
        gdb t' = gdb t \<and>
        (od_get (goals (gdb t)) gid \<noteq> Some r \<longrightarrow>
           (\<exists>q. od_get (goals (gdb t)) gid = Some q \<and> x = StaleVersion (g_record_version q)))"
proof -
  have "od_get (goals (gdb s)) gid = Some r" using read by (simp add: gs_get_eq split: option.splits)
  moreover have "db_extends (gdb s) (gdb t)" using ext.keeps_run [OF run, of "gdb s"] by simp
  ultimately obtain q where q: "od_get (goals (gdb t)) gid = Some q" "goal_after r q"
    unfolding db_extends_def by blast
  show ?thesis
  proof (cases "q = r")
    case True
    then show ?thesis
      using q by (auto split: prod.split sum.split dest!: transition_Inr transition_raises)
  next
    case False
    then have "g_record_version q \<noteq> g_record_version r" using q(2) by (auto simp: goal_after_def)
    then show ?thesis using q(1) False transition_stale [OF q(1) _ upd] by simp
  qed
qed

text \<open>C10: Recovering a lease settles what the dead owner left: every unfinished attempt becomes
  cancelled (when it was only pending) or ambiguous, none is left unfinished, the goal is paused
  when any of them may have run, and the old owner, which still holds the old epoch, can neither
  acknowledge, settle nor cancel its attempt: the write raises \<open>StaleEpoch\<close> and changes nothing.
\<close>

theorem recovery_fences_the_old_owner:
  assumes wf: "db_wf (gdb s)" and rec: "gs_recover_lease gid d secs s = (Inr (r, rep), s')"
    and a: "a \<in> set (unfinished_of gid (gdb s))"
    and old: "od_get (goals (gdb s)) gid = Some g" "a_lease_epoch a \<le> g_lease_epoch g"
  shows "(\<exists>a'. od_get (goal_attempts (gdb s')) (a_attempt_id a) = Some a' \<and>
             a_state a' = (if a_state a = ''pending'' then ''cancelled'' else ''ambiguous'')) \<and>
         unfinished_of gid (gdb s') = [] \<and>
         (a_state a \<noteq> ''pending'' \<longrightarrow> g_status r = ''paused'') \<and>
         (\<forall>m \<in> {gs_mark_ack (a_attempt_id a) (a_lease_epoch a) pref,
                gs_settle_attempt (a_attempt_id a) (a_lease_epoch a) tid oc us,
                gs_cancel_attempt (a_attempt_id a) (a_lease_epoch a)}.
            \<exists>t. m s' = (Inl (StaleEpoch (a_lease_epoch a) (rr_epoch rep)), t) \<and> gdb t = gdb s')"
proof -
  have at: "attempts_wf (gdb s)" using wf by (simp add: db_wf_def)
  obtain a' where a': "od_get (goal_attempts (gdb s')) (a_attempt_id a) = Some a'"
      "a_state a' = recovered_state a" "a_lease_epoch a' = rr_epoch rep"
    using recovered_attempts [OF at rec a] by blast
  have ep: "rr_epoch rep = g_lease_epoch g + 1" using recover_Inr [OF rec] old(1) by auto
  have "g_status r = ''paused''" if "a_state a \<noteq> ''pending''"
  proof -
    have "filter (\<lambda>a. a_state a \<noteq> ''pending'') (unfinished_of gid (gdb s)) \<noteq> []"
      using a that by (auto simp: filter_empty_conv)
    then show ?thesis using recover_Inr [OF rec] by (auto simp: recovered_goal_def Let_def)
  qed
  moreover have "a_lease_epoch a' \<noteq> a_lease_epoch a" using a'(3) ep old(2) by simp
  ultimately show ?thesis
    using a' recovered_none_left [OF wf rec] fenced_stale [OF a'(1)]
    by (auto simp: recovered_state_def gs_mark_ack_def gs_settle_attempt_def gs_cancel_attempt_def)
qed

text \<open>A store for the examples: the clock counts the readings and identifiers are runs of one letter.\<close>

definition demo_store :: goal_store where
  "demo_store = new_store (\<lambda>n. real n) (\<lambda>n. replicate (Suc n) (CHR ''a''))"

definition demo_goal :: goal_args where
  "demo_goal = \<lparr>ga_conversation_uid = ''conv'', ga_objective = ''ship it'', ga_project_root = ''/p'',
     ga_session_id = None, ga_token_budget = Some 1000, ga_auto_turn_limit = 40, ga_auto_time_limit_s = 7200,
     ga_attachment_refs = [], ga_task_ids = [], ga_scope_snapshot = [], ga_attachment_request_id = None\<rparr>"

definition demo_created :: goal_store where
  "demo_created = snd (gs_create demo_goal demo_store)"

definition demo_dispatched :: goal_store where
  "demo_dispatched = snd (gs_insert_attempt ''a'' 1 0 1 ''dispatched'' None demo_created)"

lemma demo_created_run: "store_run demo_store demo_created" "store_run demo_store demo_dispatched"
proof -
  have "store_step demo_store demo_created" unfolding demo_created_def by (rule step_create)
  moreover have "store_step demo_created demo_dispatched" unfolding demo_dispatched_def by (rule step_insert_attempt)
  ultimately show "store_run demo_store demo_created" "store_run demo_store demo_dispatched" by simp_all
qed

lemma demo_created_goal:
  "od_get (goals (gdb demo_created)) ''a'' = Some (fresh_goal ''a'' 0 demo_goal)"
  by code_simp

lemma demo_dispatched_rows:
  "map a_attempt_id (unfinished_of ''a'' (gdb demo_dispatched)) = [''aaa'']"
  "map a_lease_epoch (unfinished_of ''a'' (gdb demo_dispatched)) = [0]"
  "map a_state (unfinished_of ''a'' (gdb demo_dispatched)) = [''dispatched'']"
  by code_simp+

theorem stored_rows_well_typed_witness:
  "map a_attempt_id (map snd (goal_attempts (gdb demo_dispatched))) = [''aaa''] \<and> db_wf (gdb demo_dispatched)"
proof
  show "map a_attempt_id (map snd (goal_attempts (gdb demo_dispatched))) = [''aaa'']" by code_simp
  show "db_wf (gdb demo_dispatched)"
    using stored_rows_well_typed demo_created_run(2) [unfolded demo_store_def] by blast
qed

theorem one_unfinished_goal_witness:
  "\<exists>r. od_get (goals (gdb demo_created)) ''a'' = Some r \<and> is_unfinished r \<and> ''a'' = g_goal_id r"
proof -
  let ?r = "fresh_goal ''a'' 0 demo_goal"
  have r: "is_unfinished ?r" and id: "g_goal_id ?r = ''a''" by code_simp+
  have row: "od_get (goals (gdb demo_created)) (g_goal_id ?r) = Some ?r" unfolding id by (rule demo_created_goal)
  have "''a'' = g_goal_id ?r"
    by (rule one_unfinished_goal [OF demo_created_run(1) [unfolded demo_store_def] demo_created_goal row refl r r])
  with demo_created_goal r show ?thesis by (intro exI conjI)
qed

theorem compare_and_swap_loses_nothing_witness:
  "fst (gs_transition ''a'' 1 ''paused'' transition_defaults [U_status ''paused''] demo_created) \<noteq> Inl (StaleVersion 1) \<and>
   (\<exists>r' t'. gs_transition ''a'' 1 ''paused'' transition_defaults [U_status ''paused''] demo_created = (Inr r', t') \<and>
      od_get (goals (gdb t')) ''a'' = Some r' \<and> length (goal_events (gdb t')) = length (goal_events (gdb demo_created)) + 1)"
proof -
  have get: "gs_get ''a'' demo_created = (Inr (fresh_goal ''a'' 0 demo_goal), demo_created)"
    by (simp add: gs_get_eq demo_created_goal)
  have v: "g_record_version (fresh_goal ''a'' 0 demo_goal) = 1" by (simp add: fresh_goal_def)
  have ok: "\<exists>r' t'. gs_transition ''a'' 1 ''paused'' transition_defaults [U_status ''paused''] demo_created = (Inr r', t')"
    unfolding op_returned_iff [symmetric] by code_simp
  show ?thesis
    using ok compare_and_swap_loses_nothing [OF get rtranclp.rtrancl_refl, of "[U_status ''paused'']" "''paused''" transition_defaults]
    by (auto simp: v)
qed

theorem recovery_fences_the_old_owner_witness:
  "\<exists>r rep s'. gs_recover_lease ''a'' ''host:2'' 90 demo_dispatched = (Inr (r, rep), s') \<and> g_status r = ''paused'' \<and>
     unfinished_of ''a'' (gdb s') = [] \<and>
     (\<exists>t. gs_mark_ack ''aaa'' 0 None s' = (Inl (StaleEpoch 0 (rr_epoch rep)), t) \<and> gdb t = gdb s')"
proof -
  have "db_wf (gdb demo_dispatched)" using wf.keeps_run [OF demo_created_run(2)] empty_db_wf(1) by (simp add: demo_store_def)
  moreover obtain r rep s' where "gs_recover_lease ''a'' ''host:2'' 90 demo_dispatched = (Inr (r, rep), s')"
  proof -
    have "op_returned (gs_recover_lease ''a'' ''host:2'' 90 demo_dispatched)" by code_simp
    then show ?thesis using that by (auto simp: op_returned_iff)
  qed
  moreover obtain a where "unfinished_of ''a'' (gdb demo_dispatched) = [a]" "a_attempt_id a = ''aaa''"
      "a_lease_epoch a = 0" "a_state a = ''dispatched''"
    using demo_dispatched_rows by auto
  moreover have "od_get (goals (gdb demo_dispatched)) ''a'' = Some (fresh_goal ''a'' 0 demo_goal)" by code_simp
  moreover have "g_lease_epoch (fresh_goal ''a'' 0 demo_goal) = 0" by (simp add: fresh_goal_def)
  ultimately show ?thesis
    using recovery_fences_the_old_owner [of demo_dispatched "''a''" "''host:2''" 90 r rep s' a "fresh_goal ''a'' 0 demo_goal"]
    by simp
qed

text \<open>A conversation that already has an unfinished goal cannot get another: \<open>create\<close> raises
  \<open>UnfinishedGoalExists\<close> with the identifier of the one it has and leaves the database as it was.
\<close>

theorem second_goal_refused:
  assumes wf: "goals_wf (gdb s)" and active: "active_goal (ga_conversation_uid a) (gdb s) = Some other"
    and direct: "given_id (ga_attachment_request_id a) = None"
  shows "\<exists>s'. gs_create a s = (Inl (UnfinishedGoalExists (g_goal_id other)), s') \<and> gdb s' = gdb s"
proof -
  have "other \<in> snd ` set (goals (gdb s))" and o: "g_conversation_uid other = ga_conversation_uid a" "is_unfinished other"
    using find_Some_in [OF active [unfolded active_goal_def]] by auto
  then obtain hid where hid: "(hid, other) \<in> set (goals (gdb s))" by force
  have key: "g_goal_id other = hid" and get: "od_get (goals (gdb s)) hid = Some other"
    using hid wf by (auto simp: goals_wf_def od_wf_def)
  have dup: "db_insert_goal ((fresh_goal gid now a)\<lparr>g_attachment_refs := refs\<rparr>) db = None"
    if "goals db = goals (gdb s)" for gid now refs db
  proof (cases "hid = gid")
    case False
    then have "db_unfinished_other gid (ga_conversation_uid a) db"
      using hid o that by (auto simp: db_unfinished_other_def)
    then show ?thesis by (simp add: db_insert_goal_def is_unfinished_def TERMINAL_STATUSES_def)
  qed (use get that in \<open>simp add: db_insert_goal_def\<close>)
  show ?thesis
    using active direct
    by (simp add: gs_create_def gs_now_def gs_uuid_def op_bind_def op_catch_def gs_transaction_def op_atomic_def
        op_then_def request_refs_def op_simps Let_def gs_execute_def dup gs_rollback_def gs_get_active_def)
qed

theorem second_goal_refused_witness:
  "\<exists>s'. gs_create demo_goal demo_created = (Inl (UnfinishedGoalExists ''a''), s') \<and> gdb s' = gdb demo_created"
proof -
  have "goals_wf (gdb demo_created)"
    using wf.keeps_run [OF demo_created_run(1)] empty_db_wf(1) by (simp add: demo_store_def db_wf_def)
  moreover have "active_goal (ga_conversation_uid demo_goal) (gdb demo_created) = Some (fresh_goal ''a'' 0 demo_goal)"
    by code_simp
  moreover have "given_id (ga_attachment_request_id demo_goal) = None" by code_simp
  ultimately show ?thesis using second_goal_refused [of demo_created demo_goal] by (simp add: fresh_goal_def)
qed

end
