(* ===== verification/Goal_Service.thy ===== *)
theory Goal_Service
  imports Goal_Store
begin

text \<open>
  The policy of \<open>kollabor/goals/service.py\<close> on top of the goal store: the lifecycle commands,
  the safe-boundary checklist that decides whether a goal may take another turn, the accounting of
  a turn, the blocker window, and the validation of \<open>goal_report\<close> controls.

  The service object is the record \<open>goal_service\<close>: the store, the dictionaries
  \<open>_turn_started_at\<close> and \<open>_in_flight\<close>, the notices handed to the publisher, and the readings
  of the monotonic clock. \<open>sv_str\<close> and \<open>sv_repr\<close> are Python's \<open>str\<close> and \<open>repr\<close> on values
  that are not strings, \<open>sv_float\<close> is \<open>float\<close> on a string, and
  \<open>sv_checkers\<close> is the table \<open>REGISTERED_CHECKERS\<close>. An exception of the publisher is swallowed,
  so publishing only records the notice.
\<close>

section \<open>State\<close>

record goal_notice =
  n_goal_id :: string
  n_conversation_uid :: string
  n_status :: string
  n_kind :: string
  n_turn_count :: int
  n_tokens_used :: "real option"
  n_token_budget :: "real option"
  n_last_reason :: "string option"
  n_objective :: string

record goal_service =
  sv_store :: goal_store
  sv_daemon_id :: string
  sv_turn_started :: "(string, real) odict"
  sv_in_flight :: "(string, goal_attempt) odict"
  sv_publisher :: bool
  sv_published :: "goal_notice list"
  sv_mono_values :: "nat \<Rightarrow> real"
  sv_mono_reads :: nat
  sv_checkers :: "string \<Rightarrow> (goal_record \<Rightarrow> goal_evidence list \<Rightarrow> bool) option"
  sv_str :: "pyval \<Rightarrow> string"
  sv_repr :: "pyval \<Rightarrow> string"
  sv_float :: "string \<Rightarrow> real option"

type_synonym 'a service_op = "(goal_service, goal_exn, 'a) op"

definition put_store :: "goal_store \<Rightarrow> goal_service \<Rightarrow> goal_service" where
  "put_store s v = v\<lparr>sv_store := s\<rparr>"

definition on_store :: "'a store_op \<Rightarrow> 'a service_op" where
  "on_store m = op_on sv_store put_store m"

definition sv_now :: "real service_op" where
  "sv_now v = (Inr (sv_mono_values v (sv_mono_reads v)), v\<lparr>sv_mono_reads := Suc (sv_mono_reads v)\<rparr>)"

section \<open>Constants and messages\<close>

definition MAX_OBJECTIVE_CHARS :: nat where "MAX_OBJECTIVE_CHARS = 4000"
definition RESUMABLE_STATUSES :: "string list" where
  "RESUMABLE_STATUSES = [''paused'', ''blocked'', ''usage_limited'', ''budget_limited'']"
definition SAME_BLOCKER_LIMIT :: nat where "SAME_BLOCKER_LIMIT = 3"
definition ALTERNATING_WINDOW :: nat where "ALTERNATING_WINDOW = 6"
definition ALTERNATING_DISTINCT :: nat where "ALTERNATING_DISTINCT = 2"
definition BLOCKER_WINDOW_CAP :: nat where "BLOCKER_WINDOW_CAP = 6"

record turn_outcome =
  o_turn_id :: string
  o_origin :: string
  o_status :: string
  o_goal_id :: "string option"
  o_error :: "string option"
  o_request_usage :: "pydict list"

record boundary_context =
  b_queue_empty :: bool
  b_pending_work :: bool
  b_invalidated :: bool
  b_provider_healthy :: bool

record goal_control =
  c_goal_id :: string
  c_expected_record_version :: int
  c_kind :: string
  c_reason :: string
  c_evidence :: "pyval list"

definition py_text :: "(pyval \<Rightarrow> string) \<Rightarrow> pyval \<Rightarrow> string" where
  "py_text str x = (case x of PStr s \<Rightarrow> s | _ \<Rightarrow> str x)"

definition opt_float :: "real option \<Rightarrow> pyval" where
  "opt_float x = (case x of None \<Rightarrow> PNone | Some r \<Rightarrow> PFloat r)"

section \<open>Transitions that are published\<close>

definition goal_notice_of :: "goal_record \<Rightarrow> string \<Rightarrow> goal_notice" where
  "goal_notice_of r kind = \<lparr>n_goal_id = g_short_id r, n_conversation_uid = g_conversation_uid r,
     n_status = g_status r, n_kind = kind, n_turn_count = g_turn_count r, n_tokens_used = g_tokens_used r,
     n_token_budget = g_token_budget r, n_last_reason = g_last_reason r,
     n_objective = (if length (g_objective r) > 120 then take 120 (g_objective r) @ ''...'' else g_objective r)\<rparr>"

definition sv_notify :: "goal_record \<Rightarrow> string \<Rightarrow> unit service_op" where
  "sv_notify r kind = op_modify (\<lambda>v. if sv_publisher v then v\<lparr>sv_published := sv_published v @ [goal_notice_of r kind]\<rparr> else v)"

definition sv_transition :: "string \<Rightarrow> int \<Rightarrow> string \<Rightarrow> transition_args \<Rightarrow> goal_update list \<Rightarrow> goal_record service_op" where
  "sv_transition gid version kind a us =
     op_bind (on_store (gs_transition gid version kind a us)) (\<lambda>r.
     op_then (sv_notify r kind) (op_return r))"

text \<open>The calls of \<open>self._t\<close> with \<open>daemon_id=self.daemon_id\<close>.\<close>

definition sv_t :: "string \<Rightarrow> int \<Rightarrow> string \<Rightarrow> string \<Rightarrow> string option \<Rightarrow> goal_update list \<Rightarrow> goal_record service_op" where
  "sv_t gid version kind actor reason us =
     op_bind (op_read sv_daemon_id) (\<lambda>d.
     sv_transition gid version kind
       (transition_defaults\<lparr>ta_actor := actor, ta_daemon_id := Some d, ta_reason := reason\<rparr>) us)"

definition sv_get :: "string \<Rightarrow> goal_record service_op" where
  "sv_get gid = on_store (gs_get gid)"

section \<open>Turns in flight\<close>

definition note_dispatched :: "string \<Rightarrow> goal_attempt \<Rightarrow> unit service_op" where
  "note_dispatched gid a = op_modify (\<lambda>v. v\<lparr>sv_in_flight := od_put gid a (sv_in_flight v)\<rparr>)"

definition drain_turn_start :: "string \<Rightarrow> real service_op" where
  "drain_turn_start gid =
     op_bind (op_read (\<lambda>v. od_get (sv_turn_started v) gid)) (\<lambda>started.
     op_then (op_modify (\<lambda>v. v\<lparr>sv_turn_started := od_del gid (sv_turn_started v)\<rparr>))
     (case started of
        None \<Rightarrow> op_return 0
      | Some t \<Rightarrow> op_bind sv_now (\<lambda>now. op_return (max 0 (now - t)))))"

definition clear_dispatched :: "string \<Rightarrow> unit service_op" where
  "clear_dispatched gid =
     op_then (op_modify (\<lambda>v. v\<lparr>sv_in_flight := od_del gid (sv_in_flight v)\<rparr>))
     (op_bind (drain_turn_start gid) (\<lambda>_. op_return ()))"

fun first_in_flight :: "(string \<times> goal_attempt) list \<Rightarrow> (goal_record \<times> goal_attempt) option service_op" where
  "first_in_flight [] = op_return None"
| "first_in_flight ((gid, a) # rest) =
     (if a_state a \<in> {''dispatched'', ''acked''}
      then op_catch (op_bind (sv_get gid) (\<lambda>r. op_return (Some (r, a))))
             (\<lambda>e. if is_store_error e then first_in_flight rest else op_raise e)
      else first_in_flight rest)"

definition current_goal_attempt :: "(goal_record \<times> goal_attempt) option service_op" where
  "current_goal_attempt = op_bind (op_read sv_in_flight) first_in_flight"

definition pause_artifact_missing :: "string \<Rightarrow> string \<Rightarrow> goal_record service_op" where
  "pause_artifact_missing gid ref =
     op_bind (sv_get gid) (\<lambda>r.
     let reason = ''artifact_missing: '' @ ref in
     sv_t gid (g_record_version r) ''artifact_missing'' ''system'' (Some reason)
       [U_status ''paused'', U_blocked_reason (Some reason), U_last_reason (Some reason)])"

definition goal_turn_in_flight :: "string \<Rightarrow> bool service_op" where
  "goal_turn_in_flight gid =
     op_bind (on_store (gs_unfinished_attempts gid)) (\<lambda>atts.
     op_return (list_ex (\<lambda>a. a_state a \<in> {''dispatched'', ''acked''}) atts))"

section \<open>Lifecycle commands\<close>

definition create_goal :: "goal_args \<Rightarrow> goal_record service_op" where
  "create_goal a =
     (let objective = str_strip (ga_objective a) in
      if objective = [] then op_raise (GoalError ''objective is empty'')
      else if length objective > MAX_OBJECTIVE_CHARS then op_raise (GoalError (''objective exceeds '' @ show_nat MAX_OBJECTIVE_CHARS @ '' characters (got '' @
          show_nat (length objective) @ '')''))
      else if (case ga_token_budget a of Some b \<Rightarrow> b \<le> 0 | None \<Rightarrow> False)
        then op_raise (GoalError ''token budget must be positive'')
      else
        op_bind
          (op_catch (on_store (gs_create (a\<lparr>ga_objective := objective\<rparr>)))
            (\<lambda>e. case e of
               GoalAttachmentRequestNotFound \<Rightarrow> op_raise (GoalError ''attachment request not found in this conversation'')
             | UnfinishedGoalExists gid \<Rightarrow> op_bind (sv_get gid) (\<lambda>other.
                 op_raise (GoalError (''goal '' @ g_short_id other @
                   '' is still unfinished; use /goal show, /goal clear, or /goal resume'')))
             | _ \<Rightarrow> op_raise e)) (\<lambda>record.
        op_bind sv_now (\<lambda>now.
        op_then (op_modify (\<lambda>v. v\<lparr>sv_turn_started := od_put (g_goal_id record) now (sv_turn_started v)\<rparr>))
       (op_then (sv_notify record ''created'') (op_return record)))))"

definition held :: "pydict option \<Rightarrow> bool" where
  "held p = (p \<noteq> None \<and> p \<noteq> Some [])"

definition discard_pending_completion :: "string \<Rightarrow> unit service_op" where
  "discard_pending_completion gid =
     op_bind (sv_get gid) (\<lambda>r.
     if held (g_pending_completion r)
     then op_bind (on_store (gs_update_fields gid (g_record_version r) [U_pending_completion None])) (\<lambda>_. op_return ())
     else op_return ())"

text \<open>The transition of \<open>pause\<close>, for the record as it is after a held completion was discarded.\<close>

definition pause_row :: "string \<Rightarrow> string \<Rightarrow> goal_record \<Rightarrow> goal_record service_op" where
  "pause_row gid actor r =
     (if g_status r = ''active''
      then op_bind (goal_turn_in_flight gid) (\<lambda>in_flight.
        if in_flight then sv_t gid (g_record_version r) ''pause_requested'' actor None [U_pause_requested True]
        else sv_t gid (g_record_version r) ''paused'' actor (Some ''user pause'') [U_status ''paused''])
      else sv_t gid (g_record_version r) ''pause_requested'' actor None [U_pause_requested True])"

definition pause :: "string \<Rightarrow> string \<Rightarrow> goal_record service_op" where
  "pause gid actor =
     op_bind (sv_get gid) (\<lambda>r.
     if \<not> is_unfinished r then op_raise (GoalError (''goal '' @ g_short_id r @ '' is '' @ g_status r))
     else
       op_bind (if held (g_pending_completion r)
                then op_then (discard_pending_completion gid) (sv_get gid) else op_return r) (pause_row gid actor))"

definition resume_updates :: "(pyval \<Rightarrow> string) \<Rightarrow> goal_record \<Rightarrow> real option \<Rightarrow> int option \<Rightarrow> goal_exn + goal_update list" where
  "resume_updates str r token_budget turn_limit =
     (let base = [U_status ''active'', U_execution_generation (g_execution_generation r + 1),
            U_pause_requested False, U_clear_requested False, U_blocked_reason None, U_no_progress_count 0];
          used = (case g_tokens_used r of None \<Rightarrow> 0 | Some t \<Rightarrow> t);
          limit_error = (\<lambda>n. GoalError (''turn limit '' @ show_int n @ '' must exceed turns already used ('' @
            show_int (g_turn_count r) @ '')'')) in
      case token_budget of
        Some b \<Rightarrow>
          if b \<le> 0 then Inl (GoalError ''token budget must be positive'')
          else if b \<le> used then Inl (GoalError (''budget '' @ str (PFloat b) @ '' must exceed tokens already used ('' @
            str (PFloat used) @ ''); budgets are total ceilings''))
          else (case turn_limit of
              Some n \<Rightarrow> if n \<le> g_turn_count r then Inl (limit_error n)
                        else Inr (base @ [U_token_budget (Some b), U_auto_turn_limit n])
            | None \<Rightarrow> Inr (base @ [U_token_budget (Some b)]))
      | None \<Rightarrow>
          (case turn_limit of
              Some n \<Rightarrow> if n \<le> g_turn_count r then Inl (limit_error n)
                        else Inr (base @ [U_auto_turn_limit n])
            | None \<Rightarrow> Inr base))"

definition resume :: "string \<Rightarrow> string \<Rightarrow> real option \<Rightarrow> int option \<Rightarrow> goal_record service_op" where
  "resume gid actor token_budget turn_limit =
     op_bind (sv_get gid) (\<lambda>r.
     if g_status r \<notin> set RESUMABLE_STATUSES
     then op_raise (GoalError (''goal '' @ g_short_id r @ '' is '' @ g_status r @ ''; nothing to resume''))
     else op_bind (op_read sv_str) (\<lambda>str. case resume_updates str r token_budget turn_limit of
         Inl e \<Rightarrow> op_raise e
       | Inr updates \<Rightarrow>
           op_then (sv_t gid (g_record_version r) ''generation_bumped'' actor
             (Some (''resume: generation '' @ show_int (g_execution_generation r) @ '' -> '' @
                show_int (g_execution_generation r + 1))) [])
          (op_bind (sv_get gid) (\<lambda>r.
           sv_t gid (g_record_version r) ''resumed'' actor None updates))))"

definition clear_goal :: "string \<Rightarrow> string \<Rightarrow> goal_record service_op" where
  "clear_goal gid actor =
     op_bind (sv_get gid) (\<lambda>r.
     if \<not> is_unfinished r then op_return r
     else op_bind (goal_turn_in_flight gid) (\<lambda>in_flight.
       if in_flight then sv_t gid (g_record_version r) ''clear_requested'' actor None [U_clear_requested True]
       else sv_t gid (g_record_version r) ''cleared'' actor (Some ''user clear'') [U_status ''cleared'']))"

section \<open>Guarded continuation\<close>

definition bound_reason :: "goal_record \<Rightarrow> string option" where
  "bound_reason r =
     (if g_turn_count r \<ge> g_auto_turn_limit r
      then Some (''auto_turn_limit ('' @ show_int (g_auto_turn_limit r) @ '' turns)'')
      else if g_time_used_seconds r \<ge> real_of_int (g_auto_time_limit_s r)
      then Some (''auto_time_limit ('' @ show_int (g_auto_time_limit_s r) @ ''s active time)'')
      else None)"

definition bound_stop :: "goal_record \<Rightarrow> string option service_op" where
  "bound_stop r =
     (case bound_reason r of
        None \<Rightarrow> op_return None
      | Some reason \<Rightarrow>
          op_then (sv_t (g_goal_id r) (g_record_version r) ''budget_limited'' ''system'' (Some reason)
            [U_status ''budget_limited'', U_blocked_reason (Some reason), U_last_reason (Some reason)])
          (op_return (Some reason)))"

definition budget_spent :: "goal_record \<Rightarrow> bool" where
  "budget_spent r =
     (case g_token_budget r of
        None \<Rightarrow> False
      | Some b \<Rightarrow> (case g_tokens_used r of None \<Rightarrow> 0 | Some t \<Rightarrow> t) \<ge> b)"

text \<open>The last step of the checklist: commit the attempt, then the turn.\<close>

definition dispatch_turn :: "string \<Rightarrow> goal_record \<Rightarrow> goal_attempt option service_op" where
  "dispatch_turn gid r =
     (let sq = g_continuation_seq r + 1 in
      op_bind (on_store (gs_insert_attempt gid sq (g_lease_epoch r) (g_execution_generation r) ''dispatched'' None)) (\<lambda>attempt.
      op_bind (op_read sv_daemon_id) (\<lambda>d.
      op_then (sv_transition gid (g_record_version r) ''turn_started''
        (transition_defaults\<lparr>ta_actor := ''daemon'', ta_daemon_id := Some d, ta_turn_id := Some (a_attempt_id attempt)\<rparr>)
        [U_continuation_seq sq, U_turn_count (g_turn_count r + 1)])
     (op_bind sv_now (\<lambda>now.
      op_then (op_modify (\<lambda>v. v\<lparr>sv_turn_started := od_put gid now (sv_turn_started v)\<rparr>))
        (op_return (Some attempt)))))))"

definition maybe_continue :: "string \<Rightarrow> turn_outcome \<Rightarrow> boundary_context \<Rightarrow> goal_attempt option service_op" where
  "maybe_continue gid outcome ctx =
     op_bind (sv_get gid) (\<lambda>r.
     if g_clear_requested r then
       op_then (sv_t gid (g_record_version r) ''cleared'' ''user'' (Some ''clear intent applied at boundary'')
         [U_status ''cleared'']) (op_return None)
     else if g_pause_requested r then
       op_then (sv_t gid (g_record_version r) ''paused'' ''user'' (Some ''pause intent applied at boundary'')
         [U_status ''paused'']) (op_return None)
     else if g_status r \<noteq> ''active'' then op_return None
     else if o_status outcome = ''cancelled'' then
       op_then (sv_t gid (g_record_version r) ''paused'' ''system'' (Some ''turn cancelled'')
         [U_status ''paused'', U_last_reason (Some ''turn cancelled'')]) (op_return None)
     else if o_status outcome = ''error'' then
       (let detail = ''turn error: '' @ (case given_id (o_error outcome) of None \<Rightarrow> ''unknown'' | Some e \<Rightarrow> e) in
        op_then (sv_t gid (g_record_version r) ''error'' ''system'' (Some detail)
          [U_status ''paused'', U_last_reason (Some detail)]) (op_return None))
     else if o_origin outcome \<noteq> ''goal'' \<or> o_status outcome \<noteq> ''ok'' then op_return None
     else if \<not> b_queue_empty ctx \<or> b_pending_work ctx \<or> b_invalidated ctx then op_return None
     else if \<not> b_provider_healthy ctx then op_return None
     else
       op_bind (bound_stop r) (\<lambda>stop.
       if stop \<noteq> None then op_return None
       else if budget_spent r then
         op_bind (op_read sv_str) (\<lambda>str.
         let reason = ''token budget reached ('' @ str (opt_float (g_tokens_used r)) @ ''/'' @
               str (opt_float (g_token_budget r)) @ '')'' in
         op_then (sv_t gid (g_record_version r) ''budget_limited'' ''system'' (Some reason)
           [U_status ''budget_limited'', U_last_reason (Some reason)]) (op_return None))
       else dispatch_turn gid r))"

section \<open>Turn accounting\<close>

definition sv_mark_ack :: "goal_attempt \<Rightarrow> string option \<Rightarrow> goal_attempt service_op" where
  "sv_mark_ack a provider_ref = on_store (gs_mark_ack (a_attempt_id a) (a_lease_epoch a) provider_ref)"

text \<open>\<open>float(u.get("tokens") or 0.0)\<close>\<close>

definition usage_tokens :: "(string \<Rightarrow> real option) \<Rightarrow> pydict \<Rightarrow> goal_exn + real" where
  "usage_tokens float u =
     (case od_get_default u ''tokens'' PNone of
        v \<Rightarrow> if \<not> truthy v then Inr 0
             else (case v of
                 PInt i \<Rightarrow> Inr (real_of_int i)
               | PFloat r \<Rightarrow> Inr r
               | PBool b \<Rightarrow> Inr 1
               | PStr s \<Rightarrow> (case float s of Some r \<Rightarrow> Inr r | None \<Rightarrow> Inl (PyError (ValueError ''could not convert string to float'')))
               | _ \<Rightarrow> Inl (PyError (TypeError ''float() argument must be a string or a real number''))))"

fun usage_total :: "(string \<Rightarrow> real option) \<Rightarrow> real \<Rightarrow> pydict list \<Rightarrow> goal_exn + real" where
  "usage_total float acc [] = Inr acc"
| "usage_total float acc (u # us) =
     (case usage_tokens float u of Inl e \<Rightarrow> Inl e | Inr t \<Rightarrow> usage_total float (acc + t) us)"

definition turn_updates :: "goal_record \<Rightarrow> real \<Rightarrow> real \<Rightarrow> goal_update list" where
  "turn_updates r elapsed delta =
     U_time_used_seconds (g_time_used_seconds r + elapsed) #
     (if g_tokens_used r \<noteq> None \<or> delta \<noteq> 0
      then [U_tokens_used (Some ((case g_tokens_used r of None \<Rightarrow> 0 | Some t \<Rightarrow> t) + delta))] else [])"

text \<open>The writes of \<open>finish_turn\<close>, once the usage is added up.\<close>

definition settle_turn :: "string \<Rightarrow> goal_attempt \<Rightarrow> turn_outcome \<Rightarrow> pydict list \<Rightarrow> goal_record \<Rightarrow> real \<Rightarrow> unit service_op" where
  "settle_turn gid attempt outcome usage r delta =
     op_bind (drain_turn_start gid) (\<lambda>elapsed.
     op_then (on_store (gs_update_fields gid (g_record_version r) (turn_updates r elapsed delta)))
    (op_then
       (op_catch
         (op_then (on_store (gs_settle_attempt (a_attempt_id attempt) (a_lease_epoch attempt) (Some (o_turn_id outcome))
           [(''origin'', PStr (o_origin outcome)), (''status'', PStr (o_status outcome)),
            (''error'', case o_error outcome of None \<Rightarrow> PNone | Some e \<Rightarrow> PStr e)] usage)) (op_return ()))
         (\<lambda>e. if is_store_error e then op_return () else op_raise e))
    (op_bind (sv_get gid) (\<lambda>r.
     op_bind (op_read sv_daemon_id) (\<lambda>d.
     op_then (sv_transition gid (g_record_version r) ''turn_completed''
       (transition_defaults\<lparr>ta_actor := ''daemon'', ta_daemon_id := Some d,
          ta_turn_id := Some (o_turn_id outcome), ta_reason := o_error outcome\<rparr>) [])
     (op_return ()))))))"

definition finish_turn :: "string \<Rightarrow> goal_attempt \<Rightarrow> turn_outcome \<Rightarrow> pydict list \<Rightarrow> unit service_op" where
  "finish_turn gid attempt outcome request_usage =
     (let usage = (if request_usage \<noteq> [] then request_usage else o_request_usage outcome) in
      op_bind (sv_get gid) (\<lambda>r.
      op_bind (op_read sv_float) (\<lambda>float.
      case usage_total float 0 usage of
        Inl e \<Rightarrow> op_raise e
      | Inr delta \<Rightarrow> settle_turn gid attempt outcome usage r delta)))"

section \<open>Blockers\<close>

definition last_n :: "nat \<Rightarrow> 'a list \<Rightarrow> 'a list" where
  "last_n n xs = drop (length xs - n) xs"

definition blocker_stop :: "string \<Rightarrow> string list \<Rightarrow> string option" where
  "blocker_stop key window =
     (let tail = last_n SAME_BLOCKER_LIMIT window in
      if length tail = SAME_BLOCKER_LIMIT \<and> card (set tail) = 1 then Some (''repeated blocker: '' @ key)
      else if length window \<ge> ALTERNATING_WINDOW \<and> card (set (last_n ALTERNATING_WINDOW window)) \<le> ALTERNATING_DISTINCT
      then Some (''alternating blockers without new evidence: '' @
        join_on '', '' (sort (remdups (last_n ALTERNATING_WINDOW window))))
      else None)"

definition note_blocker :: "string \<Rightarrow> string \<Rightarrow> bool \<Rightarrow> goal_record service_op" where
  "note_blocker gid blocker_key new_evidence =
     op_bind (sv_get gid) (\<lambda>r.
     if new_evidence then
       sv_t gid (g_record_version r) ''progress'' ''daemon'' None [U_blocker_keys [], U_no_progress_count 0]
     else
       let window = last_n BLOCKER_WINDOW_CAP (g_blocker_keys r @ [blocker_key]);
           stop_reason = blocker_stop blocker_key window in
       sv_t gid (g_record_version r) (if stop_reason \<noteq> None then ''blocked'' else ''progress'') ''daemon'' stop_reason
         ([U_blocker_keys window, U_no_progress_count (g_no_progress_count r + 1)] @
          (if stop_reason \<noteq> None then [U_status ''blocked'', U_blocked_reason stop_reason] else [])))"

section \<open>Evidence and goal reports\<close>

definition note_tool_result :: "evidence_args \<Rightarrow> goal_evidence service_op" where
  "note_tool_result a = on_store (gs_record_evidence a)"

text \<open>\<open>s.splitlines()[0]\<close> of a string that is not empty.\<close>

definition first_line :: "string \<Rightarrow> string" where
  "first_line s = takeWhile (\<lambda>c. \<not> is_line_break c) s"

fun hashable :: "pyval \<Rightarrow> bool" where
  "hashable (PList _) = False"
| "hashable (PDict _) = False"
| "hashable _ = True"

definition unhashable :: goal_exn where
  "unhashable = PyError (TypeError ''unhashable type'')"

text \<open>\<open>{e["ref"] for e in record.last_evidence}\<close>\<close>

fun known_refs :: "pydict list \<Rightarrow> goal_exn + pyval list" where
  "known_refs [] = Inr []"
| "known_refs (e # es) =
     (case od_get e ''ref'' of
        None \<Rightarrow> Inl (PyError (KeyError ''ref''))
      | Some v \<Rightarrow> if \<not> hashable v then Inl unhashable
          else (case known_refs es of Inl x \<Rightarrow> Inl x | Inr vs \<Rightarrow> Inr (v # vs)))"

text \<open>\<open>e.get("ref")\<close>, looked up in a set.\<close>

definition item_ref :: "pyval \<Rightarrow> goal_exn + pyval" where
  "item_ref e =
     (case e of
        PDict d \<Rightarrow> (case od_get_default d ''ref'' PNone of v \<Rightarrow> if hashable v then Inr v else Inl unhashable)
      | _ \<Rightarrow> Inl (PyError (AttributeError ''get'')))"

fun cited_refs :: "string list \<Rightarrow> string list \<Rightarrow> pyval list \<Rightarrow> pyval list \<Rightarrow> goal_exn + pyval list" where
  "cited_refs recorded first_lines known [] = Inr []"
| "cited_refs recorded first_lines known (e # es) =
     (case item_ref e of
        Inl x \<Rightarrow> Inl x
      | Inr v \<Rightarrow> (case cited_refs recorded first_lines known es of
          Inl x \<Rightarrow> Inl x
        | Inr vs \<Rightarrow>
            Inr (if (v \<in> PStr ` set recorded \<or> v \<in> PStr ` set first_lines \<and> v \<notin> set known) \<and> v \<notin> set known
                 then v # vs else vs)))"

definition validate_evidence :: "goal_record \<Rightarrow> goal_control \<Rightarrow> goal_evidence list \<Rightarrow> goal_exn + pyval list" where
  "validate_evidence r control rows =
     (case known_refs (g_last_evidence r) of
        Inl x \<Rightarrow> Inl x
      | Inr known \<Rightarrow>
          cited_refs (map v_ref rows)
            (map (\<lambda>e. str_strip (first_line (v_ref e))) (filter (\<lambda>e. newline \<in> set (v_ref e)) rows))
            known (c_evidence control))"

fun merged_evidence :: "pyval list \<Rightarrow> pyval list \<Rightarrow> pyval list \<Rightarrow> pydict list" where
  "merged_evidence new_refs known [] = []"
| "merged_evidence new_refs known (PDict d # es) =
     (case od_get d ''ref'' of
        Some v \<Rightarrow>
          (if v \<in> set new_refs \<and> v \<notin> set known
           then [(''ref'', v), (''claim'', od_get_default d ''claim'' (PStr []))] # merged_evidence new_refs known es
           else merged_evidence new_refs known es)
      | None \<Rightarrow> merged_evidence new_refs known es)"
| "merged_evidence new_refs known (_ # es) = merged_evidence new_refs known es"

text \<open>A cited reference is bound to a recorded row by its exact text or by the first line of the row.\<close>

definition bind_evidence_ref :: "string \<Rightarrow> (string, goal_evidence) odict \<Rightarrow> goal_evidence option" where
  "bind_evidence_ref ref recorded =
     (case od_get recorded ref of
        Some e \<Rightarrow> Some e
      | None \<Rightarrow> map_option snd (List.find (\<lambda>(k, e). str_strip (first_line k) = str_strip ref) recorded))"

definition recorded_refs :: "goal_evidence list \<Rightarrow> (string, goal_evidence) odict" where
  "recorded_refs rows = fold (\<lambda>e. od_put (v_ref e) e) rows []"

definition cited_text :: "(pyval \<Rightarrow> string) \<Rightarrow> pyval \<Rightarrow> string" where
  "cited_text str e =
     (case e of
        PDict d \<Rightarrow> (case od_get_default d ''ref'' PNone of x \<Rightarrow> str_strip (if truthy x then py_text str x else []))
      | _ \<Rightarrow> str_strip (py_text str e))"

fun bind_cited :: "(pyval \<Rightarrow> string) \<Rightarrow> (string, goal_evidence) odict \<Rightarrow> pyval list \<Rightarrow> string + goal_evidence list" where
  "bind_cited str recorded [] = Inr []"
| "bind_cited str recorded (e # es) =
     (case bind_evidence_ref (cited_text str e) recorded of
        None \<Rightarrow> Inl (''evidence ref not produced by a goal tool: '' @ cited_text str e @
          ''; recorded evidence refs you may cite: '' @ str (PList (map PStr (take 5 (map fst recorded)))))
      | Some row \<Rightarrow> (case bind_cited str recorded es of Inl x \<Rightarrow> Inl x | Inr rows \<Rightarrow> Inr (row # rows)))"

definition stale_evidence :: "goal_evidence list \<Rightarrow> goal_evidence \<Rightarrow> bool" where
  "stale_evidence rows e =
     list_ex (\<lambda>m. v_attempt_id m = v_attempt_id e \<and> v_is_mutating m \<and> v_tool_seq m > v_tool_seq e) rows"

definition audit_completion :: "goal_service \<Rightarrow> goal_record \<Rightarrow> goal_control \<Rightarrow> goal_evidence list \<Rightarrow> string + bool" where
  "audit_completion v r control rows =
     (if c_evidence control = [] then Inl ''completion requires evidence refs''
      else (case bind_cited (sv_str v) (recorded_refs rows) (c_evidence control) of
          Inl reason \<Rightarrow> Inl reason
        | Inr cited \<Rightarrow>
            (case List.find (stale_evidence rows) cited of
               Some e \<Rightarrow> Inl (''stale evidence (predates a later edit): '' @ v_ref e)
             | None \<Rightarrow>
                 (case sv_checkers v (g_goal_id r) of
                    None \<Rightarrow> Inr True
                  | Some checker \<Rightarrow> if checker r cited then Inr False else Inl ''deterministic checker rejected''))))"

record report_result =
  rp_accepted :: bool
  rp_action :: string
  rp_detail :: string
  rp_declared :: "bool option"

definition report_rejected :: "string \<Rightarrow> report_result" where
  "report_rejected detail = \<lparr>rp_accepted = False, rp_action = ''reject'', rp_detail = detail, rp_declared = None\<rparr>"

definition pending_of :: "goal_control \<Rightarrow> bool \<Rightarrow> pydict" where
  "pending_of control declared =
     [(''control'', PDict [(''kind'', PStr ''complete''), (''reason'', PStr (c_reason control)),
        (''evidence'', PList (c_evidence control))]),
      (''declared'', PBool declared)]"

definition report_blocked :: "goal_record \<Rightarrow> goal_control \<Rightarrow> report_result service_op" where
  "report_blocked r control =
     (let key = take 80 (str_lower (str_strip (if c_reason control = [] then ''unspecified'' else c_reason control))) in
      op_then (note_blocker (g_goal_id r) key False)
        (op_return \<lparr>rp_accepted = True, rp_action = ''blocked'', rp_detail = c_reason control, rp_declared = None\<rparr>))"

definition report_progress :: "goal_record \<Rightarrow> goal_control \<Rightarrow> report_result service_op" where
  "report_progress r control =
     op_bind (on_store (gs_evidence_for (g_goal_id r))) (\<lambda>rows.
     case validate_evidence r control rows of
       Inl x \<Rightarrow> op_raise x
     | Inr new_refs \<Rightarrow>
         if c_evidence control \<noteq> [] \<and> new_refs = []
         then op_return (report_rejected ''evidence cites no new recorded refs (deduplicated)'')
         else (case known_refs (g_last_evidence r) of
             Inl x \<Rightarrow> op_raise x
           | Inr known \<Rightarrow>
               op_bind (op_read sv_daemon_id) (\<lambda>d.
               op_then (sv_transition (g_goal_id r) (g_record_version r) ''progress''
                 (transition_defaults\<lparr>ta_actor := ''model'', ta_daemon_id := Some d,
                    ta_evidence_refs := (if c_evidence control = [] then None else Some (c_evidence control))\<rparr>)
                 [U_last_evidence (g_last_evidence r @ merged_evidence new_refs known (c_evidence control)),
                  U_no_progress_count 0])
               (op_return \<lparr>rp_accepted = True, rp_action = ''progress'',
                  rp_detail = show_nat (length (remdups new_refs)) @ '' new evidence refs'', rp_declared = None\<rparr>))))"

definition report_complete :: "goal_record \<Rightarrow> goal_control \<Rightarrow> report_result service_op" where
  "report_complete r control =
     op_bind (on_store (gs_evidence_for (g_goal_id r))) (\<lambda>rows.
     op_bind (op_read (\<lambda>v. audit_completion v r control rows)) (\<lambda>audit.
     case audit of
       Inl reason \<Rightarrow> op_return (report_rejected reason)
     | Inr declared \<Rightarrow>
         op_then (sv_t (g_goal_id r) (g_record_version r) ''progress'' ''model''
           (Some ''completion control held until batch settles'')
           [U_pending_completion (Some (pending_of control declared))])
         (op_return \<lparr>rp_accepted = True, rp_action = ''complete_held'',
            rp_detail = ''held until tool batch settles'', rp_declared = Some declared\<rparr>)))"

definition handle_goal_report :: "goal_control \<Rightarrow> goal_attempt option \<Rightarrow> report_result service_op" where
  "handle_goal_report control attempt =
     op_bind (op_catch (op_bind (sv_get (c_goal_id control)) (\<lambda>r. op_return (Some r)))
       (\<lambda>e. if is_store_error e then op_return None else op_raise e)) (\<lambda>found.
     case found of
       None \<Rightarrow> op_return (report_rejected ''unknown goal'')
     | Some r \<Rightarrow>
         if c_expected_record_version control \<noteq> g_record_version r
         then op_return (report_rejected (''stale record version '' @ show_int (c_expected_record_version control) @
           '' != '' @ show_int (g_record_version r)))
         else if (case attempt of Some a \<Rightarrow> a_execution_generation a \<noteq> g_execution_generation r | None \<Rightarrow> False)
         then op_return (report_rejected (''stale execution generation '' @
           show_int (a_execution_generation (the attempt)) @ '' != '' @ show_int (g_execution_generation r) @
           '' (goal was paused/resumed under you)''))
         else if c_kind control \<notin> {''progress'', ''complete'', ''blocked''}
         then op_bind (op_read sv_repr) (\<lambda>repr.
           op_return (report_rejected (''unknown control kind '' @ repr (PStr (c_kind control)))))
         else if c_kind control = ''blocked'' then report_blocked r control
         else if c_kind control = ''progress'' then report_progress r control
         else report_complete r control)"

text \<open>\<open>pending.get("control", {}).get("reason")\<close>, as \<open>_redact_reason\<close> reads it.\<close>

definition pending_reason :: "goal_service \<Rightarrow> pydict \<Rightarrow> goal_exn + string option" where
  "pending_reason v pending =
     (case od_get_default pending ''control'' (PDict []) of
        PDict c \<Rightarrow> (case od_get_default c ''reason'' PNone of PNone \<Rightarrow> Inr None | x \<Rightarrow> Inr (Some (py_text (sv_str v) x)))
      | _ \<Rightarrow> Inl (PyError (AttributeError ''get'')))"

definition apply_pending_completion :: "string \<Rightarrow> goal_record option service_op" where
  "apply_pending_completion gid =
     op_bind (sv_get gid) (\<lambda>r.
     case g_pending_completion r of
       None \<Rightarrow> op_return None
     | Some pending \<Rightarrow>
         if \<not> held (Some pending) \<or> g_status r \<noteq> ''active'' then op_return None
         else op_bind (op_read (\<lambda>v. pending_reason v pending)) (\<lambda>reason.
           case reason of
             Inl x \<Rightarrow> op_raise x
           | Inr why \<Rightarrow>
               op_bind (sv_t gid (g_record_version r) ''complete'' ''model'' why
                 [U_status ''complete'', U_completion_declared (truthy (od_get_default pending ''declared'' PNone)),
                  U_pending_completion None]) (\<lambda>r'. op_return (Some r'))))"

section \<open>The policy\<close>

text \<open>
  What a write of the service may do to a goal, field by field: a goal becomes complete only from
  active with a held completion, a completion is held only when each of its citations is bound to
  evidence the runtime recorded for the goal, a turn is counted only below the limit, a new limit is
  above the turns used, the blocker window is capped, and a stop is left only by the resume of a
  resumable goal. \<open>policy_write\<close> is the specification; the lemmas show that every operation of
  the service keeps to it.
\<close>

definition ref_bound :: "string \<Rightarrow> goal_evidence \<Rightarrow> bool" where
  "ref_bound ref e \<longleftrightarrow> v_ref e = ref \<or> str_strip (first_line (v_ref e)) = str_strip ref"

definition audited :: "(pyval \<Rightarrow> string) \<Rightarrow> goal_db \<Rightarrow> string \<Rightarrow> pydict \<Rightarrow> bool" where
  "audited str db gid p \<longleftrightarrow>
     (\<exists>control declared. p = pending_of control declared \<and> c_evidence control \<noteq> [] \<and>
        (\<forall>item \<in> set (c_evidence control). \<exists>e \<in> set (goal_evidence_rows db).
           v_goal_id e = gid \<and> ref_bound (cited_text str item) e))"

fun policy_update :: "(pyval \<Rightarrow> string) \<Rightarrow> goal_db \<Rightarrow> goal_record \<Rightarrow> goal_update \<Rightarrow> bool" where
  "policy_update str db r (U_status st) \<longleftrightarrow>
     (if st = ''complete'' then g_status r = ''active'' \<and> held (g_pending_completion r)
      else if st = ''active'' then g_status r \<in> set RESUMABLE_STATUSES
      else st \<in> {''paused'', ''blocked'', ''budget_limited'', ''cleared''})"
| "policy_update str db r (U_pending_completion p) \<longleftrightarrow> (p = None \<or> audited str db (g_goal_id r) (the p))"
| "policy_update str db r (U_turn_count n) \<longleftrightarrow> n = g_turn_count r + 1 \<and> g_turn_count r < g_auto_turn_limit r"
| "policy_update str db r (U_auto_turn_limit n) \<longleftrightarrow> g_turn_count r < n"
| "policy_update str db r (U_blocker_keys ks) \<longleftrightarrow> length ks \<le> BLOCKER_WINDOW_CAP"
| "policy_update str db r (U_execution_generation n) \<longleftrightarrow> n = g_execution_generation r + 1"
| "policy_update str db r (U_lease_epoch _) \<longleftrightarrow> False"
| "policy_update str db r (U_other _) \<longleftrightarrow> False"
| "policy_update str db r _ \<longleftrightarrow> True"

definition policy_write :: "(pyval \<Rightarrow> string) \<Rightarrow> goal_db \<Rightarrow> goal_record \<Rightarrow> goal_update list \<Rightarrow> bool" where
  "policy_write str db r us \<longleftrightarrow> list_all (policy_update str db r) us \<and>
     \<not> (\<exists>n m. U_turn_count n \<in> set us \<and> U_auto_turn_limit m \<in> set us)"

lemma audited_grows: "audited str db gid p \<Longrightarrow> set (goal_evidence_rows db) \<subseteq> set (goal_evidence_rows db') \<Longrightarrow> audited str db' gid p"
  unfolding audited_def by blast

lemma evidence_of_rows: "set (evidence_of gid db) = {e \<in> set (goal_evidence_rows db). v_goal_id e = gid}"
  by (simp add: evidence_of_def)

lemma recorded_refs_get: "od_get (recorded_refs rows) k = Some e \<Longrightarrow> e \<in> set rows \<and> v_ref e = k"
proof -
  have "od_get (fold (\<lambda>e. od_put (v_ref e) e) rows d) k = Some e \<Longrightarrow> (e \<in> set rows \<and> v_ref e = k) \<or> od_get d k = Some e" for d
    by (induction rows arbitrary: d) (fastforce split: if_splits)+
  then show "od_get (recorded_refs rows) k = Some e \<Longrightarrow> e \<in> set rows \<and> v_ref e = k"
    unfolding recorded_refs_def by fastforce
qed

lemma recorded_refs_wf: "od_wf (recorded_refs rows)"
proof -
  have "od_wf d \<Longrightarrow> od_wf (fold (\<lambda>e. od_put (v_ref e) e) rows d)" for d
    by (induction rows arbitrary: d) simp_all
  then show ?thesis by (simp add: recorded_refs_def)
qed

lemma bind_evidence_ref_row:
  assumes "bind_evidence_ref ref (recorded_refs rows) = Some e"
  shows "e \<in> set rows \<and> ref_bound ref e"
proof (cases "od_get (recorded_refs rows) ref")
  case (Some e')
  then show ?thesis using assms recorded_refs_get [OF Some] by (simp add: bind_evidence_ref_def ref_bound_def)
next
  case None
  then obtain k where k: "List.find (\<lambda>(k, e). str_strip (first_line k) = str_strip ref) (recorded_refs rows) = Some (k, e)"
    using assms by (auto simp: bind_evidence_ref_def)
  then have "(k, e) \<in> set (recorded_refs rows)" "str_strip (first_line k) = str_strip ref"
    using find_Some_in [OF k] by auto
  moreover have "od_get (recorded_refs rows) k = Some e"
    using calculation(1) recorded_refs_wf [of rows] by (simp add: od_wf_def)
  ultimately show ?thesis using recorded_refs_get by (auto simp: ref_bound_def)
qed

lemma bind_cited_rows:
  "bind_cited str (recorded_refs rows) items = Inr cited \<Longrightarrow> item \<in> set items \<Longrightarrow>
     \<exists>e \<in> set rows. e \<in> set cited \<and> ref_bound (cited_text str item) e"
proof (induction items arbitrary: cited)
  case (Cons i items)
  then obtain row rest where "bind_evidence_ref (cited_text str i) (recorded_refs rows) = Some row"
      "bind_cited str (recorded_refs rows) items = Inr rest" "cited = row # rest"
    by (auto split: option.splits sum.splits)
  then show ?case using Cons.IH Cons.prems(2) bind_evidence_ref_row by fastforce
qed simp

lemma audit_accepts:
  assumes "audit_completion v r control (evidence_of (g_goal_id r) db) = Inr declared"
  shows "audited (sv_str v) db (g_goal_id r) (pending_of control declared)"
proof -
  obtain cited where ne: "c_evidence control \<noteq> []"
      and b: "bind_cited (sv_str v) (recorded_refs (evidence_of (g_goal_id r) db)) (c_evidence control) = Inr cited"
    using assms by (auto simp: audit_completion_def split: if_splits sum.splits)
  have "\<exists>e \<in> set (goal_evidence_rows db). v_goal_id e = g_goal_id r \<and> ref_bound (cited_text (sv_str v) item) e"
    if "item \<in> set (c_evidence control)" for item
    using bind_cited_rows [OF b that] evidence_of_rows by fastforce
  then show ?thesis using ne unfolding audited_def by blast
qed

lemma policy_write_simple: "list_all (policy_update str db r) us \<Longrightarrow> \<not> (\<exists>n. U_turn_count n \<in> set us) \<Longrightarrow> policy_write str db r us"
  by (auto simp: policy_write_def)

locale policy_property = table_property J for J +
  fixes str :: "pyval \<Rightarrow> string"
  assumes goals_ok: "J db \<Longrightarrow> goals_wf db"
    and policy: "J db \<Longrightarrow> od_get (goals db) gid = Some r \<Longrightarrow> policy_write str db r us \<Longrightarrow>
      db_write_goal gid (updated_record us now r) db = Some db' \<Longrightarrow> J db'"
    and recovery: "J db \<Longrightarrow> od_get (goals db) gid = Some r \<Longrightarrow>
      db_write_goal gid (recovered_goal ep d ex now amb r) db = Some db' \<Longrightarrow> J db'"
begin

abbreviation okv :: "goal_service \<Rightarrow> bool" where
  "okv v \<equiv> J (gdb (sv_store v)) \<and> sv_str v = str"

abbreviation row :: "string \<Rightarrow> goal_record \<Rightarrow> goal_service \<Rightarrow> bool" where
  "row gid r v \<equiv> okv v \<and> od_get (goals (gdb (sv_store v))) gid = Some r"

lemma lift_if:
  assumes m: "op_hoare (\<lambda>s. J (gdb s) \<and> P (gdb s)) m (\<lambda>x s. J (gdb s) \<and> Q x (gdb s)) (\<lambda>_ s. J (gdb s))"
  shows "op_hoare (\<lambda>v. okv v \<and> P (gdb (sv_store v))) (on_store m) (\<lambda>x v. okv v \<and> Q x (gdb (sv_store v))) (\<lambda>_. okv)"
proof -
  have run: "\<exists>s'. m (sv_store v) = (y, s') \<and> v' = v\<lparr>sv_store := s'\<rparr>" if "on_store m v = (y, v')" for v y v'
    using that by (simp add: on_store_def op_on_def put_store_def split: prod.splits)
  show ?thesis
  proof (rule op_hoareI)
    fix v x v'
    assume pre: "okv v \<and> P (gdb (sv_store v))" and "on_store m v = (Inr x, v')"
    then obtain s' where s': "m (sv_store v) = (Inr x, s')" "v' = v\<lparr>sv_store := s'\<rparr>" using run by blast
    then show "okv v' \<and> Q x (gdb (sv_store v'))" using op_hoare_Inr [OF m _ s'(1)] pre by simp
  next
    fix v x v'
    assume pre: "okv v \<and> P (gdb (sv_store v))" and "on_store m v = (Inl x, v')"
    then obtain s' where s': "m (sv_store v) = (Inl x, s')" "v' = v\<lparr>sv_store := s'\<rparr>" using run by blast
    then show "okv v'" using op_hoare_Inl [OF m _ s'(1)] pre by simp
  qed
qed

lemma lift_ok:
  assumes m: "op_keeps (\<lambda>s. J (gdb s)) m"
  shows "op_keeps okv (on_store m)"
  using lift_if [where P = "\<lambda>_. True" and Q = "\<lambda>_ _. True" and m = m] m by simp

lemma get_keeps_if:
  "op_hoare (\<lambda>v. okv v \<and> P (gdb (sv_store v))) (sv_get gid)
     (\<lambda>r v. okv v \<and> P (gdb (sv_store v)) \<and> od_get (goals (gdb (sv_store v))) gid = Some r) (\<lambda>_. okv)"
  unfolding sv_get_def
  by (rule op_hoare_weaken [OF lift_if [where P = P and Q = "\<lambda>r db. P db \<and> od_get (goals db) gid = Some r"]])
    (rule op_hoare_weaken [OF keeps_cond_get], simp_all)

lemma get_keeps: "op_hoare okv (sv_get gid) (row gid) (\<lambda>_. okv)"
  using get_keeps_if [where P = "\<lambda>_. True"] by simp

lemma row_id: "row gid r v \<Longrightarrow> g_goal_id r = gid"
  using goals_ok [of "gdb (sv_store v)"] by (auto simp: goals_wf_def)

lemma keeps_notify: "op_hoare (\<lambda>v. P (sv_store v) (sv_str v)) (sv_notify r k) (\<lambda>_ v. P (sv_store v) (sv_str v)) X"
  unfolding sv_notify_def by (rule op_hoare_modify) simp

lemma keeps_sv_transition:
  assumes pw: "\<And>db. J db \<Longrightarrow> P db \<Longrightarrow> od_get (goals db) gid = Some r \<Longrightarrow> policy_write str db r us"
  shows "op_hoare (\<lambda>v. row gid r v \<and> P (gdb (sv_store v))) (sv_transition gid (g_record_version r) kind a us)
    (\<lambda>_ v. okv v \<and> (\<exists>now. od_get (goals (gdb (sv_store v))) gid = Some (updated_record us now r))) (\<lambda>_. okv)"
proof -
  let ?P = "\<lambda>db. P db \<and> od_get (goals db) gid = Some r"
  let ?Q = "\<lambda>db. \<exists>now. od_get (goals db) gid = Some (updated_record us now r)"
  have 1: "op_hoare (\<lambda>s. J (gdb s) \<and> ?P (gdb s)) (gs_transition gid (g_record_version r) kind a us) (\<lambda>_ s. J (gdb s)) (\<lambda>_ s. J (gdb s))"
    by (rule keeps_transition_if [where P = ?P]) (use policy pw in \<open>metis option.inject\<close>)
  have 2: "op_hoare (\<lambda>s. J (gdb s) \<and> ?P (gdb s)) (gs_transition gid (g_record_version r) kind a us) (\<lambda>_ s. ?Q (gdb s)) (\<lambda>_ _. True)"
    by (rule op_hoareI) (auto dest!: transition_Inr)
  have "op_hoare (\<lambda>s. J (gdb s) \<and> ?P (gdb s)) (gs_transition gid (g_record_version r) kind a us)
      (\<lambda>_ s. J (gdb s) \<and> ?Q (gdb s)) (\<lambda>_ s. J (gdb s))"
    using op_hoare_conj [OF 1 2] by simp
  note lifted = op_hoare_weaken [OF lift_if [OF this],
      where P' = "\<lambda>v. row gid r v \<and> P (gdb (sv_store v))"
        and Q' = "\<lambda>_ v. (J (gdb (sv_store v)) \<and> sv_str v = str) \<and> ?Q (gdb (sv_store v))"]
  show ?thesis
    unfolding sv_transition_def
    by (rule op_hoare_bind [OF lifted], simp_all only: simp_thms)
      (rule op_hoare_then [OF keeps_notify [where P = "\<lambda>s st. (J (gdb s) \<and> st = str) \<and> ?Q (gdb s)"]], rule op_hoare_return)
qed

lemma keeps_sv_t_if:
  assumes pw: "\<And>db. J db \<Longrightarrow> P db \<Longrightarrow> od_get (goals db) gid = Some r \<Longrightarrow> policy_write str db r us"
  shows "op_hoare (\<lambda>v. row gid r v \<and> P (gdb (sv_store v))) (sv_t gid (g_record_version r) kind actor reason us)
    (\<lambda>_ v. okv v \<and> (\<exists>now. od_get (goals (gdb (sv_store v))) gid = Some (updated_record us now r))) (\<lambda>_. okv)"
  unfolding sv_t_def by (rule op_hoare_bind [OF op_hoare_read]) (assumption, rule keeps_sv_transition [OF pw])

text \<open>A write whose fields the policy allows whatever the database holds.\<close>

lemma keeps_sv_t:
  assumes "\<And>db. list_all (policy_update str db r) us" and "\<not> (\<exists>n. U_turn_count n \<in> set us)"
  shows "op_hoare (row gid r) (sv_t gid (g_record_version r) kind actor reason us) (\<lambda>_. okv) (\<lambda>_. okv)"
proof -
  have pw: "policy_write str db r us" for db by (rule policy_write_simple [OF assms])
  show ?thesis by (rule op_hoare_weaken [OF keeps_sv_t_if [where P = "\<lambda>_. True"]]) (simp_all add: pw)
qed

lemma keeps_sv_t_None:
  assumes "\<And>db. list_all (policy_update str db r) us" and "\<not> (\<exists>n. U_turn_count n \<in> set us)"
  shows "op_hoare (row gid r) (op_then (sv_t gid (g_record_version r) kind actor reason us) (op_return x)) (\<lambda>_. okv) (\<lambda>_. okv)"
  by (rule op_hoare_then [OF keeps_sv_t [OF assms]]) (rule op_hoare_return)

lemma row_weaken: "op_keeps okv m \<Longrightarrow> op_hoare (row gid r) m (\<lambda>_. okv) (\<lambda>_. okv)"
  by (erule op_hoare_weaken) simp_all

lemma keeps_in_flight: "op_hoare (row gid r) (goal_turn_in_flight gid) (\<lambda>_. row gid r) (\<lambda>_. okv)"
proof -
  have "op_hoare (\<lambda>s. J (gdb s) \<and> od_get (goals (gdb s)) gid = Some r) (gs_unfinished_attempts gid)
      (\<lambda>_ s. J (gdb s) \<and> od_get (goals (gdb s)) gid = Some r) (\<lambda>_ s. J (gdb s))"
    unfolding gs_unfinished_attempts_def gs_select_def by (rule op_hoare_read)
  then have "op_hoare (row gid r) (on_store (gs_unfinished_attempts gid)) (\<lambda>_. row gid r) (\<lambda>_. okv)"
    by (rule op_hoare_weaken [OF lift_if]) simp_all
  then show ?thesis unfolding goal_turn_in_flight_def by (rule op_hoare_bind) (rule op_hoare_return)
qed

lemma keeps_artifact_missing: "op_keeps okv (pause_artifact_missing gid ref)"
  unfolding pause_artifact_missing_def Let_def
  by (rule op_hoare_bind [OF get_keeps]) (rule keeps_sv_t, simp_all)

lemma keeps_sv_now: "op_keeps okv sv_now"
  by (rule op_keepsI) (simp add: sv_now_def)

lemma keeps_create_goal: "op_keeps okv (create_goal a)"
proof -
  have get: "op_keeps okv (sv_get gid)" for gid
    by (rule op_hoare_weaken [OF get_keeps]) simp_all
  have handler: "op_keeps okv (case e of
      GoalAttachmentRequestNotFound \<Rightarrow> op_raise x
    | UnfinishedGoalExists gid \<Rightarrow> op_bind (sv_get gid) (\<lambda>other. op_raise (f other))
    | _ \<Rightarrow> op_raise e)" for e x f
    by (cases e) (auto intro!: op_hoare_raise op_keeps_bind get)
  show ?thesis
    unfolding create_goal_def Let_def
    by (intro hoare_intros handler lift_ok keeps_create keeps_sv_now keeps_notify [where P = "\<lambda>s st. J (gdb s) \<and> st = str"])
      simp_all
qed

lemma update_keeps:
  assumes "\<And>db. list_all (policy_update str db r) us" and "\<not> (\<exists>n. U_turn_count n \<in> set us)"
  shows "op_hoare (row gid r) (on_store (gs_update_fields gid (g_record_version r) us)) (\<lambda>_. okv) (\<lambda>_. okv)"
proof -
  have pw: "policy_write str db r us" for db by (rule policy_write_simple [OF assms])
  have "op_hoare (\<lambda>s. J (gdb s) \<and> od_get (goals (gdb s)) gid = Some r) (gs_update_fields gid (g_record_version r) us)
      (\<lambda>_ s. J (gdb s)) (\<lambda>_ s. J (gdb s))"
    by (rule keeps_update_fields_if [where P = "\<lambda>db. od_get (goals db) gid = Some r"]) (use policy pw in \<open>metis option.inject\<close>)
  then have "op_hoare (\<lambda>s. J (gdb s) \<and> od_get (goals (gdb s)) gid = Some r) (gs_update_fields gid (g_record_version r) us)
      (\<lambda>_ s. J (gdb s) \<and> True) (\<lambda>_ s. J (gdb s))" by simp
  then show ?thesis by (rule op_hoare_weaken [OF lift_if]) simp_all
qed

lemma keeps_discard: "op_keeps okv (discard_pending_completion gid)"
proof -
  have upd: "op_hoare (row gid r) (on_store (gs_update_fields gid (g_record_version r) [U_pending_completion None])) (\<lambda>_. okv) (\<lambda>_. okv)" for r
    by (rule update_keeps) simp_all
  show ?thesis
    unfolding discard_pending_completion_def
  proof (rule op_hoare_bind [OF get_keeps], rule op_hoare_if)
    show "op_hoare (row gid r) (op_bind (on_store (gs_update_fields gid (g_record_version r) [U_pending_completion None]))
        (\<lambda>_. op_return ())) (\<lambda>_. okv) (\<lambda>_. okv)" for r
      by (rule op_hoare_bind [OF upd]) (rule op_hoare_return)
  qed (rule op_hoare_return, simp)
qed


lemma keeps_pause: "op_keeps okv (pause gid actor)"
proof -
  have request: "op_hoare (row gid r) (sv_t gid (g_record_version r) k actor None [U_pause_requested True]) (\<lambda>_. okv) (\<lambda>_. okv)" for r k
    by (rule keeps_sv_t) simp_all
  have stop: "op_hoare (row gid r) (sv_t gid (g_record_version r) k actor why [U_status ''paused'']) (\<lambda>_. okv) (\<lambda>_. okv)" for r k why
    by (rule keeps_sv_t) simp_all
  have again: "op_hoare (row gid r) (if held (g_pending_completion r) then op_then (discard_pending_completion gid) (sv_get gid)
      else op_return r) (row gid) (\<lambda>_. okv)" for r
    by (intro op_hoare_if op_hoare_then [OF row_weaken [OF keeps_discard] get_keeps] op_hoare_return) simp_all
  show ?thesis
    unfolding pause_def pause_row_def
    by (intro op_hoare_bind [OF get_keeps] op_hoare_if op_hoare_bind [OF again] op_hoare_bind [OF keeps_in_flight] request stop
        op_hoare_raise) simp_all
qed

lemma keeps_clear: "op_keeps okv (clear_goal gid actor)"
proof -
  have t: "op_hoare (row gid r) (sv_t gid (g_record_version r) k actor why [u]) (\<lambda>_. okv) (\<lambda>_. okv)"
    if "u = U_clear_requested True \<or> u = U_status ''cleared''" for r k why u
    by (rule keeps_sv_t) (use that in auto)
  show ?thesis
    unfolding clear_goal_def
    by (intro op_hoare_bind [OF get_keeps] op_hoare_if op_hoare_bind [OF keeps_in_flight] t op_hoare_return) simp_all
qed

lemma resume_updates_policy:
  assumes "resume_updates f r b n = Inr us" and "g_status r \<in> set RESUMABLE_STATUSES"
    and "g_turn_count r' = g_turn_count r" "g_execution_generation r' = g_execution_generation r" "g_status r' = g_status r"
  shows "policy_write str db r' us"
  using assms unfolding resume_updates_def Let_def
  by (intro policy_write_simple) (auto split: option.splits if_splits)

lemma keeps_resume: "op_keeps okv (resume gid actor b n)"
proof -
  have bump: "op_hoare (row gid r) (sv_t gid (g_record_version r) k actor why [])
      (\<lambda>_ v. okv v \<and> (\<exists>now. od_get (goals (gdb (sv_store v))) gid = Some (updated_record [] now r))) (\<lambda>_. okv)" for r k why
    by (rule op_hoare_weaken [OF keeps_sv_t_if [where P = "\<lambda>_. True"]]) (auto simp: policy_write_def)
  have reopen: "op_hoare (\<lambda>v. okv v \<and> (\<exists>now. od_get (goals (gdb (sv_store v))) gid = Some (updated_record [] now r)))
      (op_bind (sv_get gid) (\<lambda>r'. sv_t gid (g_record_version r') k actor None us)) (\<lambda>_. okv) (\<lambda>_. okv)"
    if us: "resume_updates f r b n = Inr us" and st: "g_status r \<in> set RESUMABLE_STATUSES" for r k us f
  proof (rule op_hoare_bind [OF get_keeps_if])
    fix r'
    let ?P = "\<lambda>db. \<exists>now. od_get (goals db) gid = Some (updated_record [] now r)"
    have "policy_write str db r' us" if "?P db" "od_get (goals db) gid = Some r'" for db
      using that resume_updates_policy [OF us st, of r' db] by (auto simp: updated_record_def)
    then show "op_hoare (\<lambda>v. okv v \<and> ?P (gdb (sv_store v)) \<and> od_get (goals (gdb (sv_store v))) gid = Some r')
        (sv_t gid (g_record_version r') k actor None us) (\<lambda>_. okv) (\<lambda>_. okv)"
      by (intro op_hoare_weaken [OF keeps_sv_t_if [where P = ?P and gid = gid and r = r']]) auto
  qed
  show ?thesis
    unfolding resume_def
  proof (rule op_hoare_bind [OF get_keeps], rule op_hoare_if, rule op_hoare_raise, simp,
      rule op_hoare_bind_read, rule op_hoare_sum, rule op_hoare_raise, simp, goal_cases)
    case (1 r f us)
    then show ?case by (intro op_hoare_then [OF bump reopen]) simp_all
  qed
qed

lemma bound_below: "bound_reason r = None \<Longrightarrow> g_turn_count r < g_auto_turn_limit r"
  by (simp add: bound_reason_def split: if_splits)

lemma row_insert_attempt:
  "op_hoare (row gid r) (on_store (gs_insert_attempt gid sq ep gen ''dispatched'' None)) (\<lambda>_. row gid r) (\<lambda>_. okv)"
proof -
  have "op_hoare (\<lambda>s. J (gdb s) \<and> od_get (goals (gdb s)) gid = Some r) (gs_insert_attempt gid sq ep gen ''dispatched'' None)
      (\<lambda>_ s. J (gdb s)) (\<lambda>_ s. J (gdb s))"
    by (rule op_hoare_weaken [OF keeps_insert_attempt]) simp_all
  moreover have "op_hoare (\<lambda>s. J (gdb s) \<and> od_get (goals (gdb s)) gid = Some r) (gs_insert_attempt gid sq ep gen ''dispatched'' None)
      (\<lambda>_ s. od_get (goals (gdb s)) gid = Some r) (\<lambda>_ _. True)"
    by (rule op_hoareI) (auto dest!: insert_attempt_Inr)
  ultimately have "op_hoare (\<lambda>s. J (gdb s) \<and> od_get (goals (gdb s)) gid = Some r) (gs_insert_attempt gid sq ep gen ''dispatched'' None)
      (\<lambda>_ s. J (gdb s) \<and> od_get (goals (gdb s)) gid = Some r) (\<lambda>_ s. J (gdb s))"
    using op_hoare_conj by fastforce
  then show ?thesis by (rule op_hoare_weaken [OF lift_if]) simp_all
qed

lemma keeps_dispatch_turn:
  assumes "g_turn_count r < g_auto_turn_limit r"
  shows "op_hoare (row gid r) (dispatch_turn gid r) (\<lambda>_. okv) (\<lambda>_. okv)"
proof -
  have pw: "policy_write str db r [U_continuation_seq n, U_turn_count (g_turn_count r + 1)]" for db n
    using assms by (simp add: policy_write_def)
  have t: "op_hoare (row gid r) (sv_transition gid (g_record_version r) k a [U_continuation_seq n, U_turn_count (g_turn_count r + 1)])
      (\<lambda>_. okv) (\<lambda>_. okv)" for k a n
    by (rule op_hoare_weaken [OF keeps_sv_transition [where P = "\<lambda>_. True"]]) (simp_all add: pw)
  show ?thesis
    unfolding dispatch_turn_def Let_def
    by (rule op_hoare_bind [OF row_insert_attempt], rule op_hoare_bind [OF op_hoare_read], assumption,
        rule op_hoare_then [OF t], intro hoare_intros keeps_sv_now) simp_all
qed

lemma keeps_bound_stop:
  "op_hoare (row gid r) (bound_stop r) (\<lambda>stop v. okv v \<and> (stop = None \<longrightarrow> row gid r v \<and> g_turn_count r < g_auto_turn_limit r)) (\<lambda>_. okv)"
proof (cases "bound_reason r")
  case None
  then show ?thesis by (auto simp: bound_stop_def bound_below intro!: op_hoare_return)
next
  case (Some why)
  have "op_hoare (row (g_goal_id r) r) (sv_t (g_goal_id r) (g_record_version r) k a rs
      [U_status ''budget_limited'', U_blocked_reason x, U_last_reason y]) (\<lambda>_. okv) (\<lambda>_. okv)" for k a rs x y
    by (rule keeps_sv_t) simp_all
  then have "op_hoare (row gid r) (sv_t (g_goal_id r) (g_record_version r) k a rs
      [U_status ''budget_limited'', U_blocked_reason x, U_last_reason y]) (\<lambda>_. okv) (\<lambda>_. okv)" for k a rs x y
    by (rule op_hoare_weaken) (use row_id in auto)
  then show ?thesis unfolding bound_stop_def Some option.case
    by (rule op_hoare_then) (rule op_hoare_return, simp)
qed

lemma keeps_maybe_continue: "op_keeps okv (maybe_continue gid oc ctx)"
  unfolding maybe_continue_def
proof (rule op_hoare_bind [OF get_keeps], intro op_hoare_if, goal_cases)
  case (9 r)
  show ?case
  proof (rule op_hoare_bind [OF keeps_bound_stop], rule op_hoare_if, rule op_hoare_return, simp, rule op_hoare_if, goal_cases)
    case (1 stop)
    have t: "op_hoare (row gid r) (op_then (sv_t gid (g_record_version r) k a rs
        [U_status ''budget_limited'', U_last_reason y]) (op_return x)) (\<lambda>_. okv) (\<lambda>_. okv)" for k a rs x y
      by (rule keeps_sv_t_None) simp_all
    show ?case unfolding Let_def
      by (rule op_hoare_bind [OF op_hoare_read], assumption, rule op_hoare_weaken [OF t]) (use 1 in auto)
  next
    case (2 stop)
    show ?case
    proof (cases "g_turn_count r < g_auto_turn_limit r")
      case True
      show ?thesis by (rule op_hoare_weaken [OF keeps_dispatch_turn [OF True]]) (use 2 in simp_all)
    qed (rule op_hoareI; use 2 in simp)
  qed
next
  case (5 r)
  show ?case unfolding Let_def by (rule keeps_sv_t_None) simp_all
qed ((rule keeps_sv_t_None, simp, simp) | (rule op_hoare_return, simp))+

lemma keeps_drain: "op_keeps okv (drain_turn_start gid)"
  unfolding drain_turn_start_def
  by (intro hoare_intros keeps_sv_now) simp_all

lemma row_drain: "op_hoare (row gid r) (drain_turn_start hid) (\<lambda>_. row gid r) (\<lambda>_. okv)"
  by (rule op_hoareI)
    (auto simp: drain_turn_start_def op_bind_def op_then_def op_simps sv_now_def split: option.splits)

lemma turn_updates_policy: "list_all (policy_update st db r) (turn_updates r e d)" "\<not> (\<exists>n. U_turn_count n \<in> set (turn_updates r e d))"
  by (auto simp: turn_updates_def)


lemma keeps_settle_quietly:
  "op_keeps okv (op_catch (op_then (on_store (gs_settle_attempt aid ep tid oc us)) (op_return ()))
     (\<lambda>e. if is_store_error e then op_return () else op_raise e))"
  by (intro hoare_intros lift_ok keeps_settle) simp_all

lemma keeps_settle_turn: "op_hoare (row gid r) (settle_turn gid att oc us r d) (\<lambda>_. okv) (\<lambda>_. okv)"
proof -
  have upd: "op_hoare (row gid r) (on_store (gs_update_fields gid (g_record_version r) (turn_updates r e d))) (\<lambda>_. okv) (\<lambda>_. okv)" for e
    by (rule update_keeps) (simp_all add: turn_updates_policy)
  have completed: "op_hoare (row gid q) (sv_transition gid (g_record_version q) k a []) (\<lambda>_. okv) (\<lambda>_. okv)" for q k a
    by (rule op_hoare_weaken [OF keeps_sv_transition [where P = "\<lambda>_. True"]]) (simp_all add: policy_write_def)
  show ?thesis
    unfolding settle_turn_def
    by (rule op_hoare_bind [OF row_drain], rule op_hoare_then [OF upd], rule op_hoare_then [OF keeps_settle_quietly],
        rule op_hoare_bind [OF get_keeps], rule op_hoare_bind_read, rule op_hoare_then [OF completed], rule op_hoare_return)
qed

lemma keeps_finish_turn: "op_keeps okv (finish_turn gid att oc us)"
  unfolding finish_turn_def Let_def
  by (rule op_hoare_bind [OF get_keeps], rule op_hoare_bind_read, rule op_hoare_sum)
    (rule op_hoare_raise, simp, rule keeps_settle_turn)

lemma keeps_note_blocker: "op_keeps okv (note_blocker gid key ne)"
proof -
  have cap: "length (last_n BLOCKER_WINDOW_CAP w) \<le> BLOCKER_WINDOW_CAP" for w :: "string list"
    by (simp add: last_n_def)
  show ?thesis
    unfolding note_blocker_def Let_def
    by (rule op_hoare_bind [OF get_keeps], rule op_hoare_if; rule keeps_sv_t) (auto simp: cap BLOCKER_WINDOW_CAP_def [symmetric])
qed

lemma keeps_note_tool_result: "op_keeps okv (note_tool_result a)"
  unfolding note_tool_result_def by (rule lift_ok [OF keeps_record_evidence])

lemma keeps_mark_ack_attempt: "op_keeps okv (sv_mark_ack a ref)"
  unfolding sv_mark_ack_def by (rule lift_ok [OF keeps_mark_ack])


lemma row_evidence:
  "op_hoare (row gid r) (on_store (gs_evidence_for hid)) (\<lambda>rows v. row gid r v \<and> rows = evidence_of hid (gdb (sv_store v))) (\<lambda>_. okv)"
proof -
  have "op_hoare (\<lambda>s. J (gdb s) \<and> od_get (goals (gdb s)) gid = Some r) (gs_evidence_for hid)
      (\<lambda>rows s. J (gdb s) \<and> od_get (goals (gdb s)) gid = Some r \<and> rows = evidence_of hid (gdb s)) (\<lambda>_ s. J (gdb s))"
    unfolding gs_evidence_for_def gs_select_def by (rule op_hoare_read) simp
  then show ?thesis by (rule op_hoare_weaken [OF lift_if]) simp_all
qed

lemma keeps_report_blocked: "op_keeps okv (report_blocked r control)"
  unfolding report_blocked_def Let_def by (intro hoare_intros keeps_note_blocker)

lemma row_own_id: "op_hoare (row (g_goal_id r) r) m (\<lambda>_. okv) (\<lambda>_. okv) \<Longrightarrow> op_hoare (row gid r) m (\<lambda>_. okv) (\<lambda>_. okv)"
  by (erule op_hoare_weaken) (use row_id in auto)

lemma keeps_report_progress: "op_hoare (row gid r) (report_progress r control) (\<lambda>_. okv) (\<lambda>_. okv)"
proof (rule row_own_id)
  have t: "op_hoare (row (g_goal_id r) r) (sv_transition (g_goal_id r) (g_record_version r) k a [U_last_evidence l, U_no_progress_count 0])
      (\<lambda>_. okv) (\<lambda>_. okv)" for k a l
    by (rule op_hoare_weaken [OF keeps_sv_transition [where P = "\<lambda>_. True"]]) (simp_all add: policy_write_def)
  have ev: "op_hoare (row (g_goal_id r) r) (on_store (gs_evidence_for (g_goal_id r))) (\<lambda>_. row (g_goal_id r) r) (\<lambda>_. okv)"
    by (rule op_hoare_weaken [OF row_evidence]) simp_all
  show "op_hoare (row (g_goal_id r) r) (report_progress r control) (\<lambda>_. okv) (\<lambda>_. okv)"
    unfolding report_progress_def
    by (rule op_hoare_bind [OF ev], intro op_hoare_sum op_hoare_if op_hoare_bind_read op_hoare_then [OF t])
      (rule op_hoare_raise op_hoare_return, simp)+
qed

lemma keeps_report_complete: "op_hoare (row gid r) (report_complete r control) (\<lambda>_. okv) (\<lambda>_. okv)"
proof (rule row_own_id)
  let ?gid = "g_goal_id r"
  have audit: "op_hoare (\<lambda>v. row ?gid r v \<and> rows = evidence_of ?gid (gdb (sv_store v)))
      (op_read (\<lambda>v. audit_completion v r control rows))
      (\<lambda>a v. row ?gid r v \<and> (\<forall>d. a = Inr d \<longrightarrow> audited str (gdb (sv_store v)) ?gid (pending_of control d))) (\<lambda>_. okv)" for rows
    by (rule op_hoare_read) (use audit_accepts in auto)
  have t: "op_hoare (\<lambda>v. row ?gid r v \<and> audited str (gdb (sv_store v)) ?gid p)
      (sv_t ?gid (g_record_version r) k a w [U_pending_completion (Some p)]) (\<lambda>_. okv) (\<lambda>_. okv)" for k a w p
    by (rule op_hoare_weaken [OF keeps_sv_t_if [where P = "\<lambda>db. audited str db ?gid p"]])
      (simp_all add: policy_write_def)
  show "op_hoare (row ?gid r) (report_complete r control) (\<lambda>_. okv) (\<lambda>_. okv)"
    unfolding report_complete_def
  proof (rule op_hoare_bind [OF row_evidence], rule op_hoare_bind [OF audit], rule op_hoare_sum, rule op_hoare_return, simp, goal_cases)
    case (1 rows a d)
    show ?case
      by (rule op_hoare_then [where Q = okv], rule op_hoare_weaken [OF t])
        (use 1 in \<open>simp_all add: op_hoare_return\<close>)
  qed
qed

lemma keeps_handle_goal_report: "op_keeps okv (handle_goal_report control attempt)"
proof -
  have found: "op_hoare okv (op_catch (op_bind (sv_get gid) (\<lambda>r. op_return (Some r)))
      (\<lambda>e. if is_store_error e then op_return None else op_raise e))
      (\<lambda>f v. okv v \<and> (\<forall>r. f = Some r \<longrightarrow> row gid r v)) (\<lambda>_. okv)" for gid
    by (rule op_hoare_catch [where Y = "\<lambda>_. okv"], rule op_hoare_bind [OF get_keeps], rule op_hoare_return, simp)
      (auto intro!: op_hoare_if op_hoare_return op_hoare_raise)
  show ?thesis
    unfolding handle_goal_report_def
  proof (rule op_hoare_bind [OF found], rule op_hoare_option, rule op_hoare_return, simp, goal_cases)
    case (1 f r)
    have known: "op_hoare (row (c_goal_id control) r) m (\<lambda>_. okv) (\<lambda>_. okv) \<Longrightarrow>
        op_hoare (\<lambda>v. okv v \<and> (\<forall>r. f = Some r \<longrightarrow> row (c_goal_id control) r v)) m (\<lambda>_. okv) (\<lambda>_. okv)" for m :: "report_result service_op"
      by (erule op_hoare_weaken) (use 1 in auto)
    show ?case
      by (rule known, intro op_hoare_if op_hoare_bind_read row_weaken [OF keeps_report_blocked] keeps_report_progress
          keeps_report_complete) (rule op_hoare_return, simp)+
  qed
qed

lemma keeps_apply_pending: "op_keeps okv (apply_pending_completion gid)"
proof -
  have t: "op_hoare (row gid r) (sv_t gid (g_record_version r) k a w
      [U_status ''complete'', U_completion_declared b, U_pending_completion None]) (\<lambda>_. okv) (\<lambda>_. okv)"
    if "g_pending_completion r = Some p" "held (Some p)" "g_status r = ''active''" for r k a w b p
    by (rule keeps_sv_t) (use that in simp_all)
  show ?thesis
    unfolding apply_pending_completion_def
    by (rule op_hoare_bind [OF get_keeps], rule op_hoare_option, rule op_hoare_return, simp, rule op_hoare_if,
        rule op_hoare_return, simp, rule op_hoare_bind_read, rule op_hoare_sum, rule op_hoare_raise, simp,
        rule op_hoare_bind [OF t]) (auto intro: op_hoare_return)
qed

end

section \<open>The invariant of the goals\<close>

definition GOAL_STATUSES :: "string list" where
  "GOAL_STATUSES = [''active'', ''paused'', ''blocked'', ''budget_limited'', ''complete'', ''cleared'']"

text \<open>
  A record the service keeps: its status is one of the six the service assigns, the turns are within
  the limit, the blocker window is capped, the generation is positive, a held completion was audited,
  and a complete goal has evidence that the runtime recorded.
\<close>

definition record_ok :: "(pyval \<Rightarrow> string) \<Rightarrow> goal_db \<Rightarrow> goal_record \<Rightarrow> bool" where
  "record_ok str db r \<longleftrightarrow>
     g_status r \<in> set GOAL_STATUSES \<and> 0 \<le> g_turn_count r \<and> g_turn_count r \<le> max 0 (g_auto_turn_limit r) \<and>
     length (g_blocker_keys r) \<le> BLOCKER_WINDOW_CAP \<and> 1 \<le> g_execution_generation r \<and>
     (held (g_pending_completion r) \<longrightarrow> audited str db (g_goal_id r) (the (g_pending_completion r))) \<and>
     (g_status r = ''complete'' \<longrightarrow> (\<exists>e \<in> set (goal_evidence_rows db). v_goal_id e = g_goal_id r))"

definition policy_inv :: "(pyval \<Rightarrow> string) \<Rightarrow> goal_db \<Rightarrow> bool" where
  "policy_inv str db \<longleftrightarrow> goals_wf db \<and> (\<forall>gid r. od_get (goals db) gid = Some r \<longrightarrow> record_ok str db r)"

lemma set_fields_from:
  "g_status (fold set_field us r) = g_status r \<or> U_status (g_status (fold set_field us r)) \<in> set us"
  "g_turn_count (fold set_field us r) = g_turn_count r \<or> U_turn_count (g_turn_count (fold set_field us r)) \<in> set us"
  "g_auto_turn_limit (fold set_field us r) = g_auto_turn_limit r \<or> U_auto_turn_limit (g_auto_turn_limit (fold set_field us r)) \<in> set us"
  "g_blocker_keys (fold set_field us r) = g_blocker_keys r \<or> U_blocker_keys (g_blocker_keys (fold set_field us r)) \<in> set us"
  "g_execution_generation (fold set_field us r) = g_execution_generation r \<or>
     U_execution_generation (g_execution_generation (fold set_field us r)) \<in> set us"
  "g_pending_completion (fold set_field us r) = g_pending_completion r \<or>
     U_pending_completion (g_pending_completion (fold set_field us r)) \<in> set us"
proof -
  have step: "g_status (set_field u r) = g_status r \<or> u = U_status (g_status (set_field u r))"
    "g_turn_count (set_field u r) = g_turn_count r \<or> u = U_turn_count (g_turn_count (set_field u r))"
    "g_auto_turn_limit (set_field u r) = g_auto_turn_limit r \<or> u = U_auto_turn_limit (g_auto_turn_limit (set_field u r))"
    "g_blocker_keys (set_field u r) = g_blocker_keys r \<or> u = U_blocker_keys (g_blocker_keys (set_field u r))"
    "g_execution_generation (set_field u r) = g_execution_generation r \<or> u = U_execution_generation (g_execution_generation (set_field u r))"
    "g_pending_completion (set_field u r) = g_pending_completion r \<or> u = U_pending_completion (g_pending_completion (set_field u r))"
    for u r by (cases u; simp)+
  show "g_status (fold set_field us r) = g_status r \<or> U_status (g_status (fold set_field us r)) \<in> set us"
    by (induction us arbitrary: r) (simp, metis (no_types, lifting) step(1) fold_simps(2) list.set_intros)
  show "g_turn_count (fold set_field us r) = g_turn_count r \<or> U_turn_count (g_turn_count (fold set_field us r)) \<in> set us"
    by (induction us arbitrary: r) (simp, metis (no_types, lifting) step(2) fold_simps(2) list.set_intros)
  show "g_auto_turn_limit (fold set_field us r) = g_auto_turn_limit r \<or> U_auto_turn_limit (g_auto_turn_limit (fold set_field us r)) \<in> set us"
    by (induction us arbitrary: r) (simp, metis (no_types, lifting) step(3) fold_simps(2) list.set_intros)
  show "g_blocker_keys (fold set_field us r) = g_blocker_keys r \<or> U_blocker_keys (g_blocker_keys (fold set_field us r)) \<in> set us"
    by (induction us arbitrary: r) (simp, metis (no_types, lifting) step(4) fold_simps(2) list.set_intros)
  show "g_execution_generation (fold set_field us r) = g_execution_generation r \<or>
     U_execution_generation (g_execution_generation (fold set_field us r)) \<in> set us"
    by (induction us arbitrary: r) (simp, metis (no_types, lifting) step(5) fold_simps(2) list.set_intros)
  show "g_pending_completion (fold set_field us r) = g_pending_completion r \<or>
     U_pending_completion (g_pending_completion (fold set_field us r)) \<in> set us"
    by (induction us arbitrary: r) (simp, metis (no_types, lifting) step(6) fold_simps(2) list.set_intros)
qed

lemma updated_record_sel [simp]:
  "g_goal_id (updated_record us now r) = g_goal_id r"
  "g_turn_count (updated_record us now r) = g_turn_count (fold set_field us r)"
  "g_auto_turn_limit (updated_record us now r) = g_auto_turn_limit (fold set_field us r)"
  "g_blocker_keys (updated_record us now r) = g_blocker_keys (fold set_field us r)"
  "g_execution_generation (updated_record us now r) = g_execution_generation (fold set_field us r)"
  "g_pending_completion (updated_record us now r) = g_pending_completion (fold set_field us r)"
  by (simp_all add: updated_record_def)

lemma audited_row: "audited str db gid p \<Longrightarrow> \<exists>e \<in> set (goal_evidence_rows db). v_goal_id e = gid"
  unfolding audited_def by (metis list.set_sel(1))

lemma record_ok_policy:
  assumes ok: "record_ok str db r" and pw: "policy_write str db r us"
  shows "record_ok str db (updated_record us now r)"
proof -
  let ?r = "fold set_field us r"
  have p: "policy_update str db r u" if "u \<in> set us" for u
    using pw that by (simp add: policy_write_def list_all_iff)
  have status: "g_status ?r = g_status r \<or> policy_update str db r (U_status (g_status ?r))"
    using set_fields_from(1) [of us r] p by blast
  have turns: "g_turn_count ?r = g_turn_count r \<or> U_turn_count (g_turn_count ?r) \<in> set us \<and> policy_update str db r (U_turn_count (g_turn_count ?r))"
    using set_fields_from(2) [of us r] p by blast
  have limit: "g_auto_turn_limit ?r = g_auto_turn_limit r \<or>
      U_auto_turn_limit (g_auto_turn_limit ?r) \<in> set us \<and> policy_update str db r (U_auto_turn_limit (g_auto_turn_limit ?r))"
    using set_fields_from(3) [of us r] p by blast
  have keys: "g_blocker_keys ?r = g_blocker_keys r \<or> policy_update str db r (U_blocker_keys (g_blocker_keys ?r))"
    using set_fields_from(4) [of us r] p by blast
  have gen: "g_execution_generation ?r = g_execution_generation r \<or>
      policy_update str db r (U_execution_generation (g_execution_generation ?r))"
    using set_fields_from(5) [of us r] p by blast
  have pend: "g_pending_completion ?r = g_pending_completion r \<or>
      policy_update str db r (U_pending_completion (g_pending_completion ?r))"
    using set_fields_from(6) [of us r] p by blast
  have "g_status ?r \<in> set GOAL_STATUSES"
    using status ok by (auto simp: record_ok_def GOAL_STATUSES_def split: if_splits)
  moreover have "0 \<le> g_turn_count ?r \<and> g_turn_count ?r \<le> max 0 (g_auto_turn_limit ?r)"
  proof -
    have "\<not> (U_turn_count (g_turn_count ?r) \<in> set us \<and> U_auto_turn_limit (g_auto_turn_limit ?r) \<in> set us)"
      using pw by (auto simp: policy_write_def)
    then show ?thesis using turns limit ok by (auto simp: record_ok_def)
  qed
  moreover have "length (g_blocker_keys ?r) \<le> BLOCKER_WINDOW_CAP" using keys ok by (auto simp: record_ok_def)
  moreover have "1 \<le> g_execution_generation ?r" using gen ok by (auto simp: record_ok_def)
  moreover have "held (g_pending_completion ?r) \<longrightarrow> audited str db (g_goal_id r) (the (g_pending_completion ?r))"
    using pend ok by (auto simp: record_ok_def held_def)
  moreover have "\<exists>e \<in> set (goal_evidence_rows db). v_goal_id e = g_goal_id r" if "g_status ?r = ''complete''"
    using status that ok audited_row [of str db "g_goal_id r"] by (auto simp: record_ok_def)
  ultimately show ?thesis by (simp add: record_ok_def)
qed

lemma record_ok_grows:
  "record_ok str db r \<Longrightarrow> set (goal_evidence_rows db) \<subseteq> set (goal_evidence_rows db') \<Longrightarrow> record_ok str db' r"
  unfolding record_ok_def using audited_grows by blast

lemma policy_inv_put:
  assumes "policy_inv str db" and "record_ok str db r" and "g_goal_id r = gid" and "1 \<le> g_record_version r"
  shows "policy_inv str (db\<lparr>goals := od_put gid r (goals db)\<rparr>)"
proof -
  have "record_ok str (db\<lparr>goals := od_put gid r (goals db)\<rparr>) q = record_ok str db q" for q
    by (simp add: record_ok_def audited_def)
  then show ?thesis using assms goals_wf_put [of db r gid] by (auto simp: policy_inv_def)
qed

lemma policy_inv_tables:
  assumes "policy_inv str db" and "goals db' = goals db"
    and "set (goal_evidence_rows db) \<subseteq> set (goal_evidence_rows db')"
  shows "policy_inv str db'"
  using assms record_ok_grows unfolding policy_inv_def goals_wf_def by (metis (no_types, lifting))

lemma record_ok_fresh: "record_ok str db ((fresh_goal gid now a)\<lparr>g_attachment_refs := refs\<rparr>)"
  by (simp add: record_ok_def fresh_goal_def GOAL_STATUSES_def held_def)

lemma record_ok_recovered: "record_ok str db r \<Longrightarrow> record_ok str db (recovered_goal ep d ex now amb r)"
  by (simp add: record_ok_def recovered_goal_def Let_def GOAL_STATUSES_def)

lemma policy_inv_write:
  assumes "policy_inv str db" and "od_get (goals db) gid = Some r" and "goal_write r r'" and "record_ok str db r'"
    and "db_write_goal gid r' db = Some db'"
  shows "policy_inv str db'"
proof -
  have "g_goal_id r' = gid" "1 \<le> g_record_version r'"
    using assms(1-3) by (fastforce simp: policy_inv_def goals_wf_def goal_write_def)+
  then show ?thesis using assms policy_inv_put by (auto simp: db_write_goal_def split: if_splits)
qed

interpretation pol: policy_property "policy_inv str" str for str
proof
  fix db db' gid now a refs
  assume "policy_inv str db" "db_insert_goal ((fresh_goal gid now a)\<lparr>g_attachment_refs := refs\<rparr>) db = Some db'"
  then show "policy_inv str db'"
    by (auto simp: db_insert_goal_def intro!: policy_inv_put record_ok_fresh split: if_splits)
next
  fix db db' gid r us now
  assume inv: "policy_inv str db" and get: "od_get (goals db) gid = Some r" and pw: "policy_write str db r us"
    and upd: "db_write_goal gid (updated_record us now r) db = Some db'"
  have "record_ok str db r" using inv get unfolding policy_inv_def by blast
  then show "policy_inv str db'"
    using pw by (intro policy_inv_write [OF inv get goal_write_updated record_ok_policy upd])
next
  fix db db' gid r ep d ex now amb
  assume inv: "policy_inv str db" and get: "od_get (goals db) gid = Some r"
    and upd: "db_write_goal gid (recovered_goal ep d ex now amb r) db = Some db'"
  have "record_ok str db r" using inv get unfolding policy_inv_def by blast
  then show "policy_inv str db'"
    by (intro policy_inv_write [OF inv get goal_write_recovered record_ok_recovered upd])
next
  show "goals_wf db" if "policy_inv str db" for db
    using that by (simp add: policy_inv_def)
qed (auto simp: db_insert_event_def db_insert_attempt_def db_write_attempt_def db_insert_evidence_def
      db_insert_request_def db_write_request_def db_delete_request_def db_insert_submission_def
      elim!: policy_inv_tables split: if_splits)

section \<open>What the operations do\<close>

abbreviation sv_goal :: "goal_service \<Rightarrow> string \<Rightarrow> goal_record option" where
  "sv_goal v gid \<equiv> od_get (goals (gdb (sv_store v))) gid"

lemma on_store_eq: "on_store m v = (y, v') \<longleftrightarrow> (\<exists>s'. m (sv_store v) = (y, s') \<and> v' = v\<lparr>sv_store := s'\<rparr>)"
  by (auto simp: on_store_def op_on_def put_store_def split: prod.splits)

lemma sv_get_Inr: "sv_get gid v = (Inr r, v') \<longleftrightarrow> sv_goal v gid = Some r \<and> v' = v"
  by (auto simp: sv_get_def on_store_eq gs_get_eq split: option.splits)

lemma sv_get_run: "sv_goal v gid = Some r \<Longrightarrow> sv_get gid v = (Inr r, v)"
  by (simp add: sv_get_Inr)

lemma sv_notify_db [simp]: "sv_store (snd (sv_notify r k v)) = sv_store v"
  by (simp add: sv_notify_def op_simps)

lemma sv_transition_Inr:
  assumes "sv_transition gid ver kind a us v = (Inr r', v')"
  shows "\<exists>r now e. sv_goal v gid = Some r \<and> g_record_version r = ver \<and> r' = updated_record us now r \<and>
    transition_event gid kind a r r' (gdb (sv_store v)) e \<and>
    gdb (sv_store v') = (gdb (sv_store v))\<lparr>goals := od_put gid r' (goals (gdb (sv_store v))),
      goal_events := goal_events (gdb (sv_store v)) @ [e]\<rparr> \<and>
    sv_in_flight v' = sv_in_flight v"
proof -
  obtain s' where "gs_transition gid ver kind a us (sv_store v) = (Inr r', s')" "gdb (sv_store v') = gdb s'" "sv_in_flight v' = sv_in_flight v"
    using assms unfolding sv_transition_def sv_notify_def
    by (auto simp: op_bind_eq_Inr op_then_eq_Inr on_store_eq op_simps)
  then show ?thesis using transition_Inr by metis
qed

lemma sv_t_Inr:
  assumes "sv_t gid ver kind actor reason us v = (Inr r', v')"
  shows "\<exists>r now. sv_goal v gid = Some r \<and> g_record_version r = ver \<and> r' = updated_record us now r \<and> sv_goal v' gid = Some r' \<and>
    sv_in_flight v' = sv_in_flight v \<and> goal_attempts (gdb (sv_store v')) = goal_attempts (gdb (sv_store v)) \<and>
    goal_evidence_rows (gdb (sv_store v')) = goal_evidence_rows (gdb (sv_store v))"
  using assms unfolding sv_t_def by (auto simp: op_bind_eq_Inr op_simps dest!: sv_transition_Inr)

lemma sv_now_Inr: "sv_now v = (Inr t, v') \<Longrightarrow> sv_store v' = sv_store v"
  by (auto simp: sv_now_def)

lemma insert_attempt_get: "db_insert_attempt a db = Some db' \<Longrightarrow> od_get (goal_attempts db') (a_attempt_id a) = Some a"
  by (auto simp: db_insert_attempt_def split: if_splits)

definition dispatched_as :: "goal_record \<Rightarrow> goal_attempt \<Rightarrow> goal_service \<Rightarrow> bool" where
  "dispatched_as r a v' \<longleftrightarrow>
     a_goal_id a = g_goal_id r \<and> a_continuation_seq a = g_continuation_seq r + 1 \<and> a_state a = ''dispatched'' \<and>
     a_lease_epoch a = g_lease_epoch r \<and> a_execution_generation a = g_execution_generation r \<and>
     od_get (goal_attempts (gdb (sv_store v'))) (a_attempt_id a) = Some a \<and>
     (\<exists>now. sv_goal v' (g_goal_id r) =
        Some (updated_record [U_continuation_seq (g_continuation_seq r + 1), U_turn_count (g_turn_count r + 1)] now r))"

lemma dispatch_turn_Inr:
  assumes "dispatch_turn gid r v = (Inr x, v')" and "sv_goal v gid = Some r" and "g_goal_id r = gid"
  shows "\<exists>a. x = Some a \<and> dispatched_as r a v'"
proof -
  obtain a v1 v2 u d where a: "on_store (gs_insert_attempt gid (g_continuation_seq r + 1) (g_lease_epoch r) (g_execution_generation r) ''dispatched'' None) v = (Inr a, v1)"
    and t: "sv_transition gid (g_record_version r) ''turn_started''
        (transition_defaults\<lparr>ta_actor := ''daemon'', ta_daemon_id := Some d, ta_turn_id := Some (a_attempt_id a)\<rparr>)
        [U_continuation_seq (g_continuation_seq r + 1), U_turn_count (g_turn_count r + 1)] v1 = (Inr u, v2)"
    and x: "x = Some a" "sv_store v' = sv_store v2"
    using assms(1) unfolding dispatch_turn_def Let_def
    by (auto simp: op_bind_eq_Inr op_then_eq_Inr op_simps dest!: sv_now_Inr)
  obtain s1 where s1: "v1 = v\<lparr>sv_store := s1\<rparr>"
      and ins: "gs_insert_attempt gid (g_continuation_seq r + 1) (g_lease_epoch r) (g_execution_generation r) ''dispatched'' None (sv_store v) = (Inr a, s1)"
    using a by (auto simp: on_store_eq)
  note i = insert_attempt_Inr [OF ins]
  obtain q now where "sv_goal v1 gid = Some q" "u = updated_record [U_continuation_seq (g_continuation_seq r + 1), U_turn_count (g_turn_count r + 1)] now q"
      "sv_goal v2 gid = Some u" "goal_attempts (gdb (sv_store v2)) = goal_attempts (gdb (sv_store v1))"
    using sv_transition_Inr [OF t] by auto
  moreover have "sv_goal v1 gid = Some r" using i s1 assms(2) by simp
  ultimately show ?thesis
    using i x s1 assms(3) insert_attempt_get [of a "gdb (sv_store v)" "gdb s1"] by (auto simp: dispatched_as_def)
qed

definition may_continue :: "goal_record \<Rightarrow> turn_outcome \<Rightarrow> boundary_context \<Rightarrow> bool" where
  "may_continue r outcome ctx \<longleftrightarrow>
     g_status r = ''active'' \<and> \<not> g_clear_requested r \<and> \<not> g_pause_requested r \<and>
     o_origin outcome = ''goal'' \<and> o_status outcome = ''ok'' \<and>
     b_queue_empty ctx \<and> \<not> b_pending_work ctx \<and> \<not> b_invalidated ctx \<and> b_provider_healthy ctx \<and>
     bound_reason r = None \<and> \<not> budget_spent r"

lemma maybe_continue_Some:
  assumes run: "maybe_continue gid outcome ctx v = (Inr (Some a), v')" and r: "sv_goal v gid = Some r"
  shows "may_continue r outcome ctx" and "dispatch_turn gid r v = (Inr (Some a), v')"
proof -
  have bound: "bound_stop r v = (Inr None, v1) \<longleftrightarrow> bound_reason r = None \<and> v1 = v" for v1
    by (auto simp: bound_stop_def op_then_eq_Inr op_simps split: option.splits)
  have "may_continue r outcome ctx \<and> dispatch_turn gid r v = (Inr (Some a), v')"
    using run r unfolding maybe_continue_def may_continue_def
    by (simp add: op_bind_eq_Inr sv_get_Inr op_then_eq_Inr op_simps Let_def bound split: if_splits)
  then show "may_continue r outcome ctx" and "dispatch_turn gid r v = (Inr (Some a), v')" by simp_all
qed

text \<open>C6: The safe-boundary checklist hands out a turn only when it may run: the goal is active with no
  stop intent, the last turn ended well and was the goal's own, no user input, pending work or
  cancellation is waiting, the provider is healthy, and the turn limit, the time limit and the token
  budget are all unspent. The attempt it returns is committed before it is submitted, with the next
  sequence number and the goal's current epoch and generation, and the goal's turn count is one
  higher.
\<close>

theorem turn_dispatched_only_when_allowed:
  assumes run: "maybe_continue gid outcome ctx v = (Inr (Some a), v')" and wf: "goals_wf (gdb (sv_store v))"
  shows "\<exists>r. sv_goal v gid = Some r \<and> g_status r = ''active'' \<and> \<not> g_clear_requested r \<and> \<not> g_pause_requested r \<and>
     o_origin outcome = ''goal'' \<and> o_status outcome = ''ok'' \<and>
     b_queue_empty ctx \<and> \<not> b_pending_work ctx \<and> \<not> b_invalidated ctx \<and> b_provider_healthy ctx \<and>
     g_turn_count r < g_auto_turn_limit r \<and> g_time_used_seconds r < real_of_int (g_auto_time_limit_s r) \<and>
     (\<forall>b. g_token_budget r = Some b \<longrightarrow> (case g_tokens_used r of None \<Rightarrow> 0 | Some t \<Rightarrow> t) < b) \<and>
     dispatched_as r a v'"
proof -
  obtain r where r: "sv_goal v gid = Some r" using run by (auto simp: maybe_continue_def op_bind_eq_Inr sv_get_Inr)
  have id: "g_goal_id r = gid" using wf r by (auto simp: goals_wf_def)
  show ?thesis
    using r maybe_continue_Some [OF run r] dispatch_turn_Inr [OF _ r id]
    by (auto simp: may_continue_def bound_reason_def budget_spent_def not_le split: if_splits option.splits)
qed

text \<open>A service for the examples, on the example store.\<close>

definition demo_service :: "goal_store \<Rightarrow> goal_service" where
  "demo_service s = \<lparr>sv_store = s, sv_daemon_id = ''host:1'', sv_turn_started = [], sv_in_flight = [],
     sv_publisher = False, sv_published = [], sv_mono_values = (\<lambda>n. real n), sv_mono_reads = 0,
     sv_checkers = (\<lambda>_. None), sv_str = (\<lambda>_. ''?''), sv_repr = (\<lambda>_. ''?''), sv_float = (\<lambda>_. None)\<rparr>"

definition ok_outcome :: turn_outcome where
  "ok_outcome = \<lparr>o_turn_id = ''t'', o_origin = ''goal'', o_status = ''ok'', o_goal_id = None, o_error = None, o_request_usage = []\<rparr>"

definition idle_context :: boundary_context where
  "idle_context = \<lparr>b_queue_empty = True, b_pending_work = False, b_invalidated = False, b_provider_healthy = True\<rparr>"

lemma demo_created_wf: "goals_wf (gdb demo_created)"
  using wf.keeps_run [OF demo_created_run(1)] empty_db_wf(1) by (simp add: demo_store_def db_wf_def)

theorem turn_dispatched_only_when_allowed_witness:
  "\<exists>a v'. maybe_continue ''a'' ok_outcome idle_context (demo_service demo_created) = (Inr (Some a), v') \<and>
     dispatched_as (fresh_goal ''a'' 0 demo_goal) a v'"
proof -
  let ?m = "maybe_continue ''a'' ok_outcome idle_context (demo_service demo_created)"
  have "case fst ?m of Inr (Some _) \<Rightarrow> True | _ \<Rightarrow> False" by code_simp
  then obtain a v' where m: "?m = (Inr (Some a), v')"
    by (cases ?m) (auto split: sum.splits option.splits)
  have "goals_wf (gdb (sv_store (demo_service demo_created)))" by (simp add: demo_service_def demo_created_wf)
  moreover have "sv_goal (demo_service demo_created) ''a'' = Some (fresh_goal ''a'' 0 demo_goal)"
    by (simp add: demo_service_def demo_created_goal)
  ultimately show ?thesis using turn_dispatched_only_when_allowed [OF m] m by auto
qed

lemma report_stale_generation:
  assumes "sv_goal v (c_goal_id control) = Some r" and "a_execution_generation a \<noteq> g_execution_generation r"
  shows "\<exists>detail. handle_goal_report control (Some a) v = (Inr (report_rejected detail), v)"
proof -
  have "op_catch (op_bind (sv_get (c_goal_id control)) (\<lambda>r. op_return (Some r))) h v = (Inr (Some r), v)" for h
    using sv_get_run [OF assms(1)] by (simp add: op_catch_def op_simps)
  then show ?thesis using assms(2) by (auto simp: handle_goal_report_def op_simps)
qed

text \<open>C18: A resume starts a new execution generation, and what was dispatched before it can no longer
  report: after a successful resume, a \<open>goal_report\<close> of any kind from an attempt of the old
  generation is rejected and the service, with its store, is unchanged.
\<close>

theorem reports_from_before_a_resume_are_rejected:
  assumes res: "resume gid actor budget limit v = (Inr r', v')" and old: "sv_goal v gid = Some r"
    and a: "a_execution_generation a \<le> g_execution_generation r" and c: "c_goal_id control = gid"
  shows "g_status r' = ''active'' \<and> g_execution_generation r' = g_execution_generation r + 1 \<and>
     (\<exists>detail. handle_goal_report control (Some a) v' = (Inr (report_rejected detail), v'))"
proof -
  obtain us f u v1 r1 k1 k2 w1 where us: "resume_updates f r budget limit = Inr us"
    and t1: "sv_t gid (g_record_version r) k1 actor w1 [] v = (Inr u, v1)" and r1: "sv_goal v1 gid = Some r1"
    and t2: "sv_t gid (g_record_version r1) k2 actor None us v1 = (Inr r', v')"
    using res old unfolding resume_def
    by (auto simp: op_bind_eq_Inr op_then_eq_Inr sv_get_Inr op_simps split: if_splits sum.splits)
  obtain now1 where "r1 = updated_record [] now1 r" using sv_t_Inr [OF t1] r1 old by auto
  moreover obtain now2 where r': "r' = updated_record us now2 r1" "sv_goal v' gid = Some r'" using sv_t_Inr [OF t2] r1 by auto
  ultimately have "g_status r' = ''active'' \<and> g_execution_generation r' = g_execution_generation r + 1"
    using us by (auto simp: resume_updates_def Let_def updated_record_def split: option.splits if_splits)
  then show ?thesis using report_stale_generation [of v' control r' a] r'(2) a c by simp
qed

definition demo_paused :: goal_service where
  "demo_paused = snd (pause ''a'' ''user'' (demo_service demo_created))"

theorem reports_from_before_a_resume_are_rejected_witness:
  "\<exists>r' v'. resume ''a'' ''user'' None None demo_paused = (Inr r', v') \<and> g_execution_generation r' = 2 \<and>
     (\<exists>detail. handle_goal_report
        \<lparr>c_goal_id = ''a'', c_expected_record_version = g_record_version r', c_kind = ''blocked'', c_reason = [], c_evidence = []\<rparr>
        (Some \<lparr>a_attempt_id = ''old'', a_goal_id = ''a'', a_conversation_uid = ''conv'', a_continuation_seq = 1,
           a_lease_epoch = 0, a_execution_generation = 1, a_state = ''dispatched'', a_created_at = 0, a_updated_at = 0,
           a_provider_request_ref = None, a_turn_id = None, a_outcome = None, a_usage_deltas = []\<rparr>) v' =
        (Inr (report_rejected detail), v'))"
proof -
  have "op_returned (resume ''a'' ''user'' None None demo_paused)" by code_simp
  then obtain r' v' where r': "resume ''a'' ''user'' None None demo_paused = (Inr r', v')" by (auto simp: op_returned_iff)
  have "map_option g_execution_generation (sv_goal demo_paused ''a'') = Some 1" by code_simp
  then obtain r where r: "sv_goal demo_paused ''a'' = Some r" "g_execution_generation r = 1" by auto
  define old where "old = \<lparr>a_attempt_id = ''old'', a_goal_id = ''a'', a_conversation_uid = ''conv'', a_continuation_seq = 1,
     a_lease_epoch = 0, a_execution_generation = 1, a_state = ''dispatched'', a_created_at = 0, a_updated_at = 0,
     a_provider_request_ref = None, a_turn_id = None, a_outcome = None, a_usage_deltas = []\<rparr>"
  define control where "control = \<lparr>c_goal_id = ''a'', c_expected_record_version = g_record_version r', c_kind = ''blocked'',
     c_reason = [], c_evidence = []\<rparr>"
  have "g_execution_generation r' = 2 \<and> (\<exists>detail. handle_goal_report control (Some old) v' = (Inr (report_rejected detail), v'))"
    using reports_from_before_a_resume_are_rejected [OF r' r(1), of old control] r(2) by (simp add: old_def control_def)
  then show ?thesis using r' unfolding old_def control_def by blast
qed

text \<open>C29: A pause supersedes a completion that is held for the end of the tool batch: once \<open>pause\<close> has
  returned, whether it stopped the goal or only recorded the intent, no completion is held, and
  \<open>apply_pending_completion\<close> does nothing.
\<close>

theorem pause_supersedes_held_completion:
  assumes "pause gid actor v = (Inr r', v')"
  shows "sv_goal v' gid = Some r' \<and> \<not> held (g_pending_completion r') \<and>
     apply_pending_completion gid v' = (Inr None, v')"
proof -
  have none: "sv_goal v' gid = Some r' \<and> \<not> held (g_pending_completion r')"
    if t: "sv_t gid (g_record_version q) k actor w [u] v1 = (Inr r', v')" and q: "sv_goal v1 gid = Some q"
      and u: "u = U_pause_requested True \<or> u = U_status ''paused''" and h: "\<not> held (g_pending_completion q)" for q k w u v1
    using sv_t_Inr [OF t] q u h by (auto simp: updated_record_def)
  have flight: "goal_turn_in_flight gid v1 = (Inr b, v2) \<Longrightarrow> v2 = v1" for v1 b v2
    by (auto simp: goal_turn_in_flight_def op_bind_eq_Inr on_store_eq gs_unfinished_attempts_def gs_select_eq op_simps)
  have discarded: "\<not> held (g_pending_completion q)"
    if "discard_pending_completion gid v0 = (Inr u, v1)" "sv_goal v1 gid = Some q" for v0 u v1 q
  proof -
    have "v1 = v0 \<and> (\<exists>r. sv_goal v0 gid = Some r \<and> \<not> held (g_pending_completion r)) \<or>
        (\<exists>ver r s'. gs_update_fields gid ver [U_pending_completion None] (sv_store v0) = (Inr r, s') \<and> v1 = v0\<lparr>sv_store := s'\<rparr>)"
      using that(1) by (auto simp: discard_pending_completion_def op_bind_eq_Inr sv_get_Inr on_store_eq op_simps split: if_splits)
    then show ?thesis
    proof (elim disjE exE conjE)
      fix ver r s'
      assume "gs_update_fields gid ver [U_pending_completion None] (sv_store v0) = (Inr r, s')" "v1 = v0\<lparr>sv_store := s'\<rparr>"
      then show ?thesis using update_fields_Inr that(2) by (fastforce simp: held_def)
    qed (use that(2) in auto)
  qed
  obtain q v1 where q: "sv_goal v1 gid = Some q" "\<not> held (g_pending_completion q)" and tail: "pause_row gid actor q v1 = (Inr r', v')"
    using assms discarded unfolding pause_def
    by (auto simp: op_bind_eq_Inr op_then_eq_Inr sv_get_Inr op_simps split: if_splits)
  then obtain k w u where "sv_t gid (g_record_version q) k actor w [u] v1 = (Inr r', v')" "u = U_pause_requested True \<or> u = U_status ''paused''"
    by (auto simp: pause_row_def op_bind_eq_Inr split: if_splits dest!: flight)
  then have "sv_goal v' gid = Some r' \<and> \<not> held (g_pending_completion r')" using none q by blast
  then show ?thesis
    by (auto simp: apply_pending_completion_def sv_get_run op_simps split: option.split)
qed

definition demo_evidence :: "string \<Rightarrow> int \<Rightarrow> bool \<Rightarrow> evidence_args" where
  "demo_evidence ref sq mut = \<lparr>va_goal_id = ''a'', va_attempt_id = ''att'', va_tool_result_id = ''t'', va_kind = ''terminal'',
     va_ref = ref, va_tool_seq = sq, va_turn_id = None, va_checksum = None, va_is_mutating = mut\<rparr>"

definition demo_complete_report :: goal_control where
  "demo_complete_report = \<lparr>c_goal_id = ''a'', c_expected_record_version = 1, c_kind = ''complete'', c_reason = ''done'',
     c_evidence = [PDict [(''ref'', PStr ''terminal:ok''), (''claim'', PStr ''tests pass'')]]\<rparr>"

definition demo_held :: goal_service where
  "demo_held = snd (handle_goal_report demo_complete_report None
     (snd (note_tool_result (demo_evidence ''terminal:ok'' 1 False) (demo_service demo_created))))"

theorem pause_supersedes_held_completion_witness:
  "map_option (\<lambda>r. held (g_pending_completion r)) (sv_goal demo_held ''a'') = Some True \<and>
   (\<exists>r' v'. pause ''a'' ''user'' demo_held = (Inr r', v') \<and> apply_pending_completion ''a'' v' = (Inr None, v'))"
proof
  show "map_option (\<lambda>r. held (g_pending_completion r)) (sv_goal demo_held ''a'') = Some True" by code_simp
  have "op_returned (pause ''a'' ''user'' demo_held)" by code_simp
  then obtain r' v' where p: "pause ''a'' ''user'' demo_held = (Inr r', v')" by (auto simp: op_returned_iff)
  show "\<exists>r' v'. pause ''a'' ''user'' demo_held = (Inr r', v') \<and> apply_pending_completion ''a'' v' = (Inr None, v')"
    using pause_supersedes_held_completion [OF p] p by blast
qed

text \<open>The same blocker three times in a row, with no new evidence in between, stops the goal: the
  third report leaves it blocked, with the blocker as the reason.
\<close>

theorem repeated_blocker_stops_the_goal:
  assumes "note_blocker gid key False v0 = (Inr r1, v1)" and "note_blocker gid key False v1 = (Inr r2, v2)"
    and "note_blocker gid key False v2 = (Inr r3, v3)"
  shows "g_status r3 = ''blocked'' \<and> g_blocked_reason r3 = Some (''repeated blocker: '' @ key) \<and>
     sv_goal v3 gid = Some r3"
proof -
  have window: "\<exists>r. sv_goal v gid = Some r \<and> sv_goal v' gid = Some r' \<and>
      g_blocker_keys r' = last_n BLOCKER_WINDOW_CAP (g_blocker_keys r @ [key]) \<and>
      (\<forall>why. blocker_stop key (g_blocker_keys r') = Some why \<longrightarrow> g_status r' = ''blocked'' \<and> g_blocked_reason r' = Some why)"
    if "note_blocker gid key False v = (Inr r', v')" for v r' v'
    using that unfolding note_blocker_def Let_def
    by (auto simp: op_bind_eq_Inr sv_get_Inr updated_record_def dest!: sv_t_Inr)
  obtain r0 :: goal_record where k1: "g_blocker_keys r1 = last_n 6 (g_blocker_keys r0 @ [key])" "sv_goal v1 gid = Some r1"
    using window [OF assms(1)] unfolding BLOCKER_WINDOW_CAP_def by blast
  have k2: "g_blocker_keys r2 = last_n 6 (g_blocker_keys r1 @ [key])" "sv_goal v2 gid = Some r2"
    using window [OF assms(2)] k1(2) by (auto simp: BLOCKER_WINDOW_CAP_def)
  have k3: "g_blocker_keys r3 = last_n 6 (g_blocker_keys r2 @ [key])" "sv_goal v3 gid = Some r3"
    using window [OF assms(3)] k2(2) by (auto simp: BLOCKER_WINDOW_CAP_def)
  have "last_n 3 (last_n 6 (last_n 6 (last_n 6 (ks @ [key]) @ [key]) @ [key])) = [key, key, key]" for ks
    by (simp add: last_n_def Suc_diff_le numeral_3_eq_3 split: nat_diff_split)
  then have "blocker_stop key (g_blocker_keys r3) = Some (''repeated blocker: '' @ key)"
    by (simp add: blocker_stop_def SAME_BLOCKER_LIMIT_def k1 k2 k3)
  then show ?thesis using window [OF assms(3)] k3(2) by auto
qed

theorem repeated_blocker_stops_the_goal_witness:
  "\<exists>r v. note_blocker ''a'' ''net'' False (snd (note_blocker ''a'' ''net'' False
      (snd (note_blocker ''a'' ''net'' False (demo_service demo_created))))) = (Inr r, v) \<and> g_status r = ''blocked''"
proof -
  let ?v0 = "demo_service demo_created" let ?n = "note_blocker ''a'' ''net'' False"
  have "op_returned (?n ?v0)" "op_returned (?n (snd (?n ?v0)))" "op_returned (?n (snd (?n (snd (?n ?v0)))))" by code_simp+
  then obtain r1 v1 r2 v2 r3 v3 where "?n ?v0 = (Inr r1, v1)" "?n v1 = (Inr r2, v2)" "?n v2 = (Inr r3, v3)"
    by (auto simp: op_returned_iff)
  then show ?thesis using repeated_blocker_stops_the_goal [of "''a''" "''net''" ?v0 r1 v1 r2 v2 r3 v3] by simp
qed

text \<open>
  The order of a tool batch: the report is audited when its tool runs, and the evidence of the batch
  is recorded when the batch ends. An edit of the same batch is therefore not seen by the audit, and
  the completion is committed although the evidence it cites predates that edit.
\<close>

theorem completion_commits_on_stale_evidence:
  "let v = snd (note_tool_result (demo_evidence ''file_edit:x'' 2 True) demo_held) in
   map_option g_status (sv_goal (snd (apply_pending_completion ''a'' v)) ''a'') = Some ''complete'' \<and>
   audit_completion v (fresh_goal ''a'' 0 demo_goal) demo_complete_report (evidence_of ''a'' (gdb (sv_store v))) =
     Inl ''stale evidence (predates a later edit): terminal:ok''"
  by code_simp

text \<open>An attempt is never dispatched twice: when the next sequence number of a goal is already taken
  by an attempt, in whatever state, the checklist hands out no turn.
\<close>

theorem taken_sequence_is_not_dispatched:
  assumes r: "sv_goal v gid = Some r" and wf: "goals_wf (gdb (sv_store v))"
    and taken: "(aid, b) \<in> set (goal_attempts (gdb (sv_store v)))" "a_goal_id b = gid" "a_continuation_seq b = g_continuation_seq r + 1"
  shows "maybe_continue gid outcome ctx v \<noteq> (Inr (Some a), v')"
proof
  assume run: "maybe_continue gid outcome ctx v = (Inr (Some a), v')"
  have "dispatch_turn gid r v = (Inr (Some a), v')" by (rule maybe_continue_Some(2) [OF run r])
  then obtain c s1 where "gs_insert_attempt gid (g_continuation_seq r + 1) (g_lease_epoch r) (g_execution_generation r) ''dispatched'' None (sv_store v) = (Inr c, s1)"
    unfolding dispatch_turn_def Let_def by (auto simp: op_bind_eq_Inr on_store_eq)
  from insert_attempt_Inr [OF this] show False using taken by (auto simp: db_insert_attempt_def split: if_splits)
qed

text \<open>
  The attempt and the turn are two transactions. When another process writes the goal between them,
  the turn's write is refused and the attempt stays; after a resume the checklist asks for the same
  sequence number again, and the insert raises each time.
\<close>

definition demo_lost_race :: goal_store where
  "demo_lost_race =
     snd (gs_transition ''a'' 1 ''turn_started'' transition_defaults [U_continuation_seq 1, U_turn_count 1]
      (snd (gs_transition ''a'' 1 ''paused'' transition_defaults [U_status ''paused'']
       (snd (gs_insert_attempt ''a'' 1 0 1 ''dispatched'' None demo_created)))))"

theorem lost_race_wedges_the_goal:
  "let v = snd (resume ''a'' ''user'' None None (demo_service demo_lost_race)) in
   map_option g_status (sv_goal v ''a'') = Some ''active'' \<and>
   fst (maybe_continue ''a'' ok_outcome idle_context v) = Inl (ConstraintError ''attempt already exists'')"
  by code_simp

theorem taken_sequence_is_not_dispatched_witness:
  "\<forall>a v'. maybe_continue ''a'' ok_outcome idle_context (demo_service demo_dispatched) \<noteq> (Inr (Some a), v')"
proof -
  let ?v = "demo_service demo_dispatched"
  have g: "sv_goal ?v ''a'' = Some (fresh_goal ''a'' 0 demo_goal)" by code_simp
  have wf: "goals_wf (gdb (sv_store ?v))"
    using wf.keeps_run [OF demo_created_run(2)] empty_db_wf(1) by (simp add: demo_store_def db_wf_def demo_service_def)
  have "map (\<lambda>(k, b). (k, a_goal_id b, a_continuation_seq b)) (goal_attempts (gdb (sv_store ?v))) = [(''aaa'', ''a'', 1)]" by code_simp
  then obtain b where "(''aaa'', b) \<in> set (goal_attempts (gdb (sv_store ?v)))" "a_goal_id b = ''a''" "a_continuation_seq b = 1" by auto
  moreover have "g_continuation_seq (fresh_goal ''a'' 0 demo_goal) = 0" by (simp add: fresh_goal_def)
  ultimately show ?thesis using taken_sequence_is_not_dispatched [OF g wf] by simp
qed

end
