(* ===== verification/Goal_Driver.thy ===== *)
theory Goal_Driver
  imports Goal_Service
begin

text \<open>
  The \<open>goal_report\<close> tool of \<open>kollabor/goals/tooling.py\<close> and the driver of
  \<open>kollabor/goals/driver.py\<close>: evidence recording after a tool batch, the loop that runs a goal's
  turns, the settle-driven wake, and the watchdog for goals that nothing drives.

  The coordinator, the queue processor and the provider are not goal code. What the driver reads of
  them is a function of the world \<open>'w\<close> in \<open>driver_env\<close>, and running one turn, in which the
  model's tools may call the service, is the operation \<open>de_turn\<close>. Between two turns the loop does
  not wait, so the world changes only there. The loop takes fuel; its result tells whether it ended
  before the fuel did.
\<close>

section \<open>The goal_report tool\<close>

text \<open>\<open>EVIDENCE_LINE\<close> on a stripped line: a reference, \<open>::\<close>, a claim; the shortest reference.\<close>

definition evidence_line :: "string \<Rightarrow> (string \<times> string) option" where
  "evidence_line s =
     map_option (\<lambda>n. (take n s, dropWhile is_space (drop 2 (dropWhile is_space (drop n s)))))
       (List.find (\<lambda>n. take 2 (dropWhile is_space (drop n s)) = ''::'' \<and>
            dropWhile is_space (drop 2 (dropWhile is_space (drop n s))) \<noteq> [])
          [1..<Suc (length s)])"

record evidence_parse =
  p_evidence :: "(string \<times> string) list"
  p_ref_buffer :: "string list"
  p_claim_buffer :: "string list"
  p_in_claim :: bool

definition flush_evidence :: "evidence_parse \<Rightarrow> evidence_parse" where
  "flush_evidence p =
     (let ref = str_strip (join_on [newline] (p_ref_buffer p));
          claim = str_strip (join_on [newline] (p_claim_buffer p));
          evidence = (if p_ref_buffer p \<noteq> [] \<and> ref \<noteq> [] then p_evidence p @ [(ref, claim)] else p_evidence p) in
      p\<lparr>p_evidence := evidence, p_ref_buffer := [], p_claim_buffer := []\<rparr>)"

definition evidence_step :: "string \<Rightarrow> evidence_parse \<Rightarrow> evidence_parse" where
  "evidence_step raw p =
     (let line = str_strip raw in
      if line = [] then p
      else (case evidence_line line of
          Some (ref, claim) \<Rightarrow>
            (let p = (if p_in_claim p then flush_evidence p else p) in
             p\<lparr>p_ref_buffer := p_ref_buffer p @ [ref], p_claim_buffer := p_claim_buffer p @ [claim], p_in_claim := True\<rparr>)
        | None \<Rightarrow>
            if p_in_claim p then p\<lparr>p_claim_buffer := p_claim_buffer p @ [line]\<rparr>
            else p\<lparr>p_ref_buffer := p_ref_buffer p @ [line]\<rparr>))"

text \<open>\<open>str.splitlines()\<close>; a carriage return followed by a line feed is one break.\<close>

fun split_lines :: "string \<Rightarrow> string \<Rightarrow> string list" where
  "split_lines acc [] = (if acc = [] then [] else [rev acc])"
| "split_lines acc (c # cs) =
     (if c = CHR 0x0D \<and> cs \<noteq> [] \<and> hd cs = newline then rev acc # split_lines [] (tl cs)
      else if is_line_break c then rev acc # split_lines [] cs
      else split_lines (c # acc) cs)"

definition split_evidence :: "string \<Rightarrow> (string \<times> string) list" where
  "split_evidence body =
     p_evidence (flush_evidence (fold evidence_step (split_lines [] (str_strip body))
       \<lparr>p_evidence = [], p_ref_buffer = [], p_claim_buffer = [], p_in_claim = False\<rparr>))"

record report_data =
  rd_kind :: "string option"
  rd_version :: "int option"
  rd_reason :: "string option"
  rd_evidence :: "pyval list"

definition extract_goal_report :: "string \<Rightarrow> string option \<Rightarrow> string option \<Rightarrow> string option \<Rightarrow> report_data" where
  "extract_goal_report kind version reason body =
     \<lparr>rd_kind = Some (str_lower kind),
      rd_version = (case given_id version of None \<Rightarrow> None | Some t \<Rightarrow> int_of_text t),
      rd_reason = Some (case reason of None \<Rightarrow> [] | Some r \<Rightarrow> r),
      rd_evidence = map (\<lambda>(ref, claim). PDict [(''ref'', PStr ref), (''claim'', PStr claim)])
        (split_evidence (case body of None \<Rightarrow> [] | Some b \<Rightarrow> b))\<rparr>"

text \<open>The hyphen stands for the em dash of the message.\<close>

definition NO_TURN :: string where
  "NO_TURN = ''no goal turn is in flight; goal_report only runs inside a goal-owned turn (goal may be paused, or the '' @
     ''turn already settled - resume it and report inside the resumed turn)''"

text \<open>The handler: whether the tool succeeded, its error text, and what the service answered.\<close>

definition handle_report_tool :: "report_data \<Rightarrow> (bool \<times> string \<times> report_result option) service_op" where
  "handle_report_tool tool =
     op_bind current_goal_attempt (\<lambda>current.
     case current of
       None \<Rightarrow> op_return (False, NO_TURN, None)
     | Some (r, attempt) \<Rightarrow>
         op_bind (handle_goal_report
           \<lparr>c_goal_id = g_goal_id r,
            c_expected_record_version = (case rd_version tool of None \<Rightarrow> g_record_version r | Some n \<Rightarrow> n),
            c_kind = (case rd_kind tool of None \<Rightarrow> ''progress'' | Some k \<Rightarrow> k),
            c_reason = take 600 (case rd_reason tool of None \<Rightarrow> [] | Some t \<Rightarrow> t),
            c_evidence = rd_evidence tool\<rparr> (Some attempt)) (\<lambda>result.
         op_return (rp_accepted result, if rp_accepted result then [] else take 300 (rp_detail result), Some result)))"

section \<open>Driver state\<close>

definition MAX_GOAL_CHAIN_TURNS :: nat where "MAX_GOAL_CHAIN_TURNS = 50"

definition MUTATING_TOOL_TYPES :: "string list" where
  "MUTATING_TOOL_TYPES = [''file_write'', ''file_edit'', ''edit_file'', ''write_file'', ''create_file'',
     ''shell'', ''bash'', ''terminal'', ''apply_patch'']"

record queue_view =
  qv_empty :: bool
  qv_processing :: bool
  qv_locked :: bool
  qv_cancelled :: bool

record 'w goal_driver =
  d_service :: goal_service
  d_running :: "string list"
  d_yielded :: "string list"
  d_settled :: "string list"
  d_tool_seq :: int
  d_scheduled :: "string list"
  d_world :: 'w

type_synonym ('w, 'a) driver_op = "('w goal_driver, goal_exn, 'a) op"

text \<open>
  \<open>de_provider\<close>: the provider of the active profile, \<open>None\<close> when no manager or profile can be
  had. \<open>de_queue\<close>: the queue processor, if there is one. \<open>de_tokens\<close>: the session totals of input
  and output tokens. \<open>de_turn\<close>: \<open>_run_one_turn\<close>.
\<close>

record 'w driver_env =
  de_provider :: "'w \<Rightarrow> pyval option"
  de_queue :: "'w \<Rightarrow> queue_view option"
  de_tokens :: "'w \<Rightarrow> int \<times> int"
  de_wall :: "'w \<Rightarrow> int"
  de_pipe_mode :: "'w \<Rightarrow> bool"
  de_conversation :: "'w \<Rightarrow> string option"
  de_getpid :: int
  de_pid_alive :: "'w \<Rightarrow> int \<Rightarrow> bool"
  de_exn_text :: "goal_exn \<Rightarrow> string"
  de_turn :: "string \<Rightarrow> goal_attempt \<Rightarrow> ('w goal_driver, goal_exn, string \<times> string option) op"

definition put_service :: "goal_service \<Rightarrow> 'w goal_driver \<Rightarrow> 'w goal_driver" where
  "put_service v d = d\<lparr>d_service := v\<rparr>"

definition on_service :: "'a service_op \<Rightarrow> ('w, 'a) driver_op" where
  "on_service m = op_on d_service put_service m"

text \<open>\<open>try: ... except GoalStoreError: ...\<close>\<close>

definition or_store_error :: "('w, 'a) driver_op \<Rightarrow> 'a \<Rightarrow> ('w, 'a) driver_op" where
  "or_store_error m x = op_catch m (\<lambda>e. if is_store_error e then op_return x else op_raise e)"

definition goal_execution_unavailable_reason :: "'w driver_env \<Rightarrow> (pyval \<Rightarrow> string) \<Rightarrow> 'w \<Rightarrow> string option" where
  "goal_execution_unavailable_reason E str w =
     (let unknown = ''/goal cannot start or resume because the active profile could not be determined. '' @
            ''Select a working profile and try again.'' in
      case de_provider E w of
        None \<Rightarrow> Some unknown
      | Some p \<Rightarrow>
          (let name = str_strip (if truthy p then py_text str p else []) in
           if name = [] then Some unknown
           else if str_lower (str_strip (py_text str p)) = ''acp''
           then Some (''/goal is unavailable for ACP: Kollab cannot verify goal evidence or token spend yet. '' @
             ''Switch to a native provider profile.'')
           else None))"

definition unavailable :: "'w driver_env \<Rightarrow> ('w, string option) driver_op" where
  "unavailable E = op_read (\<lambda>d. goal_execution_unavailable_reason E (sv_str (d_service d)) (d_world d))"

definition boundary_ctx :: "'w driver_env \<Rightarrow> 'w \<Rightarrow> boundary_context" where
  "boundary_ctx E w =
     (case de_queue E w of
        None \<Rightarrow> \<lparr>b_queue_empty = False, b_pending_work = True, b_invalidated = False, b_provider_healthy = True\<rparr>
      | Some q \<Rightarrow> \<lparr>b_queue_empty = qv_empty q, b_pending_work = qv_processing q \<or> qv_locked q,
          b_invalidated = qv_cancelled q, b_provider_healthy = True\<rparr>)"

section \<open>Evidence of a tool batch\<close>

record tool_outcome =
  tl_type :: string
  tl_output :: string
  tl_id :: "string option"

definition batch_evidence :: "goal_record \<Rightarrow> goal_attempt \<Rightarrow> int \<Rightarrow> tool_outcome \<Rightarrow> evidence_args" where
  "batch_evidence r attempt sq t =
     \<lparr>va_goal_id = g_goal_id r, va_attempt_id = a_attempt_id attempt,
      va_tool_result_id = (case tl_id t of Some i \<Rightarrow> i | None \<Rightarrow> show_int sq), va_kind = tl_type t,
      va_ref = str_strip (tl_type t @ '':'' @ take 80 (tl_output t)), va_tool_seq = sq,
      va_turn_id = Some (take 12 (a_attempt_id attempt)), va_checksum = None,
      va_is_mutating = (tl_type t \<in> set MUTATING_TOOL_TYPES)\<rparr>"

definition record_result :: "goal_record \<Rightarrow> goal_attempt \<Rightarrow> tool_outcome \<Rightarrow> ('w, unit) driver_op" where
  "record_result r attempt t =
     op_then (op_modify (\<lambda>d. d\<lparr>d_tool_seq := d_tool_seq d + 1\<rparr>))
    (op_bind (op_read d_tool_seq) (\<lambda>sq.
     or_store_error (op_then (on_service (note_tool_result (batch_evidence r attempt sq t))) (op_return ())) ()))"

definition on_tool_batch :: "tool_outcome list \<Rightarrow> ('w, unit) driver_op" where
  "on_tool_batch results =
     op_bind (on_service current_goal_attempt) (\<lambda>current.
     case current of
       None \<Rightarrow> op_return ()
     | Some (r, attempt) \<Rightarrow> op_for (record_result r attempt) results)"

definition safe_error_pause :: "string \<Rightarrow> string \<Rightarrow> ('w, unit) driver_op" where
  "safe_error_pause gid exn =
     (let why = ''driver error: '' @ exn in
      or_store_error
        (op_bind (on_service (sv_get gid)) (\<lambda>r.
         op_bind (op_read (\<lambda>d. sv_daemon_id (d_service d))) (\<lambda>daemon.
         op_then (on_service (on_store (gs_transition gid (g_record_version r) ''error''
           (transition_defaults\<lparr>ta_actor := ''system'', ta_daemon_id := Some daemon, ta_reason := Some why\<rparr>)
           [U_status ''paused'', U_last_reason (Some why)]))) (op_return ())))) ())"

section \<open>The loop\<close>

definition mark_yielded :: "string \<Rightarrow> ('w, unit) driver_op" where
  "mark_yielded gid = op_modify (\<lambda>d. d\<lparr>d_yielded := List.insert gid (d_yielded d)\<rparr>)"

definition yield_if_active :: "string \<Rightarrow> ('w, unit) driver_op" where
  "yield_if_active gid =
     op_bind (or_store_error (op_bind (on_service (sv_get gid)) (\<lambda>r. op_return (Some r))) None) (\<lambda>still.
     case still of
       Some r \<Rightarrow> if g_status r = ''active'' then mark_yielded gid else op_return ()
     | None \<Rightarrow> op_return ())"

definition goal_outcome :: "string \<Rightarrow> string \<Rightarrow> string option \<Rightarrow> string \<Rightarrow> turn_outcome" where
  "goal_outcome turn_id status error gid = \<lparr>o_turn_id = turn_id, o_origin = ''goal'', o_status = status,
     o_goal_id = Some gid, o_error = error, o_request_usage = []\<rparr>"

definition turn_usage :: "int \<times> int \<Rightarrow> int \<times> int \<Rightarrow> pydict list" where
  "turn_usage pre post =
     (let delta_in = fst post - fst pre; delta_out = snd post - snd pre in
      if delta_in \<noteq> 0 \<or> delta_out \<noteq> 0 then [[(''tokens'', PFloat (real_of_int (delta_in + delta_out)))]] else [])"

text \<open>After the turn: account it, commit a held completion, apply a stop. True: run another turn.\<close>

definition after_turn :: "'w driver_env \<Rightarrow> string \<Rightarrow> goal_attempt \<Rightarrow> int \<times> int \<Rightarrow> string \<Rightarrow> string option \<Rightarrow> ('w, bool) driver_op" where
  "after_turn E gid attempt pre status error =
     op_then (on_service (sv_get gid))
    (let outcome = goal_outcome (take 12 (a_attempt_id attempt)) status error gid in
     op_bind (op_read (\<lambda>d. de_tokens E (d_world d))) (\<lambda>post.
     op_then (or_store_error (on_service (finish_turn gid attempt outcome (turn_usage pre post))) ())
    (op_bind (or_store_error (on_service (apply_pending_completion gid)) None) (\<lambda>completed.
     if completed \<noteq> None then op_return False
     else if status \<noteq> ''ok'' then
       op_bind (op_read (\<lambda>d. boundary_ctx E (d_world d))) (\<lambda>ctx.
       op_then (or_store_error (op_then (on_service (maybe_continue gid outcome ctx)) (op_return ())) ()) (op_return False))
     else op_bind (on_service (sv_get gid)) (\<lambda>r. op_return (g_status r = ''active''))))))"

definition run_dispatched :: "'w driver_env \<Rightarrow> string \<Rightarrow> goal_attempt \<Rightarrow> ('w, bool) driver_op" where
  "run_dispatched E gid attempt =
     op_then (op_modify (\<lambda>d. d\<lparr>d_yielded := removeAll gid (d_yielded d)\<rparr>))
    (op_bind (op_read (\<lambda>d. de_tokens E (d_world d))) (\<lambda>pre.
     op_then (on_service (note_dispatched gid attempt))
    (op_bind (op_catch (de_turn E gid attempt)
       (\<lambda>e. op_return (''error'', Some (''turn failed: '' @ de_exn_text E e)))) (\<lambda>(status, error).
     if status = ''yielded'' then
       op_then (on_service (on_store (gs_cancel_attempt (a_attempt_id attempt) (a_lease_epoch attempt))))
         (op_then (mark_yielded gid) (op_return False))
     else after_turn E gid attempt pre status error))))"

definition drive_once :: "'w driver_env \<Rightarrow> bool \<Rightarrow> string \<Rightarrow> ('w, bool) driver_op" where
  "drive_once E first gid =
     op_bind (or_store_error (op_bind (on_service (sv_get gid)) (\<lambda>r. op_return (Some r))) None) (\<lambda>found.
     case found of
       None \<Rightarrow> op_return False
     | Some r \<Rightarrow>
         if g_status r \<noteq> ''active'' then op_return False
         else
           op_bind (unavailable E) (\<lambda>why.
           op_bind (op_read d_world) (\<lambda>w.
           case why of
             Some reason \<Rightarrow>
               op_then (on_service (maybe_continue gid (goal_outcome ''goal-capability'' ''error'' (Some reason) gid) (boundary_ctx E w)))
                 (op_return False)
           | None \<Rightarrow>
               let outcome = goal_outcome (if first then ''goal-start'' else ''wake-'' @ show_int (de_wall E w)) ''ok'' None gid in
               op_bind (on_service (maybe_continue gid outcome (boundary_ctx E w))) (\<lambda>next.
               case next of
                 None \<Rightarrow> op_then (yield_if_active gid) (op_return False)
               | Some attempt \<Rightarrow> run_dispatched E gid attempt))))"

text \<open>\<open>_drive\<close> with fuel: True when the loop returned, False when the fuel ran out first.\<close>

fun drive :: "nat \<Rightarrow> 'w driver_env \<Rightarrow> bool \<Rightarrow> string \<Rightarrow> ('w, bool) driver_op" where
  "drive 0 E first gid = op_return False"
| "drive (Suc n) E first gid =
     op_bind (drive_once E first gid) (\<lambda>again. if again then drive n E False gid else op_return True)"

section \<open>Scheduling, waking and the watchdog\<close>

definition schedule :: "'w driver_env \<Rightarrow> string \<Rightarrow> ('w, unit) driver_op" where
  "schedule E gid = op_modify (\<lambda>d.
     if gid \<in> set (d_running d) \<or> de_pipe_mode E (d_world d) then d
     else d\<lparr>d_scheduled := d_scheduled d @ [gid]\<rparr>)"

definition wake_one :: "'w driver_env \<Rightarrow> string \<Rightarrow> ('w, unit) driver_op" where
  "wake_one E gid =
     op_bind (op_read d_running) (\<lambda>running.
     if gid \<in> set running then op_modify (\<lambda>d. d\<lparr>d_settled := List.insert gid (d_settled d)\<rparr>)
     else
       op_bind (or_store_error (op_bind (on_service (sv_get gid)) (\<lambda>r. op_return (Some r))) None) (\<lambda>found.
       op_then (op_modify (\<lambda>d. d\<lparr>d_yielded := removeAll gid (d_yielded d)\<rparr>))
       (case found of
          Some r \<Rightarrow> if g_status r = ''active'' then schedule E gid else op_return ()
        | None \<Rightarrow> op_return ())))"

definition wake_yielded :: "'w driver_env \<Rightarrow> ('w, unit) driver_op" where
  "wake_yielded E = op_bind (op_read d_yielded) (op_for (wake_one E))"

text \<open>\<open>start\<close>: the running guard, the error pause, and the replay of a settlement that came meanwhile.\<close>

definition start :: "nat \<Rightarrow> 'w driver_env \<Rightarrow> string \<Rightarrow> ('w, bool) driver_op" where
  "start n E gid =
     op_bind (op_read d_running) (\<lambda>running.
     if gid \<in> set running then op_return True
     else
       op_then (op_modify (\<lambda>d. d\<lparr>d_running := List.insert gid (d_running d)\<rparr>))
      (op_bind (op_attempt (op_catch (drive n E True gid)
         (\<lambda>e. op_then (safe_error_pause gid (de_exn_text E e)) (op_return True)))) (\<lambda>ended.
       op_bind (op_read d_settled) (\<lambda>settled.
       op_then (op_modify (\<lambda>d. d\<lparr>d_settled := removeAll gid (d_settled d), d_running := removeAll gid (d_running d)\<rparr>))
      (op_then (on_service (clear_dispatched gid))
      (op_then (if gid \<in> set settled then wake_yielded E else op_return ()) (op_outcome ended)))))))"

text \<open>The process that an event's daemon identifier names: \<open>daemon_id.rpartition(":")[2]\<close>.\<close>

definition pid_text :: "string option \<Rightarrow> string" where
  "pid_text daemon = (case daemon of None \<Rightarrow> [] | Some s \<Rightarrow> rev (takeWhile (\<lambda>c. c \<noteq> CHR '':'') (rev s)))"

definition py_isdigit :: "string \<Rightarrow> bool" where
  "py_isdigit s = (s \<noteq> [] \<and> list_all (\<lambda>c. is_digit c \<or> (of_char c :: nat) \<in> {178, 179, 185}) s)"

fun owner_alive :: "'w driver_env \<Rightarrow> 'w \<Rightarrow> string list \<Rightarrow> goal_event list \<Rightarrow> goal_exn + bool" where
  "owner_alive E w unsettled [] = Inr False"
| "owner_alive E w unsettled (e # es) =
     (if e_kind e \<noteq> ''turn_started'' \<or> (case e_turn_id e of None \<Rightarrow> True | Some t \<Rightarrow> t \<notin> set unsettled)
      then owner_alive E w unsettled es
      else if \<not> py_isdigit (pid_text (e_daemon_id e)) then Inr True
      else (case int_of_text (pid_text (e_daemon_id e)) of
          None \<Rightarrow> Inl (PyError (ValueError ''invalid literal for int()''))
        | Some pid \<Rightarrow>
            if pid = de_getpid E then owner_alive E w unsettled es
            else if \<not> de_pid_alive E w pid then owner_alive E w unsettled es
            else Inr True))"

definition dispatcher_alive :: "'w driver_env \<Rightarrow> string \<Rightarrow> ('w, bool) driver_op" where
  "dispatcher_alive E gid =
     op_bind (or_store_error
       (op_bind (on_service (on_store (gs_unfinished_attempts gid))) (\<lambda>atts.
        op_bind (on_service (on_store (gs_events gid 200 (Some ''turn_started'')))) (\<lambda>events.
        op_return (Some (map a_attempt_id (filter (\<lambda>a. a_state a \<in> {''dispatched'', ''acked''}) atts), events))))) None) (\<lambda>found.
     case found of
       None \<Rightarrow> op_return True
     | Some (unsettled, events) \<Rightarrow>
         op_bind (op_read d_world) (\<lambda>w.
         case owner_alive E w unsettled events of Inl x \<Rightarrow> op_raise x | Inr alive \<Rightarrow> op_return alive))"

definition pause_unsettled :: "string \<Rightarrow> ('w, unit) driver_op" where
  "pause_unsettled gid =
     op_bind (op_read (\<lambda>d. sv_daemon_id (d_service d))) (\<lambda>daemon.
     or_store_error (op_then (on_service (on_store (gs_recover_lease gid daemon 90))) (op_return ())) ())"

definition check_stalled :: "'w driver_env \<Rightarrow> ('w, string option) driver_op" where
  "check_stalled E =
     op_bind (op_read (\<lambda>d. given_id (de_conversation E (d_world d)))) (\<lambda>conversation.
     case conversation of
       None \<Rightarrow> op_return None
     | Some uid \<Rightarrow>
         op_bind (or_store_error (on_service (on_store (gs_get_active uid))) None) (\<lambda>found.
         op_bind (op_read d_running) (\<lambda>running.
         case found of
           None \<Rightarrow> op_return None
         | Some r \<Rightarrow>
             if g_status r \<noteq> ''active'' \<or> g_goal_id r \<in> set running then op_return None
             else op_bind (on_service (goal_turn_in_flight (g_goal_id r))) (\<lambda>in_flight.
               if in_flight then
                 op_bind (dispatcher_alive E (g_goal_id r)) (\<lambda>alive.
                 op_then (if \<not> alive then pause_unsettled (g_goal_id r) else op_return ()) (op_return None))
               else op_then (schedule E (g_goal_id r)) (op_return (Some (g_goal_id r)))))))"

section \<open>Runs\<close>

text \<open>
  What the daemon does to the service, one call at a time: the commands of the user, the calls of the
  driver and of the tools, and the store operations that the driver calls directly. The operations
  that only read are not listed.
\<close>

inductive goal_step :: "goal_service \<Rightarrow> goal_service \<Rightarrow> bool" where
  gstep_create: "goal_step v (snd (create_goal a v))"
| gstep_pause: "goal_step v (snd (pause gid actor v))"
| gstep_resume: "goal_step v (snd (resume gid actor b n v))"
| gstep_clear: "goal_step v (snd (clear_goal gid actor v))"
| gstep_continue: "goal_step v (snd (maybe_continue gid oc ctx v))"
| gstep_ack: "goal_step v (snd (sv_mark_ack att ref v))"
| gstep_finish: "goal_step v (snd (finish_turn gid att oc us v))"
| gstep_blocker: "goal_step v (snd (note_blocker gid key ne v))"
| gstep_tool_result: "goal_step v (snd (note_tool_result va v))"
| gstep_report: "goal_step v (snd (handle_goal_report control attempt v))"
| gstep_apply: "goal_step v (snd (apply_pending_completion gid v))"
| gstep_discard: "goal_step v (snd (discard_pending_completion gid v))"
| gstep_artifact: "goal_step v (snd (pause_artifact_missing gid ref v))"
| gstep_dispatched: "goal_step v (snd (note_dispatched gid att v))"
| gstep_undispatched: "goal_step v (snd (clear_dispatched gid v))"
| gstep_error_pause: "goal_step v (snd (on_store (gs_transition gid ver kind ta [U_status ''paused'', U_last_reason why]) v))"
| gstep_recover: "goal_step v (snd (on_store (gs_recover_lease gid d secs) v))"
| gstep_cancel: "goal_step v (snd (on_store (gs_cancel_attempt aid ep) v))"
| gstep_stage_request: "goal_step v (snd (on_store (gs_stage_attachment_request uid txt refs) v))"
| gstep_stage_submission: "goal_step v (snd (on_store (gs_stage_attachment_submission key uid fp txt refs) v))"
| gstep_discard_request: "goal_step v (snd (on_store (gs_discard_attachment_request uid rid) v))"

abbreviation goal_run :: "goal_service \<Rightarrow> goal_service \<Rightarrow> bool" where
  "goal_run \<equiv> goal_step\<^sup>*\<^sup>*"

context policy_property
begin

lemma keeps_note_dispatched: "op_keeps okv (note_dispatched gid a)"
  unfolding note_dispatched_def by (intro hoare_intros) simp

lemma keeps_clear_dispatched: "op_keeps okv (clear_dispatched gid)"
  unfolding clear_dispatched_def by (intro hoare_intros keeps_drain) simp_all

lemma keeps_error_pause: "op_keeps okv (on_store (gs_transition gid ver kind ta [U_status ''paused'', U_last_reason why]))"
proof -
  have pw: "policy_write str db r [U_status ''paused'', U_last_reason why]" for db r by (simp add: policy_write_def)
  have "op_hoare (\<lambda>s. J (gdb s) \<and> True) (gs_transition gid ver kind ta [U_status ''paused'', U_last_reason why]) (\<lambda>_ s. J (gdb s)) (\<lambda>_ s. J (gdb s))"
    by (rule keeps_transition_if [where P = "\<lambda>_. True"]) (rule policy [OF _ _ pw])
  then show ?thesis by (intro lift_ok) simp
qed

lemma keeps_recover: "op_keeps okv (on_store (gs_recover_lease gid d secs))"
  by (rule lift_ok [OF keeps_recover_lease_if]) (rule recovery)

lemma keeps_goal_step: "goal_step v v' \<Longrightarrow> okv v \<Longrightarrow> okv v'"
proof (induction rule: goal_step.induct)
  case gstep_create then show ?case by (rule op_keepsD [OF keeps_create_goal])
next
  case gstep_pause then show ?case by (rule op_keepsD [OF keeps_pause])
next
  case gstep_resume then show ?case by (rule op_keepsD [OF keeps_resume])
next
  case gstep_clear then show ?case by (rule op_keepsD [OF keeps_clear])
next
  case gstep_continue then show ?case by (rule op_keepsD [OF keeps_maybe_continue])
next
  case gstep_ack then show ?case by (rule op_keepsD [OF keeps_mark_ack_attempt])
next
  case gstep_finish then show ?case by (rule op_keepsD [OF keeps_finish_turn])
next
  case gstep_blocker then show ?case by (rule op_keepsD [OF keeps_note_blocker])
next
  case gstep_tool_result then show ?case by (rule op_keepsD [OF keeps_note_tool_result])
next
  case gstep_report then show ?case by (rule op_keepsD [OF keeps_handle_goal_report])
next
  case gstep_apply then show ?case by (rule op_keepsD [OF keeps_apply_pending])
next
  case gstep_discard then show ?case by (rule op_keepsD [OF keeps_discard])
next
  case gstep_artifact then show ?case by (rule op_keepsD [OF keeps_artifact_missing])
next
  case gstep_dispatched then show ?case by (rule op_keepsD [OF keeps_note_dispatched])
next
  case gstep_undispatched then show ?case by (rule op_keepsD [OF keeps_clear_dispatched])
next
  case gstep_error_pause then show ?case by (rule op_keepsD [OF keeps_error_pause])
next
  case gstep_recover then show ?case by (rule op_keepsD [OF keeps_recover])
next
  case gstep_cancel then show ?case by (rule op_keepsD [OF lift_ok [OF keeps_cancel]])
next
  case gstep_stage_request then show ?case by (rule op_keepsD [OF lift_ok [OF keeps_stage_request]])
next
  case gstep_stage_submission then show ?case by (rule op_keepsD [OF lift_ok [OF keeps_stage_submission]])
next
  case gstep_discard_request then show ?case by (rule op_keepsD [OF lift_ok [OF keeps_discard_request]])
qed

lemma keeps_goal_run: "goal_run v v' \<Longrightarrow> okv v \<Longrightarrow> okv v'"
  by (induction rule: rtranclp_induct) (use keeps_goal_step in blast)+

end

lemma policy_inv_empty: "policy_inv str empty_db"
  by (simp add: policy_inv_def goals_wf_def empty_db_def)

text \<open>C3: Whatever the user, the model and the driver do, a goal that is complete has evidence that the
  runtime recorded for it, and a completion that is held for the end of a batch cites evidence of
  this goal only: it has at least one citation, and each citation is the text of a recorded row or
  its first line.
\<close>

theorem completed_goals_have_recorded_evidence:
  assumes run: "goal_run v0 v" and fresh: "gdb (sv_store v0) = empty_db" and r: "sv_goal v gid = Some r"
  shows "(g_status r = ''complete'' \<longrightarrow> (\<exists>e \<in> set (goal_evidence_rows (gdb (sv_store v))). v_goal_id e = gid)) \<and>
    (\<forall>p. g_pending_completion r = Some p \<longrightarrow> p \<noteq> [] \<longrightarrow>
       (\<exists>control declared. p = pending_of control declared \<and> c_evidence control \<noteq> [] \<and>
          (\<forall>item \<in> set (c_evidence control). \<exists>e \<in> set (goal_evidence_rows (gdb (sv_store v))).
             v_goal_id e = gid \<and> (v_ref e = cited_text (sv_str v0) item \<or>
               str_strip (first_line (v_ref e)) = str_strip (cited_text (sv_str v0) item)))))"
proof -
  have inv: "policy_inv (sv_str v0) (gdb (sv_store v))"
    using pol.keeps_goal_run [OF run, of "sv_str v0"] fresh policy_inv_empty by simp
  then have ok: "record_ok (sv_str v0) (gdb (sv_store v)) r" "g_goal_id r = gid"
    using r unfolding policy_inv_def goals_wf_def by blast+
  have "audited (sv_str v0) (gdb (sv_store v)) gid p" if "g_pending_completion r = Some p" "p \<noteq> []" for p
    using ok that by (simp add: record_ok_def held_def)
  then show ?thesis using ok unfolding record_ok_def audited_def ref_bound_def by blast
qed

text \<open>C32: In every state the daemon can reach, a goal's status is one of the six, its turn count is
  between zero and its turn limit (a limit below zero counts as zero), its blocker window holds at
  most six entries, and its execution generation is at least one.
\<close>

theorem goal_records_within_bounds:
  assumes run: "goal_run v0 v" and fresh: "gdb (sv_store v0) = empty_db" and r: "sv_goal v gid = Some r"
  shows "g_status r \<in> {''active'', ''paused'', ''blocked'', ''budget_limited'', ''complete'', ''cleared''} \<and>
    0 \<le> g_turn_count r \<and> g_turn_count r \<le> max 0 (g_auto_turn_limit r) \<and>
    length (g_blocker_keys r) \<le> 6 \<and> 1 \<le> g_execution_generation r"
proof -
  have "policy_inv (sv_str v0) (gdb (sv_store v))"
    using pol.keeps_goal_run [OF run, of "sv_str v0"] fresh policy_inv_empty by simp
  then have "record_ok (sv_str v0) (gdb (sv_store v)) r" using r unfolding policy_inv_def by blast
  then show ?thesis by (simp add: record_ok_def GOAL_STATUSES_def BLOCKER_WINDOW_CAP_def)
qed

text \<open>An example run: a goal is created, a tool result is recorded, the model reports completion, the batch ends.\<close>

definition demo_reported :: goal_service where
  "demo_reported = snd (handle_goal_report demo_complete_report None
     (snd (note_tool_result (demo_evidence ''terminal:ok'' 1 False) (snd (create_goal demo_goal (demo_service demo_store))))))"

definition demo_completed :: goal_service where
  "demo_completed = snd (apply_pending_completion ''a'' demo_reported)"

lemma demo_completed_run: "goal_run (demo_service demo_store) demo_reported" "goal_run (demo_service demo_store) demo_completed"
proof -
  define v0 v1 v2 where "v0 = demo_service demo_store" and "v1 = snd (create_goal demo_goal v0)"
    and "v2 = snd (note_tool_result (demo_evidence ''terminal:ok'' 1 False) v1)"
  have "goal_step v0 v1" unfolding v1_def by (rule gstep_create)
  moreover have "goal_step v1 v2" unfolding v2_def by (rule gstep_tool_result)
  moreover have "goal_step v2 demo_reported"
    unfolding demo_reported_def v0_def [symmetric] v1_def [symmetric] v2_def [symmetric] by (rule gstep_report)
  moreover have "goal_step demo_reported demo_completed" unfolding demo_completed_def by (rule gstep_apply)
  ultimately show "goal_run (demo_service demo_store) demo_reported" "goal_run (demo_service demo_store) demo_completed"
    unfolding v0_def [symmetric] by simp_all
qed

lemma demo_service_empty: "gdb (sv_store (demo_service demo_store)) = empty_db"
  by (simp add: demo_service_def demo_store_def)

theorem completed_goals_have_recorded_evidence_witness:
  "map_option g_status (sv_goal demo_completed ''a'') = Some ''complete'' \<and>
   (\<exists>e \<in> set (goal_evidence_rows (gdb (sv_store demo_completed))). v_goal_id e = ''a'')"
proof -
  have st: "map_option g_status (sv_goal demo_completed ''a'') = Some ''complete''" by code_simp
  then obtain r where r: "sv_goal demo_completed ''a'' = Some r" "g_status r = ''complete''" by auto
  show ?thesis
    using st completed_goals_have_recorded_evidence [OF demo_completed_run(2) demo_service_empty r(1)] r(2) by blast
qed

theorem goal_records_within_bounds_witness:
  "\<exists>r. sv_goal demo_reported ''a'' = Some r \<and> g_turn_count r \<le> max 0 (g_auto_turn_limit r)"
proof -
  have "map_option g_turn_count (sv_goal demo_reported ''a'') = Some 0" by code_simp
  then obtain r where r: "sv_goal demo_reported ''a'' = Some r" by auto
  show ?thesis using goal_records_within_bounds [OF demo_completed_run(1) demo_service_empty r] r by blast
qed

section \<open>The driver keeps to the service\<close>

text \<open>What the driver relies on of a turn: it reaches the goals only through the service.\<close>

definition turn_uses_service :: "'w driver_env \<Rightarrow> bool" where
  "turn_uses_service E \<longleftrightarrow> (\<forall>gid a d. goal_run (d_service d) (d_service (snd (de_turn E gid a d))))"

lemma on_service_eq: "on_service m d = (y, d') \<longleftrightarrow> (\<exists>v'. m (d_service d) = (y, v') \<and> d' = d\<lparr>d_service := v'\<rparr>)"
  by (auto simp: on_service_def op_on_def put_service_def split: prod.splits)

lemma on_service_state: "d_service (snd (on_service m d)) = snd (m (d_service d))"
  by (simp add: on_service_def op_on_def put_service_def split: prod.splits)

abbreviation reached :: "goal_service \<Rightarrow> 'w goal_driver \<Rightarrow> bool" where
  "reached v0 d \<equiv> goal_run v0 (d_service d)"

lemma reach_step: "(\<And>v. goal_step v (snd (m v))) \<Longrightarrow> op_keeps (reached v0) (on_service m)"
  by (rule op_keepsI) (simp add: on_service_state rtranclp.rtrancl_into_rtrancl)

lemma reach_read: "(\<And>v. snd (m v) = v) \<Longrightarrow> op_keeps (reached v0) (on_service m)"
  by (rule op_keepsI) (simp add: on_service_state)

lemma reach_modify: "(\<And>d. d_service (f d) = d_service d) \<Longrightarrow> op_keeps (reached v0) (op_modify f)"
  by (rule op_keeps_modify) simp

lemma reach_or_store_error: "op_keeps (reached v0) m \<Longrightarrow> op_keeps (reached v0) (or_store_error m x)"
  unfolding or_store_error_def by (intro hoare_intros)

lemma get_reads: "snd (sv_get gid v) = v"
  by (simp add: sv_get_def on_store_def op_on_def put_store_def gs_get_eq)

lemma select_reads: "snd (on_store (gs_select q) v) = v"
  by (simp add: on_store_def op_on_def put_store_def op_simps)

lemma flight_reads: "snd (goal_turn_in_flight gid v) = v"
  using select_reads [of "unfinished_of gid" v]
  by (cases "on_store (gs_select (unfinished_of gid)) v"; cases "fst (on_store (gs_select (unfinished_of gid)) v)")
    (auto simp: goal_turn_in_flight_def gs_unfinished_attempts_def op_bind_def op_simps)

lemma first_in_flight_reads: "snd (first_in_flight l v) = v"
proof (induction l arbitrary: v)
  case (Cons p l)
  obtain gid a where p: "p = (gid, a)" by fastforce
  show ?case using Cons.IH get_reads [of gid v]
    by (cases "sv_get gid v"; cases "fst (sv_get gid v)") (auto simp: p op_catch_def op_bind_def op_simps)
qed (simp add: op_simps)

lemma current_reads: "snd (current_goal_attempt v) = v"
  by (simp add: current_goal_attempt_def op_bind_def op_simps first_in_flight_reads)

lemmas reach_get = reach_read [OF get_reads]

lemma reach_record_result: "op_keeps (reached v0) (record_result r a t)"
  unfolding record_result_def
  by (intro hoare_intros reach_or_store_error reach_step gstep_tool_result) simp

lemma reach_tool_batch: "op_keeps (reached v0) (on_tool_batch results)"
  unfolding on_tool_batch_def
  by (intro hoare_intros reach_read current_reads) (auto intro!: hoare_intros reach_record_result split: option.split)

lemma reach_error_pause: "op_keeps (reached v0) (safe_error_pause gid x)"
  unfolding safe_error_pause_def Let_def
  by (intro hoare_intros reach_or_store_error reach_get reach_step gstep_error_pause)

lemma reach_mark_yielded: "op_keeps (reached v0) (mark_yielded gid)"
  unfolding mark_yielded_def by (rule reach_modify) simp

lemma reach_after_turn: "op_keeps (reached v0) (after_turn E gid a pre st err)"
  unfolding after_turn_def Let_def
  by (intro hoare_intros reach_or_store_error reach_get reach_step gstep_finish gstep_apply gstep_continue)

lemma reach_turn: "turn_uses_service E \<Longrightarrow> op_keeps (reached v0) (de_turn E gid a)"
  by (rule op_keepsI) (metis turn_uses_service_def rtranclp_trans)

lemma reach_run_dispatched: "turn_uses_service E \<Longrightarrow> op_keeps (reached v0) (run_dispatched E gid a)"
  unfolding run_dispatched_def
  by (intro hoare_intros reach_modify reach_step gstep_dispatched reach_turn)
    (auto intro!: hoare_intros reach_step gstep_cancel reach_mark_yielded reach_after_turn split: prod.split)

lemma reach_drive_once: "turn_uses_service E \<Longrightarrow> op_keeps (reached v0) (drive_once E first gid)"
  unfolding drive_once_def unavailable_def Let_def yield_if_active_def
  by (intro hoare_intros reach_or_store_error reach_get reach_step gstep_continue reach_mark_yielded reach_run_dispatched)

lemma reach_drive: "turn_uses_service E \<Longrightarrow> op_keeps (reached v0) (drive n E first gid)"
  by (induction n arbitrary: first) (auto intro!: hoare_intros reach_drive_once)

lemma reach_schedule: "op_keeps (reached v0) (schedule E gid)"
  unfolding schedule_def by (rule reach_modify) simp

lemma reach_wake: "op_keeps (reached v0) (wake_yielded E)"
  unfolding wake_yielded_def wake_one_def
  by (intro hoare_intros reach_or_store_error reach_get reach_modify reach_schedule) simp_all

lemma reach_start: "turn_uses_service E \<Longrightarrow> op_keeps (reached v0) (start n E gid)"
  unfolding start_def
  by (intro hoare_intros reach_modify reach_drive reach_error_pause reach_step gstep_undispatched reach_wake) simp_all

lemma reach_current: "op_keeps (reached v0) (on_service current_goal_attempt)"
  by (rule reach_read [OF current_reads])

lemma reach_stalled: "op_keeps (reached v0) (check_stalled E)"
  unfolding check_stalled_def dispatcher_alive_def pause_unsettled_def gs_get_active_def gs_unfinished_attempts_def gs_events_def
  by (intro hoare_intros reach_or_store_error reach_read select_reads flight_reads reach_step gstep_recover reach_schedule)
    (auto intro!: hoare_intros split: prod.split)


section \<open>The loop ends\<close>

definition turn_budget :: "string \<Rightarrow> int \<Rightarrow> int \<Rightarrow> goal_db \<Rightarrow> bool" where
  "turn_budget gid k l db \<longleftrightarrow>
     (\<exists>r. od_get (goals db) gid = Some r \<and> g_goal_id r = gid \<and> g_turn_count r = k \<and> g_auto_turn_limit r = l)"

text \<open>What the loop relies on of a turn: it does not change the turns counted for the goal, nor their limit.\<close>

definition turn_keeps_counts :: "'w driver_env \<Rightarrow> string \<Rightarrow> bool" where
  "turn_keeps_counts E gid \<longleftrightarrow>
     (\<forall>a d k l. turn_budget gid k l (gdb (sv_store (d_service d))) \<longrightarrow>
        turn_budget gid k l (gdb (sv_store (d_service (snd (de_turn E gid a d))))))"

fun quiet_update :: "goal_update \<Rightarrow> bool" where
  "quiet_update (U_turn_count _) = False"
| "quiet_update (U_auto_turn_limit _) = False"
| "quiet_update _ = True"

lemma quiet_counts:
  "list_all quiet_update us \<Longrightarrow> g_turn_count (fold set_field us r) = g_turn_count r \<and> g_auto_turn_limit (fold set_field us r) = g_auto_turn_limit r"
  using set_fields_from(2,3) [of us r] by (auto simp: list_all_iff)

locale quiet_property = table_property J for J +
  assumes quiet: "J db \<Longrightarrow> od_get (goals db) hid = Some r \<Longrightarrow> list_all quiet_update us \<Longrightarrow>
    db_write_goal hid (updated_record us now r) db = Some db' \<Longrightarrow> J db'"
begin

abbreviation okq :: "goal_service \<Rightarrow> bool" where
  "okq v \<equiv> J (gdb (sv_store v))"

lemma quiet_lift: "op_keeps (\<lambda>s. J (gdb s)) m \<Longrightarrow> op_keeps okq (on_store m)"
  unfolding on_store_def by (rule op_keeps_on) (simp_all add: put_store_def)

lemma quiet_transition: "list_all quiet_update us \<Longrightarrow> op_keeps okq (sv_transition hid ver kind a us)"
proof -
  assume q: "list_all quiet_update us"
  have "op_hoare (\<lambda>s. J (gdb s) \<and> True) (gs_transition hid ver kind a us) (\<lambda>_ s. J (gdb s)) (\<lambda>_ s. J (gdb s))"
    by (rule keeps_transition_if [where P = "\<lambda>_. True"]) (rule quiet [OF _ _ q])
  then show ?thesis
    unfolding sv_transition_def sv_notify_def by (intro hoare_intros quiet_lift) simp_all
qed

lemma quiet_t: "list_all quiet_update us \<Longrightarrow> op_keeps okq (sv_t hid ver kind actor reason us)"
  unfolding sv_t_def by (intro hoare_intros quiet_transition)

lemma quiet_get: "op_keeps okq (sv_get hid)"
  unfolding sv_get_def by (rule quiet_lift [OF keeps_get])

lemma quiet_update_fields: "list_all quiet_update us \<Longrightarrow> op_keeps okq (on_store (gs_update_fields hid ver us))"
proof -
  assume q: "list_all quiet_update us"
  have "op_hoare (\<lambda>s. J (gdb s) \<and> True) (gs_update_fields hid ver us) (\<lambda>_ s. J (gdb s)) (\<lambda>_ s. J (gdb s))"
    by (rule keeps_update_fields_if [where P = "\<lambda>_. True"]) (rule quiet [OF _ _ q])
  then show ?thesis by (intro quiet_lift) simp
qed

lemma quiet_drain: "op_keeps okq (drain_turn_start hid)"
proof -
  have "op_keeps okq sv_now" by (rule op_keepsI) (simp add: sv_now_def)
  then show ?thesis unfolding drain_turn_start_def by (intro hoare_intros) simp_all
qed

lemma quiet_finish_turn: "op_keeps okq (finish_turn hid att oc us)"
proof -
  have "list_all quiet_update (turn_updates r e d)" for r e d by (simp add: turn_updates_def)
  then show ?thesis
    unfolding finish_turn_def settle_turn_def Let_def
    by (intro hoare_intros quiet_get quiet_drain quiet_update_fields quiet_lift keeps_settle quiet_transition) simp_all
qed

lemma quiet_apply_pending: "op_keeps okq (apply_pending_completion hid)"
  unfolding apply_pending_completion_def by (intro hoare_intros quiet_get quiet_t) simp_all

lemma quiet_note_dispatched: "op_keeps okq (note_dispatched hid att)"
  unfolding note_dispatched_def by (intro hoare_intros) simp

lemma quiet_driver: "op_keeps okq m \<Longrightarrow> op_keeps (\<lambda>d. okq (d_service d)) (on_service m)"
  unfolding on_service_def by (rule op_keeps_on) (simp_all add: put_service_def)

lemma quiet_caught: "op_keeps (\<lambda>d. okq (d_service d)) m \<Longrightarrow> op_keeps (\<lambda>d. okq (d_service d)) (or_store_error m x)"
  unfolding or_store_error_def by (intro hoare_intros)

end

interpretation counts: quiet_property "turn_budget gid k l" for gid k l
proof
  fix db db' hid now a refs
  assume "turn_budget gid k l db" "db_insert_goal ((fresh_goal hid now a)\<lparr>g_attachment_refs := refs\<rparr>) db = Some db'"
  then show "turn_budget gid k l db'" by (auto simp: db_insert_goal_def turn_budget_def split: if_splits)
next
  fix db db' hid r us now
  assume b: "turn_budget gid k l db" and get: "od_get (goals db) hid = Some r" and q: "list_all quiet_update us"
    and w: "db_write_goal hid (updated_record us now r) db = Some db'"
  show "turn_budget gid k l db'"
    using b get w quiet_counts [OF q, of r] by (auto simp: db_write_goal_def turn_budget_def split: if_splits)
qed (auto simp: db_insert_event_def db_insert_attempt_def db_write_attempt_def db_insert_evidence_def
      db_insert_request_def db_write_request_def db_delete_request_def db_insert_submission_def turn_budget_def split: if_splits)

abbreviation counted :: "string \<Rightarrow> int \<Rightarrow> int \<Rightarrow> 'w goal_driver \<Rightarrow> bool" where
  "counted gid k l d \<equiv> turn_budget gid k l (gdb (sv_store (d_service d)))"

lemma counted_turn:
  assumes "turn_keeps_counts E gid"
  shows "op_keeps (counted gid k l) (de_turn E gid a)"
  by (rule op_keepsI) (use assms in \<open>auto simp: turn_keeps_counts_def\<close>)

lemma dispatch_counts:
  "op_hoare (counted gid k l) (on_service (maybe_continue gid oc ctx))
     (\<lambda>att d. att \<noteq> None \<longrightarrow> k < l \<and> counted gid (k + 1) l d) (\<lambda>_ _. True)"
proof (rule op_hoareI)
  fix d x d'
  assume c: "counted gid k l d" and run: "on_service (maybe_continue gid oc ctx) d = (Inr x, d')"
  obtain r where r: "sv_goal (d_service d) gid = Some r" "g_goal_id r = gid" "g_turn_count r = k" "g_auto_turn_limit r = l"
    using c by (auto simp: turn_budget_def)
  show "x \<noteq> None \<longrightarrow> k < l \<and> counted gid (k + 1) l d'"
  proof (cases x)
    case (Some a)
    have m: "maybe_continue gid oc ctx (d_service d) = (Inr (Some a), d_service d')"
      using run Some by (auto simp: on_service_eq)
    have "bound_reason r = None" using maybe_continue_Some(1) [OF m r(1)] by (simp add: may_continue_def)
    moreover have "dispatched_as r a (d_service d')"
      using dispatch_turn_Inr [OF maybe_continue_Some(2) [OF m r(1)] r(1,2)] by simp
    ultimately show ?thesis
      using r pol.bound_below [of r] by (auto simp: dispatched_as_def turn_budget_def updated_record_def)
  qed simp
qed simp

lemma after_turn_again:
  "op_hoare (counted gid k l) (after_turn E gid a pre st err) (\<lambda>again d. again \<longrightarrow> counted gid k l d) (\<lambda>_ _. True)"
proof -
  have get: "op_hoare (counted gid k l) (on_service (sv_get gid)) (\<lambda>_. counted gid k l) (\<lambda>_ _. True)"
    by (rule op_hoare_weaken [OF counts.quiet_driver [OF counts.quiet_get]]) simp_all
  have fin: "op_hoare (counted gid k l) (or_store_error (on_service (finish_turn gid a oc us)) ()) (\<lambda>_. counted gid k l) (\<lambda>_ _. True)" for oc us
    by (rule op_hoare_weaken [OF counts.quiet_caught [OF counts.quiet_driver [OF counts.quiet_finish_turn]]]) simp_all
  have app: "op_hoare (counted gid k l) (or_store_error (on_service (apply_pending_completion gid)) None) (\<lambda>_. counted gid k l) (\<lambda>_ _. True)"
    by (rule op_hoare_weaken [OF counts.quiet_caught [OF counts.quiet_driver [OF counts.quiet_apply_pending]]]) simp_all
  have any: "op_hoare P m (\<lambda>_ _. True) (\<lambda>_ _. True)" for P and m :: "('a, unit) driver_op"
    by (rule op_hoareI) simp_all
  show ?thesis
    unfolding after_turn_def Let_def
    by (rule op_hoare_then [OF get], rule op_hoare_bind_read, rule op_hoare_then [OF fin], rule op_hoare_bind [OF app],
        rule op_hoare_if, rule op_hoare_return, simp, rule op_hoare_if, rule op_hoare_bind_read,
        rule op_hoare_then [OF any], rule op_hoare_return, simp, rule op_hoare_bind [OF get], rule op_hoare_return, simp)
qed

lemma run_dispatched_again:
  assumes "turn_keeps_counts E gid"
  shows "op_hoare (counted gid k l) (run_dispatched E gid a) (\<lambda>again d. again \<longrightarrow> counted gid k l d) (\<lambda>_ _. True)"
proof -
  have mod: "op_hoare (counted gid k l) (op_modify (\<lambda>d. d\<lparr>d_yielded := f d\<rparr>)) (\<lambda>_. counted gid k l) (\<lambda>_ _. True)" for f
    by (rule op_hoare_modify) simp
  have nd: "op_hoare (counted gid k l) (on_service (note_dispatched gid a)) (\<lambda>_. counted gid k l) (\<lambda>_ _. True)"
    by (rule op_hoare_weaken [OF counts.quiet_driver [OF counts.quiet_note_dispatched]]) simp_all
  have turn: "op_hoare (counted gid k l) (op_catch (de_turn E gid a) (\<lambda>e. op_return (f e))) (\<lambda>_. counted gid k l) (\<lambda>_ _. True)" for f
    by (rule op_hoare_catch [OF counted_turn [OF assms]]) (rule op_hoare_return)
  have any: "op_hoare P m (\<lambda>_ _. True) (\<lambda>_ _. True)" for P and m :: "('a, 'b) driver_op"
    by (rule op_hoareI) simp_all
  show ?thesis
    unfolding run_dispatched_def
  proof (rule op_hoare_then [OF mod], rule op_hoare_bind_read, rule op_hoare_then [OF nd], rule op_hoare_bind [OF turn])
    fix pre and p :: "string \<times> string option"
    obtain st err where p: "p = (st, err)" by fastforce
    show "op_hoare (counted gid k l) (case p of (status, error) \<Rightarrow>
        if status = ''yielded'' then op_then (on_service (on_store (gs_cancel_attempt (a_attempt_id a) (a_lease_epoch a))))
          (op_then (mark_yielded gid) (op_return False))
        else after_turn E gid a pre status error) (\<lambda>again d. again \<longrightarrow> counted gid k l d) (\<lambda>_ _. True)"
      unfolding p prod.case
      by (rule op_hoare_if, rule op_hoare_then [OF any], rule op_hoare_then [OF any], rule op_hoare_return, simp, rule after_turn_again)
  qed
qed

lemma drive_once_again:
  assumes "turn_keeps_counts E gid"
  shows "op_hoare (counted gid k l) (drive_once E first gid) (\<lambda>again d. again \<longrightarrow> k < l \<and> counted gid (k + 1) l d) (\<lambda>_ _. True)"
proof -
  have found: "op_hoare (counted gid k l) (or_store_error (op_bind (on_service (sv_get gid)) (\<lambda>r. op_return (Some r))) None)
      (\<lambda>_. counted gid k l) (\<lambda>_ _. True)"
    by (rule op_hoare_weaken [OF counts.quiet_caught [OF op_keeps_bind [OF counts.quiet_driver [OF counts.quiet_get]]]])
      (rule op_hoare_return, simp_all)
  have any: "op_hoare P m (\<lambda>_ _. True) (\<lambda>_ _. True)" for P and m :: "('a, 'b) driver_op"
    by (rule op_hoareI) simp_all
  have go: "op_hoare (\<lambda>d. att \<noteq> None \<longrightarrow> k < l \<and> counted gid (k + 1) l d) (run_dispatched E gid a)
      (\<lambda>again d. again \<longrightarrow> k < l \<and> counted gid (k + 1) l d) (\<lambda>_ _. True)" if "att = Some a" for att a
    using op_hoare_Inr [OF run_dispatched_again [OF assms, of "k + 1" l a]] that by (intro op_hoareI) auto
  show ?thesis
    unfolding drive_once_def unavailable_def Let_def
    by (rule op_hoare_bind [OF found], rule op_hoare_option, rule op_hoare_return, simp, rule op_hoare_if, rule op_hoare_return, simp,
        rule op_hoare_bind_read, rule op_hoare_bind_read, rule op_hoare_option, rule op_hoare_bind [OF dispatch_counts],
        rule op_hoare_option, rule op_hoare_then [OF any], rule op_hoare_return, simp, erule go,
        rule op_hoare_then [OF any], rule op_hoare_return, simp)
qed

lemma drive_ends:
  assumes keeps: "turn_keeps_counts E gid"
  shows "counted gid k l d \<Longrightarrow> nat (l - k) < n \<Longrightarrow> fst (drive n E first gid d) \<noteq> Inr False"
proof (induction n arbitrary: k d first)
  case (Suc n)
  show ?case
  proof (cases "drive_once E first gid d")
    case (Pair y d1)
    show ?thesis
    proof (cases y)
      case (Inr again)
      then have "again \<longrightarrow> k < l \<and> counted gid (k + 1) l d1"
        using op_hoare_Inr [OF drive_once_again [OF keeps] Suc.prems(1)] Pair by simp
      moreover have "nat (l - (k + 1)) < n" if "k < l" using Suc.prems(2) that by linarith
      ultimately show ?thesis using Suc.IH [of "k + 1" d1 False] Pair Inr by (auto simp: op_bind_def op_simps)
    qed (simp add: Pair op_bind_def)
  qed
qed simp

text \<open>C7: The loop ends. It runs at most as many turns as the goal's limit leaves: with more fuel than the
  turns that remain, \<open>_drive\<close> always comes to a return or an exception, whatever the model does in
  its turns and however they end, as long as a turn does not itself change the goal's turn count or
  turn limit.
\<close>

theorem goal_loop_terminates:
  assumes "turn_keeps_counts E gid" and "sv_goal (d_service d) gid = Some r" and "g_goal_id r = gid"
    and "nat (g_auto_turn_limit r - g_turn_count r) < n"
  shows "fst (drive n E first gid d) \<noteq> Inr False"
  using drive_ends [OF assms(1) _ assms(4)] assms(2,3) by (auto simp: turn_budget_def)

text \<open>A driver for the examples: an idle queue, a native provider, and turns that end at once.\<close>

definition demo_env :: "unit driver_env" where
  "demo_env = \<lparr>de_provider = (\<lambda>_. Some (PStr ''openai'')),
     de_queue = (\<lambda>_. Some \<lparr>qv_empty = True, qv_processing = False, qv_locked = False, qv_cancelled = False\<rparr>),
     de_tokens = (\<lambda>_. (0, 0)), de_wall = (\<lambda>_. 0), de_pipe_mode = (\<lambda>_. False), de_conversation = (\<lambda>_. Some ''conv''),
     de_getpid = 1, de_pid_alive = (\<lambda>_ _. True), de_exn_text = (\<lambda>_. ''?''), de_turn = (\<lambda>_ _. op_return (''ok'', None))\<rparr>"

definition demo_driver :: "goal_service \<Rightarrow> unit goal_driver" where
  "demo_driver v = \<lparr>d_service = v, d_running = [], d_yielded = [], d_settled = [], d_tool_seq = 0, d_scheduled = [], d_world = ()\<rparr>"


theorem goal_loop_terminates_witness:
  "fst (drive 41 demo_env True ''a'' (demo_driver (demo_service demo_created))) \<noteq> Inr False"
proof -
  have "turn_keeps_counts demo_env ''a''" by (simp add: turn_keeps_counts_def demo_env_def op_simps)
  moreover have "sv_goal (d_service (demo_driver (demo_service demo_created))) ''a'' = Some (fresh_goal ''a'' 0 demo_goal)"
    by (simp add: demo_driver_def demo_service_def demo_created_goal)
  moreover have "g_goal_id (fresh_goal ''a'' 0 demo_goal) = ''a''" "nat (g_auto_turn_limit (fresh_goal ''a'' 0 demo_goal) - g_turn_count (fresh_goal ''a'' 0 demo_goal)) < 41"
    by (simp_all add: fresh_goal_def demo_goal_def)
  ultimately show ?thesis using goal_loop_terminates by blast
qed

text \<open>The parser of the evidence body yields no empty reference.\<close>

lemma flush_refs: "\<forall>(r, c) \<in> set (p_evidence p). r \<noteq> [] \<Longrightarrow> \<forall>(r, c) \<in> set (p_evidence (flush_evidence p)). r \<noteq> []"
  by (auto simp: flush_evidence_def Let_def)

lemma step_refs: "\<forall>(r, c) \<in> set (p_evidence p). r \<noteq> [] \<Longrightarrow> \<forall>(r, c) \<in> set (p_evidence (evidence_step l p)). r \<noteq> []"
  using flush_refs [of p] by (auto simp: evidence_step_def Let_def split: option.split)

lemma split_evidence_refs: "(r, c) \<in> set (split_evidence body) \<Longrightarrow> r \<noteq> []"
proof -
  have steps: "\<forall>(r, c) \<in> set (p_evidence p). r \<noteq> [] \<Longrightarrow> \<forall>(r, c) \<in> set (p_evidence (fold evidence_step ls p)). r \<noteq> []" for ls p
  proof (induction ls arbitrary: p)
    case (Cons l ls)
    show ?case unfolding fold_simps by (rule Cons.IH [OF step_refs [OF Cons.prems]])
  qed simp
  have "\<forall>(r, c) \<in> set (split_evidence body). r \<noteq> []"
    unfolding split_evidence_def by (rule flush_refs, rule steps) simp
  then show "(r, c) \<in> set (split_evidence body) \<Longrightarrow> r \<noteq> []" by auto
qed

end
