(* ===== verification/History_Paging.thy ===== *)
theory History_Paging
  imports Py_Bytes Dict_Utils
begin

text \<open>
  Pages of a session's history (\<open>kollabor_engine/history_paging.py\<close>): cursors that are signed and
  bound to the messages before them, previews of messages that are too large for a page, and the
  page itself, which is limited in messages and in bytes of JSON.

  Python's \<open>json.dumps\<close> after FastAPI's \<open>jsonable_encoder\<close>, \<open>json.loads\<close>, SHA-256, HMAC and \<open>str\<close> of
  a value are parameters (\<open>history_env\<close>). What the theorems need of them is that a cursor's own
  dictionary is read back from its JSON (\<open>cursor_json\<close>), and the length of an HMAC.

  The theorems: a page keeps both limits and is a contiguous piece of the history; following the
  older cursors from page to page covers every message once; a cursor stays good while messages
  are appended and is stale once a message before it changes; the full content and metadata
  of a message that is shown as a preview can be fetched with its reference.
\<close>

section \<open>Constants and errors\<close>

definition HISTORY_DEFAULT_PAGE_SIZE :: int where "HISTORY_DEFAULT_PAGE_SIZE = 50"
definition HISTORY_MAX_PAGE_SIZE :: int where "HISTORY_MAX_PAGE_SIZE = 100"
definition HISTORY_MAX_PAGE_BYTES :: int where "HISTORY_MAX_PAGE_BYTES = 150000"
definition HISTORY_TOOL_OUTPUT_PREVIEW_BYTES :: nat where "HISTORY_TOOL_OUTPUT_PREVIEW_BYTES = 4096"

definition HISTORY_HEAVY_METADATA_KEYS :: "string list" where
  "HISTORY_HEAVY_METADATA_KEYS = [''acp_updates'', ''tool_calls'', ''xml_tool_calls'', ''provider_reasoning'']"

datatype history_exn =
    InvalidHistoryCursor string
  | StaleHistoryCursor string
  | HistoryPageTooLarge string
  | HistoryError py_exn

type_synonym 'a history_result = "history_exn + 'a"

definition lift_py :: "'a py_result \<Rightarrow> 'a history_result" where
  "lift_py r = (case r of Inl e \<Rightarrow> Inl (HistoryError e) | Inr x \<Rightarrow> Inr x)"

record history_env =
  he_canonical :: "pyval \<Rightarrow> byte list py_result"
  he_loads :: "byte list \<Rightarrow> pyval py_result"
  he_sha256 :: "byte list \<Rightarrow> byte list"
  he_hmac :: "byte list \<Rightarrow> byte list \<Rightarrow> byte list"
  he_secret :: "byte list"
  he_str :: "pyval \<Rightarrow> string"

section \<open>The cursor key\<close>

text \<open>
  The key file as opening it finds it. The file may appear between the first look and the attempt
  to create it, so the second look has a state of its own.
\<close>

datatype key_file = KeyMissing | KeyLink | KeySpecial | KeyRegular "byte list"

definition read_key :: "key_file \<Rightarrow> byte list py_result" where
  "read_key f =
     (case f of
        KeyMissing \<Rightarrow> Inl (OSError ''No such file or directory'')
      | KeyLink \<Rightarrow> Inl (OSError ''Too many levels of symbolic links'')
      | KeySpecial \<Rightarrow> Inl (RuntimeError ''History cursor key must be a regular file.'')
      | KeyRegular bs \<Rightarrow>
          if length (take 33 bs) \<noteq> 32 then Inl (RuntimeError ''History cursor key must contain exactly 32 bytes.'')
          else Inr (take 33 bs))"

definition load_history_cursor_secret :: "key_file \<Rightarrow> key_file \<Rightarrow> byte list \<Rightarrow> byte list py_result \<times> key_file" where
  "load_history_cursor_secret now later fresh =
     (if now \<noteq> KeyMissing then (read_key now, now)
      else if later \<noteq> KeyMissing then (read_key later, later)
      else (Inr fresh, KeyRegular fresh))"

text \<open>The global \<open>_CURSOR_SECRET\<close>, filled on first use.\<close>

definition get_cursor_secret :: "byte list option \<Rightarrow> byte list py_result \<Rightarrow> byte list py_result \<times> byte list option" where
  "get_cursor_secret cached loaded =
     (case cached of
        Some s \<Rightarrow> (Inr s, cached)
      | None \<Rightarrow> (case loaded of Inl e \<Rightarrow> (Inl e, None) | Inr s \<Rightarrow> (Inr s, Some s)))"

section \<open>Cursors\<close>

definition canonical_bytes :: "history_env \<Rightarrow> pyval \<Rightarrow> byte list history_result" where
  "canonical_bytes E v = lift_py (he_canonical E v)"

definition digest :: "history_env \<Rightarrow> pyval \<Rightarrow> string history_result" where
  "digest E v = py_bind (canonical_bytes E v) (\<lambda>bs. Inr (hex_text (he_sha256 E bs)))"

definition unb64 :: "string \<Rightarrow> byte list py_result" where
  "unb64 s = b64_decode (s @ padding (length s))"

definition cursor_payload :: "string \<Rightarrow> string \<Rightarrow> nat \<Rightarrow> string \<Rightarrow> pydict" where
  "cursor_payload session_id kind position dg =
     [(''v'', PInt 1), (''session'', PStr session_id), (''kind'', PStr kind), (''position'', PInt (int position)),
      (''digest'', PStr dg)]"

definition encode_cursor :: "history_env \<Rightarrow> string \<Rightarrow> string \<Rightarrow> nat \<Rightarrow> string \<Rightarrow> string history_result" where
  "encode_cursor E session_id kind position dg =
     py_bind (canonical_bytes E (PDict (cursor_payload session_id kind position dg))) (\<lambda>payload.
     Inr (b64_encode payload @ ''.'' @ b64_encode (he_hmac E (he_secret E) payload)))"

text \<open>\<open>data.get("v") != 1\<close> and \<open>isinstance(position, int)\<close>: a boolean is an integer, and 1.0 equals 1.\<close>

definition is_one :: "pyval option \<Rightarrow> bool" where
  "is_one x \<longleftrightarrow> x \<in> {Some (PInt 1), Some (PBool True), Some (PFloat 1)}"

definition as_position :: "pyval option \<Rightarrow> int option" where
  "as_position x =
     (case x of Some (PInt i) \<Rightarrow> Some i | Some (PBool b) \<Rightarrow> Some (if b then 1 else 0) | _ \<Rightarrow> None)"

definition STALE_HISTORY :: string where
  "STALE_HISTORY = ''History changed. Refresh recent messages and retry.''"

definition current_digest :: "history_env \<Rightarrow> string \<Rightarrow> pydict list \<Rightarrow> nat \<Rightarrow> string history_result" where
  "current_digest E kind history n =
     (if kind = ''page'' then digest E (PList (map PDict (take n history)))
      else if n \<ge> length history
      then Inl (StaleHistoryCursor ''Tool output changed. Refresh recent messages and retry.'')
      else digest E (PDict (history ! n)))"

definition check_cursor :: "history_env \<Rightarrow> pydict \<Rightarrow> string \<Rightarrow> string \<Rightarrow> pydict list \<Rightarrow> (nat \<times> string) history_result" where
  "check_cursor E data session_id kind history =
     (if \<not> is_one (od_get data ''v'') \<or> od_get data ''session'' \<noteq> Some (PStr session_id) \<or> od_get data ''kind'' \<noteq> Some (PStr kind)
      then Inl (InvalidHistoryCursor ''History cursor does not match this request.'')
      else case as_position (od_get data ''position'') of
          None \<Rightarrow> Inl (StaleHistoryCursor STALE_HISTORY)
        | Some position \<Rightarrow>
            if position < 0 \<or> position > int (length history) then Inl (StaleHistoryCursor STALE_HISTORY)
            else py_bind (current_digest E kind history (nat position)) (\<lambda>current.
              let given = (case od_get_default data ''digest'' (PStr []) of PStr s \<Rightarrow> s | v \<Rightarrow> he_str E v) in
              if \<not> list_all is_ascii given
              then Inl (HistoryError (TypeError ''comparing strings with non-ASCII characters is not supported''))
              else if given \<noteq> current then Inl (StaleHistoryCursor STALE_HISTORY)
              else Inr (nat position, current)))"

definition read_cursor :: "history_env \<Rightarrow> string \<Rightarrow> (byte list \<times> byte list \<times> pyval) py_result" where
  "read_cursor E cursor =
     py_bind (unb64 (takeWhile (\<lambda>c. c \<noteq> CHR ''.'') cursor)) (\<lambda>payload.
     py_bind (unb64 (tl (dropWhile (\<lambda>c. c \<noteq> CHR ''.'') cursor))) (\<lambda>signature.
     py_bind (he_loads E payload) (\<lambda>data. Inr (payload, signature, data))))"

definition decode_cursor :: "history_env \<Rightarrow> string \<Rightarrow> string \<Rightarrow> string \<Rightarrow> pydict list \<Rightarrow> (nat \<times> string) history_result" where
  "decode_cursor E cursor session_id kind history =
     (let invalid = Inl (InvalidHistoryCursor ''Invalid history cursor.'') in
      if length cursor > 8192 \<or> CHR ''.'' \<notin> set cursor then invalid
      else case read_cursor E cursor of
          Inl (ValueError _) \<Rightarrow> invalid
        | Inl (TypeError _) \<Rightarrow> invalid
        | Inl e \<Rightarrow> Inl (HistoryError e)
        | Inr (payload, signature, data) \<Rightarrow>
            if signature \<noteq> he_hmac E (he_secret E) payload then invalid
            else (case data of
                PDict d \<Rightarrow> check_cursor E d session_id kind history
              | _ \<Rightarrow> Inl (HistoryError (AttributeError ''get''))))"

definition page_cursor :: "history_env \<Rightarrow> string \<Rightarrow> pydict list \<Rightarrow> nat \<Rightarrow> string history_result" where
  "page_cursor E session_id history position =
     py_bind (digest E (PList (map PDict (take position history)))) (encode_cursor E session_id ''page'' position)"

section \<open>Messages of a page\<close>

definition drop_diffs :: "pydict \<Rightarrow> pydict" where
  "drop_diffs d = od_del ''diffs'' d"

definition strip_inner :: "pydict \<Rightarrow> pydict" where
  "strip_inner d = (case od_get d ''metadata'' of
      Some (PDict m) \<Rightarrow> od_put ''metadata'' (PDict (drop_diffs m)) d
    | _ \<Rightarrow> d)"

definition strip_entry :: "pyval \<Rightarrow> pyval" where
  "strip_entry e = (case e of PDict d \<Rightarrow> PDict (strip_inner d) | _ \<Rightarrow> e)"

definition metadata_without_diffs :: "pydict \<Rightarrow> pydict" where
  "metadata_without_diffs metadata =
     (let stripped = drop_diffs metadata;
          stripped = (case od_get stripped ''tool_result'' of
              Some (PDict t) \<Rightarrow> od_put ''tool_result'' (PDict (strip_inner t)) stripped
            | _ \<Rightarrow> stripped) in
      case od_get stripped ''xml_tool_results'' of
        Some (PList batch) \<Rightarrow> od_put ''xml_tool_results'' (PList (map strip_entry batch)) stripped
      | _ \<Rightarrow> stripped)"

definition slim_key :: "string \<Rightarrow> pydict \<Rightarrow> pydict" where
  "slim_key key d =
     (case od_get d key of
        Some (PList (x # xs)) \<Rightarrow> od_put (key @ ''_dropped'') (PInt (int (length (x # xs)))) (od_del key d)
      | _ \<Rightarrow> od_del key d)"

definition slim_page_metadata :: "pydict \<Rightarrow> pydict" where
  "slim_page_metadata metadata = fold slim_key HISTORY_HEAVY_METADATA_KEYS metadata"

definition is_tool_result_message :: "pydict \<Rightarrow> bool" where
  "is_tool_result_message m \<longleftrightarrow> od_get m ''role'' = Some (PStr ''tool'') \<or>
     (case od_get m ''metadata'' of Some (PDict d) \<Rightarrow> od_get d ''tool_output_batch'' = Some (PBool True) | _ \<Rightarrow> False)"

definition content_bytes :: "history_env \<Rightarrow> pydict \<Rightarrow> byte list history_result" where
  "content_bytes E m =
     (case od_get_default m ''content'' (PStr []) of PStr s \<Rightarrow> Inr (utf8_encode s) | v \<Rightarrow> canonical_bytes E v)"

definition copy_for_page :: "pydict \<Rightarrow> pydict" where
  "copy_for_page m = (case od_get m ''metadata'' of
      Some (PDict d) \<Rightarrow> od_put ''metadata'' (PDict (metadata_without_diffs d)) m
    | _ \<Rightarrow> m)"

definition preview_note :: "pydict \<Rightarrow> string" where
  "preview_note m = [newline, newline] @ ''[Showing the first '' @ show_nat (HISTORY_TOOL_OUTPUT_PREVIEW_BYTES div 1024) @
     '' KB of this '' @ (if is_tool_result_message m then ''tool output'' else ''message'') @ ''.]''"

definition truncated_message :: "history_env \<Rightarrow> string \<Rightarrow> pydict list \<Rightarrow> nat \<Rightarrow> pydict history_result" where
  "truncated_message E session_id history index =
     (let m = history ! index in
      py_bind (content_bytes E m) (\<lambda>content.
      let preview = utf8_decode_ignore (take HISTORY_TOOL_OUTPUT_PREVIEW_BYTES content);
          message = od_put ''content'' (PStr (preview @ preview_note m)) (copy_for_page m);
          metadata = (case od_get message ''metadata'' of Some (PDict d) \<Rightarrow> d | _ \<Rightarrow> []);
          metadata = od_put ''history_output_truncated'' (PBool True) metadata;
          metadata = od_put ''history_output_bytes'' (PInt (int (length content))) metadata in
      py_bind (py_bind (digest E (PDict m)) (encode_cursor E session_id ''output'' index)) (\<lambda>reference.
      Inr (od_put ''metadata'' (PDict (slim_page_metadata (od_put ''history_output_ref'' (PStr reference) metadata))) message))))"

definition page_candidate :: "history_env \<Rightarrow> string \<Rightarrow> pydict list \<Rightarrow> nat \<Rightarrow> bool \<Rightarrow> pydict history_result" where
  "page_candidate E session_id history index tool_preview =
     (let m = history ! index in
      if tool_preview \<and> is_tool_result_message m
      then py_bind (content_bytes E m) (\<lambda>content.
        if length content > HISTORY_TOOL_OUTPUT_PREVIEW_BYTES then truncated_message E session_id history index
        else Inr (copy_for_page m))
      else Inr (copy_for_page m))"

section \<open>The page\<close>

definition response ::
  "history_env \<Rightarrow> string \<Rightarrow> pydict list \<Rightarrow> pydict list \<Rightarrow> nat \<Rightarrow> nat \<Rightarrow> pydict \<Rightarrow> pydict history_result" where
  "response E session_id history messages start page_end base =
     py_bind (if start > 0 then py_bind (page_cursor E session_id history start) (\<lambda>c. Inr (PStr c)) else Inr PNone) (\<lambda>older.
     py_bind (page_cursor E session_id history page_end) (\<lambda>newer.
     Inr (od_update base
       [(''session_id'', PStr session_id), (''history'', PList (map PDict messages)),
        (''total_messages'', PInt (int (length history))), (''start_index'', PInt (int start)),
        (''end_index'', PInt (int page_end)), (''has_more_older'', PBool (start > 0)), (''older_cursor'', older),
        (''newer_cursor'', PStr newer), (''has_more_newer'', PBool (page_end < length history))])))"

text \<open>What the loops do not change: the request and the limits.\<close>

record page_request =
  pg_session :: string
  pg_history :: "pydict list"
  pg_preview :: bool
  pg_base :: pydict
  pg_bytes :: int
  pg_limit :: nat
  pg_end :: nat

definition page_body :: "history_env \<Rightarrow> page_request \<Rightarrow> pydict list \<Rightarrow> nat \<Rightarrow> pydict history_result" where
  "page_body E R messages start = response E (pg_session R) (pg_history R) messages start (pg_end R) (pg_base R)"

definition too_large :: "history_env \<Rightarrow> page_request \<Rightarrow> pydict \<Rightarrow> bool history_result" where
  "too_large E R body = py_bind (canonical_bytes E (PDict body)) (\<lambda>bs. Inr (int (length bs) > pg_bytes R))"

text \<open>
  One message more, the one before \<open>selected\<close>: the message to add, or \<open>None\<close> to end the page. The
  first message of a page is shown as a preview when it does not fit.
\<close>

definition next_message :: "history_env \<Rightarrow> page_request \<Rightarrow> pydict list \<Rightarrow> nat \<Rightarrow> pydict option history_result" where
  "next_message E R selected index =
     py_bind (page_candidate E (pg_session R) (pg_history R) index (pg_preview R)) (\<lambda>candidate.
     py_bind (page_body E R (candidate # selected) index) (\<lambda>body.
     py_bind (too_large E R body) (\<lambda>large.
     if \<not> large then Inr (Some candidate)
     else if selected \<noteq> [] then Inr None
     else py_bind (truncated_message E (pg_session R) (pg_history R) index) (\<lambda>candidate.
       py_bind (page_body E R [candidate] index) (\<lambda>body.
       py_bind (too_large E R body) (\<lambda>large.
       if large then Inl (HistoryPageTooLarge ''One history message exceeds the page byte cap.'')
       else Inr (Some candidate)))))))"

text \<open>\<open>for index in range(n - 1, lowest - 1, -1)\<close>; the selected messages are kept in their order.\<close>

fun page_loop :: "history_env \<Rightarrow> page_request \<Rightarrow> nat \<Rightarrow> nat \<Rightarrow> pydict list \<Rightarrow> nat \<Rightarrow> (pydict list \<times> nat) history_result" where
  "page_loop E R lowest 0 selected start = Inr (selected, start)"
| "page_loop E R lowest (Suc index) selected start =
     (if index < lowest \<or> length selected \<ge> pg_limit R then Inr (selected, start)
      else py_bind (next_message E R selected index) (\<lambda>m.
        case m of
          None \<Rightarrow> Inr (selected, start)
        | Some candidate \<Rightarrow> page_loop E R lowest index (candidate # selected) index))"

definition given :: "string option \<Rightarrow> bool" where
  "given c \<longleftrightarrow> c \<noteq> None \<and> c \<noteq> Some []"

definition page_limit_of :: "int option \<Rightarrow> int" where
  "page_limit_of limit =
     max 1 (min (case limit of None \<Rightarrow> HISTORY_DEFAULT_PAGE_SIZE | Some n \<Rightarrow> n) HISTORY_MAX_PAGE_SIZE)"

text \<open>The range of a request: the first index the loop may reach, and the end of the page.\<close>

definition page_range ::
  "history_env \<Rightarrow> string \<Rightarrow> pydict list \<Rightarrow> int \<Rightarrow> string option \<Rightarrow> string option \<Rightarrow> (nat \<times> nat) history_result" where
  "page_range E session_id history page_limit before after =
     (if given after
      then py_bind (decode_cursor E (the after) session_id ''page'' history) (\<lambda>(start, _).
        Inr (max start (nat (int (length history) - page_limit)), length history))
      else (case before of
          None \<Rightarrow> Inr (0, length history)
        | Some cursor \<Rightarrow> py_bind (decode_cursor E cursor session_id ''page'' history) (\<lambda>(page_end, _). Inr (0, page_end))))"

definition finish_page :: "history_env \<Rightarrow> page_request \<Rightarrow> pydict list \<Rightarrow> nat \<Rightarrow> pydict history_result" where
  "finish_page E R selected start =
     py_bind (page_body E R selected start) (\<lambda>result.
     py_bind (too_large E R result) (\<lambda>large.
     if large then Inl (HistoryPageTooLarge ''History page metadata exceeds the byte cap.'') else Inr result))"

definition build_history_page ::
  "history_env \<Rightarrow> string \<Rightarrow> pydict list \<Rightarrow> int option \<Rightarrow> string option \<Rightarrow> string option \<Rightarrow> pydict option \<Rightarrow> int \<Rightarrow> bool
    \<Rightarrow> pydict history_result" where
  "build_history_page E session_id history limit before after base_payload byte_limit preview =
     (if given before \<and> given after then Inl (InvalidHistoryCursor ''Use either before or after, not both.'')
      else if byte_limit \<le> 0 then Inl (HistoryError (ValueError ''History page byte limit must be positive.''))
      else py_bind (page_range E session_id history (page_limit_of limit) before after) (\<lambda>(lowest, page_end).
        let R = \<lparr>pg_session = session_id, pg_history = history, pg_preview = preview,
              pg_base = (case base_payload of None \<Rightarrow> [] | Some d \<Rightarrow> d),
              pg_bytes = min byte_limit HISTORY_MAX_PAGE_BYTES, pg_limit = nat (page_limit_of limit), pg_end = page_end\<rparr> in
        py_bind (page_loop E R lowest page_end [] page_end) (\<lambda>(selected, start).
        finish_page E R selected start)))"

definition resolve_history_output :: "history_env \<Rightarrow> string \<Rightarrow> pydict list \<Rightarrow> string \<Rightarrow> pyval history_result" where
  "resolve_history_output E session_id history reference =
     py_bind (decode_cursor E reference session_id ''output'' history) (\<lambda>(index, _).
     Inr (od_get_default (history ! index) ''content'' PNone))"

definition resolve_history_metadata :: "history_env \<Rightarrow> string \<Rightarrow> pydict list \<Rightarrow> string \<Rightarrow> pydict history_result" where
  "resolve_history_metadata E session_id history reference =
     py_bind (decode_cursor E reference session_id ''output'' history) (\<lambda>(index, _).
     Inr (case od_get (history ! index) ''metadata'' of Some (PDict d) \<Rightarrow> d | _ \<Rightarrow> []))"

section \<open>Pages are slices within the limits\<close>

text \<open>How a page shows the message with an index: as it is, without diffs, or as a preview.\<close>

definition shown_as :: "history_env \<Rightarrow> string \<Rightarrow> pydict list \<Rightarrow> nat \<Rightarrow> pydict \<Rightarrow> bool" where
  "shown_as E session_id history i m \<longleftrightarrow>
     m = copy_for_page (history ! i) \<or> truncated_message E session_id history i = Inr m"

lemma page_candidate_shows:
  "page_candidate E sid h i preview = Inr m \<Longrightarrow> shown_as E sid h i m"
  by (auto simp: page_candidate_def shown_as_def Let_def py_bind_Inr split: if_splits)

lemma next_message_shows:
  "next_message E R sel i = Inr (Some m) \<Longrightarrow> shown_as E (pg_session R) (pg_history R) i m"
  by (auto simp: next_message_def py_bind_Inr shown_as_def dest!: page_candidate_shows split: if_splits)

lemma next_message_first: "next_message E R [] i \<noteq> Inr None"
  by (auto simp: next_message_def py_bind_Inr split: if_splits)

lemma page_loop_slice:
  assumes "page_loop E R lo n sel n = Inr (sel', start)" and "n \<le> pg_end R"
    and "list_all2 (shown_as E (pg_session R) (pg_history R)) [n..<pg_end R] sel" and "length sel \<le> pg_limit R"
  shows "start \<le> n \<and> list_all2 (shown_as E (pg_session R) (pg_history R)) [start..<pg_end R] sel' \<and> length sel' \<le> pg_limit R"
  using assms
proof (induction n arbitrary: sel)
  case (Suc i)
  show ?case
  proof (cases "i < lo \<or> length sel \<ge> pg_limit R")
    case True
    with Suc.prems show ?thesis by auto
  next
    case False
    with Suc.prems(1) obtain m where m: "next_message E R sel i = Inr m" by (auto simp: py_bind_Inr)
    show ?thesis
    proof (cases m)
      case None
      with m False Suc.prems show ?thesis by auto
    next
      case (Some c)
      have "page_loop E R lo i (c # sel) i = Inr (sel', start)" using Suc.prems(1) m Some False by simp
      moreover have "list_all2 (shown_as E (pg_session R) (pg_history R)) [i..<pg_end R] (c # sel)"
        using Suc.prems(2,3) next_message_shows m Some by (simp add: upt_conv_Cons)
      ultimately show ?thesis using Suc.IH [of "c # sel"] Suc.prems(2) False by simp
    qed
  qed
qed simp

lemma page_loop_start: "page_loop E R lo n sel st = Inr (sel', start) \<Longrightarrow> st \<le> n \<Longrightarrow> start \<le> n"
proof (induction n arbitrary: sel st)
  case (Suc i)
  then show ?case by (auto simp: py_bind_Inr split: if_splits option.splits) (meson le_SucI order_refl)
qed simp

text \<open>A page that may have a message has one.\<close>

lemma page_loop_progress:
  assumes "page_loop E R lo n [] n = Inr (sel, start)" and "lo < n" and "0 < pg_limit R"
  shows "start < n"
proof (cases n)
  case (Suc i)
  with assms next_message_first [of E R i] obtain c where "page_loop E R lo i [c] i = Inr (sel, start)"
    by (auto simp: py_bind_Inr split: option.splits)
  from page_loop_start [OF this] Suc show ?thesis by simp
qed (use assms in simp)

lemma response_sel:
  assumes "response E sid h ms start stop base = Inr page"
  shows "od_get page ''history'' = Some (PList (map PDict ms))" "od_get page ''start_index'' = Some (PInt (int start))"
    "od_get page ''end_index'' = Some (PInt (int stop))" "od_get page ''total_messages'' = Some (PInt (int (length h)))"
    "\<exists>c. page_cursor E sid h stop = Inr c \<and> od_get page ''newer_cursor'' = Some (PStr c)"
    "start = 0 \<Longrightarrow> od_get page ''older_cursor'' = Some PNone"
    "0 < start \<Longrightarrow> \<exists>c. page_cursor E sid h start = Inr c \<and> od_get page ''older_cursor'' = Some (PStr c)"
  using assms by (auto simp: response_def py_bind_Inr split: if_splits)

lemma page_range_end:
  assumes "page_range E sid h limit before after = Inr (lo, stop)"
  shows "stop \<le> length h"
proof -
  have "n \<le> length h" if "decode_cursor E c sid ''page'' h = Inr (n, dg)" for c n dg
    using that by (auto simp: decode_cursor_def check_cursor_def py_bind_Inr Let_def split: if_splits sum.splits py_exn.splits pyval.splits option.splits)
  with assms show ?thesis by (auto simp: page_range_def py_bind_Inr split: if_splits option.splits)
qed

text \<open>The whole page: the request, the range, the loop and the final check in one place.\<close>

lemma build_history_page_Inr:
  assumes "build_history_page E sid h limit before after base bytes preview = Inr page"
  obtains R lo sel start bs where "page_range E sid h (page_limit_of limit) before after = Inr (lo, pg_end R)"
    and "page_loop E R lo (pg_end R) [] (pg_end R) = Inr (sel, start)"
    and "pg_session R = sid" "pg_history R = h" "pg_limit R = nat (page_limit_of limit)" "pg_bytes R = min bytes HISTORY_MAX_PAGE_BYTES"
    and "response E sid h sel start (pg_end R) (pg_base R) = Inr page"
    and "he_canonical E (PDict page) = Inr bs" and "int (length bs) \<le> min bytes HISTORY_MAX_PAGE_BYTES"
proof -
  from assms obtain lo stop where range: "page_range E sid h (page_limit_of limit) before after = Inr (lo, stop)"
    by (auto simp: build_history_page_def py_bind_Inr split: if_splits)
  define R where "R = \<lparr>pg_session = sid, pg_history = h, pg_preview = preview, pg_base = (case base of None \<Rightarrow> [] | Some d \<Rightarrow> d),
      pg_bytes = min bytes HISTORY_MAX_PAGE_BYTES, pg_limit = nat (page_limit_of limit), pg_end = stop\<rparr>"
  have sel: "pg_session R = sid" "pg_history R = h" "pg_limit R = nat (page_limit_of limit)"
    "pg_bytes R = min bytes HISTORY_MAX_PAGE_BYTES" "pg_end R = stop" by (simp_all add: R_def)
  from assms range have "py_bind (page_loop E R lo stop [] stop) (\<lambda>(selected, start). finish_page E R selected start) = Inr page"
    by (auto simp: build_history_page_def R_def Let_def split: if_splits)
  then obtain ms start where loop: "page_loop E R lo stop [] stop = Inr (ms, start)" and fin: "finish_page E R ms start = Inr page"
    by (auto simp: py_bind_Inr)
  from fin obtain bs where "response E sid h ms start stop (pg_base R) = Inr page" "he_canonical E (PDict page) = Inr bs"
    "int (length bs) \<le> pg_bytes R"
    by (auto simp: finish_page_def py_bind_Inr page_body_def too_large_def canonical_bytes_def lift_py_def sel not_less split: if_splits sum.splits)
  with that [of lo R ms start bs] range loop sel show ?thesis by simp
qed

section \<open>Cursors are read back\<close>

text \<open>
  What the theorems need of the parameters: SHA-256 and HMAC-SHA-256 give 32 bytes; the JSON of a
  cursor's dictionary, for the session and the positions of its history, is read back as that
  dictionary and is not longer than a session identifier of ordinary length makes it.
\<close>

definition digests_ok :: "history_env \<Rightarrow> bool" where
  "digests_ok E \<longleftrightarrow> (\<forall>bs. length (he_sha256 E bs) = 32) \<and> (\<forall>k bs. length (he_hmac E k bs) = 32)"

definition cursor_json :: "history_env \<Rightarrow> string \<Rightarrow> nat \<Rightarrow> bool" where
  "cursor_json E session_id n \<longleftrightarrow>
     (\<forall>kind \<in> {''page'', ''output''}. \<forall>position \<le> n. \<forall>dg bs. length dg = 64 \<longrightarrow>
        he_canonical E (PDict (cursor_payload session_id kind position dg)) = Inr bs \<longrightarrow>
        length bs \<le> 6000 \<and>
        (\<exists>d. he_loads E bs = Inr (PDict d) \<and> od_get d = od_get (cursor_payload session_id kind position dg)))"

lemma digest_text:
  assumes "digests_ok E" and "digest E v = Inr dg"
  shows "length dg = 64 \<and> list_all is_ascii dg"
  using assms by (auto simp: digest_def digests_ok_def py_bind_Inr hex_text_ascii)

lemma split_cursor:
  assumes "CHR ''.'' \<notin> set p"
  shows "takeWhile (\<lambda>c. c \<noteq> CHR ''.'') (p @ ''.'' @ s) = p" "tl (dropWhile (\<lambda>c. c \<noteq> CHR ''.'') (p @ ''.'' @ s)) = s"
  using assms by (auto simp: takeWhile_append dropWhile_append)

lemma unb64_encode: "unb64 (b64_encode bs) = Inr bs"
  by (simp add: unb64_def b64_decode_encode)

lemma decode_own_cursor:
  assumes E: "digests_ok E" "cursor_json E sid n" and k: "kind \<in> {''page'', ''output''}" and p: "position \<le> n"
    and dg: "length dg = 64" "list_all is_ascii dg" and c: "encode_cursor E sid kind position dg = Inr c"
  shows "decode_cursor E c sid kind h =
    (if length h < position then Inl (StaleHistoryCursor STALE_HISTORY)
     else py_bind (current_digest E kind h position) (\<lambda>current.
       if dg \<noteq> current then Inl (StaleHistoryCursor STALE_HISTORY) else Inr (position, current)))"
proof -
  let ?P = "cursor_payload sid kind position dg"
  from c obtain bs where bs: "he_canonical E (PDict ?P) = Inr bs"
    and c: "c = b64_encode bs @ ''.'' @ b64_encode (he_hmac E (he_secret E) bs)"
    by (auto simp: encode_cursor_def py_bind_Inr canonical_bytes_def lift_py_def split: sum.splits)
  from E(2) k p dg(1) bs obtain d where len: "length bs \<le> 6000" and d: "he_loads E bs = Inr (PDict d)" "od_get d = od_get ?P"
    unfolding cursor_json_def by blast
  have "length c \<le> 8192"
    using b64_length [of bs] b64_length [of "he_hmac E (he_secret E) bs"] len E(1) by (simp add: c digests_ok_def)
  moreover have "read_cursor E c = Inr (bs, he_hmac E (he_secret E) bs, PDict d)"
    unfolding read_cursor_def c split_cursor [OF b64_no_dot] by (simp add: unb64_encode d(1))
  ultimately have "decode_cursor E c sid kind h = check_cursor E d sid kind h"
    by (simp add: decode_cursor_def c)
  then show ?thesis
    using dg(2) by (simp add: check_cursor_def d(2) cursor_payload_def is_one_def as_position_def od_get_default_def not_less cong: if_cong)
qed

text \<open>A page cursor, against a history that may have changed since.\<close>

lemma decode_page_cursor:
  assumes "digests_ok E" "cursor_json E sid n" "position \<le> n" and c: "page_cursor E sid h position = Inr c"
  obtains dg where "digest E (PList (map PDict (take position h))) = Inr dg"
    and "\<And>g. decode_cursor E c sid ''page'' g =
      (if length g < position then Inl (StaleHistoryCursor STALE_HISTORY)
       else py_bind (digest E (PList (map PDict (take position g)))) (\<lambda>current.
         if dg \<noteq> current then Inl (StaleHistoryCursor STALE_HISTORY) else Inr (position, current)))"
proof -
  from c obtain dg where dg: "digest E (PList (map PDict (take position h))) = Inr dg"
    and enc: "encode_cursor E sid ''page'' position dg = Inr c" by (auto simp: page_cursor_def py_bind_Inr)
  show ?thesis
    using that [OF dg] decode_own_cursor [OF assms(1,2) _ assms(3) _ _ enc] digest_text [OF assms(1) dg]
    by (simp add: current_digest_def)
qed

section \<open>Errors of a page\<close>

text \<open>Building a page raises no cursor error of its own: those come from the cursor of the request.\<close>

definition page_error :: "history_exn \<Rightarrow> bool" where
  "page_error e \<longleftrightarrow> (\<forall>t. e \<noteq> InvalidHistoryCursor t \<and> e \<noteq> StaleHistoryCursor t)"

lemma page_error_simps [simp]:
  "page_error (HistoryError x)" "page_error (HistoryPageTooLarge t)"
  "\<not> page_error (InvalidHistoryCursor t)" "\<not> page_error (StaleHistoryCursor t)"
  by (simp_all add: page_error_def)

lemma canonical_error: "canonical_bytes E v = Inl e \<Longrightarrow> page_error e"
  by (auto simp: canonical_bytes_def lift_py_def split: sum.splits)

lemma digest_error: "digest E v = Inl e \<Longrightarrow> page_error e"
  by (auto simp: digest_def py_bind_Inl canonical_error)

lemma encode_error: "encode_cursor E sid kind p dg = Inl e \<Longrightarrow> page_error e"
  by (auto simp: encode_cursor_def py_bind_Inl canonical_error)

lemma page_cursor_error: "page_cursor E sid h p = Inl e \<Longrightarrow> page_error e"
  by (auto simp: page_cursor_def py_bind_Inl digest_error encode_error)

lemma content_error: "content_bytes E m = Inl e \<Longrightarrow> page_error e"
  by (auto simp: content_bytes_def canonical_error split: pyval.splits)

lemma truncated_error: "truncated_message E sid h i = Inl e \<Longrightarrow> page_error e"
  by (auto simp: truncated_message_def Let_def py_bind_Inl content_error digest_error encode_error)

lemma candidate_error: "page_candidate E sid h i p = Inl e \<Longrightarrow> page_error e"
  by (auto simp: page_candidate_def Let_def py_bind_Inl content_error truncated_error split: if_splits)

lemma body_error: "page_body E R ms s = Inl e \<Longrightarrow> page_error e"
  by (auto simp: page_body_def response_def py_bind_Inl page_cursor_error split: if_splits)

lemma large_error: "too_large E R b = Inl e \<Longrightarrow> page_error e"
  by (auto simp: too_large_def py_bind_Inl canonical_error)

lemmas page_errors = candidate_error body_error large_error truncated_error

lemma next_error: "next_message E R sel i = Inl e \<Longrightarrow> page_error e"
  by (auto simp: next_message_def py_bind_Inl page_errors split: if_splits)

lemma loop_error: "page_loop E R lo n sel st = Inl e \<Longrightarrow> page_error e"
  by (induction n arbitrary: sel st) (auto simp: py_bind_Inl next_error split: if_splits option.splits)

lemma finish_error: "finish_page E R sel st = Inl e \<Longrightarrow> page_error e"
  by (auto simp: finish_page_def py_bind_Inl page_errors split: if_splits)

lemma build_error:
  assumes "build_history_page E sid h limit before None base bytes preview = Inl e"
    and "page_range E sid h (page_limit_of limit) before None = Inr r"
  shows "page_error e"
  using assms by (auto simp: build_history_page_def py_bind_Inl given_def loop_error finish_error Let_def split: if_splits prod.splits)

section \<open>Following the older cursors\<close>

text \<open>
  A client that loads page after page: \<open>fetch\<close> is the request with a \<open>before\<close> cursor. The pages come
  newest first. \<open>None\<close>: the fuel ran out.
\<close>

fun walk_older :: "nat \<Rightarrow> (string option \<Rightarrow> pydict history_result) \<Rightarrow> string option \<Rightarrow> pydict list history_result option" where
  "walk_older 0 fetch before = None"
| "walk_older (Suc n) fetch before =
     (case fetch before of
        Inl e \<Rightarrow> Some (Inl e)
      | Inr page \<Rightarrow>
          (case od_get page ''older_cursor'' of
             Some (PStr c) \<Rightarrow> map_option (\<lambda>r. py_bind r (\<lambda>pages. Inr (page # pages))) (walk_older n fetch (Some c))
           | _ \<Rightarrow> Some (Inr [page])))"

text \<open>The indices of the messages a page says it has.\<close>

definition page_indices :: "pydict \<Rightarrow> nat list" where
  "page_indices page =
     (case (od_get page ''start_index'', od_get page ''end_index'') of
        (Some (PInt s), Some (PInt e)) \<Rightarrow> [nat s..<nat e]
      | _ \<Rightarrow> [])"

lemma older_page:
  assumes "build_history_page E sid h limit before None base bytes preview = Inr page"
    and "page_range E sid h (page_limit_of limit) before None = Inr (0, stop)"
  obtains start where "page_indices page = [start..<stop]" "start \<le> stop" "0 < stop \<Longrightarrow> start < stop"
    and "start = 0 \<Longrightarrow> od_get page ''older_cursor'' = Some PNone"
    and "0 < start \<Longrightarrow> \<exists>c. page_cursor E sid h start = Inr c \<and> od_get page ''older_cursor'' = Some (PStr c)"
proof -
  from assms(1) obtain R lo sel start bs where R: "page_range E sid h (page_limit_of limit) before None = Inr (lo, pg_end R)"
    and loop: "page_loop E R lo (pg_end R) [] (pg_end R) = Inr (sel, start)"
    and lim: "pg_limit R = nat (page_limit_of limit)" and resp: "response E sid h sel start (pg_end R) (pg_base R) = Inr page"
    by (rule build_history_page_Inr)
  have e: "lo = 0" "pg_end R = stop" using R assms(2) by simp_all
  have "0 < pg_limit R" by (simp add: lim page_limit_of_def)
  with loop have "start \<le> stop" "0 < stop \<Longrightarrow> start < stop"
    using page_loop_start [OF loop] page_loop_progress [OF loop] by (simp_all add: e)
  moreover have "page_indices page = [start..<stop]"
    using response_sel(2,3) [OF resp] by (simp add: page_indices_def e(2))
  ultimately show ?thesis using that response_sel(6,7) [OF resp] by metis
qed

lemma own_page_range:
  assumes "digests_ok E" "cursor_json E sid (length h)" and p: "position \<le> length h" and "page_cursor E sid h position = Inr c"
  shows "page_range E sid h limit (Some c) None = Inr (0, position)"
  by (rule decode_page_cursor [OF assms]) (simp add: page_range_def given_def p not_less)

definition covers :: "pydict list history_result option \<Rightarrow> nat \<Rightarrow> bool" where
  "covers r stop \<longleftrightarrow>
     (\<exists>pages. r = Some (Inr pages) \<and> concat (map page_indices (rev pages)) = [0..<stop]) \<or>
     (\<exists>e. r = Some (Inl e) \<and> page_error e)"

lemma walk_covers:
  assumes E: "digests_ok E" "cursor_json E sid (length h)"
    and "page_range E sid h (page_limit_of limit) before None = Inr (0, stop)" and "stop \<le> length h" and "stop < n"
  shows "covers (walk_older n (\<lambda>b. build_history_page E sid h limit b None base bytes preview) before) stop"
  using assms(3-)
proof (induction n arbitrary: before stop)
  case (Suc n)
  let ?fetch = "\<lambda>b. build_history_page E sid h limit b None base bytes preview"
  show ?case
  proof (cases "?fetch before")
    case (Inl e)
    then show ?thesis using build_error [OF Inl Suc.prems(1)] by (simp add: covers_def)
  next
    case (Inr page)
    from Inr Suc.prems(1) obtain start where s: "page_indices page = [start..<stop]" "start \<le> stop" "0 < stop \<Longrightarrow> start < stop"
      and none: "start = 0 \<Longrightarrow> od_get page ''older_cursor'' = Some PNone"
      and some: "0 < start \<Longrightarrow> \<exists>c. page_cursor E sid h start = Inr c \<and> od_get page ''older_cursor'' = Some (PStr c)"
      by (rule older_page) (blast+)
    show ?thesis
    proof (cases "start = 0")
      case True
      then show ?thesis using Inr none s(1) by (simp add: covers_def)
    next
      case False
      then obtain c where c: "page_cursor E sid h start = Inr c" "od_get page ''older_cursor'' = Some (PStr c)" using some by blast
      have len: "start \<le> length h" using s(2) Suc.prems(2) by simp
      from Suc.IH [OF own_page_range [OF E len c(1)] len] s False Suc.prems(3)
      have "covers (walk_older n ?fetch (Some c)) start" by (cases "stop = 0") auto
      then show ?thesis using Inr c(2) s(1,2) by (auto simp: covers_def upt_add_eq_append [symmetric])
        (metis le_add_diff_inverse upt_add_eq_append zero_le add_0)+
    qed
  qed
qed simp

section \<open>Properties\<close>


text \<open>C20: Loading a page and then, again and again, the page before it covers the whole history: every
  message is on exactly one page, in order, and the walk ends after at most one page per message.
  If it fails, then because a page cannot be made small enough or a message has no JSON, never because
  a cursor of the previous page is refused.\<close>

theorem older_pages_cover_the_history:
  assumes "digests_ok E" and "cursor_json E session_id (length history)"
  shows "(\<exists>pages. walk_older (Suc (length history))
        (\<lambda>before. build_history_page E session_id history limit before None base byte_limit preview) None = Some (Inr pages) \<and>
      concat (map page_indices (rev pages)) = [0..<length history]) \<or>
    (\<exists>e. walk_older (Suc (length history))
        (\<lambda>before. build_history_page E session_id history limit before None base byte_limit preview) None = Some (Inl e) \<and>
      (\<forall>t. e \<noteq> InvalidHistoryCursor t \<and> e \<noteq> StaleHistoryCursor t))"
  using walk_covers [OF assms, of limit None "length history" "Suc (length history)" base byte_limit preview]
  by (simp add: covers_def page_error_def page_range_def given_def)

text \<open>C30: A cursor stands for the messages before it. It stays good while messages are appended, and
  whenever it is accepted, for a history that may have been rewritten, the messages before it have the
  digest they had when it was issued.\<close>

theorem cursor_bound_to_its_prefix:
  assumes "digests_ok E" and "cursor_json E session_id n" and "position \<le> n" and "position \<le> length history"
    and "page_cursor E session_id history position = Inr c"
  shows "(\<exists>dg. decode_cursor E c session_id ''page'' (history @ appended) = Inr (position, dg)) \<and>
    (\<forall>g q dg. decode_cursor E c session_id ''page'' g = Inr (q, dg) \<longrightarrow>
       q = position \<and> position \<le> length g \<and>
       digest E (PList (map PDict (take position g))) = digest E (PList (map PDict (take position history))))"
  by (rule decode_page_cursor [OF assms(1,2,3,5)])
    (use assms(4) in \<open>auto simp: py_bind_Inr not_less split: if_splits\<close>)

text \<open>The reference of a preview survives the slimming of the metadata.\<close>

lemma slim_key_other: "k \<noteq> key \<Longrightarrow> k \<noteq> key @ ''_dropped'' \<Longrightarrow> od_get (slim_key key d) k = od_get d k"
  by (auto simp: slim_key_def split: option.splits pyval.splits list.splits)

lemma slim_keeps_reference: "od_get (slim_page_metadata d) ''history_output_ref'' = od_get d ''history_output_ref''"
  by (simp add: slim_page_metadata_def HISTORY_HEAVY_METADATA_KEYS_def slim_key_other)

text \<open>C31: Nothing of a message is lost when a page shows it as a preview: with the reference in the
  preview's metadata the full content and the full metadata are read back from the same history.\<close>

theorem preview_can_be_fetched:
  assumes "digests_ok E" and "cursor_json E session_id (length history)" and "i < length history"
    and "truncated_message E session_id history i = Inr m"
  shows "\<exists>metadata reference. od_get m ''metadata'' = Some (PDict metadata) \<and>
    od_get metadata ''history_output_ref'' = Some (PStr reference) \<and>
    resolve_history_output E session_id history reference = Inr (od_get_default (history ! i) ''content'' PNone) \<and>
    resolve_history_metadata E session_id history reference =
      Inr (case od_get (history ! i) ''metadata'' of Some (PDict d) \<Rightarrow> d | _ \<Rightarrow> [])"
proof -
  from assms(4) obtain dg reference metadata where dg: "digest E (PDict (history ! i)) = Inr dg"
    and c: "encode_cursor E session_id ''output'' i dg = Inr reference"
    and m: "od_get m ''metadata'' = Some (PDict (slim_page_metadata (od_put ''history_output_ref'' (PStr reference) metadata)))"
    by (auto simp: truncated_message_def Let_def py_bind_Inr)
  have "decode_cursor E reference session_id ''output'' history = Inr (i, dg)"
    using decode_own_cursor [OF assms(1,2) _ _ _ _ c] digest_text [OF assms(1) dg] assms(3) dg
    by (simp add: current_digest_def)
  then show ?thesis using m
    by (simp add: slim_keeps_reference resolve_history_output_def resolve_history_metadata_def)
qed

text \<open>The key file: a key that was made is the one every later process reads.\<close>

lemma cursor_secret_is_stable:
  assumes "load_history_cursor_secret now later fresh = (Inr s, f)" and "length fresh = 32"
  shows "length s = 32 \<and> (\<forall>later' fresh'. load_history_cursor_secret f later' fresh' = (Inr s, f))"
  using assms by (auto simp: load_history_cursor_secret_def read_key_def split: if_splits key_file.splits)

section \<open>An environment for the examples\<close>

text \<open>
  A stand-in for JSON: the text of a cursor's dictionary starts with its kind and its position and can
  be read back; of other values one byte stands for each entry. The digests add up the bytes.
\<close>

fun flat_text :: "pyval \<Rightarrow> byte list" where
  "flat_text (PStr s) = ascii_encode s"
| "flat_text (PList xs) = map (\<lambda>x. 1) xs"
| "flat_text (PDict d) = map (\<lambda>x. 2) d"
| "flat_text _ = [0]"

definition demo_payload :: "pyval \<Rightarrow> (string \<times> nat \<times> string) option" where
  "demo_payload v =
     (case v of
        PDict [a, b, (_, PStr kind), (_, PInt p), (_, PStr dg)] \<Rightarrow> Some (kind, nat p, dg)
      | _ \<Rightarrow> None)"

definition demo_json_env :: history_env where
  "demo_json_env =
     \<lparr>he_canonical = (\<lambda>v. Inr (case demo_payload v of
          Some (kind, p, dg) \<Rightarrow> (if kind = ''page'' then 0 else 1) # word_of_nat p # ascii_encode dg
        | None \<Rightarrow> flat_text v)),
      he_loads = (\<lambda>bs. case bs of
          k # p # ds \<Rightarrow> Inr (PDict (cursor_payload ''s'' (if k = 0 then ''page'' else ''output'') (unat p) (map (\<lambda>b. char_of (unat b)) ds)))
        | _ \<Rightarrow> Inl (ValueError ''Expecting value'')),
      he_sha256 = (\<lambda>bs. replicate 32 (sum_list bs)),
      he_hmac = (\<lambda>k bs. replicate 32 (sum_list k + sum_list bs)),
      he_secret = replicate 32 7, he_str = (\<lambda>_. ''?'')\<rparr>"

definition demo_history :: "pydict list" where
  "demo_history = [[(''role'', PStr ''user''), (''content'', PStr ''fix it'')],
     [(''role'', PStr ''tool''), (''content'', PStr ''done''), (''metadata'', PDict [(''diffs'', PList [])])],
     [(''role'', PStr ''assistant''), (''content'', PStr ''it works'')]]"

lemma demo_digests_ok: "digests_ok demo_json_env"
  by (simp add: digests_ok_def demo_json_env_def)

lemma ascii_read_back: "map (\<lambda>b. char_of (unat b)) (ascii_encode s) = s"
proof -
  have "char_of (unat (word_of_nat (of_char c) :: byte)) = c" for c :: char
  proof -
    have "(of_char c :: nat) < 256" by simp
    then show ?thesis by (simp add: unsigned_of_nat take_bit_nat_eq_self)
  qed
  then show ?thesis by (induction s) (simp_all add: ascii_encode_def)
qed

lemma demo_cursor_json: "n < 256 \<Longrightarrow> cursor_json demo_json_env ''s'' n"
  unfolding cursor_json_def
proof (intro ballI allI impI)
  fix kind position dg bs
  assume n: "n < 256" "position \<le> n" and k: "kind \<in> {''page'', ''output''}" and dg: "length dg = (64 :: nat)"
    and bs: "he_canonical demo_json_env (PDict (cursor_payload ''s'' kind position dg)) = Inr bs"
  from bs have bs: "bs = (if kind = ''page'' then 0 else 1) # word_of_nat position # ascii_encode dg"
    by (simp add: demo_json_env_def demo_payload_def cursor_payload_def)
  have "unat (word_of_nat position :: byte) = position"
    using n by (simp add: unsigned_of_nat take_bit_nat_eq_self)
  then have "he_loads demo_json_env bs = Inr (PDict (cursor_payload ''s'' kind position dg))"
    using k by (auto simp: bs demo_json_env_def ascii_read_back)
  then show "length bs \<le> 6000 \<and>
      (\<exists>d. he_loads demo_json_env bs = Inr (PDict d) \<and> od_get d = od_get (cursor_payload ''s'' kind position dg))"
    using dg by (simp add: bs ascii_encode_def)
qed

text \<open>In this environment nothing fails, and a page with its nine entries is small.\<close>

lemma demo_digest: "\<exists>dg. digest demo_json_env v = Inr dg"
  by (simp add: digest_def canonical_bytes_def lift_py_def demo_json_env_def)

lemma demo_encode: "\<exists>c. encode_cursor demo_json_env sid kind p dg = Inr c"
  by (simp add: encode_cursor_def canonical_bytes_def lift_py_def demo_json_env_def)

lemma demo_page_cursor: "\<exists>c. page_cursor demo_json_env sid h p = Inr c"
  using demo_digest demo_encode by (simp add: page_cursor_def py_bind_Inr) metis

lemma demo_content: "\<exists>bs. content_bytes demo_json_env m = Inr bs"
  by (simp add: content_bytes_def canonical_bytes_def lift_py_def demo_json_env_def split: pyval.splits)

lemma demo_truncated: "\<exists>m. truncated_message demo_json_env sid h i = Inr m"
  using demo_content demo_digest demo_encode by (simp add: truncated_message_def Let_def py_bind_Inr) metis

lemma demo_candidate: "\<exists>m. page_candidate demo_json_env sid h i p = Inr m"
proof -
  obtain bs m where "content_bytes demo_json_env (h ! i) = Inr bs" "truncated_message demo_json_env sid h i = Inr m"
    using demo_content demo_truncated by meson
  then show ?thesis by (simp add: page_candidate_def Let_def)
qed

lemma demo_body:
  assumes "pg_base R = []"
  shows "\<exists>b. page_body demo_json_env R ms s = Inr b \<and> length b = 9"
proof -
  obtain c d where "page_cursor demo_json_env (pg_session R) (pg_history R) s = Inr c"
    "page_cursor demo_json_env (pg_session R) (pg_history R) (pg_end R) = Inr d" using demo_page_cursor by meson
  then show ?thesis using assms by (simp add: page_body_def response_def od_update_def)
qed

lemma demo_large: "length b = 9 \<Longrightarrow> 9 \<le> pg_bytes R \<Longrightarrow> too_large demo_json_env R b = Inr False"
proof -
  assume b: "length b = 9" "9 \<le> pg_bytes R"
  have "demo_payload (PDict b) = None" using b(1) by (auto simp: demo_payload_def split: list.splits prod.splits pyval.splits)
  then show ?thesis using b by (simp add: too_large_def canonical_bytes_def lift_py_def demo_json_env_def)
qed

lemma demo_next: "pg_base R = [] \<Longrightarrow> 9 \<le> pg_bytes R \<Longrightarrow> \<exists>m. next_message demo_json_env R sel i = Inr (Some m)"
proof -
  assume R: "pg_base R = []" "9 \<le> pg_bytes R"
  obtain m where m: "page_candidate demo_json_env (pg_session R) (pg_history R) i (pg_preview R) = Inr m" using demo_candidate by meson
  obtain b where "page_body demo_json_env R (m # sel) i = Inr b" "length b = 9" using demo_body [OF R(1)] by blast
  then show ?thesis using m demo_large [OF _ R(2)] by (simp add: next_message_def)
qed

lemma demo_loop: "pg_base R = [] \<Longrightarrow> 9 \<le> pg_bytes R \<Longrightarrow> \<exists>r. page_loop demo_json_env R lo n sel st = Inr r"
proof (induction n arbitrary: sel st)
  case (Suc i)
  then show ?case using demo_next [of R sel i] by auto
qed simp

lemma demo_build:
  assumes "page_range demo_json_env sid h (page_limit_of limit) before None = Inr (lo, stop)"
  shows "\<exists>page. build_history_page demo_json_env sid h limit before None None 1000 preview = Inr page"
proof -
  let ?R = "\<lparr>pg_session = sid, pg_history = h, pg_preview = preview, pg_base = [],
      pg_bytes = min 1000 HISTORY_MAX_PAGE_BYTES, pg_limit = nat (page_limit_of limit), pg_end = stop\<rparr>"
  have R: "pg_base ?R = []" "9 \<le> pg_bytes ?R" by (simp_all add: HISTORY_MAX_PAGE_BYTES_def)
  obtain ms st where "page_loop demo_json_env ?R lo stop [] stop = Inr (ms, st)" using demo_loop [OF R] by (metis surj_pair)
  moreover obtain b where "page_body demo_json_env ?R ms st = Inr b" "length b = 9" using demo_body [OF R(1)] by blast
  ultimately show ?thesis using assms demo_large [OF _ R(2)]
    by (simp add: build_history_page_def given_def finish_page_def)
qed

lemma demo_walk:
  assumes "page_range demo_json_env ''s'' h (page_limit_of limit) before None = Inr (0, stop)" "stop \<le> length h" "length h < 256"
  shows "\<nexists>e. walk_older n (\<lambda>b. build_history_page demo_json_env ''s'' h limit b None None 1000 preview) before = Some (Inl e)"
  using assms(1,2)
proof (induction n arbitrary: before stop)
  case (Suc n)
  obtain page where page: "build_history_page demo_json_env ''s'' h limit before None None 1000 preview = Inr page"
    using demo_build Suc.prems(1) by blast
  from page Suc.prems(1) obtain start where s: "start \<le> stop"
    and none: "start = 0 \<Longrightarrow> od_get page ''older_cursor'' = Some PNone"
    and some: "0 < start \<Longrightarrow> \<exists>c. page_cursor demo_json_env ''s'' h start = Inr c \<and> od_get page ''older_cursor'' = Some (PStr c)"
    by (rule older_page) (blast+)
  show ?case
  proof (cases "start = 0")
    case False
    then obtain c where c: "page_cursor demo_json_env ''s'' h start = Inr c" "od_get page ''older_cursor'' = Some (PStr c)" using some by blast
    have len: "start \<le> length h" using s Suc.prems(2) by simp
    from Suc.IH [OF own_page_range [OF demo_digests_ok demo_cursor_json [OF assms(3)] len c(1)] len] show ?thesis
      by (auto simp: page c(2) py_bind_Inl)
  qed (simp add: page none)
qed simp


theorem older_pages_cover_the_history_witness:
  "\<exists>pages. walk_older 4 (\<lambda>before. build_history_page demo_json_env ''s'' demo_history (Some 2) before None None 1000 True) None
       = Some (Inr pages) \<and> concat (map page_indices (rev pages)) = [0..<3]"
proof -
  have n: "length demo_history = 3" by code_simp
  have "page_range demo_json_env ''s'' demo_history (page_limit_of (Some 2)) None None = Inr (0, 3)"
    by (simp add: page_range_def given_def n)
  from demo_walk [OF this, of 4 True] n
    have "\<nexists>e. walk_older 4 (\<lambda>before. build_history_page demo_json_env ''s'' demo_history (Some 2) before None None 1000 True) None = Some (Inl e)"
    by simp
  moreover have "cursor_json demo_json_env ''s'' (length demo_history)" by (rule demo_cursor_json) (simp add: n)
  ultimately show ?thesis
    using older_pages_cover_the_history [OF demo_digests_ok, of "''s''" demo_history "Some 2" None 1000 True] by (auto simp: n)
qed

theorem cursor_bound_to_its_prefix_witness:
  "\<exists>c dg. page_cursor demo_json_env ''s'' demo_history 2 = Inr c \<and>
     decode_cursor demo_json_env c ''s'' ''page'' (demo_history @ demo_history) = Inr (2, dg)"
proof -
  obtain c where c: "page_cursor demo_json_env ''s'' demo_history 2 = Inr c" using demo_page_cursor by blast
  have "(2 :: nat) \<le> 3" "2 \<le> length demo_history" "(3 :: nat) < 256" by code_simp+
  from cursor_bound_to_its_prefix [OF demo_digests_ok demo_cursor_json [OF this(3)] this(1,2) c, of demo_history] c show ?thesis by auto
qed

theorem preview_can_be_fetched_witness:
  "\<exists>m metadata reference. truncated_message demo_json_env ''s'' demo_history 1 = Inr m \<and> od_get m ''metadata'' = Some (PDict metadata) \<and>
     od_get metadata ''history_output_ref'' = Some (PStr reference) \<and>
     resolve_history_output demo_json_env ''s'' demo_history reference = Inr (PStr ''done'')"
proof -
  obtain m where m: "truncated_message demo_json_env ''s'' demo_history 1 = Inr m" using demo_truncated by blast
  have n: "length demo_history = 3" "od_get_default (demo_history ! 1) ''content'' PNone = PStr ''done''" by code_simp+
  have "cursor_json demo_json_env ''s'' (length demo_history)" by (rule demo_cursor_json) (simp add: n)
  moreover have "1 < length demo_history" by (simp add: n)
  ultimately show ?thesis using preview_can_be_fetched [OF demo_digests_ok _ _ m] m unfolding n(2) by blast
qed

end
