(* ===== verification/Thinking_Stream.thy ===== *)
theory Thinking_Stream
  imports Kollab_Prelude
begin

text \<open>
  The parser that separates the model's thinking from its answer while the answer streams in
  (\<open>kollabor_ai/streaming_thinking_parser.py\<close>). It is fed chunk by chunk and keeps what it cannot
  place yet in a buffer.

  The reference is \<open>outside\<close>, the text outside the tags of the whole answer. The theorem: when no tag
  is cut by the end of a chunk, the pieces handed out for display are, up to white space, the text
  outside the tags. When a tag is cut, the parser misses it: that is shown on an example, and so is a
  chunk with two blocks, of which it reports the second only.
\<close>

section \<open>State and operations\<close>

definition THINK_START :: string where "THINK_START = ''<think>''"
definition THINK_END :: string where "THINK_END = ''</think>''"

record think_result =
  tr_response :: "string list"
  tr_thinking :: "string option"
  tr_in_thinking :: bool
  tr_complete :: bool

record think_state =
  th_buffer :: string
  th_in_thinking :: bool
  th_thinking :: string

definition fresh_state :: think_state where
  "fresh_state = \<lparr>th_buffer = [], th_in_thinking = False, th_thinking = []\<rparr>"

definition reset_state :: "think_state \<Rightarrow> think_state" where
  "reset_state s = s\<lparr>th_buffer := [], th_in_thinking := False, th_thinking := []\<rparr>"

text \<open>\<open>s.split(tag, 1)\<close> when the tag occurs in the text.\<close>

fun split_first :: "string \<Rightarrow> string \<Rightarrow> (string \<times> string) option" where
  "split_first tag [] = (if tag = [] then Some ([], []) else None)"
| "split_first tag (c # cs) =
     (if prefix tag (c # cs) then Some ([], drop (length tag) (c # cs))
      else map_option (\<lambda>(a, b). (c # a, b)) (split_first tag cs))"

lemma split_first_Some: "split_first tag s = Some (a, b) \<Longrightarrow> s = a @ tag @ b"
proof (induction s arbitrary: a)
  case (Cons c cs)
  show ?case
  proof (cases "prefix tag (c # cs)")
    case True
    with Cons.prems show ?thesis by (auto simp: prefix_def)
  next
    case False
    with Cons.prems obtain a' where "a = c # a'" "split_first tag cs = Some (a', b)" by auto
    with Cons.IH show ?thesis by simp
  qed
qed (simp split: if_splits)

lemma split_first_less [simp]:
  "split_first THINK_START s = Some (a, b) \<Longrightarrow> length b < length s"
  "split_first THINK_END s = Some (a, b) \<Longrightarrow> length b < length s"
  by (auto dest!: split_first_Some simp: THINK_START_def THINK_END_def)

text \<open>The loop of \<open>parse_chunk\<close>: every round but the last takes a tag off the buffer.\<close>

function parse_loop :: "think_state \<Rightarrow> think_result \<Rightarrow> think_result \<times> think_state" where
  "parse_loop s r =
     (if \<not> th_in_thinking s then
        (case split_first THINK_START (th_buffer s) of
           Some (before, rest) \<Rightarrow>
             parse_loop (s\<lparr>th_buffer := rest, th_in_thinking := True, th_thinking := []\<rparr>)
               (r\<lparr>tr_response := (if str_strip before \<noteq> [] then tr_response r @ [before] else tr_response r), tr_in_thinking := True\<rparr>)
         | None \<Rightarrow>
             if str_strip (th_buffer s) \<noteq> []
             then (r\<lparr>tr_response := tr_response r @ [th_buffer s]\<rparr>, s\<lparr>th_buffer := []\<rparr>)
             else (r, s))
      else
        (case split_first THINK_END (th_buffer s) of
           Some (before, rest) \<Rightarrow>
             (let thinking = th_thinking s @ before in
              parse_loop (s\<lparr>th_buffer := rest, th_in_thinking := False, th_thinking := []\<rparr>)
                ((if str_strip thinking \<noteq> [] then r\<lparr>tr_thinking := Some thinking, tr_complete := True\<rparr> else r)\<lparr>tr_in_thinking := False\<rparr>))
         | None \<Rightarrow>
             if th_buffer s \<noteq> []
             then (let thinking = th_thinking s @ th_buffer s in
               (if str_strip thinking \<noteq> [] then r\<lparr>tr_thinking := Some thinking\<rparr> else r, s\<lparr>th_buffer := [], th_thinking := thinking\<rparr>))
             else (r, s)))"
  by pat_completeness auto
termination by (relation "measure (\<lambda>(s, r). length (th_buffer s))") auto

declare parse_loop.simps [simp del]

definition parse_chunk :: "string \<Rightarrow> think_state \<Rightarrow> think_result \<times> think_state" where
  "parse_chunk chunk s =
     parse_loop (s\<lparr>th_buffer := th_buffer s @ chunk\<rparr>)
       \<lparr>tr_response = [], tr_thinking = None, tr_in_thinking = th_in_thinking s, tr_complete = False\<rparr>"

text \<open>A stream: the pieces of the answer that all its chunks hand out.\<close>

fun stream :: "string list \<Rightarrow> think_state \<Rightarrow> string list \<times> think_state" where
  "stream [] s = ([], s)"
| "stream (c # cs) s =
     (case parse_chunk c s of (r, s1) \<Rightarrow> (case stream cs s1 of (out, s2) \<Rightarrow> (tr_response r @ out, s2)))"

section \<open>The reference\<close>

text \<open>The text outside the tags, starting inside a block or not.\<close>

function outside :: "bool \<Rightarrow> string \<Rightarrow> string" where
  "outside False s = (case split_first THINK_START s of None \<Rightarrow> s | Some (a, b) \<Rightarrow> a @ outside True b)"
| "outside True s = (case split_first THINK_END s of None \<Rightarrow> [] | Some (a, b) \<Rightarrow> outside False b)"
  by pat_completeness auto
termination by (relation "measure (\<lambda>(m, s). length s)") auto

declare outside.simps [simp del]

definition visible :: "string \<Rightarrow> string" where
  "visible = filter (\<lambda>c. \<not> is_space c)"

text \<open>No tag begins in \<open>x\<close> and ends in \<open>y\<close>.\<close>

definition whole_tag :: "string \<Rightarrow> string \<Rightarrow> string \<Rightarrow> bool" where
  "whole_tag tag x y \<longleftrightarrow> list_all (\<lambda>k. \<not> (suffix (take k tag) x \<and> prefix (drop k tag) y)) [1..<length tag]"

fun tags_whole :: "string list \<Rightarrow> bool" where
  "tags_whole [] = True"
| "tags_whole (c # cs) \<longleftrightarrow> whole_tag THINK_START c (concat cs) \<and> whole_tag THINK_END c (concat cs) \<and> tags_whole cs"

section \<open>Splitting at a tag\<close>

lemma split_first_append: "split_first tag x = Some (a, b) \<Longrightarrow> split_first tag (x @ y) = Some (a, b @ y)"
proof (induction x arbitrary: a)
  case Nil
  then show ?case by (cases y) (auto split: if_splits)
next
  case (Cons c cs)
  show ?case
  proof (cases "prefix tag (c # cs)")
    case True
    then have "prefix tag (c # cs @ y)" by (metis append_Cons prefix_append)
    moreover have "drop (length tag) ((c # cs) @ y) = drop (length tag) (c # cs) @ y"
      using prefix_length_le [OF True] by (simp only: drop_append) simp
    ultimately show ?thesis using True Cons.prems by auto
  next
    case False
    with Cons.prems obtain a' where a: "a = c # a'" "split_first tag cs = Some (a', b)" by auto
    show ?thesis
    proof (cases "prefix tag (c # cs @ y)")
      case True
      from a(2) have "length tag \<le> length cs" by (auto dest: split_first_Some)
      with True have "prefix tag (c # cs)" by (metis append_Cons le_SucI length_Cons prefix_length_prefix prefixI)
      with False show ?thesis by simp
    next
      case n: False
      with Cons.IH [OF a(2)] a(1) show ?thesis by simp
    qed
  qed
qed

lemma whole_tag_suffix: "whole_tag tag (a @ x) y \<Longrightarrow> whole_tag tag x y"
  by (auto simp: whole_tag_def list_all_iff suffix_def)

lemma split_first_skip:
  assumes "split_first tag x = None" and "whole_tag tag x y" and "tag \<noteq> []"
  shows "split_first tag (x @ y) = map_option (\<lambda>(a, b). (x @ a, b)) (split_first tag y)"
  using assms
proof (induction x)
  case Nil
  then show ?case by (cases "split_first tag y") auto
next
  case (Cons c cs)
  then have none: "\<not> prefix tag (c # cs)" "split_first tag cs = None" by (auto split: if_splits)
  have "\<not> prefix tag (c # cs @ y)"
  proof
    assume "prefix tag (c # cs @ y)"
    with none(1) obtain v where v: "tag = (c # cs) @ v" "prefix v y" "v \<noteq> []"
      by (metis append_Cons append_Nil2 prefix_append prefix_order.refl)
    have "1 \<le> length (c # cs)" "length (c # cs) < length tag" using v(3) by (simp_all add: v(1))
    then have "length (c # cs) \<in> set [1..<length tag]" by (simp only: set_upt atLeastLessThan_iff simp_thms)
    moreover have "take (length (c # cs)) tag = c # cs" "drop (length (c # cs)) tag = v" by (simp_all add: v(1))
    ultimately show False using Cons.prems(2) v(2) unfolding whole_tag_def list_all_iff by (metis suffix_order.refl)
  qed
  moreover have "whole_tag tag cs y" using whole_tag_suffix [of tag "[c]" cs y] Cons.prems(2) by simp
  ultimately show ?case using Cons.IH none(2) assms(3)
    by (simp del: append_Cons add: append_Cons option.map_comp comp_def split_beta)
qed

section \<open>One chunk\<close>

lemma dropWhile_all: "(\<forall>x \<in> set (dropWhile P s). P x) \<longleftrightarrow> (\<forall>x \<in> set s. P x)"
  by (induction s) auto

lemma strip_empty: "str_strip s = [] \<longleftrightarrow> list_all is_space s"
  by (simp add: str_strip_def list_all_iff dropWhile_all)

lemma visible_simps [simp]: "visible [] = []" "visible (a @ b) = visible a @ visible b"
  by (simp_all add: visible_def)

lemma visible_blank: "str_strip s = [] \<Longrightarrow> visible s = []"
  by (simp add: strip_empty visible_def list_all_iff filter_empty_conv)

lemma whole_tag_rest:
  "split_first t x = Some (a, b) \<Longrightarrow> whole_tag tag x y \<Longrightarrow> whole_tag tag b y"
  using whole_tag_suffix [of tag "a @ t" b y] by (auto dest: split_first_Some)

text \<open>What a state still has to say when the text \<open>y\<close> follows.\<close>

definition to_come :: "think_state \<Rightarrow> string \<Rightarrow> string" where
  "to_come s y = visible (outside (th_in_thinking s) (th_buffer s @ y))"

lemma parse_loop_spec:
  assumes "parse_loop s r = (r', s')" and "whole_tag THINK_START (th_buffer s) y" "whole_tag THINK_END (th_buffer s) y"
  shows "\<exists>out. tr_response r' = tr_response r @ out \<and> to_come s y = visible (concat out) @ to_come s' y \<and>
    str_strip (th_buffer s') = []"
  using assms
proof (induction s r rule: parse_loop.induct)
  case (1 s r)
  let ?x = "th_buffer s"
  have tags: "THINK_START \<noteq> []" "THINK_END \<noteq> []" by (simp_all add: THINK_START_def THINK_END_def)
  show ?case
  proof (cases "th_in_thinking s")
    case False
    show ?thesis
    proof (cases "split_first THINK_START ?x")
      case None
      then have y: "outside False (?x @ y) = ?x @ outside False y"
        using split_first_skip [OF None "1.prems"(2) tags(1)] by (cases "split_first THINK_START y") (auto simp: outside.simps(1))
      show ?thesis
      proof (cases "str_strip ?x = []")
        case True
        with "1.prems"(1) False None show ?thesis by (auto simp: parse_loop.simps [of s])
      next
        case nonblank: False
        with "1.prems"(1) False None have "r' = r\<lparr>tr_response := tr_response r @ [?x]\<rparr>" "s' = s\<lparr>th_buffer := []\<rparr>"
          by (auto simp: parse_loop.simps [of s])
        then show ?thesis using False y by (intro exI [of _ "[?x]"]) (simp add: to_come_def str_strip_def)
      qed
    next
      case (Some ab)
      then obtain a b where ab: "split_first THINK_START ?x = Some (a, b)" by (metis surj_pair)
      let ?s = "s\<lparr>th_buffer := b, th_in_thinking := True, th_thinking := []\<rparr>"
      let ?r = "r\<lparr>tr_response := (if str_strip a \<noteq> [] then tr_response r @ [a] else tr_response r), tr_in_thinking := True\<rparr>"
      have "parse_loop ?s ?r = (r', s')" using "1.prems"(1) False ab by (simp add: parse_loop.simps [of s])
      from "1.IH"(1) [OF False ab refl this] "1.prems"(2,3) whole_tag_rest [OF ab] obtain out
        where out: "tr_response r' = tr_response ?r @ out" "to_come ?s y = visible (concat out) @ to_come s' y" "str_strip (th_buffer s') = []"
        by auto
      have "to_come s y = visible a @ to_come ?s y"
        using split_first_append [OF ab, of y] False by (simp add: to_come_def outside.simps(1))
      with out show ?thesis
        by (cases "str_strip a = []") (auto simp: visible_blank)
    qed
  next
    case True
    show ?thesis
    proof (cases "split_first THINK_END ?x")
      case None
      then have "outside True (?x @ y) = outside True y"
        using split_first_skip [OF None "1.prems"(3) tags(2)] by (cases "split_first THINK_END y") (auto simp: outside.simps(2))
      moreover have "tr_response r' = tr_response r \<and> th_in_thinking s' \<and> th_buffer s' = []"
        using "1.prems"(1) True None by (cases "?x = []") (auto simp: parse_loop.simps [of s] Let_def)
      ultimately show ?thesis using True by (intro exI [of _ "[]"]) (simp add: to_come_def str_strip_def)
    next
      case (Some ab)
      then obtain a b where ab: "split_first THINK_END ?x = Some (a, b)" by (metis surj_pair)
      let ?s = "s\<lparr>th_buffer := b, th_in_thinking := False, th_thinking := []\<rparr>"
      let ?t = "th_thinking s @ a"
      let ?r = "(if str_strip ?t \<noteq> [] then r\<lparr>tr_thinking := Some ?t, tr_complete := True\<rparr> else r)\<lparr>tr_in_thinking := False\<rparr>"
      have "parse_loop ?s ?r = (r', s')" using "1.prems"(1) True ab by (simp add: parse_loop.simps [of s] Let_def)
      from "1.IH"(2) [OF _ ab refl refl this] True "1.prems"(2,3) whole_tag_rest [OF ab] obtain out
        where out: "tr_response r' = tr_response ?r @ out" "to_come ?s y = visible (concat out) @ to_come s' y" "str_strip (th_buffer s') = []"
        by (auto simp del: parse_loop.simps)
      have "to_come s y = to_come ?s y"
        using split_first_append [OF ab, of y] True by (simp add: to_come_def outside.simps(2))
      with out show ?thesis by (auto split: if_splits)
    qed
  qed
qed

section \<open>A whole stream\<close>

lemma tag_chars: "c \<in> set THINK_START \<union> set THINK_END \<Longrightarrow> \<not> is_space c"
proof -
  have "list_all (\<lambda>c. \<not> is_space c) (THINK_START @ THINK_END)" by code_simp
  then show "c \<in> set THINK_START \<union> set THINK_END \<Longrightarrow> \<not> is_space c" by (auto simp: list_all_iff)
qed

lemma whole_tag_blank:
  assumes "list_all is_space w" and "\<And>c. c \<in> set tag \<Longrightarrow> \<not> is_space c" and "whole_tag tag x y"
  shows "whole_tag tag (w @ x) y"
  unfolding whole_tag_def list_all_iff
proof (intro ballI notI)
  fix k
  assume k: "k \<in> set [1..<length tag]" and a: "suffix (take k tag) (w @ x) \<and> prefix (drop k tag) y"
  then consider "suffix (take k tag) x" | z where "take k tag = z @ x" "suffix z w" "z \<noteq> []"
    by (metis append_Nil suffix_append suffix_order.refl)
  then show False
  proof cases
    case 1
    with a k assms(3) show False by (auto simp: whole_tag_def list_all_iff)
  next
    case (2 z)
    then have "hd z \<in> set w" "hd z \<in> set tag"
      by (metis list.set_sel(1) set_mono_suffix subsetD, metis append_is_Nil_conv hd_append2 in_set_takeD list.set_sel(1))
    with assms(1,2) show False by (auto simp: list_all_iff)
  qed
qed

lemma blank_to_come:
  assumes "str_strip (th_buffer s) = []"
  shows "to_come s [] = []"
proof -
  have blank: "list_all is_space (th_buffer s)" using assms by (simp add: strip_empty)
  have "split_first tag (th_buffer s) = None" if tag: "tag = THINK_START \<or> tag = THINK_END" for tag
  proof (cases "split_first tag (th_buffer s)")
    case (Some ab)
    then obtain a b where "th_buffer s = a @ tag @ b" using split_first_Some by (metis surj_pair)
    then have "set tag \<subseteq> set (th_buffer s)" by auto
    moreover have "hd tag \<in> set tag" using tag by (auto simp: THINK_START_def THINK_END_def)
    ultimately show ?thesis using blank tag tag_chars [of "hd tag"] by (auto simp: list_all_iff)
  qed simp
  then show ?thesis using visible_blank [OF assms]
    by (cases "th_in_thinking s") (simp_all add: to_come_def outside.simps)
qed

lemma stream_spec:
  assumes "tags_whole cs" and "str_strip (th_buffer s) = []"
  shows "visible (concat (fst (stream cs s))) = to_come s (concat cs)"
  using assms
proof (induction cs arbitrary: s)
  case Nil
  then show ?case by (simp add: blank_to_come)
next
  case (Cons c cs)
  let ?s = "s\<lparr>th_buffer := th_buffer s @ c\<rparr>"
  obtain r s1 where r: "parse_chunk c s = (r, s1)" by (metis surj_pair)
  have whole: "whole_tag THINK_START (th_buffer ?s) (concat cs)" "whole_tag THINK_END (th_buffer ?s) (concat cs)"
    using Cons.prems tag_chars by (simp_all add: whole_tag_blank strip_empty)
  from parse_loop_spec [OF r [unfolded parse_chunk_def] whole]
  have "to_come ?s (concat cs) = visible (concat (tr_response r)) @ to_come s1 (concat cs)" "str_strip (th_buffer s1) = []"
    by auto
  moreover have "to_come s (concat (c # cs)) = to_come ?s (concat cs)" by (simp add: to_come_def)
  ultimately show ?case using Cons.IH [of s1] Cons.prems(1) r by (simp add: split_beta)
qed

text \<open>C22: Only the answer is shown. When no tag is cut by the end of a chunk, then, however the answer is
  cut into chunks, the pieces the parser hands out for display are together, up to white space, the
  text outside the thinking tags of the whole answer: no thinking is shown and no answer is lost.\<close>

theorem only_the_answer_is_shown:
  assumes "tags_whole chunks"
  shows "visible (concat (fst (stream chunks fresh_state))) = visible (outside False (concat chunks))"
  using stream_spec [OF assms, of fresh_state] by (simp add: fresh_state_def to_come_def str_strip_def)

theorem only_the_answer_is_shown_witness:
  "stream [''Hi <think>a pl'', ''an</think> the'', ''re''] fresh_state = ([''Hi '', '' the'', ''re''], fresh_state) \<and>
   visible (concat (fst (stream [''Hi <think>a pl'', ''an</think> the'', ''re''] fresh_state))) =
     visible (outside False ''Hi <think>a plan</think> there'')"
proof
  show "stream [''Hi <think>a pl'', ''an</think> the'', ''re''] fresh_state = ([''Hi '', '' the'', ''re''], fresh_state)"
    by code_simp
  have "tags_whole [''Hi <think>a pl'', ''an</think> the'', ''re'']" by code_simp
  from only_the_answer_is_shown [OF this]
  show "visible (concat (fst (stream [''Hi <think>a pl'', ''an</think> the'', ''re''] fresh_state))) =
     visible (outside False ''Hi <think>a plan</think> there'')" by simp
qed

text \<open>A tag that is cut by the end of a chunk is missed, and the thinking is shown as the answer.\<close>

theorem cut_tag_is_missed:
  "fst (stream [''<thi'', ''nk>secret</think>ok''] fresh_state) = [''<thi'', ''nk>secret</think>ok''] \<and>
   outside False (''<thi'' @ ''nk>secret</think>ok'') = ''ok''"
  by code_simp

text \<open>Two blocks in one chunk: the result has the second only.\<close>

theorem first_of_two_blocks_is_lost:
  "tr_thinking (fst (parse_chunk ''<think>one</think><think>two</think>'' fresh_state)) = Some ''two''"
  by code_simp

end
