(* ===== verification/Hook_Registry.thy ===== *)
theory Hook_Registry
  imports Dict_Utils "HOL-Library.Multiset"
begin

text \<open>
  The hook registry of the event system (\<open>kollabor_events/models.py\<close> and
  \<open>kollabor_events/registry.py\<close>, class \<open>HookRegistry\<close>).

  Hook objects are shared: the registry's lists, the executor and the plugin that made a hook all
  hold the same object, and enabling a hook or running it changes that object. So hooks live in a
  store \<open>heap\<close>, and a list of hooks is a list of references into it. A member of the enum
  \<open>EventType\<close> is \<open>EventType v\<close> with its value \<open>v\<close>; a plugin's own event, a plain
  string, is \<open>StrEvent s\<close>, and the two are different dictionary keys as they are in Python.
  The callback is code of a plugin: the hook holds its name only, and \<open>Hook_Executor\<close> takes
  what it does as a parameter.
\<close>

section \<open>Data\<close>

datatype hook_priority =
  SYSTEM | SECURITY | PREPROCESSING | LLM | POSTPROCESSING | DISPLAY

fun hook_priority_value :: "hook_priority \<Rightarrow> int" where
  "hook_priority_value SYSTEM = 1000"
| "hook_priority_value SECURITY = 900"
| "hook_priority_value PREPROCESSING = 500"
| "hook_priority_value LLM = 100"
| "hook_priority_value POSTPROCESSING = 50"
| "hook_priority_value DISPLAY = 10"

datatype hook_status = PENDING | STARTING | WORKING | COMPLETED | FAILED | TIMEOUT

fun hook_status_value :: "hook_status \<Rightarrow> string" where
  "hook_status_value PENDING = ''pending''"
| "hook_status_value STARTING = ''starting''"
| "hook_status_value WORKING = ''working''"
| "hook_status_value COMPLETED = ''completed''"
| "hook_status_value FAILED = ''failed''"
| "hook_status_value TIMEOUT = ''timeout''"

datatype etype = EventType string | StrEvent string

text \<open>The values of the enum's members, in its order.\<close>

definition event_type_values :: "string list" where
  "event_type_values = [
    ''user_input_pre'', ''user_input'', ''user_input_post'', ''key_press_pre'',
    ''key_press'', ''key_press_post'', ''paste_detected'', ''llm_request_pre'',
    ''llm_request'', ''llm_request_post'', ''llm_request_error'', ''llm_response_pre'',
    ''llm_response'', ''llm_response_post'', ''llm_thinking'', ''cancel_request'',
    ''tool_call_pre'', ''tool_call'', ''tool_call_post'', ''mcp_server_connect'',
    ''mcp_server_connected'', ''mcp_server_disconnect'', ''mcp_server_error'',
    ''mcp_server_discover'', ''mcp_server_discovered'', ''mcp_tool_register'',
    ''mcp_tool_unregister'', ''mcp_tool_call_pre'', ''mcp_tool_call_post'',
    ''permission_check'', ''permission_granted'', ''permission_denied'',
    ''permission_confirmation'', ''system_startup'', ''system_ready'', ''system_shutdown'',
    ''render_frame'', ''input_render_pre'', ''input_render'', ''input_render_post'',
    ''command_menu_show'', ''command_menu_navigate'', ''command_menu_select'',
    ''command_menu_hide'', ''command_menu_render'', ''status_view_changed'',
    ''status_content_update'', ''status_block_resize'', ''slash_command_detected'',
    ''slash_command_execute'', ''slash_command_complete'', ''slash_command_error'',
    ''command_output_display'', ''add_message'', ''pre_message_inject'',
    ''post_message_inject'', ''trigger_llm_continue'', ''context_service_ready'',
    ''command_menu_filter'', ''modal_trigger'', ''status_modal_trigger'',
    ''status_modal_render'', ''modal_command_selected'', ''pause_rendering'',
    ''resume_rendering'', ''modal_show'', ''modal_hide'', ''modal_save'',
    ''fullscreen_input'', ''command_menu_activate'', ''status_takeover_start'',
    ''status_takeover_navigate'', ''status_takeover_action'', ''status_takeover_end'',
    ''show_help_overlay'', ''show_first_run_help'', ''shell_command_pre'',
    ''shell_command_post'', ''shell_command_error'', ''shell_command_cancel'',
    ''widget_selected'', ''widget_activated'', ''widget_action_executed'',
    ''widget_deactivated'', ''widget_command_execute'', ''altview_enter'', ''altview_exit'',
    ''altview_suspend'', ''altview_resume'']"

fun etype_str :: "etype \<Rightarrow> string" where
  "etype_str (EventType v) = v"
| "etype_str (StrEvent s) = s"

text \<open>The priority of a hook: a number, or a member of the enum.\<close>

datatype priority = PrioInt int | PrioEnum hook_priority

fun get_priority_value :: "priority \<Rightarrow> int" where
  "get_priority_value (PrioInt i) = i"
| "get_priority_value (PrioEnum p) = hook_priority_value p"

record hook =
  hook_name :: string
  plugin_name :: string
  event_type :: etype
  hook_prio :: priority
  callback :: string
  enabled :: bool
  timeout :: "pyval option"
  retry_attempts :: "pyval option"
  error_action :: "string option"
  status :: hook_status

type_synonym href = nat
type_synonym heap = "href \<Rightarrow> hook"

record hook_meta =
  meta_event_type :: string
  meta_priority :: priority
  meta_plugin_name :: string
  meta_enabled :: bool
  meta_timeout :: "pyval option"
  meta_error_action :: "string option"
  registration_order :: nat

record registry =
  hooks :: "(etype, href list) odict"
  hook_status :: "(string, hook_status) odict"
  hook_metadata :: "(string, hook_meta) odict"

definition empty_registry :: registry where
  "empty_registry = \<lparr>hooks = [], hook_status = [], hook_metadata = []\<rparr>"

text \<open>\<open>f"{hook.plugin_name}.{hook.name}"\<close>\<close>

definition make_key :: "string \<Rightarrow> string \<Rightarrow> string" where
  "make_key plugin name = plugin @ ''.'' @ name"

definition hook_key :: "hook \<Rightarrow> string" where
  "hook_key h = make_key (plugin_name h) (hook_name h)"

abbreviation hprio :: "hook \<Rightarrow> int" where
  "hprio h \<equiv> get_priority_value (hook_prio h)"

section \<open>Operations\<close>

definition remove_hook_from_lists :: "heap \<Rightarrow> string \<Rightarrow> registry \<Rightarrow> bool \<times> registry" where
  "remove_hook_from_lists hp key R =
     (list_ex (\<lambda>(t, hs). list_ex (\<lambda>r. hook_key (hp r) = key) hs) (hooks R),
      R\<lparr>hooks := map (\<lambda>(t, hs). (t, remove_first (\<lambda>r. hook_key (hp r) = key) hs)) (hooks R)\<rparr>)"

text \<open>\<open>list.sort(key=..., reverse=True)\<close> keeps the order of equal elements.\<close>

definition sort_by_priority :: "heap \<Rightarrow> href list \<Rightarrow> href list" where
  "sort_by_priority hp = sort_key (\<lambda>r. - hprio (hp r))"

definition register_hook :: "heap \<Rightarrow> href \<Rightarrow> registry \<Rightarrow> bool \<times> registry" where
  "register_hook hp r R =
     (let h = hp r; key = hook_key h;
          R1 = (if key \<in> od_keys (hook_status R) then snd (remove_hook_from_lists hp key R) else R);
          old = od_get_default (hooks R1) (event_type h) [];
          R2 = R1\<lparr>hooks := od_put (event_type h) (sort_by_priority hp (old @ [r])) (hooks R1),
                  hook_status := od_put key PENDING (hook_status R1)\<rparr>;
          R3 = R2\<lparr>hook_metadata := od_put key
                 \<lparr>meta_event_type = etype_str (event_type h), meta_priority = hook_prio h,
                  meta_plugin_name = plugin_name h, meta_enabled = enabled h,
                  meta_timeout = timeout h, meta_error_action = error_action h,
                  registration_order = length (hook_status R2)\<rparr> (hook_metadata R2)\<rparr>
      in (True, R3))"

definition unregister_hook :: "heap \<Rightarrow> string \<Rightarrow> string \<Rightarrow> registry \<Rightarrow> bool \<times> registry" where
  "unregister_hook hp plugin name R =
     (let key = make_key plugin name
      in if key \<notin> od_keys (hook_status R) then (False, R)
         else case remove_hook_from_lists hp key R of (removed, R1) \<Rightarrow>
           (if removed then
              (let R2 = R1\<lparr>hook_status := od_del key (hook_status R1)\<rparr>
               in if key \<in> od_keys (hook_metadata R2)
                  then (True, R2\<lparr>hook_metadata := od_del key (hook_metadata R2)\<rparr>)
                  else (False, R2))
            else (False, R1)))"

definition get_hooks_for_event :: "heap \<Rightarrow> etype \<Rightarrow> registry \<Rightarrow> href list" where
  "get_hooks_for_event hp t R = filter (\<lambda>r. enabled (hp r)) (od_get_default (hooks R) t [])"

definition status_mapping :: "string \<Rightarrow> hook_status option" where
  "status_mapping s =
     (if s = ''pending'' then Some PENDING
      else if s = ''working'' then Some WORKING
      else if s = ''completed'' then Some COMPLETED
      else if s = ''failed'' then Some FAILED
      else if s = ''timeout'' then Some TIMEOUT
      else None)"

definition update_hook_status :: "string \<Rightarrow> string \<Rightarrow> registry \<Rightarrow> bool \<times> registry" where
  "update_hook_status key s R =
     (if key \<notin> od_keys (hook_status R) then (False, R)
      else case status_mapping s of
             None \<Rightarrow> (False, R)
           | Some st \<Rightarrow> (True, R\<lparr>hook_status := od_put key st (hook_status R)\<rparr>))"

record hook_detail =
  det_status :: string
  det_event_type :: string
  det_priority :: priority
  det_enabled :: bool
  det_plugin_name :: string

record status_summary =
  total_hooks :: nat
  status_counts :: "(string, nat) odict"
  hook_details :: "(string, hook_detail) odict"

text \<open>\<open>counts[k] += 1\<close> on a \<open>defaultdict(int)\<close>.\<close>

definition count_up :: "'k \<Rightarrow> ('k, nat) odict \<Rightarrow> ('k, nat) odict" where
  "count_up k d = od_put k (od_get_default d k 0 + 1) d"

definition hook_detail_of :: "registry \<Rightarrow> string \<Rightarrow> hook_status \<Rightarrow> hook_detail" where
  "hook_detail_of R key st =
     (case od_get (hook_metadata R) key of
        Some m \<Rightarrow> \<lparr>det_status = hook_status_value st, det_event_type = meta_event_type m,
                   det_priority = meta_priority m, det_enabled = meta_enabled m,
                   det_plugin_name = meta_plugin_name m\<rparr>
      | None \<Rightarrow> \<lparr>det_status = hook_status_value st, det_event_type = ''unknown'',
                 det_priority = PrioInt 0, det_enabled = True, det_plugin_name = ''unknown''\<rparr>)"

definition get_hook_status_summary :: "registry \<Rightarrow> status_summary" where
  "get_hook_status_summary R =
     \<lparr>total_hooks = length (hook_status R),
      status_counts = fold (\<lambda>(key, st). count_up (hook_status_value st)) (hook_status R) [],
      hook_details = fold (\<lambda>(key, st). od_put key (hook_detail_of R key st)) (hook_status R) []\<rparr>"

text \<open>The first hook with the key, in the order the loops visit the lists.\<close>

definition find_hook :: "heap \<Rightarrow> string \<Rightarrow> registry \<Rightarrow> href option" where
  "find_hook hp key R = List.find (\<lambda>r. hook_key (hp r) = key) (concat (map snd (hooks R)))"

definition set_hook_enabled ::
  "string \<Rightarrow> string \<Rightarrow> bool \<Rightarrow> heap \<Rightarrow> registry \<Rightarrow> bool \<times> heap \<times> registry" where
  "set_hook_enabled plugin name en hp R =
     (let key = make_key plugin name
      in case find_hook hp key R of
           None \<Rightarrow> (False, hp, R)
         | Some r \<Rightarrow>
             (True, hp(r := (hp r)\<lparr>enabled := en\<rparr>),
              (case od_get (hook_metadata R) key of
                 Some m \<Rightarrow> R\<lparr>hook_metadata := od_put key (m\<lparr>meta_enabled := en\<rparr>) (hook_metadata R)\<rparr>
               | None \<Rightarrow> R)))"

definition enable_hook :: "string \<Rightarrow> string \<Rightarrow> heap \<Rightarrow> registry \<Rightarrow> bool \<times> heap \<times> registry" where
  "enable_hook plugin name = set_hook_enabled plugin name True"

definition disable_hook :: "string \<Rightarrow> string \<Rightarrow> heap \<Rightarrow> registry \<Rightarrow> bool \<times> heap \<times> registry" where
  "disable_hook plugin name = set_hook_enabled plugin name False"

record registry_stats =
  stats_total_hooks :: nat
  stats_event_types :: nat
  hooks_per_event_type :: "(string, nat) odict"
  priority_distribution :: "(priority, nat) odict"
  hooks_per_plugin :: "(string, nat) odict"
  stats_status_summary :: status_summary

definition get_registry_stats :: "heap \<Rightarrow> registry \<Rightarrow> registry_stats" where
  "get_registry_stats hp R =
     \<lparr>stats_total_hooks = length (hook_status R),
      stats_event_types = length (hooks R),
      hooks_per_event_type = fold (\<lambda>(t, hs). od_put (etype_str t) (length hs)) (hooks R) [],
      priority_distribution =
        fold (\<lambda>r. count_up (hook_prio (hp r))) (concat (map snd (hooks R))) [],
      hooks_per_plugin =
        fold (\<lambda>r. count_up (plugin_name (hp r))) (concat (map snd (hooks R))) [],
      stats_status_summary = get_hook_status_summary R\<rparr>"

section \<open>The invariant\<close>

definition all_hooks :: "(etype, href list) odict \<Rightarrow> href list" where
  "all_hooks d = concat (map snd d)"

abbreviation listed :: "registry \<Rightarrow> href list" where
  "listed R \<equiv> all_hooks (hooks R)"

lemma in_all_hooks: "r \<in> set (all_hooks d) \<longleftrightarrow> (\<exists>t hs. (t, hs) \<in> set d \<and> r \<in> set hs)"
  by (force simp: all_hooks_def)

abbreviation key_of :: "heap \<Rightarrow> href \<Rightarrow> string" where
  "key_of hp r \<equiv> hook_key (hp r)"

definition by_priority :: "heap \<Rightarrow> href list \<Rightarrow> bool" where
  "by_priority hp rs \<longleftrightarrow> sorted_wrt (\<lambda>a b. hprio (hp a) \<ge> hprio (hp b)) rs"

definition list_ok :: "heap \<Rightarrow> etype \<times> href list \<Rightarrow> bool" where
  "list_ok hp = (\<lambda>(t, hs). by_priority hp hs \<and> (\<forall>r \<in> set hs. event_type (hp r) = t))"

text \<open>
  One list per event type, in priority order and with the hooks of that event type only; no key
  is listed twice; exactly the listed hooks have a status and metadata.
\<close>

definition reg_inv :: "heap \<Rightarrow> registry \<Rightarrow> bool" where
  "reg_inv hp R \<longleftrightarrow>
     od_wf (hooks R) \<and> od_wf (hook_status R) \<and> od_wf (hook_metadata R) \<and>
     list_all (list_ok hp) (hooks R) \<and>
     distinct (map (key_of hp) (listed R)) \<and>
     od_keys (hook_status R) = key_of hp ` set (listed R) \<and>
     od_keys (hook_metadata R) = od_keys (hook_status R)"

lemma reg_inv_empty [inv_intros]: "reg_inv hp empty_registry"
  by (simp add: reg_inv_def empty_registry_def all_hooks_def)

subsection \<open>Sorting by priority\<close>

lemma by_priority_sorted: "by_priority hp rs \<longleftrightarrow> sorted (map (\<lambda>r. - hprio (hp r)) rs)"
  by (simp add: by_priority_def sorted_map)

lemma by_priority_sort: "by_priority hp (sort_by_priority hp rs)"
  by (simp add: by_priority_sorted sort_by_priority_def)

lemma mset_sort_by_priority [simp]: "mset (sort_by_priority hp rs) = mset rs"
  by (simp add: sort_by_priority_def)

lemma set_sort_by_priority [simp]: "set (sort_by_priority hp rs) = set rs"
  by (simp add: sort_by_priority_def)

lemma sort_by_priority_stable:
  "filter (\<lambda>x. hprio (hp x) = p) (sort_by_priority hp rs) = filter (\<lambda>x. hprio (hp x) = p) rs"
  using sort_key_stable [of "\<lambda>r. - hprio (hp r)" "- p" rs] by (simp add: sort_by_priority_def)

lemma by_priority_remove: "by_priority hp rs \<Longrightarrow> by_priority hp (remove_first P rs)"
  by (simp add: by_priority_sorted sorted_remove_first)

subsection \<open>Lists of hooks by event type\<close>

lemma listed_put:
  assumes "od_wf d"
  shows "mset (all_hooks (od_put t l d)) + mset (od_get_default d t []) =
    mset (all_hooks d) + mset l"
  using assms
proof (induction d)
  case (Cons kv d)
  then show ?case
    by (cases kv) (auto simp: od_wf_def od_get_default_def all_hooks_def)
qed (simp add: od_get_default_def all_hooks_def)

lemma get_default_in: "od_wf d \<Longrightarrow> (t, l) \<in> set d \<Longrightarrow> od_get_default d t [] = l"
  by (simp add: od_wf_def od_get_default_def)

lemma list_ok_default: "list_all (list_ok hp) d \<Longrightarrow> list_ok hp (t, od_get_default d t [])"
  by (auto simp: od_get_default_def list_all_iff list_ok_def by_priority_def
      split: option.splits dest!: map_of_SomeD)

lemma list_all_put:
  "list_all P d \<Longrightarrow> P (t, l) \<Longrightarrow> list_all P (od_put t l d)"
  by (induction d) auto

subsection \<open>Removing a key from the lists\<close>

definition without_key :: "heap \<Rightarrow> string \<Rightarrow> (etype, href list) odict \<Rightarrow> (etype, href list) odict" where
  "without_key hp key = map (\<lambda>(t, hs). (t, remove_first (\<lambda>r. key_of hp r = key) hs))"

lemma hooks_remove [simp]:
  "hooks (snd (remove_hook_from_lists hp key R)) = without_key hp key (hooks R)"
  "hook_status (snd (remove_hook_from_lists hp key R)) = hook_status R"
  "hook_metadata (snd (remove_hook_from_lists hp key R)) = hook_metadata R"
  by (simp_all add: remove_hook_from_lists_def without_key_def)

lemma removed_iff: "fst (remove_hook_from_lists hp key R) \<longleftrightarrow> key \<in> key_of hp ` set (listed R)"
  by (fastforce simp: remove_hook_from_lists_def list_ex_iff in_all_hooks)

lemma od_wf_without [simp]: "od_wf (without_key hp key d) = od_wf d"
  by (simp add: od_wf_def without_key_def case_prod_beta comp_def)

lemma listed_without:
  assumes "distinct (map (key_of hp) (all_hooks d))"
  shows "all_hooks (without_key hp key d) =
    filter (\<lambda>r. key_of hp r \<noteq> key) (all_hooks d)"
  using assms
proof (induction d)
  case (Cons kv d)
  then show ?case
    by (cases kv) (simp add: without_key_def remove_first_filter all_hooks_def)
qed (simp add: without_key_def all_hooks_def)

lemma list_ok_without: "list_all (list_ok hp) d \<Longrightarrow> list_all (list_ok hp) (without_key hp key d)"
  using set_remove_first
  by (fastforce simp: without_key_def list_all_iff list_ok_def intro: by_priority_remove)

lemma get_default_without:
  "od_get_default (without_key hp key d) t [] =
     remove_first (\<lambda>r. key_of hp r = key) (od_get_default d t [])"
  by (induction d) (auto simp: without_key_def od_get_default_def)

subsection \<open>Every operation keeps the invariant\<close>

lemma hooks_register:
  "hooks (snd (register_hook hp r R)) =
     (let d = (if key_of hp r \<in> od_keys (hook_status R) then without_key hp (key_of hp r) (hooks R)
               else hooks R)
      in od_put (event_type (hp r))
           (sort_by_priority hp (od_get_default d (event_type (hp r)) [] @ [r])) d)"
  by (simp add: register_hook_def Let_def)

lemma status_register [simp]:
  "hook_status (snd (register_hook hp r R)) = od_put (key_of hp r) PENDING (hook_status R)"
  by (simp add: register_hook_def Let_def)

lemma metadata_register:
  "od_keys (hook_metadata (snd (register_hook hp r R))) = insert (key_of hp r) (od_keys (hook_metadata R))"
  "od_wf (hook_metadata R) \<Longrightarrow> od_wf (hook_metadata (snd (register_hook hp r R)))"
  by (simp_all add: register_hook_def Let_def)

lemma reg_inv_without:
  assumes "reg_inv hp R"
  shows "all_hooks (without_key hp key (hooks R)) = filter (\<lambda>r. key_of hp r \<noteq> key) (listed R)"
    and "key \<notin> od_keys (hook_status R) \<Longrightarrow> without_key hp key (hooks R) = hooks R"
proof -
  show "all_hooks (without_key hp key (hooks R)) = filter (\<lambda>r. key_of hp r \<noteq> key) (listed R)"
    using assms by (intro listed_without) (simp add: reg_inv_def)
  assume "key \<notin> od_keys (hook_status R)"
  then have "\<forall>(t, hs) \<in> set (hooks R). \<forall>r \<in> set hs. key_of hp r \<noteq> key"
    using assms by (fastforce simp: reg_inv_def in_all_hooks)
  then show "without_key hp key (hooks R) = hooks R"
    by (auto simp: without_key_def remove_first_none intro!: map_idI)
qed

lemma hooks_register_inv:
  assumes "reg_inv hp R"
  shows "hooks (snd (register_hook hp r R)) =
    od_put (event_type (hp r))
      (sort_by_priority hp (od_get_default (without_key hp (key_of hp r) (hooks R)) (event_type (hp r)) [] @ [r]))
      (without_key hp (key_of hp r) (hooks R))"
  using reg_inv_without(2) [OF assms] by (simp add: hooks_register Let_def)

lemma listed_register:
  assumes "reg_inv hp R"
  shows "mset (listed (snd (register_hook hp r R))) =
    add_mset r (mset (filter (\<lambda>x. key_of hp x \<noteq> key_of hp r) (listed R)))"
proof -
  let ?d = "without_key hp (key_of hp r) (hooks R)"
  have "od_wf ?d" using assms by (simp add: reg_inv_def)
  from listed_put [OF this, of "event_type (hp r)"
      "sort_by_priority hp (od_get_default ?d (event_type (hp r)) [] @ [r])"]
  show ?thesis by (simp add: hooks_register_inv [OF assms] reg_inv_without(1) [OF assms])
qed

lemma image_insert_filter: "insert (f r) (f ` S) = f ` insert r {x \<in> S. f x \<noteq> f r}"
  by auto

lemma register_inv [inv_intros]:
  assumes "reg_inv hp R"
  shows "reg_inv hp (snd (register_hook hp r R))"
proof -
  let ?R = "snd (register_hook hp r R)"
  let ?d = "without_key hp (key_of hp r) (hooks R)"
  have ok: "list_all (list_ok hp) ?d"
    using assms by (simp add: reg_inv_def list_ok_without)
  from listed_register [OF assms, of r] have set: "set (listed ?R) = insert r {x \<in> set (listed R). key_of hp x \<noteq> key_of hp r}"
    by (metis set_mset_mset set_mset_add_mset_insert set_filter)
  have "mset (map (key_of hp) (listed ?R)) =
      mset (key_of hp r # map (key_of hp) (filter (\<lambda>x. key_of hp x \<noteq> key_of hp r) (listed R)))"
    using listed_register [OF assms, of r] by (metis mset_map image_mset_add_mset mset.simps(2))
  moreover have "distinct (key_of hp r # map (key_of hp) (filter (\<lambda>x. key_of hp x \<noteq> key_of hp r) (listed R)))"
    using assms by (auto simp: reg_inv_def distinct_map inj_on_def)
  ultimately have dist: "distinct (map (key_of hp) (listed ?R))"
    by (metis mset_eq_imp_distinct_iff)
  have lists: "list_all (list_ok hp) (hooks ?R)"
    unfolding hooks_register_inv [OF assms]
    using list_ok_default [OF ok, of "event_type (hp r)"]
    by (intro list_all_put ok) (auto simp: list_ok_def by_priority_sort)
  have "od_keys (hook_status R) = key_of hp ` set (listed R)"
    using assms by (simp add: reg_inv_def)
  then have "od_keys (hook_status ?R) = key_of hp ` set (listed ?R)"
    using image_insert_filter [of "key_of hp" r "set (listed R)"]
    by (simp only: set status_register od_keys_put)
  moreover have "od_wf (hooks ?R)"
    using assms by (simp add: reg_inv_def hooks_register_inv [OF assms])
  ultimately show ?thesis
    using assms dist lists by (simp add: reg_inv_def metadata_register)
qed

lemma unregister_inv_eq:
  assumes "reg_inv hp R"
  shows "unregister_hook hp plugin name R =
    (if make_key plugin name \<in> od_keys (hook_status R)
     then (True, R\<lparr>hooks := without_key hp (make_key plugin name) (hooks R),
                    hook_status := od_del (make_key plugin name) (hook_status R),
                    hook_metadata := od_del (make_key plugin name) (hook_metadata R)\<rparr>)
     else (False, R))"
proof -
  let ?k = "make_key plugin name"
  obtain removed R1 where rm: "remove_hook_from_lists hp ?k R = (removed, R1)" by fastforce
  have "R1 = R\<lparr>hooks := without_key hp ?k (hooks R)\<rparr>"
    using rm by (auto simp: remove_hook_from_lists_def without_key_def)
  moreover have "removed \<longleftrightarrow> ?k \<in> od_keys (hook_status R)"
    using removed_iff [of hp ?k R] rm assms by (simp add: reg_inv_def)
  moreover have "od_keys (hook_metadata R) = od_keys (hook_status R)"
    using assms by (simp add: reg_inv_def)
  ultimately show ?thesis using rm by (simp add: unregister_hook_def Let_def)
qed

lemma unregister_inv [inv_intros]:
  assumes "reg_inv hp R"
  shows "reg_inv hp (snd (unregister_hook hp plugin name R))"
  using assms unfolding unregister_inv_eq [OF assms] reg_inv_def
  by (auto simp: reg_inv_without(1) [OF assms] list_ok_without distinct_map inj_on_def)

lemma update_status_inv [inv_intros]:
  assumes "reg_inv hp R"
  shows "reg_inv hp (snd (update_hook_status key s R))"
  using assms by (auto simp: update_hook_status_def reg_inv_def insert_absorb split: option.splits)

text \<open>Changing what identifies no hook (its flag, its status) keeps the invariant.\<close>

definition same_identity :: "hook \<Rightarrow> hook \<Rightarrow> bool" where
  "same_identity h h' \<longleftrightarrow> hook_key h' = hook_key h \<and> event_type h' = event_type h \<and>
     hook_prio h' = hook_prio h"

lemma reg_inv_heap:
  assumes "reg_inv hp R" and "\<And>r. same_identity (hp r) (hp' r)"
  shows "reg_inv hp' R"
proof -
  have "\<And>r. key_of hp' r = key_of hp r" and "\<And>r. event_type (hp' r) = event_type (hp r)"
    and "\<And>r. hook_prio (hp' r) = hook_prio (hp r)"
    using assms(2) by (auto simp: same_identity_def)
  with assms(1) show ?thesis
    by (simp add: reg_inv_def list_ok_def by_priority_def)
qed

lemma set_enabled_inv [inv_intros]:
  assumes "reg_inv hp R" and "set_hook_enabled plugin name en hp R = (ok, hp', R')"
  shows "reg_inv hp' R'" and "same_identity (hp r) (hp' r)"
proof -
  show id: "same_identity (hp r) (hp' r)" for r
    using assms(2) by (auto simp: set_hook_enabled_def Let_def same_identity_def hook_key_def
        split: option.splits)
  let ?k = "make_key plugin name"
  have "R' = R \<or> (\<exists>m. ?k \<in> od_keys (hook_metadata R) \<and>
      R' = R\<lparr>hook_metadata := od_put ?k m (hook_metadata R)\<rparr>)"
    using assms(2) by (auto simp: set_hook_enabled_def Let_def dest: od_get_Some_key
        split: option.splits)
  then have "reg_inv hp R'"
    using assms(1) by (elim disjE exE conjE) (simp_all add: reg_inv_def insert_absorb)
  then show "reg_inv hp' R'" using id by (rule reg_inv_heap)
qed

section \<open>What the event processor relies on\<close>

text \<open>
  The processor asks for the hooks of an event type and runs them in the order it gets them. The
  interface: they are enabled, of that event type, without repetition, highest priority first.
\<close>

locale hook_source =
  fixes hook_of :: "'s \<Rightarrow> href \<Rightarrow> hook"
    and listing :: "'s \<Rightarrow> etype \<Rightarrow> href list"
    and ok :: "'s \<Rightarrow> bool"
  assumes listing_sound: "ok s \<Longrightarrow> r \<in> set (listing s t) \<Longrightarrow>
      enabled (hook_of s r) \<and> event_type (hook_of s r) = t"
    and listing_ordered: "ok s \<Longrightarrow>
      sorted_wrt (\<lambda>a b. hprio (hook_of s a) \<ge> hprio (hook_of s b)) (listing s t)"
    and listing_distinct: "ok s \<Longrightarrow> distinct (map (\<lambda>r. hook_key (hook_of s r)) (listing s t))"
begin

lemma higher_runs_first:
  assumes "ok s" and "listing s t = xs @ r # ys" and "r' \<in> set (listing s t)"
    and "hprio (hook_of s r') > hprio (hook_of s r)"
  shows "r' \<in> set xs"
proof -
  have "\<forall>y \<in> set ys. hprio (hook_of s r) \<ge> hprio (hook_of s y)"
    using listing_ordered [OF assms(1), of t] by (simp add: assms(2) sorted_wrt_append)
  with assms(2-4) show ?thesis by auto
qed

lemma runs_once:
  assumes "ok s" and "listing s t = xs @ r # ys"
  shows "r \<notin> set xs \<and> r \<notin> set ys"
proof -
  have "distinct (listing s t)" using listing_distinct [OF assms(1), of t] by (simp add: distinct_map)
  then show ?thesis by (simp add: assms(2))
qed

end

lemma filter_by_priority: "by_priority hp rs \<Longrightarrow> by_priority hp (filter P rs)"
  by (simp add: by_priority_def sorted_wrt_filter)

lemma hooks_of_event:
  assumes "reg_inv hp R"
  shows "r \<in> set (od_get_default (hooks R) t []) \<longleftrightarrow> r \<in> set (listed R) \<and> event_type (hp r) = t"
proof
  assume "r \<in> set (od_get_default (hooks R) t [])"
  moreover from this have "r \<in> set (listed R)"
    by (cases "od_get (hooks R) t") (auto simp: in_all_hooks od_get_default_def intro: map_of_SomeD)
  moreover have "list_ok hp (t, od_get_default (hooks R) t [])"
    using assms by (simp add: reg_inv_def list_ok_default)
  ultimately show "r \<in> set (listed R) \<and> event_type (hp r) = t" by (simp add: list_ok_def)
next
  assume r: "r \<in> set (listed R) \<and> event_type (hp r) = t"
  then obtain t' hs where hs: "(t', hs) \<in> set (hooks R)" "r \<in> set hs" by (auto simp: in_all_hooks)
  moreover from this assms r have "t' = t" by (auto simp: reg_inv_def list_all_iff list_ok_def)
  ultimately show "r \<in> set (od_get_default (hooks R) t [])"
    using assms get_default_in [of "hooks R" t hs] by (simp add: reg_inv_def)
qed

lemma distinct_keys_default:
  assumes "reg_inv hp R"
  shows "distinct (map (key_of hp) (od_get_default (hooks R) t []))"
proof (cases "od_get (hooks R) t")
  case (Some l)
  then have "(t, l) \<in> set (hooks R)" by (rule map_of_SomeD)
  then obtain xs ys where "hooks R = xs @ (t, l) # ys" by (meson split_list)
  with assms Some show ?thesis by (simp add: reg_inv_def all_hooks_def od_get_default_def)
qed (simp add: od_get_default_def)

interpretation reg: hook_source "\<lambda>s. fst s" "\<lambda>s t. get_hooks_for_event (fst s) t (snd s)"
  "\<lambda>s. reg_inv (fst s) (snd s)"
proof unfold_locales
  fix s :: "heap \<times> registry" and r t
  assume inv: "reg_inv (fst s) (snd s)"
  show "enabled (fst s r) \<and> event_type (fst s r) = t"
    if "r \<in> set (get_hooks_for_event (fst s) t (snd s))"
    using that hooks_of_event [OF inv] by (simp add: get_hooks_for_event_def)
  have "by_priority (fst s) (od_get_default (hooks (snd s)) t [])"
    using inv list_ok_default [of "fst s" "hooks (snd s)" t] by (simp add: reg_inv_def list_ok_def)
  then show "sorted_wrt (\<lambda>a b. hprio (fst s b) \<le> hprio (fst s a))
      (get_hooks_for_event (fst s) t (snd s))"
    using filter_by_priority by (simp add: get_hooks_for_event_def by_priority_def)
  show "distinct (map (\<lambda>r. hook_key (fst s r)) (get_hooks_for_event (fst s) t (snd s)))"
    using distinct_keys_default [OF inv, of t]
    by (simp add: get_hooks_for_event_def distinct_map inj_on_def)
qed

section \<open>The reachable registries\<close>

text \<open>
  The plugins' operations on the registry; \<open>new_object\<close> is a plugin that makes or changes a
  hook object which no list holds.
\<close>

inductive registry_step :: "heap \<times> registry \<Rightarrow> heap \<times> registry \<Rightarrow> bool" where
  new_object: "r \<notin> set (listed R) \<Longrightarrow> registry_step (hp, R) (hp(r := h), R)"
| register: "registry_step (hp, R) (hp, snd (register_hook hp r R))"
| unregister: "registry_step (hp, R) (hp, snd (unregister_hook hp plugin name R))"
| update_status: "registry_step (hp, R) (hp, snd (update_hook_status key st R))"
| switch: "set_hook_enabled plugin name en hp R = (done, hp', R') \<Longrightarrow>
    registry_step (hp, R) (hp', R')"

inductive registry_reachable :: "heap \<Rightarrow> heap \<times> registry \<Rightarrow> bool" for hp0 where
  start: "registry_reachable hp0 (hp0, empty_registry)"
| step: "registry_reachable hp0 s \<Longrightarrow> registry_step s s' \<Longrightarrow> registry_reachable hp0 s'"

lemma new_object_inv:
  assumes "reg_inv hp R" and "r \<notin> set (listed R)"
  shows "reg_inv (hp(r := h)) R"
proof -
  have "map (key_of (hp(r := h))) (listed R) = map (key_of hp) (listed R)"
    using assms(2) by (auto intro!: map_cong)
  moreover have "list_all (list_ok (hp(r := h))) (hooks R)"
  proof (unfold list_all_iff, rule ballI)
    fix th assume th: "th \<in> set (hooks R)"
    obtain t hs where [simp]: "th = (t, hs)" by (cases th)
    have "\<forall>x \<in> set hs. x \<noteq> r" using assms(2) th by (auto simp: in_all_hooks)
    moreover have "list_ok hp (t, hs)" using assms(1) th by (auto simp: reg_inv_def list_all_iff)
    ultimately show "list_ok (hp(r := h)) th"
      by (auto simp: list_ok_def by_priority_def elim!: sorted_wrt_mono_rel [rotated])
  qed
  ultimately show ?thesis
    using assms(1) unfolding reg_inv_def by (metis list.set_map)
qed

lemma registry_step_inv:
  "registry_step s s' \<Longrightarrow> reg_inv (fst s) (snd s) \<Longrightarrow> reg_inv (fst s') (snd s')"
  by (induction rule: registry_step.induct)
    (auto intro: new_object_inv register_inv unregister_inv update_status_inv set_enabled_inv)

lemma reachable_reg_inv: "registry_reachable hp0 s \<Longrightarrow> reg_inv (fst s) (snd s)"
  by (induction rule: registry_reachable.induct)
    (auto intro: reg_inv_empty registry_step_inv)

section \<open>Properties\<close>

text \<open>C33: in every registry that the operations can reach, the hooks returned for an event are
  enabled hooks of that event in descending priority with no key twice, every enabled registered
  hook of the event is among them, and exactly the registered hooks have a status and metadata.\<close>

theorem registry_invariant:
  assumes "registry_reachable hp0 (hp, R)"
  shows "sorted_wrt (\<lambda>a b. hprio (hp a) \<ge> hprio (hp b)) (get_hooks_for_event hp t R) \<and>
    distinct (map (\<lambda>r. hook_key (hp r)) (get_hooks_for_event hp t R)) \<and>
    set (get_hooks_for_event hp t R) =
      {r \<in> set (all_hooks (hooks R)). enabled (hp r) \<and> event_type (hp r) = t} \<and>
    od_keys (hook_status R) = (\<lambda>r. hook_key (hp r)) ` set (all_hooks (hooks R)) \<and>
    od_keys (hook_metadata R) = od_keys (hook_status R)"
proof -
  from reachable_reg_inv [OF assms] have inv: "reg_inv hp R" by simp
  with reg.listing_ordered [of "(hp, R)" t] reg.listing_distinct [of "(hp, R)" t] hooks_of_event [OF inv, of _ t]
  show ?thesis by (auto simp: get_hooks_for_event_def reg_inv_def)
qed

definition demo_hook :: "string \<Rightarrow> string \<Rightarrow> int \<Rightarrow> hook" where
  "demo_hook plugin name prio =
     \<lparr>hook_name = name, plugin_name = plugin, event_type = EventType ''tool_call_pre'',
      hook_prio = PrioInt prio, callback = ''cb'', enabled = True, timeout = None,
      retry_attempts = None, error_action = None, status = PENDING\<rparr>"

theorem registry_invariant_witness:
  "let hp = (\<lambda>r. if r = 1 then demo_hook ''p'' ''a'' 1 else demo_hook ''p'' ''b'' 2);
       R = snd (register_hook hp 2 (snd (register_hook hp 1 empty_registry))) in
     sorted_wrt (\<lambda>a b. hprio (hp a) \<ge> hprio (hp b)) (get_hooks_for_event hp (EventType ''tool_call_pre'') R) \<and>
     get_hooks_for_event hp (EventType ''tool_call_pre'') R = [2, 1]"
proof -
  let ?hp = "\<lambda>r. if r = 1 then demo_hook ''p'' ''a'' 1 else demo_hook ''p'' ''b'' 2"
  let ?R = "snd (register_hook ?hp 2 (snd (register_hook ?hp 1 empty_registry)))"
  have "registry_reachable ?hp (?hp, ?R)"
    by (rule registry_reachable.step [OF registry_reachable.step [OF registry_reachable.start
          registry_step.register] registry_step.register])
  from registry_invariant [OF this, of "EventType ''tool_call_pre''"] show ?thesis
    by (simp add: Let_def register_hook_def empty_registry_def get_hooks_for_event_def hook_key_def
        demo_hook_def od_get_default_def sort_by_priority_def make_key_def remove_hook_from_lists_def)
qed

text \<open>a newly registered hook is listed under its event, with status \<open>PENDING\<close>; among the
  hooks of one priority it comes last, and the order of the others of each priority is kept.\<close>

theorem register_hook_order:
  assumes "reg_inv hp R" and "hook_key (hp r) \<notin> od_keys (hook_status R)"
    and "register_hook hp r R = (ok, R')"
  shows "ok \<and> od_get (hook_status R') (hook_key (hp r)) = Some PENDING \<and>
    filter (\<lambda>x. hprio (hp x) = p) (od_get_default (hooks R') (event_type (hp r)) []) =
      filter (\<lambda>x. hprio (hp x) = p) (od_get_default (hooks R) (event_type (hp r)) []) @
      (if hprio (hp r) = p then [r] else []) \<and>
    (\<forall>t. t \<noteq> event_type (hp r) \<longrightarrow> od_get (hooks R') t = od_get (hooks R) t)"
proof -
  from assms(3) have R': "R' = snd (register_hook hp r R)" and ok by (auto simp: register_hook_def Let_def)
  from hooks_register_inv [OF assms(1), of r] reg_inv_without(2) [OF assms(1,2)]
  have "hooks R' = od_put (event_type (hp r))
      (sort_by_priority hp (od_get_default (hooks R) (event_type (hp r)) [] @ [r])) (hooks R)"
    by (simp add: R')
  with \<open>ok\<close> show ?thesis by (auto simp: R' od_get_default_def sort_by_priority_stable)
qed

theorem register_hook_order_witness:
  "od_get (hook_status (snd (register_hook (\<lambda>r. demo_hook ''p'' ''h'' 5) 1 empty_registry))) ''p.h'' = Some PENDING"
  using register_hook_order [of "\<lambda>r. demo_hook ''p'' ''h'' 5" empty_registry 1
      "fst (register_hook (\<lambda>r. demo_hook ''p'' ''h'' 5) 1 empty_registry)"
      "snd (register_hook (\<lambda>r. demo_hook ''p'' ''h'' 5) 1 empty_registry)" 5] reg_inv_empty
  by (simp add: hook_key_def make_key_def demo_hook_def empty_registry_def)

text \<open>unregistering a registered hook succeeds and removes it from every list, its status and
  its metadata, and changes nothing else; afterwards the same call reports that nothing is there.\<close>

theorem unregister_hook_removes:
  assumes "reg_inv hp R" and "make_key plugin name \<in> od_keys (hook_status R)"
    and "unregister_hook hp plugin name R = (ok, R')"
  shows "ok \<and> (\<forall>t. od_get_default (hooks R') t [] =
      filter (\<lambda>r. hook_key (hp r) \<noteq> make_key plugin name) (od_get_default (hooks R) t [])) \<and>
    od_get (hook_status R') = (od_get (hook_status R))(make_key plugin name := None) \<and>
    od_get (hook_metadata R') = (od_get (hook_metadata R))(make_key plugin name := None) \<and>
    unregister_hook hp plugin name R' = (False, R')"
proof -
  let ?k = "make_key plugin name"
  from assms have ok: "ok" and R': "R' = R\<lparr>hooks := without_key hp ?k (hooks R),
      hook_status := od_del ?k (hook_status R), hook_metadata := od_del ?k (hook_metadata R)\<rparr>"
    by (auto simp: unregister_inv_eq [OF assms(1)])
  have "od_get_default (hooks R') t [] =
      filter (\<lambda>r. hook_key (hp r) \<noteq> ?k) (od_get_default (hooks R) t [])" for t
    using remove_first_filter [OF distinct_keys_default [OF assms(1), of t]]
    by (simp add: R' get_default_without)
  moreover have "?k \<notin> od_keys (hook_status R')" by (simp add: R')
  ultimately show ?thesis
    using ok by (simp add: R' unregister_hook_def Let_def fun_eq_iff)
qed

theorem unregister_hook_removes_witness:
  "fst (unregister_hook (\<lambda>r. demo_hook ''p'' ''h'' 5) ''p'' ''h''
     (snd (register_hook (\<lambda>r. demo_hook ''p'' ''h'' 5) 1 empty_registry)))"
  using unregister_hook_removes [of "\<lambda>r. demo_hook ''p'' ''h'' 5"
      "snd (register_hook (\<lambda>r. demo_hook ''p'' ''h'' 5) 1 empty_registry)" "''p''" "''h''"
      "fst (unregister_hook (\<lambda>r. demo_hook ''p'' ''h'' 5) ''p'' ''h''
         (snd (register_hook (\<lambda>r. demo_hook ''p'' ''h'' 5) 1 empty_registry)))"
      "snd (unregister_hook (\<lambda>r. demo_hook ''p'' ''h'' 5) ''p'' ''h''
         (snd (register_hook (\<lambda>r. demo_hook ''p'' ''h'' 5) 1 empty_registry)))"]
    register_inv [OF reg_inv_empty]
  by (simp add: hook_key_def demo_hook_def)

text \<open>the key of a hook does not determine its plugin and its name: two hooks of different
  plugins can share a key, and registering the second silently drops the first from the event
  system.\<close>

theorem hook_key_collision:
  "\<exists>hp r1 r2 R. plugin_name (hp r1) \<noteq> plugin_name (hp r2) \<and> hook_name (hp r1) \<noteq> hook_name (hp r2) \<and>
     R = snd (register_hook hp r2 (snd (register_hook hp r1 empty_registry))) \<and>
     enabled (hp r1) \<and> r1 \<notin> set (get_hooks_for_event hp (event_type (hp r1)) R)"
proof (intro exI conjI)
  let ?hp = "(\<lambda>r. if r = 1 then demo_hook ''a'' ''b.c'' 5 else demo_hook ''a.b'' ''c'' 5) :: heap"
  show "plugin_name (?hp 1) \<noteq> plugin_name (?hp 2)" and "hook_name (?hp 1) \<noteq> hook_name (?hp 2)"
    and "enabled (?hp 1)" by (simp_all add: demo_hook_def)
  show "1 \<notin> set (get_hooks_for_event ?hp (event_type (?hp 1))
      (snd (register_hook ?hp 2 (snd (register_hook ?hp 1 empty_registry)))))"
    by (simp add: Let_def register_hook_def empty_registry_def get_hooks_for_event_def hook_key_def
        demo_hook_def od_get_default_def sort_by_priority_def make_key_def remove_hook_from_lists_def)
qed simp

end
