(* ===== verification/Hook_Executor.thy ===== *)
theory Hook_Executor
  imports Hook_Registry
begin

text \<open>
  Running one hook (\<open>kollabor_events/executor.py\<close>, class \<open>HookExecutor\<close>): the defaults
  and limits for timeout, retries and error action, the retry loop with its backoff and its time
  budget, and what it does to the event and to the hook.

  The callbacks are plugin code, and the clock and the sleep are the runtime's, so they are fields
  of a parameter \<open>env\<close>: \<open>run\<close> gives how an awaited call with a timeout ends and what it did
  to the event and to the system (a callback may change the event in place and may use the
  registry), \<open>clock\<close> reads the time of a world state, \<open>sleep\<close> lets time pass. Reading the
  clock changes nothing. The executor runs a hook under the hook's lock, so one call is one step.
\<close>

section \<open>Data\<close>

text \<open>
  An event. The time stamp is left out: nothing reads it. \<open>cancel_reason\<close> is an attribute that
  hooks add to the object; \<open>None\<close> while it is not there.
\<close>

record event =
  ev_type :: etype
  ev_data :: pydict
  ev_source :: string
  processed :: bool
  cancelled :: bool
  ev_result :: pydict
  cancel_reason :: "string option"

record 'w sys =
  heap_of :: heap
  reg_of :: registry
  world :: 'w

text \<open>How an awaited callback ends: a value, a timeout, or an exception with its text.\<close>

datatype cb_outcome = Returned pyval | TimedOut | Raised string

record 'w env =
  clock :: "'w \<Rightarrow> real"
  sleep :: "nat \<Rightarrow> 'w \<Rightarrow> 'w"
  run :: "string \<Rightarrow> real \<Rightarrow> event \<Rightarrow> 'w sys \<Rightarrow> cb_outcome \<times> event \<times> 'w sys"

record hooks_config =
  default_timeout :: "pyval option"
  default_retries :: "pyval option"
  default_error_action :: "string option"

record attempt_info =
  att_attempt :: nat
  att_duration_ms :: int
  att_success :: bool
  att_error :: "string option"

record hook_result =
  res_key :: string
  success :: bool
  res_value :: pyval
  res_error :: "string option"
  duration_ms :: int
  retry_count :: nat
  attempts :: "attempt_info list"

section \<open>Limits\<close>

definition DEFAULT_HOOK_TIMEOUT :: pyval where "DEFAULT_HOOK_TIMEOUT = PInt 30"
definition DEFAULT_HOOK_RETRIES :: int where "DEFAULT_HOOK_RETRIES = 3"
definition DEFAULT_ERROR_ACTION :: string where "DEFAULT_ERROR_ACTION = ''continue''"
definition ABSOLUTE_MAX_RETRIES :: int where "ABSOLUTE_MAX_RETRIES = 10"
definition MIN_TIMEOUT :: real where "MIN_TIMEOUT = 1"
definition MAX_TIMEOUT :: real where "MAX_TIMEOUT = 300"
definition VALID_ERROR_ACTIONS :: "string list" where
  "VALID_ERROR_ACTIONS = [''continue'', ''stop'']"
definition MAX_TOTAL_RETRY_DURATION :: real where "MAX_TOTAL_RETRY_DURATION = 300"

lemmas limit_defs = DEFAULT_HOOK_TIMEOUT_def DEFAULT_HOOK_RETRIES_def DEFAULT_ERROR_ACTION_def
  ABSOLUTE_MAX_RETRIES_def MIN_TIMEOUT_def MAX_TIMEOUT_def VALID_ERROR_ACTIONS_def
  MAX_TOTAL_RETRY_DURATION_def

text \<open>\<open>isinstance(v, (int, float))\<close> and \<open>isinstance(v, int)\<close>; a \<open>bool\<close> is an \<open>int\<close>.\<close>

fun as_number :: "pyval \<Rightarrow> real option" where
  "as_number (PInt i) = Some (real_of_int i)"
| "as_number (PFloat r) = Some r"
| "as_number (PBool b) = Some (if b then 1 else 0)"
| "as_number _ = None"

fun as_int :: "pyval \<Rightarrow> int option" where
  "as_int (PInt i) = Some i"
| "as_int (PBool b) = Some (if b then 1 else 0)"
| "as_int _ = None"

definition effective_timeout :: "hooks_config \<Rightarrow> hook \<Rightarrow> real" where
  "effective_timeout cfg h =
     (let v = (case timeout h of
                 Some t \<Rightarrow> t
               | None \<Rightarrow> (case default_timeout cfg of Some d \<Rightarrow> d | None \<Rightarrow> DEFAULT_HOOK_TIMEOUT))
      in case as_number v of
           None \<Rightarrow> MIN_TIMEOUT
         | Some x \<Rightarrow> if x < MIN_TIMEOUT then MIN_TIMEOUT
                     else if x > MAX_TIMEOUT then MAX_TIMEOUT else x)"

definition effective_retries :: "hooks_config \<Rightarrow> hook \<Rightarrow> nat" where
  "effective_retries cfg h =
     (let v = (case retry_attempts h of
                 Some t \<Rightarrow> t
               | None \<Rightarrow> (case default_retries cfg of Some d \<Rightarrow> d | None \<Rightarrow> PInt DEFAULT_HOOK_RETRIES))
      in nat (case as_int v of
           None \<Rightarrow> DEFAULT_HOOK_RETRIES
         | Some x \<Rightarrow> if x < 0 then DEFAULT_HOOK_RETRIES
                     else if x > ABSOLUTE_MAX_RETRIES then ABSOLUTE_MAX_RETRIES else x))"

definition effective_action :: "hooks_config \<Rightarrow> hook \<Rightarrow> string" where
  "effective_action cfg h =
     (let a = (case error_action h of
                 Some a \<Rightarrow> a
               | None \<Rightarrow> (case default_error_action cfg of Some d \<Rightarrow> d | None \<Rightarrow> DEFAULT_ERROR_ACTION))
      in if a \<in> set VALID_ERROR_ACTIONS then a else DEFAULT_ERROR_ACTION)"

section \<open>Operations\<close>

definition set_status :: "href \<Rightarrow> hook_status \<Rightarrow> 'w sys \<Rightarrow> 'w sys" where
  "set_status r st s = s\<lparr>heap_of := (heap_of s)(r := (heap_of s r)\<lparr>status := st\<rparr>)\<rparr>"

lemma set_status_sel [simp, state_simps]:
  "world (set_status r st s) = world s" "reg_of (set_status r st s) = reg_of s"
  "heap_of (set_status r st s) = (heap_of s)(r := (heap_of s r)\<lparr>status := st\<rparr>)"
  by (simp_all add: set_status_def)

definition elapsed_ms :: "real \<Rightarrow> real \<Rightarrow> int" where
  "elapsed_ms t0 t1 = max 1 \<lfloor>(t1 - t0) * 1000\<rfloor>"

definition apply_data_transformation :: "event \<Rightarrow> pyval \<Rightarrow> event" where
  "apply_data_transformation ev d =
     (case d of PDict e \<Rightarrow> ev\<lparr>ev_data := od_update (ev_data ev) e\<rparr> | _ \<Rightarrow> ev)"

text \<open>\<open>if isinstance(result, dict) and "data" in result\<close>\<close>

definition transform_event :: "event \<Rightarrow> pyval \<Rightarrow> event" where
  "transform_event ev v =
     (case v of
        PDict d \<Rightarrow> (case od_get d ''data'' of
                      Some x \<Rightarrow> apply_data_transformation ev x | None \<Rightarrow> ev)
      | _ \<Rightarrow> ev)"

definition backoff_delay :: "nat \<Rightarrow> nat" where
  "backoff_delay attempt = min (2 ^ attempt) 30"

definition new_attempt :: "nat \<Rightarrow> int \<Rightarrow> string option \<Rightarrow> attempt_info" where
  "new_attempt attempt ms err =
     \<lparr>att_attempt = attempt + 1, att_duration_ms = ms, att_success = (err = None), att_error = err\<rparr>"

text \<open>The error text and the status of an attempt that did not return.\<close>

fun failure :: "cb_outcome \<Rightarrow> string \<times> hook_status" where
  "failure (Raised e) = (e, FAILED)"
| "failure _ = (''timeout'', TIMEOUT)"

text \<open>
  The retry loop with \<open>n\<close> attempts left of \<open>maxa\<close>. Both exception branches of the source do
  the same with their own text and status.
\<close>

fun attempt_loop ::
  "'w env \<Rightarrow> href \<Rightarrow> real \<Rightarrow> string \<Rightarrow> nat \<Rightarrow> real \<Rightarrow> nat \<Rightarrow> hook_result \<Rightarrow> event \<Rightarrow> 'w sys \<Rightarrow>
   hook_result \<times> event \<times> 'w sys" where
  "attempt_loop E r tmo act maxa start 0 res ev s = (res, ev, s)"
| "attempt_loop E r tmo act maxa start (Suc n) res ev s =
     (let attempt = maxa - Suc n
      in if clock E (world s) - start > MAX_TOTAL_RETRY_DURATION
         then (res\<lparr>res_error := Some ''max_retry_duration_exceeded'', retry_count := attempt\<rparr>, ev, s)
         else
           (let t0 = clock E (world s);
                s1 = set_status r WORKING s
            in case run E (callback (heap_of s1 r)) tmo ev s1 of (out, ev1, s2) \<Rightarrow>
              (let ms = elapsed_ms t0 (clock E (world s2))
               in case out of
                    Returned v \<Rightarrow>
                      (res\<lparr>success := True, res_value := v, retry_count := attempt,
                           attempts := attempts res @ [new_attempt attempt ms None]\<rparr>,
                       transform_event ev1 v, set_status r COMPLETED s2)
                  | _ \<Rightarrow>
                      (let (err, st) = failure out;
                           res1 = res\<lparr>attempts := attempts res @ [new_attempt attempt ms (Some err)]\<rparr>;
                           s3 = set_status r st s2
                       in if n = 0
                          then (res1\<lparr>res_error := Some err, retry_count := attempt\<rparr>,
                                (if act = ''stop'' then ev1\<lparr>cancelled := True\<rparr> else ev1), s3)
                          else attempt_loop E r tmo act maxa start n res1 ev1
                                 (s3\<lparr>world := sleep E (backoff_delay attempt) (world s3)\<rparr>)))))"

definition new_result :: "string \<Rightarrow> hook_result" where
  "new_result key =
     \<lparr>res_key = key, success = False, res_value = PNone, res_error = None, duration_ms = 0,
      retry_count = 0, attempts = []\<rparr>"

definition execute_hook ::
  "'w env \<Rightarrow> hooks_config \<Rightarrow> href \<Rightarrow> event \<Rightarrow> 'w sys \<Rightarrow> hook_result \<times> event \<times> 'w sys" where
  "execute_hook E cfg r ev s =
     (let h = heap_of s r; res = new_result (hook_key h)
      in if \<not> enabled h then (res\<lparr>res_error := Some ''hook_disabled''\<rparr>, ev, s)
         else if cancelled ev then (res\<lparr>res_error := Some ''event_cancelled''\<rparr>, ev, s)
         else
           (let start = clock E (world s); maxa = effective_retries cfg h + 1
            in case attempt_loop E r (effective_timeout cfg h) (effective_action cfg h) maxa start
                      maxa res ev s of (res', ev', s') \<Rightarrow>
                 (res'\<lparr>duration_ms := elapsed_ms start (clock E (world s'))\<rparr>, ev', s')))"

record execution_stats =
  st_total_hooks :: nat
  st_successful :: nat
  st_failed :: nat
  st_timed_out :: nat
  st_total_duration_ms :: int
  st_avg_duration_ms :: int

definition get_execution_stats :: "hook_result list \<Rightarrow> execution_stats" where
  "get_execution_stats rs =
     (let total = (\<Sum>r \<leftarrow> rs. duration_ms r)
      in if rs = []
         then \<lparr>st_total_hooks = 0, st_successful = 0, st_failed = 0, st_timed_out = 0,
               st_total_duration_ms = 0, st_avg_duration_ms = 0\<rparr>
         else \<lparr>st_total_hooks = length rs,
               st_successful = length (filter success rs),
               st_failed = length (filter (\<lambda>r. case res_error r of
                   None \<Rightarrow> False
                 | Some e \<Rightarrow> e \<noteq> [] \<and> e \<notin> {''timeout'', ''hook_disabled'', ''event_cancelled''}) rs),
               st_timed_out = length (filter (\<lambda>r. res_error r = Some ''timeout'') rs),
               st_total_duration_ms = total,
               st_avg_duration_ms = total div int (length rs)\<rparr>)"

section \<open>Limits hold for every configuration and every hook\<close>

lemma effective_timeout_bounds: "MIN_TIMEOUT \<le> effective_timeout cfg h \<and> effective_timeout cfg h \<le> MAX_TIMEOUT"
  by (auto simp: effective_timeout_def Let_def limit_defs split: option.splits)

lemma effective_retries_bound: "effective_retries cfg h \<le> 10"
  by (auto simp: effective_retries_def Let_def limit_defs split: option.splits)

lemma effective_action_valid: "effective_action cfg h = ''stop'' \<or> effective_action cfg h = ''continue''"
  by (auto simp: effective_action_def Let_def limit_defs split: option.splits)

lemma backoff_delay_bound: "1 \<le> backoff_delay n \<and> backoff_delay n \<le> 30"
  by (simp add: backoff_delay_def)

section \<open>The retry loop\<close>

text \<open>
  What has happened before a pass of the loop: \<open>k\<close> failed attempts, numbered from one, and
  nothing else in the result.
\<close>

definition failed_so_far :: "nat \<Rightarrow> hook_result \<Rightarrow> bool" where
  "failed_so_far k res \<longleftrightarrow> \<not> success res \<and> res_error res = None \<and>
     map att_attempt (attempts res) = [1..<Suc k] \<and> (\<forall>a \<in> set (attempts res). \<not> att_success a)"

text \<open>What the loop returns, whichever way it ends.\<close>

definition finished :: "nat \<Rightarrow> hook_result \<Rightarrow> bool" where
  "finished maxa res \<longleftrightarrow>
     map att_attempt (attempts res) = [1..<Suc (length (attempts res))] \<and>
     length (attempts res) \<le> maxa \<and> retry_count res < maxa \<and>
     (if success res
      then res_error res = None \<and> retry_count res + 1 = length (attempts res) \<and>
           att_success (last (attempts res)) \<and>
           (\<forall>a \<in> set (butlast (attempts res)). \<not> att_success a)
      else res_error res \<noteq> None \<and> (\<forall>a \<in> set (attempts res). \<not> att_success a))"

lemma failed_so_far_length: "failed_so_far k res \<Longrightarrow> length (attempts res) = k"
  by (metis diff_Suc_1 failed_so_far_def length_map length_upt)

lemma failed_so_far_new [simp]: "failed_so_far 0 (new_result key)"
  by (simp add: failed_so_far_def new_result_def)

lemma failed_so_far_Suc:
  "failed_so_far k res \<Longrightarrow>
   failed_so_far (Suc k) (res\<lparr>attempts := attempts res @ [new_attempt k ms (Some e)]\<rparr>)"
  by (simp add: failed_so_far_def new_attempt_def)

lemma finished_success:
  assumes "failed_so_far k res" and "k < maxa"
  shows "finished maxa (res\<lparr>success := True, res_value := v, retry_count := k,
    attempts := attempts res @ [new_attempt k ms None]\<rparr>)"
  using assms failed_so_far_length [OF assms(1)]
  by (simp add: finished_def failed_so_far_def new_attempt_def)

lemma finished_error:
  assumes "failed_so_far k res" and "j < maxa" and "k \<le> maxa"
  shows "finished maxa (res\<lparr>res_error := Some e, retry_count := j\<rparr>)"
  using assms failed_so_far_length [OF assms(1)]
  by (simp add: finished_def failed_so_far_def)

text \<open>
  A rule for the loop: \<open>P k\<close> holds before attempt number \<open>k\<close> (from zero), \<open>Q\<close> of what
  the loop returns. The three ways out are the exceeded time budget, a callback that returns, and
  the failure of the last attempt.
\<close>

definition call :: "'w env \<Rightarrow> href \<Rightarrow> real \<Rightarrow> event \<Rightarrow> 'w sys \<Rightarrow> cb_outcome \<times> event \<times> 'w sys" where
  "call E r tmo ev s =
     (let s1 = set_status r WORKING s in run E (callback (heap_of s1 r)) tmo ev s1)"

lemma attempt_loop_rule:
  assumes timeup: "\<And>k res ev s. P k res ev s \<Longrightarrow> k < maxa \<Longrightarrow>
        clock E (world s) - start > MAX_TOTAL_RETRY_DURATION \<Longrightarrow>
        Q (res\<lparr>res_error := Some ''max_retry_duration_exceeded'', retry_count := k\<rparr>, ev, s)"
    and returned: "\<And>k res ev s v ev1 s2 ms. P k res ev s \<Longrightarrow> k < maxa \<Longrightarrow>
        call E r tmo ev s = (Returned v, ev1, s2) \<Longrightarrow>
        Q (res\<lparr>success := True, res_value := v, retry_count := k,
               attempts := attempts res @ [new_attempt k ms None]\<rparr>,
           transform_event ev1 v, set_status r COMPLETED s2)"
    and last: "\<And>k res ev s out ev1 s2 ms err st. P k res ev s \<Longrightarrow> Suc k = maxa \<Longrightarrow>
        call E r tmo ev s = (out, ev1, s2) \<Longrightarrow> (\<nexists>v. out = Returned v) \<Longrightarrow> failure out = (err, st) \<Longrightarrow>
        Q (res\<lparr>attempts := attempts res @ [new_attempt k ms (Some err)], res_error := Some err,
               retry_count := k\<rparr>,
           (if act = ''stop'' then ev1\<lparr>cancelled := True\<rparr> else ev1), set_status r st s2)"
    and retry: "\<And>k res ev s out ev1 s2 ms err st. P k res ev s \<Longrightarrow> Suc k < maxa \<Longrightarrow>
        call E r tmo ev s = (out, ev1, s2) \<Longrightarrow> (\<nexists>v. out = Returned v) \<Longrightarrow> failure out = (err, st) \<Longrightarrow>
        P (Suc k) (res\<lparr>attempts := attempts res @ [new_attempt k ms (Some err)]\<rparr>) ev1
          ((set_status r st s2)\<lparr>world := sleep E (backoff_delay k) (world s2)\<rparr>)"
    and init: "P (maxa - n) res ev s" "0 < n" "n \<le> maxa"
  shows "Q (attempt_loop E r tmo act maxa start n res ev s)"
  using init
proof (induction n arbitrary: res ev s)
  case (Suc n)
  let ?k = "maxa - Suc n"
  obtain out ev1 s2 where call: "call E r tmo ev s = (out, ev1, s2)" by (cases "call E r tmo ev s") auto
  then have run: "run E (callback (heap_of s r)) tmo ev (set_status r WORKING s) = (out, ev1, s2)" by (simp add: call_def Let_def)
  obtain err st where fl: "failure out = (err, st)" by (cases "failure out")
  have k: "?k < maxa" and k_last: "n = 0 \<Longrightarrow> Suc ?k = maxa" and k_next: "0 < n \<Longrightarrow> Suc ?k < maxa"
    and Suc_k: "Suc ?k = maxa - n" using Suc.prems by auto
  consider (timeup) "clock E (world s) - start > MAX_TOTAL_RETRY_DURATION"
    | (returned) v where "\<not> clock E (world s) - start > MAX_TOTAL_RETRY_DURATION" "out = Returned v"
    | (failed) "\<not> clock E (world s) - start > MAX_TOTAL_RETRY_DURATION" "\<nexists>v. out = Returned v"
    by auto
  then show ?case
  proof cases
    case failed
    show ?thesis
    proof (cases "n = 0")
      case True
      with failed fl last [OF Suc.prems(1) k_last [OF True] call failed(2) fl] show ?thesis
        by (cases out) (auto simp: Let_def run)
    next
      case False
      with Suc.IH [OF retry [OF Suc.prems(1) k_next call failed(2) fl, unfolded Suc_k]] failed fl Suc.prems(3)
      show ?thesis by (cases out) (auto simp: Let_def run)
    qed
  qed (use Suc.prems k timeup returned call in \<open>simp_all add: Let_def run\<close>)
qed simp

declare attempt_loop.simps [simp del]

lemma attempt_loop_finished:
  assumes "0 < maxa"
  shows "finished maxa (fst (attempt_loop E r tmo act maxa start maxa (new_result key) ev s))"
  by (rule attempt_loop_rule [where P = "\<lambda>k res _ _. failed_so_far k res" and Q = "\<lambda>x. finished maxa (fst x)"])
    (use assms in \<open>auto intro: finished_success finished_error [OF failed_so_far_Suc, simplified] failed_so_far_Suc
       finished_error\<close>)

lemma attempt_loop_key:
  assumes "0 < maxa"
  shows "res_key (fst (attempt_loop E r tmo act maxa start maxa (new_result key) ev s)) = key"
  by (rule attempt_loop_rule [where P = "\<lambda>k res _ _. res_key res = key" and Q = "\<lambda>x. res_key (fst x) = key"])
    (use assms in \<open>auto simp: new_result_def\<close>)

lemma attempt_loop_returned:
  assumes "0 < maxa"
    and "attempt_loop E r tmo act maxa start maxa (new_result key) ev s = (res, ev', s')"
    and "success res"
  shows "\<exists>ev0 s0 ev1 s1. call E r tmo ev0 s0 = (Returned (res_value res), ev1, s1) \<and>
    ev' = transform_event ev1 (res_value res) \<and> s' = set_status r COMPLETED s1"
proof -
  have "(\<lambda>(res, ev', s'). success res \<longrightarrow> (\<exists>ev0 s0 ev1 s1.
      call E r tmo ev0 s0 = (Returned (res_value res), ev1, s1) \<and>
      ev' = transform_event ev1 (res_value res) \<and> s' = set_status r COMPLETED s1))
      (attempt_loop E r tmo act maxa start maxa (new_result key) ev s)"
    by (rule attempt_loop_rule [where P = "\<lambda>k res _ _. \<not> success res"])
      (use assms(1) in \<open>auto simp: new_result_def\<close>)
  with assms(2,3) show ?thesis by simp
qed

text \<open>With the action \<open>stop\<close>, only the exceeded time budget ends the loop in failure without
  cancelling the event.\<close>

lemma attempt_loop_stop:
  assumes "0 < maxa"
    and "attempt_loop E r tmo ''stop'' maxa start maxa (new_result key) ev s = (res, ev', s')"
    and "\<not> success res"
  shows "cancelled ev' \<or> (res_error res = Some ''max_retry_duration_exceeded'' \<and>
    clock E (world s') - start > MAX_TOTAL_RETRY_DURATION)"
proof -
  have "(\<lambda>(res, ev', s'). \<not> success res \<longrightarrow> cancelled ev' \<or>
      (res_error res = Some ''max_retry_duration_exceeded'' \<and>
       clock E (world s') - start > MAX_TOTAL_RETRY_DURATION))
      (attempt_loop E r tmo ''stop'' maxa start maxa (new_result key) ev s)"
    by (rule attempt_loop_rule [where P = "\<lambda>_ _ _ _. True"]) (use assms(1) in auto)
  with assms(2,3) show ?thesis by simp
qed

lemma attempt_loop_once:
  assumes "attempt_loop E r tmo ''stop'' 1 (clock E (world s)) 1 (new_result key) ev s = (res, ev', s')"
    and "\<not> success res"
  shows "cancelled ev'"
proof -
  have "(\<lambda>(res, ev', s'). \<not> success res \<longrightarrow> cancelled ev')
      (attempt_loop E r tmo ''stop'' 1 (clock E (world s)) 1 (new_result key) ev s)"
    by (rule attempt_loop_rule [where P = "\<lambda>k res ev' s'. k = 0 \<longrightarrow> s' = s"])
      (auto simp: MAX_TOTAL_RETRY_DURATION_def)
  with assms show ?thesis by simp
qed

lemma transform_event_sel [simp, state_simps]:
  "cancelled (transform_event ev v) = cancelled ev" "ev_type (transform_event ev v) = ev_type ev"
  by (auto simp: transform_event_def apply_data_transformation_def split: pyval.splits option.splits)

lemma attempt_loop_continue:
  assumes "0 < maxa" and "act \<noteq> ''stop''"
    and "\<And>cb t e s. cancelled (fst (snd (run E cb t e s))) = cancelled e"
  shows "cancelled (fst (snd (attempt_loop E r tmo act maxa start maxa (new_result key) ev s))) = cancelled ev"
proof (rule attempt_loop_rule [where P = "\<lambda>_ _ ev' _. cancelled ev' = cancelled ev"])
  have call: "cancelled ev1 = cancelled e" if "call E r tmo e s = (out, ev1, s2)" for e s out ev1 s2
    using assms(3) that by (metis call_def fst_conv snd_conv)
  then show "cancelled (fst (snd (res\<lparr>success := True, res_value := v, retry_count := k,
      attempts := attempts res @ [new_attempt k ms None]\<rparr>, transform_event ev1 v, set_status r COMPLETED s2))) =
      cancelled ev" if "cancelled e = cancelled ev" "call E r tmo e s = (Returned v, ev1, s2)"
    for k res e s v ev1 s2 ms using that by simp
  show "cancelled ev1 = cancelled ev" if "cancelled e = cancelled ev" "call E r tmo e s = (out, ev1, s2)"
    for e s out ev1 s2 using that call by simp
  show "cancelled (fst (snd (res\<lparr>attempts := attempts res @ [new_attempt k ms (Some err)], res_error := Some err,
      retry_count := k\<rparr>, if act = ''stop'' then ev1\<lparr>cancelled := True\<rparr> else ev1, set_status r st s2))) = cancelled ev"
    if "cancelled e = cancelled ev" "call E r tmo e s = (out, ev1, s2)"
    for k res e s out ev1 s2 ms err st using that call assms(2) by simp
qed (use assms(1) in auto)

text \<open>A property of the system that the callbacks, a status and a sleep keep is kept by the loop.\<close>

lemma attempt_loop_inv:
  assumes "0 < maxa" and "I s"
    and "\<And>cb t e s. I s \<Longrightarrow> I (snd (snd (run E cb t e s)))"
    and "\<And>st s. I s \<Longrightarrow> I (set_status r st s)" and "\<And>s w. I s \<Longrightarrow> I (s\<lparr>world := w\<rparr>)"
  shows "I (snd (snd (attempt_loop E r tmo act maxa start maxa (new_result key) ev s)))"
proof (rule attempt_loop_rule [where P = "\<lambda>_ _ _ s. I s"])
  have call: "I s2" if "I s" "call E r tmo e s = (out, ev1, s2)" for e s out ev1 s2
    using assms(3) [OF assms(4) [OF that(1)]] that(2) by (metis call_def snd_conv)
  show "I (snd (snd (res, e', set_status r st s2)))" if "I s" "call E r tmo e s = (Returned v, ev1, s2)"
    for e s v ev1 s2 res e' st using that call assms(4) by simp
  show "I (snd (snd (res, e', set_status r st s2)))" if "I s" "call E r tmo e s = (out, ev1, s2)"
    for e s out ev1 s2 res e' st using that call assms(4) by simp
  show "I ((set_status r st s2)\<lparr>world := w\<rparr>)" if "I s" "call E r tmo e s = (out, ev1, s2)"
    for e s out ev1 s2 st w using that call assms(4,5) by simp
qed (use assms(1,2) in auto)

lemma attempt_loop_never_returns:
  assumes "0 < maxa" and "I s"
    and "\<And>cb t e s. I s \<Longrightarrow> I (snd (snd (run E cb t e s)))"
    and "\<And>st s. I s \<Longrightarrow> I (set_status r st s)" and "\<And>s w. I s \<Longrightarrow> I (s\<lparr>world := w\<rparr>)"
    and "\<And>e s v. I s \<Longrightarrow> fst (call E r tmo e s) \<noteq> Returned v"
  shows "\<not> success (fst (attempt_loop E r tmo act maxa start maxa (new_result key) ev s))"
proof (rule attempt_loop_rule [where P = "\<lambda>_ res _ s. \<not> success res \<and> I s"])
  have call: "I s2" if "I s" "call E r tmo e s = (out, ev1, s2)" for e s out ev1 s2
    using assms(3) [OF assms(4) [OF that(1)]] that(2) by (metis call_def snd_conv)
  show "\<not> success (res\<lparr>attempts := attempts res @ [new_attempt k ms (Some err)]\<rparr>) \<and>
      I ((set_status r st s2)\<lparr>world := w\<rparr>)"
    if "\<not> success res \<and> I s" "call E r tmo e s = (out, ev1, s2)"
    for res k ms err e s out ev1 s2 st w using that assms(5) [OF assms(4) [OF call]] by auto
  show "\<not> success (fst (res\<lparr>success := True, res_value := v, retry_count := k,
      attempts := attempts res @ [new_attempt k ms None]\<rparr>, transform_event ev1 v, set_status r COMPLETED s2))"
    if "\<not> success res \<and> I s" "call E r tmo e s = (Returned v, ev1, s2)" for res v k ms ev1 s2 e s
    using that assms(6) by (metis fst_conv)
qed (use assms(1,2) in \<open>auto simp: new_result_def\<close>)

text \<open>A single attempt under \<open>stop\<close> cancels the event unless the callback returns with the event
  uncancelled.\<close>

lemma attempt_once_blocks:
  assumes "\<And>v ev1 s2. call E r tmo ev s = (Returned v, ev1, s2) \<Longrightarrow> cancelled ev1"
  shows "cancelled (fst (snd (attempt_loop E r tmo ''stop'' 1 (clock E (world s)) 1 (new_result key) ev s)))"
  by (rule attempt_loop_rule [where P = "\<lambda>k res ev' s'. k = 0 \<longrightarrow> ev' = ev \<and> s' = s"])
    (use assms in \<open>auto simp: MAX_TOTAL_RETRY_DURATION_def\<close>)

text \<open>A property of event and system that the calls, with the transformation of the data, a status
  and a sleep keep is kept by the loop, up to the cancellation of the event.\<close>

definition calls_keep :: "(event \<Rightarrow> 'w sys \<Rightarrow> bool) \<Rightarrow> 'w env \<Rightarrow> bool" where
  "calls_keep J E \<longleftrightarrow>
     (\<forall>cb t e s out e' s'. J e s \<longrightarrow> run E cb t e s = (out, e', s') \<longrightarrow>
        J e' s' \<and> (\<forall>v. out = Returned v \<longrightarrow> J (transform_event e' v) s')) \<and>
     (\<forall>e s r st w. J e s \<longrightarrow> J e (set_status r st s) \<and> J e (s\<lparr>world := sleep E w (world s)\<rparr>) \<and>
        J (e\<lparr>cancelled := True\<rparr>) s)"

lemma attempt_loop_keeps:
  assumes "0 < maxa" and "J ev s" and "calls_keep J E"
  shows "(\<lambda>(res, ev', s'). J ev' s') (attempt_loop E r tmo act maxa start maxa (new_result key) ev s)"
proof (rule attempt_loop_rule [where P = "\<lambda>_ _ ev s. J ev s"])
  have st: "J e (set_status r st s)" "J (e\<lparr>cancelled := True\<rparr>) s" "J e (s\<lparr>world := sleep E w (world s)\<rparr>)" if "J e s"
    for e s st w using that assms(3) by (auto simp: calls_keep_def)
  have call: "J ev1 s2 \<and> (\<forall>v. out = Returned v \<longrightarrow> J (transform_event ev1 v) s2)"
    if "J e s" "call E r tmo e s = (out, ev1, s2)" for e s out ev1 s2
  proof -
    from that(2) have "run E (callback (heap_of (set_status r WORKING s) r)) tmo e (set_status r WORKING s) = (out, ev1, s2)"
      by (simp add: call_def Let_def)
    with assms(3) st(1) [OF that(1)] show ?thesis unfolding calls_keep_def by blast
  qed
  show "(\<lambda>(res, ev', s'). J ev' s') (res\<lparr>success := True, res_value := v, retry_count := k,
      attempts := attempts res @ [new_attempt k ms None]\<rparr>, transform_event ev1 v, set_status r COMPLETED s2)"
    if "J e s" "call E r tmo e s = (Returned v, ev1, s2)" for res v k ms e s ev1 s2
    using call [OF that] st by simp
  show "(\<lambda>(res, ev', s'). J ev' s') (res\<lparr>attempts := attempts res @ [new_attempt k ms (Some err)], res_error := Some err,
      retry_count := k\<rparr>, if act = ''stop'' then ev1\<lparr>cancelled := True\<rparr> else ev1, set_status r st s2)"
    if "J e s" "call E r tmo e s = (out, ev1, s2)" for res k ms err e s out ev1 s2 st
    using call [OF that] st by simp
  show "J ev1 ((set_status r st s2)\<lparr>world := sleep E (backoff_delay k) (world s2)\<rparr>)"
    if "J e s" "call E r tmo e s = (out, ev1, s2)" for k e s out ev1 s2 st
    using call [OF that] st(3) [of ev1 "set_status r st s2"] st(1) [of ev1 s2 st] by simp
qed (use assms(1,2) in auto)

section \<open>Running a hook\<close>

abbreviation runnable :: "'w sys \<Rightarrow> href \<Rightarrow> event \<Rightarrow> bool" where
  "runnable s r ev \<equiv> enabled (heap_of s r) \<and> \<not> cancelled ev"

definition hook_loop ::
  "'w env \<Rightarrow> hooks_config \<Rightarrow> href \<Rightarrow> event \<Rightarrow> 'w sys \<Rightarrow> hook_result \<times> event \<times> 'w sys" where
  "hook_loop E cfg r ev s =
     attempt_loop E r (effective_timeout cfg (heap_of s r)) (effective_action cfg (heap_of s r))
       (Suc (effective_retries cfg (heap_of s r))) (clock E (world s))
       (Suc (effective_retries cfg (heap_of s r))) (new_result (hook_key (heap_of s r))) ev s"

lemma execute_hook_skips:
  "\<not> runnable s r ev \<Longrightarrow> execute_hook E cfg r ev s =
     ((new_result (hook_key (heap_of s r)))\<lparr>res_error :=
        Some (if enabled (heap_of s r) then ''event_cancelled'' else ''hook_disabled'')\<rparr>, ev, s)"
  by (auto simp: execute_hook_def Let_def)

lemma execute_hook_runs:
  "runnable s r ev \<Longrightarrow> execute_hook E cfg r ev s =
     (case hook_loop E cfg r ev s of (res, ev', s') \<Rightarrow>
        (res\<lparr>duration_ms := elapsed_ms (clock E (world s)) (clock E (world s'))\<rparr>, ev', s'))"
  by (simp add: execute_hook_def hook_loop_def Let_def)

lemma finished_duration [simp]: "finished maxa (res\<lparr>duration_ms := d\<rparr>) = finished maxa res"
  by (simp add: finished_def)

lemma execute_hook_finished:
  "runnable s r ev \<Longrightarrow> finished (Suc (effective_retries cfg (heap_of s r))) (fst (execute_hook E cfg r ev s))"
  by (simp add: execute_hook_runs split_beta) (simp add: hook_loop_def attempt_loop_finished)

lemma execute_hook_key: "res_key (fst (execute_hook E cfg r ev s)) = hook_key (heap_of s r)"
proof (cases "runnable s r ev")
  case True
  then show ?thesis by (simp add: execute_hook_runs split_beta) (simp add: hook_loop_def attempt_loop_key)
qed (simp add: execute_hook_skips new_result_def)

lemma execute_hook_inv:
  assumes "I s"
    and "\<And>cb t e s. I s \<Longrightarrow> I (snd (snd (run E cb t e s)))"
    and "\<And>st s. I s \<Longrightarrow> I (set_status r st s)" and "\<And>s w. I s \<Longrightarrow> I (s\<lparr>world := w\<rparr>)"
  shows "I (snd (snd (execute_hook E cfg r ev s)))"
proof (cases "runnable s r ev")
  case True
  then show ?thesis using attempt_loop_inv [OF zero_less_Suc assms]
    by (simp add: execute_hook_runs split_beta) (simp add: hook_loop_def)
qed (simp add: execute_hook_skips assms(1))

lemma execute_hook_never_returns:
  assumes "I s"
    and "\<And>cb t e s. I s \<Longrightarrow> I (snd (snd (run E cb t e s)))"
    and "\<And>st s. I s \<Longrightarrow> I (set_status r st s)" and "\<And>s w. I s \<Longrightarrow> I (s\<lparr>world := w\<rparr>)"
    and "\<And>t e s v. I s \<Longrightarrow> fst (call E r t e s) \<noteq> Returned v"
  shows "\<not> success (fst (execute_hook E cfg r ev s))"
proof (cases "runnable s r ev")
  case True
  then show ?thesis using attempt_loop_never_returns [OF zero_less_Suc assms]
    by (simp add: execute_hook_runs split_beta) (simp add: hook_loop_def)
qed (simp add: execute_hook_skips new_result_def)

lemma execute_hook_keeps_event:
  assumes "J ev s" and "calls_keep J E"
  shows "(\<lambda>(res, ev', s'). J ev' s') (execute_hook E cfg r ev s)"
proof (cases "runnable s r ev")
  case True
  then show ?thesis
    using attempt_loop_keeps [of _ J ev s E r, OF zero_less_Suc assms]
    by (simp add: execute_hook_runs split_beta) (simp add: hook_loop_def)
qed (simp add: execute_hook_skips assms(1))

lemma execute_hook_once_blocks:
  assumes "enabled (heap_of s r)" and "effective_retries cfg (heap_of s r) = 0"
    and "effective_action cfg (heap_of s r) = ''stop''"
    and "\<And>t v ev1 s2. call E r t ev s = (Returned v, ev1, s2) \<Longrightarrow> cancelled ev1"
  shows "cancelled (fst (snd (execute_hook E cfg r ev s)))"
proof (cases "runnable s r ev")
  case True
  then show ?thesis
    using attempt_once_blocks [of E r "effective_timeout cfg (heap_of s r)" ev s, OF assms(4)] assms(2,3)
    by (simp add: execute_hook_runs split_beta) (simp add: hook_loop_def)
qed (use assms(1) in \<open>auto simp: execute_hook_skips\<close>)

text \<open>
  What the event processor relies on. A runner leaves a cancelled event alone, reports under the
  hook's key, and a result has an error exactly if it is not a success.
\<close>

locale hook_runner =
  fixes exec :: "href \<Rightarrow> event \<Rightarrow> 'w sys \<Rightarrow> hook_result \<times> event \<times> 'w sys"
  assumes skips_cancelled: "cancelled ev \<Longrightarrow> snd (exec r ev s) = (ev, s)"
    and reports_key: "res_key (fst (exec r ev s)) = hook_key (heap_of s r)"
    and success_or_error: "success (fst (exec r ev s)) \<longleftrightarrow> res_error (fst (exec r ev s)) = None"

interpretation hx: hook_runner "execute_hook E cfg"
proof unfold_locales
  show "snd (execute_hook E cfg r ev s) = (ev, s)" if "cancelled ev" for r ev s
    using that by (simp add: execute_hook_skips)
  show "res_key (fst (execute_hook E cfg r ev s)) = hook_key (heap_of s r)" for r ev s
    by (rule execute_hook_key)
  show "success (fst (execute_hook E cfg r ev s)) \<longleftrightarrow> res_error (fst (execute_hook E cfg r ev s)) = None"
    for r ev s
  proof (cases "runnable s r ev")
    case True
    from execute_hook_finished [OF this, of cfg E] show ?thesis by (auto simp: finished_def split: if_splits)
  qed (simp add: execute_hook_skips new_result_def)
qed

lemma execute_hook_stop:
  assumes "execute_hook E cfg r ev s = (res, ev', s')" and "enabled (heap_of s r)"
    and "effective_action cfg (heap_of s r) = ''stop''" and "\<not> success res"
  shows "cancelled ev' \<or> (0 < effective_retries cfg (heap_of s r) \<and>
    res_error res = Some ''max_retry_duration_exceeded'' \<and>
    clock E (world s') - clock E (world s) > 300)"
proof (cases "runnable s r ev")
  case True
  obtain res0 where loop: "hook_loop E cfg r ev s = (res0, ev', s')"
    and res: "res = res0\<lparr>duration_ms := elapsed_ms (clock E (world s)) (clock E (world s'))\<rparr>"
    using assms(1) by (auto simp: execute_hook_runs [OF True] split: prod.splits)
  show ?thesis
  proof (cases "effective_retries cfg (heap_of s r) = 0")
    case True
    then show ?thesis using attempt_loop_once [of E r] loop res assms(3,4) by (simp add: hook_loop_def)
  next
    case False
    then show ?thesis
      using attempt_loop_stop [OF zero_less_Suc, of E r] loop res assms(3,4)
      by (fastforce simp: hook_loop_def MAX_TOTAL_RETRY_DURATION_def)
  qed
qed (use assms in \<open>auto simp: execute_hook_skips\<close>)

section \<open>Properties\<close>

text \<open>running a hook makes at most eleven attempts, each of them allowed between one second and
  five minutes. The attempts are numbered from one. A hook that succeeds has no error, and its
  last attempt is its only successful one; a hook that does not has an error and no successful
  attempt.\<close>

theorem execute_hook_attempts:
  assumes "execute_hook E cfg r ev s = (res, ev', s')"
  shows "length (attempts res) \<le> effective_retries cfg (heap_of s r) + 1 \<and>
    effective_retries cfg (heap_of s r) + 1 \<le> 11 \<and>
    1 \<le> effective_timeout cfg (heap_of s r) \<and> effective_timeout cfg (heap_of s r) \<le> 300 \<and>
    map att_attempt (attempts res) = [1..<length (attempts res) + 1] \<and>
    (success res \<longleftrightarrow> res_error res = None) \<and>
    (\<forall>a \<in> set (attempts res). att_success a \<longrightarrow> success res) \<and>
    (success res \<longrightarrow> attempts res \<noteq> [] \<and> att_success (last (attempts res)) \<and>
      retry_count res + 1 = length (attempts res) \<and>
      (\<forall>a \<in> set (butlast (attempts res)). \<not> att_success a))"
proof (cases "runnable s r ev")
  case True
  from execute_hook_finished [OF this, of cfg E] assms
  have fin: "finished (Suc (effective_retries cfg (heap_of s r))) res" by simp
  moreover have "attempts res \<noteq> []" if "success res" using fin that by (auto simp: finished_def)
  ultimately show ?thesis
    using effective_retries_bound [of cfg "heap_of s r"] effective_timeout_bounds [of cfg "heap_of s r"]
    by (auto simp: finished_def limit_defs split: if_splits)
next
  case False
  with assms show ?thesis
    using effective_retries_bound [of cfg "heap_of s r"] effective_timeout_bounds [of cfg "heap_of s r"]
    by (auto simp: execute_hook_skips new_result_def limit_defs)
qed

definition timer_env :: "(string \<Rightarrow> cb_outcome) \<Rightarrow> real env" where
  "timer_env f = \<lparr>clock = \<lambda>w. w, sleep = \<lambda>n w. w + real n,
     run = \<lambda>cb t ev s. (f cb, ev, s\<lparr>world := world s + t\<rparr>)\<rparr>"

definition demo_sys :: "hook \<Rightarrow> real sys" where
  "demo_sys h = \<lparr>heap_of = \<lambda>_. h, reg_of = empty_registry, world = 0\<rparr>"

definition no_config :: hooks_config where
  "no_config = \<lparr>default_timeout = None, default_retries = None, default_error_action = None\<rparr>"

definition demo_event :: event where
  "demo_event = \<lparr>ev_type = EventType ''tool_call_pre'', ev_data = [], ev_source = ''t'',
     processed = False, cancelled = False, ev_result = [], cancel_reason = None\<rparr>"

lemmas demo_defs = timer_env_def demo_sys_def no_config_def demo_event_def demo_hook_def

theorem execute_hook_attempts_witness:
  "length (attempts (fst (execute_hook (timer_env (\<lambda>_. TimedOut)) no_config 1 demo_event
     (demo_sys ((demo_hook ''p'' ''h'' 5)\<lparr>retry_attempts := Some (PInt 99)\<rparr>))))) \<le> 11"
  using execute_hook_attempts [OF prod.collapse [symmetric, THEN trans, OF arg_cong [where f = "Pair _"],
        OF prod.collapse [symmetric]], of "timer_env (\<lambda>_. TimedOut)" no_config 1 demo_event
      "demo_sys ((demo_hook ''p'' ''h'' 5)\<lparr>retry_attempts := Some (PInt 99)\<rparr>)"]
  by linarith

text \<open>C9: a hook whose error action is \<open>stop\<close> is fail-closed: if it was run and did not succeed,
  the event is cancelled, unless the five minutes for all its attempts together ran out between
  two attempts. A hook without retries has no such exception.\<close>

theorem stop_hook_fail_closed:
  assumes "execute_hook E cfg r ev s = (res, ev', s')" and "enabled (heap_of s r)"
    and "effective_action cfg (heap_of s r) = ''stop''" and "\<not> success res"
  shows "cancelled ev' \<or> (0 < effective_retries cfg (heap_of s r) \<and>
    res_error res = Some ''max_retry_duration_exceeded'' \<and>
    clock E (world s') - clock E (world s) > 300)"
  using assms by (rule execute_hook_stop)

definition strict_hook :: "int \<Rightarrow> hook" where
  "strict_hook n = (demo_hook ''p'' ''h'' 5)\<lparr>timeout := Some (PInt 300), retry_attempts := Some (PInt n),
     error_action := Some ''stop''\<rparr>"

lemma strict_hook_effective:
  "effective_retries no_config (strict_hook 0) = 0" "effective_retries no_config (strict_hook 3) = 3"
  "effective_action no_config (strict_hook n) = ''stop''" "effective_timeout no_config (strict_hook n) = 300"
  "enabled (strict_hook n)" "hook_key (strict_hook n) = ''p.h''" "callback (strict_hook n) = ''cb''"
  by (simp_all add: effective_retries_def effective_action_def effective_timeout_def Let_def limit_defs
      demo_hook_def no_config_def strict_hook_def hook_key_def make_key_def)

lemma demo_heap: "heap_of (demo_sys h) r = h" "world (demo_sys h) = 0"
  by (simp_all add: demo_sys_def)

lemmas strict_run = execute_hook_runs hook_loop_def strict_hook_effective demo_heap attempt_loop.simps Let_def
  timer_env_def elapsed_ms_def demo_event_def new_result_def MAX_TOTAL_RETRY_DURATION_def backoff_delay_def

lemma strict_hook_once:
  "\<exists>res ev' s'. execute_hook (timer_env (\<lambda>_. TimedOut)) no_config 1 demo_event (demo_sys (strict_hook 0)) =
     (res, ev', s') \<and> \<not> success res"
  by (simp add: strict_run)

theorem stop_hook_fail_closed_witness:
  "cancelled (fst (snd (execute_hook (timer_env (\<lambda>_. TimedOut)) no_config 1 demo_event
     (demo_sys (strict_hook 0)))))"
proof -
  from strict_hook_once obtain res ev' s' where
    x: "execute_hook (timer_env (\<lambda>_. TimedOut)) no_config 1 demo_event (demo_sys (strict_hook 0)) = (res, ev', s')"
    and "\<not> success res" by blast
  with stop_hook_fail_closed [OF x] show ?thesis
    unfolding x by (simp add: demo_heap strict_hook_effective)
qed

text \<open>a hook with the action \<open>continue\<close> never cancels an event by failing: the event is
  cancelled afterwards only if it was before, provided the callbacks do not cancel events.\<close>

theorem continue_hook_never_cancels:
  assumes "\<And>cb t e s. cancelled (fst (snd (run E cb t e s))) = cancelled e"
    and "effective_action cfg (heap_of s r) = ''continue''"
    and "execute_hook E cfg r ev s = (res, ev', s')"
  shows "cancelled ev' = cancelled ev"
proof (cases "runnable s r ev")
  case True
  have "cancelled (fst (snd (hook_loop E cfg r ev s))) = cancelled ev"
    unfolding hook_loop_def by (rule attempt_loop_continue) (use assms(1,2) in auto)
  then show ?thesis using assms(3) by (auto simp: execute_hook_runs [OF True] split: prod.splits)
qed (use assms(3) in \<open>auto simp: execute_hook_skips\<close>)

theorem continue_hook_never_cancels_witness:
  "\<not> cancelled (fst (snd (execute_hook (timer_env (\<lambda>_. Raised ''boom'')) no_config 1 demo_event
     (demo_sys (demo_hook ''p'' ''h'' 5)))))"
proof -
  let ?s = "demo_sys (demo_hook ''p'' ''h'' 5)" and ?E = "timer_env (\<lambda>_. Raised ''boom'')"
  obtain res ev' s' where x: "execute_hook ?E no_config 1 demo_event ?s = (res, ev', s')"
    by (cases "execute_hook ?E no_config 1 demo_event ?s")
  have "cancelled ev' = cancelled demo_event"
    by (rule continue_hook_never_cancels [OF _ _ x])
      (simp_all add: timer_env_def effective_action_def demo_sys_def demo_hook_def no_config_def limit_defs)
  then show ?thesis unfolding x by (simp add: demo_event_def)
qed

text \<open>the exception in the fail-closed property is real: a \<open>stop\<close> hook with the default of
  three retries whose callback always times out after five minutes leaves the event uncancelled,
  because the time budget is checked before the second attempt and that exit skips the error
  action.\<close>

theorem stop_ignored_after_time_budget:
  "\<exists>res ev' s'. execute_hook (timer_env (\<lambda>_. TimedOut)) no_config 1 demo_event (demo_sys (strict_hook 3)) =
     (res, ev', s') \<and> \<not> success res \<and> \<not> cancelled ev' \<and> res_error res = Some ''max_retry_duration_exceeded'' \<and>
     length (attempts res) = 1"
proof -
  have loop: "attempt_loop E r tmo act (Suc 3) start (Suc 3) = attempt_loop E r tmo act 4 start (Suc (Suc 2))"
    for E :: "real env" and r tmo act start by (simp add: eval_nat_numeral)
  show ?thesis by (simp add: strict_run loop del: Suc_numeral)
qed

end
