(* ===== verification/Event_Processor.thy ===== *)
theory Event_Processor
  imports Hook_Executor
begin

text \<open>
  Processing an event in its phases (\<open>kollabor_events/processor.py\<close>, class
  \<open>EventProcessor\<close>) and the facade of the event system (\<open>kollabor_events/bus.py\<close>, class
  \<open>EventBus\<close>).

  The processor gets its executor as a constructor argument, so the functions that run hooks take
  it as the argument \<open>exec\<close>; the bus passes \<open>execute_hook\<close>. A phase works on a copy of the
  event data. The system (hook objects, registry, the callbacks' world) is threaded through,
  because callbacks may change it.
\<close>

section \<open>Data\<close>

text \<open>The statistics of a phase: only a zero count if there was no hook to run.\<close>

datatype phase_stats = NoHooks | Stats execution_stats

record phase_results =
  pr_phase :: string
  pr_event_type :: string
  hook_results :: "hook_result list"
  pr_cancelled :: bool
  final_data :: pydict
  pr_stats :: phase_stats

text \<open>A phase that was not run has the empty dictionary as its result: \<open>None\<close>.\<close>

record process_results =
  pre :: "phase_results option"
  main :: "phase_results option"
  post :: "phase_results option"
  ps_cancelled :: bool
  ps_source :: string
  ps_event_type :: string

type_synonym phase_map = "(etype, etype \<times> etype) odict"
type_synonym 'w executor = "href \<Rightarrow> event \<Rightarrow> 'w sys \<Rightarrow> hook_result \<times> event \<times> 'w sys"

definition pre_post_map :: phase_map where
  "pre_post_map = map (\<lambda>n. (EventType n, EventType (n @ ''_pre''), EventType (n @ ''_post'')))
     [''user_input'', ''key_press'', ''llm_request'', ''llm_response'', ''tool_call'']"

section \<open>Operations\<close>

text \<open>The status a hook result puts into the registry.\<close>

definition record_status :: "hook_result \<Rightarrow> registry \<Rightarrow> registry" where
  "record_status res R =
     (if success res then snd (update_hook_status (res_key res) ''completed'' R)
      else if res_error res = Some ''timeout'' then snd (update_hook_status (res_key res) ''timeout'' R)
      else case res_error res of
             Some e \<Rightarrow> if e \<noteq> [] then snd (update_hook_status (res_key res) ''failed'' R) else R
           | None \<Rightarrow> R)"

fun run_hooks :: "'w executor \<Rightarrow> href list \<Rightarrow> event \<Rightarrow> 'w sys \<Rightarrow> hook_result list \<times> event \<times> 'w sys" where
  "run_hooks exec [] ev s = ([], ev, s)"
| "run_hooks exec (r # rs) ev s =
     (if cancelled ev then ([], ev, s)
      else case exec r ev s of (res, ev1, s1) \<Rightarrow>
        (case run_hooks exec rs ev1 (s1\<lparr>reg_of := record_status res (reg_of s1)\<rparr>) of
           (results, ev2, s2) \<Rightarrow> (res # results, ev2, s2)))"

definition new_event :: "etype \<Rightarrow> pydict \<Rightarrow> string \<Rightarrow> event" where
  "new_event t data source =
     \<lparr>ev_type = t, ev_data = data, ev_source = source, processed = False, cancelled = False,
      ev_result = [], cancel_reason = None\<rparr>"

abbreviation hooks_for :: "etype \<Rightarrow> 'w sys \<Rightarrow> href list" where
  "hooks_for t s \<equiv> get_hooks_for_event (heap_of s) t (reg_of s)"

definition process_phase ::
  "'w executor \<Rightarrow> etype \<Rightarrow> pydict \<Rightarrow> string \<Rightarrow> string \<Rightarrow> 'w sys \<Rightarrow> phase_results \<times> 'w sys" where
  "process_phase exec t data source phase s =
     (if hooks_for t s = []
      then (\<lparr>pr_phase = phase, pr_event_type = etype_str t, hook_results = [],
             pr_cancelled = False, final_data = data, pr_stats = NoHooks\<rparr>, s)
      else case run_hooks exec (hooks_for t s) (new_event t data source) s of (results, ev, s') \<Rightarrow>
        (\<lparr>pr_phase = phase, pr_event_type = etype_str t, hook_results = results,
          pr_cancelled = cancelled ev, final_data = ev_data ev,
          pr_stats = Stats (get_execution_stats results)\<rparr>, s'))"

fun phases_of :: "phase_map \<Rightarrow> etype \<Rightarrow> (etype \<times> etype) option" where
  "phases_of m (EventType v) = od_get m (EventType v)"
| "phases_of m (StrEvent s) = None"

definition process_event_with_phases ::
  "'w executor \<Rightarrow> phase_map \<Rightarrow> etype \<Rightarrow> pydict \<Rightarrow> string \<Rightarrow> 'w sys \<Rightarrow> process_results \<times> 'w sys" where
  "process_event_with_phases exec m t data source s =
     (let results = \<lparr>pre = None, main = None, post = None, ps_cancelled = False,
                     ps_source = source, ps_event_type = etype_str t\<rparr>;
          run_main = (\<lambda>results data s.
            case process_phase exec t data source ''MAIN'' s of (mr, s2) \<Rightarrow>
              (let results = results\<lparr>main := Some mr\<rparr>
               in if pr_cancelled mr then (results\<lparr>ps_cancelled := True\<rparr>, s2)
                  else case phases_of m t of
                         None \<Rightarrow> (results, s2)
                       | Some (_, post_t) \<Rightarrow>
                           (case process_phase exec post_t (final_data mr) source ''POST'' s2 of (por, s3) \<Rightarrow>
                              (let results = results\<lparr>post := Some por\<rparr>
                               in (if pr_cancelled por then results\<lparr>ps_cancelled := True\<rparr> else results, s3)))))
      in case phases_of m t of
           None \<Rightarrow> run_main results data s
         | Some (pre_t, _) \<Rightarrow>
             (case process_phase exec pre_t data source ''PRE'' s of (pr, s1) \<Rightarrow>
                (let results = results\<lparr>pre := Some pr\<rparr>
                 in if pr_cancelled pr then (results\<lparr>ps_cancelled := True\<rparr>, s1)
                    else run_main results (final_data pr) s1)))"

definition add_event_type_mapping :: "etype \<Rightarrow> etype \<Rightarrow> etype \<Rightarrow> phase_map \<Rightarrow> phase_map" where
  "add_event_type_mapping main_event pre_event post_event m = od_put main_event (pre_event, post_event) m"

definition get_supported_event_types :: "phase_map \<Rightarrow> phase_map" where
  "get_supported_event_types m = m"

section \<open>The bus\<close>

record ('v, 'w) event_bus =
  services :: "(string, 'v) odict"
  phases :: phase_map
  bus_sys :: "'w sys"

definition new_bus :: "heap \<Rightarrow> 'w \<Rightarrow> ('v, 'w) event_bus" where
  "new_bus hp w = \<lparr>services = [], phases = pre_post_map,
     bus_sys = \<lparr>heap_of = hp, reg_of = empty_registry, world = w\<rparr>\<rparr>"

definition register_service :: "string \<Rightarrow> 'v \<Rightarrow> ('v, 'w) event_bus \<Rightarrow> ('v, 'w) event_bus" where
  "register_service name v B = B\<lparr>services := od_put name v (services B)\<rparr>"

definition get_service :: "string \<Rightarrow> ('v, 'w) event_bus \<Rightarrow> 'v option" where
  "get_service name B = od_get (services B) name"

definition has_service :: "string \<Rightarrow> ('v, 'w) event_bus \<Rightarrow> bool" where
  "has_service name B \<longleftrightarrow> name \<in> od_keys (services B)"

abbreviation with_registry :: "('v, 'w) event_bus \<Rightarrow> registry \<Rightarrow> ('v, 'w) event_bus" where
  "with_registry B R \<equiv> B\<lparr>bus_sys := (bus_sys B)\<lparr>reg_of := R\<rparr>\<rparr>"

definition bus_register_hook :: "href \<Rightarrow> ('v, 'w) event_bus \<Rightarrow> bool \<times> ('v, 'w) event_bus" where
  "bus_register_hook r B =
     (case register_hook (heap_of (bus_sys B)) r (reg_of (bus_sys B)) of (ok, R) \<Rightarrow> (ok, with_registry B R))"

definition bus_unregister_hook :: "string \<Rightarrow> string \<Rightarrow> ('v, 'w) event_bus \<Rightarrow> bool \<times> ('v, 'w) event_bus" where
  "bus_unregister_hook plugin name B =
     (case unregister_hook (heap_of (bus_sys B)) plugin name (reg_of (bus_sys B)) of (ok, R) \<Rightarrow>
        (ok, with_registry B R))"

definition emit_with_hooks ::
  "'w env \<Rightarrow> hooks_config \<Rightarrow> etype \<Rightarrow> pydict \<Rightarrow> string \<Rightarrow> ('v, 'w) event_bus \<Rightarrow>
   process_results \<times> ('v, 'w) event_bus" where
  "emit_with_hooks E cfg t data source B =
     (case process_event_with_phases (execute_hook E cfg) (phases B) t data source (bus_sys B) of
        (results, s) \<Rightarrow> (results, B\<lparr>bus_sys := s\<rparr>))"

definition bus_enable_hook :: "string \<Rightarrow> string \<Rightarrow> bool \<Rightarrow> ('v, 'w) event_bus \<Rightarrow> bool \<times> ('v, 'w) event_bus" where
  "bus_enable_hook plugin name en B =
     (case (if en then enable_hook else disable_hook) plugin name (heap_of (bus_sys B)) (reg_of (bus_sys B)) of
        (ok, hp, R) \<Rightarrow> (ok, B\<lparr>bus_sys := (bus_sys B)\<lparr>heap_of := hp, reg_of := R\<rparr>\<rparr>))"

definition bus_get_hooks_for_event :: "etype \<Rightarrow> ('v, 'w) event_bus \<Rightarrow> nat" where
  "bus_get_hooks_for_event t B = length (hooks_for t (bus_sys B))"

definition bus_get_hook_status :: "('v, 'w) event_bus \<Rightarrow> status_summary" where
  "bus_get_hook_status B = get_hook_status_summary (reg_of (bus_sys B))"

definition bus_get_registry_stats :: "('v, 'w) event_bus \<Rightarrow> registry_stats" where
  "bus_get_registry_stats B = get_registry_stats (heap_of (bus_sys B)) (reg_of (bus_sys B))"

definition bus_add_event_type_mapping ::
  "etype \<Rightarrow> etype \<Rightarrow> etype \<Rightarrow> ('v, 'w) event_bus \<Rightarrow> ('v, 'w) event_bus" where
  "bus_add_event_type_mapping a b c B = B\<lparr>phases := add_event_type_mapping a b c (phases B)\<rparr>"

section \<open>Running the hooks of a phase\<close>

lemma run_hooks_cancelled [simp]: "cancelled ev \<Longrightarrow> run_hooks exec rs ev s = ([], ev, s)"
  by (cases rs) simp_all

lemma run_hooks_inv:
  assumes "I s" and "\<And>r ev s. I s \<Longrightarrow> I (snd (snd (exec r ev s)))"
    and "\<And>res s. I s \<Longrightarrow> I (s\<lparr>reg_of := record_status res (reg_of s)\<rparr>)"
  shows "I (snd (snd (run_hooks exec rs ev s)))"
  using assms(1)
proof (induction rs arbitrary: ev s)
  case (Cons r rs)
  then show ?case using assms(2) [OF Cons.prems, of r ev] assms(3)
    by (simp split: prod.splits) (metis snd_conv)
qed simp

text \<open>A hook that cancels every event it is given cancels the event of the phase, whatever the hooks
  before it do, as long as they keep \<open>J\<close>.\<close>

lemma run_hooks_blocked_event:
  assumes "J ev s" and "\<And>r ev s. J ev s \<Longrightarrow> (\<lambda>(res, ev', s'). J ev' s') (exec r ev s)"
    and "\<And>res ev s. J ev s \<Longrightarrow> J ev (s\<lparr>reg_of := record_status res (reg_of s)\<rparr>)"
    and "\<And>ev s. J ev s \<Longrightarrow> cancelled (fst (snd (exec r ev s)))"
    and "r \<in> set rs"
  shows "cancelled (fst (snd (run_hooks exec rs ev s)))"
  using assms(1,5)
proof (induction rs arbitrary: ev s)
  case (Cons x rs)
  obtain res ev1 s1 where x: "exec x ev s = (res, ev1, s1)" by (cases "exec x ev s")
  let ?s1 = "s1\<lparr>reg_of := record_status res (reg_of s1)\<rparr>"
  from assms(2) [OF Cons.prems(1), of x] x have J: "J ev1 ?s1" by (simp add: assms(3))
  have "cancelled (fst (snd (run_hooks exec rs ev1 ?s1)))"
  proof (cases "x = r")
    case True
    with assms(4) [OF Cons.prems(1)] x show ?thesis by simp
  qed (use Cons J in auto)
  then show ?case by (simp add: x split: prod.splits) (metis fst_conv snd_conv)
qed simp

lemma run_hooks_blocked:
  assumes "I s" and "\<And>r ev s. I s \<Longrightarrow> I (snd (snd (exec r ev s)))"
    and "\<And>res s. I s \<Longrightarrow> I (s\<lparr>reg_of := record_status res (reg_of s)\<rparr>)"
    and "\<And>ev s. I s \<Longrightarrow> cancelled (fst (snd (exec r ev s)))"
    and "r \<in> set rs"
  shows "cancelled (fst (snd (run_hooks exec rs ev s)))"
  by (rule run_hooks_blocked_event [where J = "\<lambda>ev. I"]) (use assms in \<open>auto simp: split_beta\<close>)

context hook_runner
begin

text \<open>Hooks are run from the front until one cancels the event, each result under the key of its
  hook.\<close>

lemma run_hooks_prefix:
  assumes "run_hooks exec rs ev s = (results, ev', s')"
  shows "length results \<le> length rs \<and> (\<not> cancelled ev' \<longrightarrow> length results = length rs)"
  using assms
proof (induction rs arbitrary: ev s results)
  case (Cons r rs)
  then show ?case by (fastforce split: if_splits prod.splits)
qed simp

lemma run_hooks_keys:
  assumes "run_hooks exec rs ev s = (results, ev', s')"
    and "\<And>r ev s x. hook_key (heap_of (snd (snd (exec r ev s))) x) = hook_key (heap_of s x)"
  shows "map res_key results = take (length results) (map (\<lambda>r. hook_key (heap_of s r)) rs)"
  using assms(1)
proof (induction rs arbitrary: ev s results)
  case (Cons r rs)
  show ?case
  proof (cases "cancelled ev")
    case False
    obtain res ev1 s1 where x: "exec r ev s = (res, ev1, s1)" by (cases "exec r ev s")
    obtain rest where rest: "results = res # rest"
      "run_hooks exec rs ev1 (s1\<lparr>reg_of := record_status res (reg_of s1)\<rparr>) = (rest, ev', s')"
      using Cons.prems False x by (auto split: prod.splits)
    have "\<And>x. hook_key (heap_of s1 x) = hook_key (heap_of s x)" using assms(2) [of r ev s] x by simp
    moreover have "res_key res = hook_key (heap_of s r)" using reports_key [of r ev s] x by simp
    ultimately show ?thesis using Cons.IH [OF rest(2)] rest(1) by simp
  qed (use Cons.prems in simp)
qed simp

lemma run_hooks_results: "x \<in> set (fst (run_hooks exec rs ev s)) \<Longrightarrow> success x \<longleftrightarrow> res_error x = None"
proof (induction rs arbitrary: ev s)
  case (Cons r rs)
  obtain res ev1 s1 where e: "exec r ev s = (res, ev1, s1)" by (cases "exec r ev s")
  have "x = res \<or> x \<in> set (fst (run_hooks exec rs ev1 (s1\<lparr>reg_of := record_status res (reg_of s1)\<rparr>)))"
    using Cons.prems e by (auto split: if_splits prod.splits)
  with Cons.IH success_or_error [of r ev s] e show ?case by (metis fst_conv)
qed simp

end

section \<open>What callbacks keep\<close>

definition callbacks_keep :: "('w sys \<Rightarrow> bool) \<Rightarrow> 'w env \<Rightarrow> bool" where
  "callbacks_keep I E \<longleftrightarrow> (\<forall>cb t e s. I s \<longrightarrow> I (snd (snd (run E cb t e s))))"

abbreviation sys_inv :: "'w sys \<Rightarrow> bool" where
  "sys_inv s \<equiv> reg_inv (heap_of s) (reg_of s)"

lemma set_status_inv [inv_intros]: "sys_inv s \<Longrightarrow> sys_inv (set_status r st s)"
  by (rule reg_inv_heap [of "heap_of s"]) (simp_all add: same_identity_def hook_key_def)

lemma record_status_cases: "record_status res R = R \<or> (\<exists>st. record_status res R = snd (update_hook_status (res_key res) st R))"
  by (auto simp: record_status_def split: option.splits)

lemma record_status_inv [inv_intros]: "reg_inv hp R \<Longrightarrow> reg_inv hp (record_status res R)"
  using record_status_cases [of res R] update_status_inv by metis

lemma process_phase_inv:
  assumes "I s" and "\<And>r ev s. I s \<Longrightarrow> I (snd (snd (exec r ev s)))"
    and "\<And>res s. I s \<Longrightarrow> I (s\<lparr>reg_of := record_status res (reg_of s)\<rparr>)"
  shows "I (snd (process_phase exec t data source phase s))"
  using run_hooks_inv [of I s exec, OF assms] assms(1)
  by (simp add: process_phase_def split: prod.splits) (metis snd_conv)

lemma process_event_inv:
  assumes "I s" and "\<And>r ev s. I s \<Longrightarrow> I (snd (snd (exec r ev s)))"
    and "\<And>res s. I s \<Longrightarrow> I (s\<lparr>reg_of := record_status res (reg_of s)\<rparr>)"
  shows "I (snd (process_event_with_phases exec m t data source s))"
proof -
  have *: "I s2" if "process_phase exec t' d src ph s1 = (x, s2)" "I s1" for t' d src ph s1 x s2
    using process_phase_inv [of I s1 exec, OF that(2) assms(2,3)] that(1) by (metis snd_conv)
  show ?thesis using assms(1)
    by (auto simp: process_event_with_phases_def Let_def dest!: * split: option.splits prod.splits)
qed

lemma execute_hook_keeps:
  assumes "callbacks_keep sys_inv E" and "sys_inv s"
  shows "sys_inv (snd (snd (execute_hook E cfg r ev s)))"
  by (rule execute_hook_inv [where I = sys_inv])
    (use assms set_status_inv in \<open>auto simp: callbacks_keep_def simp del: set_status_sel\<close>)

section \<open>Properties\<close>

text \<open>a phase that is cancelled is the last one. If a PRE hook cancels the event, neither the
  event itself nor its POST phase is processed; if the MAIN phase cancels it, the POST phase is
  not. The event counts as cancelled exactly if one of its phases was, and a plugin's own (string)
  event has the MAIN phase only.\<close>

theorem cancelled_phase_ends_event:
  "case emit_with_hooks E cfg t data source B of (res, B') \<Rightarrow>
     (\<forall>p. pre res = Some p \<longrightarrow> pr_cancelled p \<longrightarrow> main res = None \<and> post res = None) \<and>
     (\<forall>p. main res = Some p \<longrightarrow> pr_cancelled p \<longrightarrow> post res = None) \<and>
     (main res = None \<longrightarrow> (\<exists>p. pre res = Some p \<and> pr_cancelled p)) \<and>
     (ps_cancelled res \<longleftrightarrow> (\<exists>p. Some p \<in> {pre res, main res, post res} \<and> pr_cancelled p)) \<and>
     (\<forall>x. t = StrEvent x \<longrightarrow> pre res = None \<and> post res = None)"
  by (auto simp: emit_with_hooks_def process_event_with_phases_def Let_def
      split: option.splits prod.splits if_splits)

theorem cancelled_phase_ends_event_witness:
  "post (fst (emit_with_hooks (timer_env (\<lambda>_. TimedOut)) no_config (StrEvent ''x'') [] ''t''
     (new_bus (\<lambda>_. demo_hook ''p'' ''h'' 5) 0 :: (nat, real) event_bus))) = None"
  using cancelled_phase_ends_event [where E = "timer_env (\<lambda>_. TimedOut)" and cfg = no_config and
      t = "StrEvent ''x''" and data = "[]" and source = "''t''" and
      B = "new_bus (\<lambda>_. demo_hook ''p'' ''h'' 5) 0 :: (nat, real) event_bus"]
  by (simp add: split_beta)

text \<open>emitting an event keeps the registry's invariant, whatever the hooks' outcomes, as long as
  the callbacks keep it when they use the registry themselves.\<close>

theorem emit_keeps_registry:
  assumes "callbacks_keep (\<lambda>s. reg_inv (heap_of s) (reg_of s)) E"
    and "reg_inv (heap_of (bus_sys B)) (reg_of (bus_sys B))"
    and "emit_with_hooks E cfg t data source B = (res, B')"
  shows "reg_inv (heap_of (bus_sys B')) (reg_of (bus_sys B'))"
proof -
  have "sys_inv (snd (process_event_with_phases (execute_hook E cfg) (phases B) t data source (bus_sys B)))"
    by (rule process_event_inv [where I = sys_inv])
      (use assms(1,2) execute_hook_keeps record_status_inv in auto)
  with assms(3) show ?thesis by (auto simp: emit_with_hooks_def split: prod.splits)
qed

theorem emit_keeps_registry_witness:
  "let B = snd (bus_register_hook 1 (new_bus (\<lambda>_. demo_hook ''p'' ''h'' 5) 0 :: (nat, real) event_bus));
       B' = snd (emit_with_hooks (timer_env (\<lambda>_. Raised ''x'')) no_config (EventType ''tool_call'') [] ''t'' B)
   in reg_inv (heap_of (bus_sys B')) (reg_of (bus_sys B'))"
proof -
  let ?B = "snd (bus_register_hook 1 (new_bus (\<lambda>_. demo_hook ''p'' ''h'' 5) 0 :: (nat, real) event_bus))"
  let ?E = "timer_env (\<lambda>_. Raised ''x'')"
  have "callbacks_keep sys_inv ?E" by (simp add: callbacks_keep_def timer_env_def)
  moreover have "reg_inv (heap_of (bus_sys ?B)) (reg_of (bus_sys ?B))"
    using register_inv [OF reg_inv_empty, of "\<lambda>_. demo_hook ''p'' ''h'' 5" 1]
    by (simp add: bus_register_hook_def new_bus_def split_beta)
  ultimately show ?thesis unfolding Let_def by (rule emit_keeps_registry) (rule prod.collapse [symmetric])
qed

text \<open>within a phase the hooks run in descending priority, each at most once, from the front of
  the registry's list until one of them cancels the event; without a cancellation all of them
  run. The results come in that order.\<close>

theorem phase_runs_in_priority_order:
  assumes "reg_inv (heap_of s) (reg_of s)"
    and "\<And>cb t e s x. hook_key (heap_of (snd (snd (run E cb t e s))) x) = hook_key (heap_of s x)"
    and "process_phase (execute_hook E cfg) t data source phase s = (pr, s')"
  shows "\<exists>ran. prefix ran (get_hooks_for_event (heap_of s) t (reg_of s)) \<and>
    sorted_wrt (\<lambda>a b. hprio (heap_of s a) \<ge> hprio (heap_of s b)) ran \<and>
    map res_key (hook_results pr) = map (\<lambda>r. hook_key (heap_of s r)) ran \<and>
    distinct (map res_key (hook_results pr)) \<and>
    (\<not> pr_cancelled pr \<longrightarrow> set ran = set (get_hooks_for_event (heap_of s) t (reg_of s)))"
proof (cases "hooks_for t s = []")
  case True
  with assms(3) show ?thesis by (auto simp: process_phase_def)
next
  case False
  obtain ev' where run: "run_hooks (execute_hook E cfg) (hooks_for t s) (new_event t data source) s =
      (hook_results pr, ev', s')" and c: "pr_cancelled pr = cancelled ev'"
    using assms(3) False by (auto simp: process_phase_def split: prod.splits)
  have same: "hook_key (heap_of (snd (snd (execute_hook E cfg r ev s))) x) = hook_key (heap_of s x)" for r ev s x
    by (rule execute_hook_inv [where I = "\<lambda>s'. hook_key (heap_of s' x) = hook_key (heap_of s x)"])
      (use assms(2) in \<open>auto simp: hook_key_def\<close>)
  let ?n = "length (hook_results pr)" and ?hs = "hooks_for t s"
  have ok: "reg_inv (fst (heap_of s, reg_of s)) (snd (heap_of s, reg_of s))" using assms(1) by simp
  note keys = hx.run_hooks_keys [OF run same] and len = hx.run_hooks_prefix [OF run]
  note src = reg.listing_ordered [OF ok, of t] reg.listing_distinct [OF ok, of t]
  have "sorted_wrt (\<lambda>a b. hprio (heap_of s a) \<ge> hprio (heap_of s b)) (take ?n ?hs)"
    using src(1) by (simp add: sorted_wrt_take)
  moreover have "map res_key (hook_results pr) = map (\<lambda>r. hook_key (heap_of s r)) (take ?n ?hs)"
    using keys by (simp add: take_map)
  moreover have "distinct (map res_key (hook_results pr))"
    using src(2) keys by (metis distinct_take fst_conv snd_conv)
  ultimately show ?thesis using len c by (intro exI [of _ "take ?n ?hs"]) (auto simp: take_is_prefix)
qed

abbreviation demo_bus :: "hook \<Rightarrow> (nat, real) event_bus" where
  "demo_bus h \<equiv> snd (bus_register_hook 1 (new_bus (\<lambda>_. h) 0))"

lemma demo_bus_inv: "reg_inv (heap_of (bus_sys (demo_bus h))) (reg_of (bus_sys (demo_bus h)))"
  using register_inv [OF reg_inv_empty, of "\<lambda>_. h" 1]
  by (simp add: bus_register_hook_def new_bus_def split_beta)

lemma demo_bus_hooks:
  "hooks_for (event_type h) (bus_sys (demo_bus h)) = (if enabled h then [1] else [])"
  by (simp add: bus_register_hook_def new_bus_def split_beta get_hooks_for_event_def register_hook_def Let_def
      empty_registry_def od_get_default_def sort_by_priority_def)

theorem phase_runs_in_priority_order_witness:
  "let h = demo_hook ''p'' ''h'' 5; E = timer_env (\<lambda>_. Raised ''x'');
       pr = fst (process_phase (execute_hook E no_config) (event_type h) [] ''t'' ''PRE'' (bus_sys (demo_bus h)))
   in distinct (map res_key (hook_results pr))"
proof -
  let ?h = "demo_hook ''p'' ''h'' 5" and ?E = "timer_env (\<lambda>_. Raised ''x'')"
  let ?p = "process_phase (execute_hook ?E no_config) (event_type ?h) [] ''t'' ''PRE'' (bus_sys (demo_bus ?h))"
  have "\<And>cb t e s x. hook_key (heap_of (snd (snd (run ?E cb t e s))) x) = hook_key (heap_of s x)"
    by (simp add: timer_env_def)
  from phase_runs_in_priority_order [OF demo_bus_inv this prod.collapse [of ?p, symmetric]]
  show ?thesis unfolding Let_def by blast
qed

text \<open>C26: a hook of the PRE phase with the action \<open>stop\<close> and no retries that never returns (every
  call of its callback raises or times out) keeps the event from being processed: the event is
  cancelled, and its MAIN and POST phases do not run. The other callbacks may do anything but
  change that hook's settings.\<close>

theorem failing_stop_hook_blocks_event:
  assumes "phases_of (phases B) t = Some (pre_t, post_t)"
    and "r \<in> set (get_hooks_for_event (heap_of (bus_sys B)) pre_t (reg_of (bus_sys B)))"
    and "h = heap_of (bus_sys B) r" "effective_retries cfg h = 0" "effective_action cfg h = ''stop''"
    and "\<And>t e s v. fst (run E (callback h) t e s) \<noteq> Returned v"
    and "callbacks_keep (\<lambda>s. (heap_of s r)\<lparr>status := PENDING\<rparr> = h\<lparr>status := PENDING\<rparr>) E"
    and "emit_with_hooks E cfg t data source B = (res, B')"
  shows "ps_cancelled res \<and> main res = None \<and> post res = None"
proof -
  let ?I = "\<lambda>s. (heap_of s r)\<lparr>status := PENDING\<rparr> = h\<lparr>status := PENDING\<rparr>"
  let ?x = "execute_hook E cfg"
  have same: "callback (heap_of s r) = callback h \<and> enabled (heap_of s r) = enabled h \<and>
      timeout (heap_of s r) = timeout h \<and> retry_attempts (heap_of s r) = retry_attempts h \<and>
      error_action (heap_of s r) = error_action h" if "?I s" for s :: "'b sys"
    using that by (cases "heap_of s r", cases h) simp
  have keep: "?I (snd (snd (?x r' ev s)))" if "?I s" for r' ev s
    by (rule execute_hook_inv [where I = ?I]) (use assms(7) that in \<open>auto simp: callbacks_keep_def\<close>)
  have fails: "\<not> success (fst (?x r ev s))" if "?I s" for ev s
    by (rule execute_hook_never_returns [where I = ?I])
      (use assms(6,7) that same in \<open>auto simp: callbacks_keep_def call_def Let_def\<close>)
  have "enabled h" using assms(2,3) by (auto simp: get_hooks_for_event_def)
  have blocks: "cancelled (fst (snd (?x r ev s)))" if "?I s" for ev s
  proof -
    obtain rs ev' s' where x: "?x r ev s = (rs, ev', s')" by (cases "?x r ev s")
    have "effective_retries cfg (heap_of s r) = 0" "effective_action cfg (heap_of s r) = ''stop''"
      using same [OF that] assms(4,5) by (simp_all add: effective_retries_def effective_action_def)
    with execute_hook_stop [OF x] fails [OF that, of ev] same [OF that] \<open>enabled h\<close> x show ?thesis by simp
  qed
  have "cancelled (fst (snd (run_hooks ?x (hooks_for pre_t (bus_sys B)) ev (bus_sys B))))" for ev
    by (rule run_hooks_blocked [where I = ?I and r = r]) (use keep blocks assms(2,3) in auto)
  then have "pr_cancelled (fst (process_phase ?x pre_t data source ''PRE'' (bus_sys B)))"
    using assms(2) by (auto simp: process_phase_def split_beta)
  with assms(1,8) show ?thesis
    by (auto simp: emit_with_hooks_def process_event_with_phases_def Let_def split: prod.splits)
qed

theorem failing_stop_hook_blocks_event_witness:
  "main (fst (emit_with_hooks (timer_env (\<lambda>_. Raised ''boom'')) no_config (EventType ''tool_call'') [] ''t''
     (demo_bus (strict_hook 0)))) = None"
proof -
  let ?B = "demo_bus (strict_hook 0)" and ?E = "timer_env (\<lambda>_. Raised ''boom'')"
  have B: "heap_of (bus_sys ?B) = (\<lambda>_. strict_hook 0)" "phases ?B = pre_post_map"
    by (simp_all add: bus_register_hook_def new_bus_def split_beta)
  have t: "event_type (strict_hook 0) = EventType ''tool_call_pre''" by (simp add: strict_hook_def demo_hook_def)
  have "phases_of (phases ?B) (EventType ''tool_call'') = Some (EventType ''tool_call_pre'', EventType ''tool_call_post'')"
    unfolding B by (simp add: pre_post_map_def)
  moreover have "1 \<in> set (get_hooks_for_event (heap_of (bus_sys ?B)) (EventType ''tool_call_pre'') (reg_of (bus_sys ?B)))"
    using demo_bus_hooks [of "strict_hook 0"] by (simp add: t strict_hook_effective)
  moreover have "strict_hook 0 = heap_of (bus_sys ?B) 1" unfolding B by (rule refl)
  moreover have "callbacks_keep (\<lambda>s. (heap_of s 1)\<lparr>status := PENDING\<rparr> = (strict_hook 0)\<lparr>status := PENDING\<rparr>) ?E"
    by (simp add: callbacks_keep_def timer_env_def)
  moreover have "\<And>t e s v. fst (run ?E (callback (strict_hook 0)) t e s) \<noteq> Returned v" by (simp add: timer_env_def)
  ultimately show ?thesis
    using failing_stop_hook_blocks_event [OF _ _ _ strict_hook_effective(1,3) _ _ prod.collapse [symmetric]] by blast
qed

text \<open>the status in the registry does not follow a hook that fails with an exception whose text
  is empty (such as a failed bare \<open>assert\<close>): the text serves as the error marker, the empty one
  counts as no error, and such a result is in no count of the statistics either.\<close>

theorem empty_error_text_not_recorded:
  "\<not> success res \<Longrightarrow> res_error res = Some [] \<Longrightarrow>
   record_status res R = R \<and> st_successful (get_execution_stats [res]) = 0 \<and>
   st_failed (get_execution_stats [res]) = 0 \<and> st_timed_out (get_execution_stats [res]) = 0"
  by (simp add: record_status_def get_execution_stats_def Let_def)

theorem empty_error_text_not_recorded_witness:
  "let res = fst (execute_hook (timer_env (\<lambda>_. Raised [])) no_config 1 demo_event (demo_sys (strict_hook 0)));
       R = reg_of (bus_sys (demo_bus (strict_hook 0)))
   in \<not> success res \<and> record_status res R = R"
proof -
  let ?res = "fst (execute_hook (timer_env (\<lambda>_. Raised [])) no_config 1 demo_event (demo_sys (strict_hook 0)))"
  have "\<not> success ?res" "res_error ?res = Some []" by (simp_all add: strict_run)
  with empty_error_text_not_recorded [of ?res "reg_of (bus_sys (demo_bus (strict_hook 0)))"] show ?thesis
    by (simp add: Let_def)
qed

end
