(* ===== verification/Tool_Registry.thy ===== *)
theory Tool_Registry
  imports Dict_Utils "HOL-Library.Multiset" "HOL-Library.List_Lexorder" "HOL-Library.Char_ord"
begin

text \<open>
  The tools an agent can call: \<open>kollabor_agent/tool_definition.py\<close> (classes \<open>ToolParameter\<close> and
  \<open>ToolDefinition\<close>) and \<open>kollabor_agent/tool_registry.py\<close> (class \<open>ToolRegistry\<close>).

  The fields that only feed the generated documentation (examples, notes, rules) and the handler
  are left out. The definitions that the modules under \<open>tool_definitions/\<close> register at start-up
  are data: \<open>get_global\<close> takes them as a list, in the order the modules register them.
\<close>

section \<open>Definitions of tools\<close>

record tool_parameter =
  param_name :: string
  param_type :: string
  param_description :: string
  required :: bool
  param_default :: pyval
  enum :: "pyval list option"
  items :: "pydict option"
  properties :: "pydict option"

definition opt_entry :: "string \<Rightarrow> ('a \<Rightarrow> pyval) \<Rightarrow> 'a option \<Rightarrow> pydict" where
  "opt_entry k f v = (case v of None \<Rightarrow> [] | Some x \<Rightarrow> [(k, f x)])"

definition param_to_json_schema :: "tool_parameter \<Rightarrow> pydict" where
  "param_to_json_schema p =
     [(''type'', PStr (param_type p)), (''description'', PStr (param_description p))] @
     (if param_default p = PNone then [] else [(''default'', param_default p)]) @
     opt_entry ''enum'' PList (enum p) @ opt_entry ''items'' PDict (items p) @
     opt_entry ''properties'' PDict (properties p)"

record tool_definition =
  tool_name :: string
  description :: string
  parameters :: "tool_parameter list"
  xml_tag :: string
  xml_form :: string
  xml_body_param :: "string option"
  xml_attributes :: "string list"
  category :: string
  risk_level :: string
  requires_permission :: bool
  native_name_override :: "string option"
  expose_native :: bool

definition native_name :: "tool_definition \<Rightarrow> string" where
  "native_name d =
     (case native_name_override d of
        Some n \<Rightarrow> if n \<noteq> [] then n else replace_char (CHR ''-'') (CHR ''_'') (tool_name d)
      | None \<Rightarrow> replace_char (CHR ''-'') (CHR ''_'') (tool_name d))"

definition xml_tag_name :: "tool_definition \<Rightarrow> string" where
  "xml_tag_name d = (if xml_tag d \<noteq> [] then xml_tag d else tool_name d)"

text \<open>A dictionary comprehension: a later entry of the same key replaces the value.\<close>

definition to_json_schema :: "tool_definition \<Rightarrow> pydict" where
  "to_json_schema d =
     (let props = od_update [] (map (\<lambda>p. (param_name p, PDict (param_to_json_schema p))) (parameters d));
          req = map (\<lambda>p. PStr (param_name p)) (filter required (parameters d));
          params = [(''type'', PStr ''object''), (''properties'', PDict props)] @
                   (if req = [] then [] else [(''required'', PList req)])
      in [(''name'', PStr (native_name d)), (''description'', PStr (description d)),
          (''parameters'', PDict params)])"

section \<open>The registry\<close>

type_synonym tool_registry = "(string, tool_definition) odict"

definition register :: "tool_definition \<Rightarrow> bool \<Rightarrow> tool_registry \<Rightarrow> tool_registry" where
  "register d replace R =
     (if tool_name d \<in> od_keys R \<and> \<not> replace then R else od_put (tool_name d) d R)"

definition get :: "string \<Rightarrow> tool_registry \<Rightarrow> tool_definition option" where
  "get name R = od_get R name"

definition get_by_native_name :: "string \<Rightarrow> tool_registry \<Rightarrow> tool_definition option" where
  "get_by_native_name n R = List.find (\<lambda>d. native_name d = n) (map snd R)"

definition get_by_xml_tag :: "string \<Rightarrow> tool_registry \<Rightarrow> tool_definition option" where
  "get_by_xml_tag tag R = List.find (\<lambda>d. xml_tag_name d = tag) (map snd R)"

definition list_tools :: "tool_registry \<Rightarrow> tool_definition list" where
  "list_tools R = sort_key tool_name (map snd R)"

definition list_by_category :: "string \<Rightarrow> tool_registry \<Rightarrow> tool_definition list" where
  "list_by_category c R = filter (\<lambda>d. category d = c) (list_tools R)"

definition get_for_bundle :: "string list \<Rightarrow> tool_registry \<Rightarrow> tool_definition list" where
  "get_for_bundle allowed R =
     (if ''*'' \<in> set allowed then list_tools R
      else List.map_filter (\<lambda>n. get n R) allowed)"

definition all_categories :: "tool_registry \<Rightarrow> string list" where
  "all_categories R = sorted_list_of_set (category ` set (map snd R))"

definition names :: "tool_registry \<Rightarrow> string list" where
  "names R = sort (map fst R)"

text \<open>The shared instance: \<open>None\<close> until the first use and after \<open>reset\<close>.\<close>

definition load_definitions :: "tool_definition list \<Rightarrow> tool_registry \<Rightarrow> tool_registry" where
  "load_definitions defs R = fold (\<lambda>d. register d False) defs R"

definition get_global ::
  "tool_definition list \<Rightarrow> tool_registry option \<Rightarrow> tool_registry \<times> tool_registry option" where
  "get_global defs inst =
     (case inst of
        Some R \<Rightarrow> (R, Some R)
      | None \<Rightarrow> (let R = load_definitions defs [] in (R, Some R)))"

definition reset :: "tool_registry option \<Rightarrow> tool_registry option" where
  "reset inst = None"

section \<open>Lemmas\<close>

definition registry_wf :: "tool_registry \<Rightarrow> bool" where
  "registry_wf R \<longleftrightarrow> od_wf R \<and> (\<forall>(k, d) \<in> set R. tool_name d = k)"

lemma registry_wf_empty [simp, inv_intros]: "registry_wf []"
  by (simp add: registry_wf_def)

lemma set_od_put: "set (od_put k v d) \<subseteq> insert (k, v) (set d)"
  by (induction d) auto

lemma register_wf [inv_intros]: "registry_wf R \<Longrightarrow> registry_wf (register d b R)"
  using set_od_put [of "tool_name d" d R] by (auto simp: registry_wf_def register_def)

lemma load_wf [inv_intros]: "registry_wf R \<Longrightarrow> registry_wf (load_definitions defs R)"
  unfolding load_definitions_def by (induction defs arbitrary: R) (simp_all add: register_wf)

lemma get_load:
  "get n (load_definitions defs R) =
     (case get n R of Some d \<Rightarrow> Some d | None \<Rightarrow> List.find (\<lambda>d. tool_name d = n) defs)"
proof (induction defs arbitrary: R)
  case (Cons d defs)
  have "get n (register d False R) =
      (case get n R of Some x \<Rightarrow> Some x | None \<Rightarrow> if tool_name d = n then Some d else None)"
    using od_get_None_iff [of R "tool_name d"] by (auto simp: get_def register_def split: option.splits)
  with Cons show ?case by (auto simp: load_definitions_def split: option.splits)
qed (simp add: load_definitions_def split: option.splits)

lemma map_name_snd: "registry_wf R \<Longrightarrow> map tool_name (map snd R) = map fst R"
  by (auto simp: registry_wf_def)

lemma in_registry: "registry_wf R \<Longrightarrow> d \<in> snd ` set R \<longleftrightarrow> get (tool_name d) R = Some d"
proof
  assume wf: "registry_wf R" and "d \<in> snd ` set R"
  then have "(tool_name d, d) \<in> set R" by (force simp: registry_wf_def)
  with wf show "get (tool_name d) R = Some d" by (simp add: registry_wf_def od_wf_def get_def)
next
  assume "get (tool_name d) R = Some d"
  then show "d \<in> snd ` set R" by (force simp: get_def dest: map_of_SomeD)
qed

lemma find_wf: "registry_wf R \<Longrightarrow> List.find P (map snd R) = Some d \<Longrightarrow> get (tool_name d) R = Some d"
  using in_registry by (fastforce dest: find_Some_in)

text \<open>Every way to look a tool up finds a registered tool, under its own name.\<close>

lemma lookups_registered:
  assumes "registry_wf R"
  shows "get n R = Some d \<Longrightarrow> tool_name d = n"
    and "get_by_native_name n R = Some d \<Longrightarrow> get (tool_name d) R = Some d"
    and "get_by_xml_tag n R = Some d \<Longrightarrow> get (tool_name d) R = Some d"
  using assms find_wf by (auto simp: registry_wf_def get_def get_by_native_name_def get_by_xml_tag_def
      dest: map_of_SomeD)

section \<open>Properties\<close>

text \<open>the registry that the start-up builds holds, for each name, the first definition that was
  registered under it (a second one is ignored, not refused), and lists its tools by name without
  repetition.\<close>

theorem global_registry_contents:
  "get n (fst (get_global defs None)) = List.find (\<lambda>d. tool_name d = n) defs \<and>
   sorted (map tool_name (list_tools (fst (get_global defs None)))) \<and>
   distinct (map tool_name (list_tools (fst (get_global defs None)))) \<and>
   set (names (fst (get_global defs None))) = tool_name ` set defs"
proof -
  let ?R = "load_definitions defs []"
  have g: "fst (get_global defs None) = ?R" by (simp add: get_global_def Let_def)
  have wf: "registry_wf ?R" by (simp add: load_wf)
  have get: "get n ?R = List.find (\<lambda>d. tool_name d = n) defs" for n
    by (simp add: get_load get_def [of _ "[]"])
  have "distinct (map tool_name (list_tools ?R))"
  proof -
    have "mset (map tool_name (list_tools ?R)) = mset (map fst ?R)"
      using map_name_snd [OF wf] by (metis list_tools_def mset_map mset_sort)
    then show ?thesis using wf by (metis mset_eq_imp_distinct_iff od_wf_def registry_wf_def)
  qed
  moreover have "set (names ?R) = tool_name ` set defs"
  proof -
    have "n \<in> fst ` set ?R \<longleftrightarrow> n \<in> tool_name ` set defs" for n
      using get [of n] od_get_None_iff [of ?R n] by (auto simp: get_def find_None_iff)
    then show ?thesis by (auto simp: names_def)
  qed
  ultimately show ?thesis by (simp add: g get list_tools_def)
qed

text \<open>a bundle gets exactly the registered tools its list names, in that order; the name
  \<open>*\<close> gives it every tool.\<close>

theorem bundle_gets_registered_tools:
  assumes "registry_wf R"
  shows "set (get_for_bundle allowed R) =
    {d. get (tool_name d) R = Some d \<and> (tool_name d \<in> set allowed \<or> ''*'' \<in> set allowed)}"
proof (cases "''*'' \<in> set allowed")
  case True
  then have "set (get_for_bundle allowed R) = snd ` set R" by (simp add: get_for_bundle_def list_tools_def)
  with True in_registry [OF assms] show ?thesis by auto
next
  case False
  then have "d \<in> set (get_for_bundle allowed R) \<longleftrightarrow> (\<exists>n \<in> set allowed. get n R = Some d)" for d
    by (force simp: get_for_bundle_def List.map_filter_def)
  with False lookups_registered(1) [OF assms] show ?thesis by blast
qed

definition demo_tool :: "string \<Rightarrow> string \<Rightarrow> tool_definition" where
  "demo_tool name risk = \<lparr>tool_name = name, description = [], parameters = [], xml_tag = [], xml_form = ''body'',
     xml_body_param = None, xml_attributes = [], category = ''general'', risk_level = risk,
     requires_permission = False, native_name_override = None, expose_native = True\<rparr>"

theorem bundle_gets_registered_tools_witness:
  "set (get_for_bundle [''file-read'', ''nope''] (load_definitions [demo_tool ''file-read'' ''low''] [])) =
     {demo_tool ''file-read'' ''low''}"
proof -
  let ?R = "load_definitions [demo_tool ''file-read'' ''low''] []"
  have "registry_wf ?R" by (simp add: load_wf)
  moreover have "get n ?R = (if n = ''file-read'' then Some (demo_tool ''file-read'' ''low'') else None)" for n
    unfolding get_load by (simp add: get_def demo_tool_def)
  ultimately show ?thesis
    using bundle_gets_registered_tools [of ?R "[''file-read'', ''nope'']"] by (auto simp: demo_tool_def)
qed

end
