(* ===== verification/Risk_Assessor.thy ===== *)
theory Risk_Assessor
  imports Py_Regex Tool_Registry
begin

text \<open>
  Risk assessment of a tool call: the rules of \<open>kollabor_events/permissions_models.py\<close> (class
  \<open>RiskAssessmentRules\<close> with its default patterns) and
  \<open>kollabor_agent/permissions/risk_assessor.py\<close> (class \<open>RiskAssessor\<close>).

  A tool call is the dictionary the response parser makes. Its \<open>type\<close>, \<open>name\<close>, \<open>command\<close> and the
  like are strings; \<open>get_str\<close> reads them and takes a value that is not a string for the empty
  string. A pattern stands for its own source text where the code reports which one matched.
\<close>

section \<open>Tool calls\<close>

definition get_str :: "pydict \<Rightarrow> string \<Rightarrow> string \<Rightarrow> string" where
  "get_str d k dflt = (case od_get d k of None \<Rightarrow> dflt | Some (PStr s) \<Rightarrow> s | Some _ \<Rightarrow> [])"

definition get_args :: "pydict \<Rightarrow> pydict" where
  "get_args d = (case od_get d ''arguments'' of Some (PDict a) \<Rightarrow> a | _ \<Rightarrow> [])"

section \<open>Rules\<close>

datatype tool_risk_level = HIGH | MEDIUM | LOW | UNKNOWN

record risk_rules =
  high_risk_patterns :: "pattern list"
  medium_risk_patterns :: "pattern list"
  tool_type_risks :: "(string, tool_risk_level) odict"
  trusted_tools :: "string list"
  blocked_tools :: "string list"

definition pat :: "regex list \<Rightarrow> pattern" where
  "pat rs = \<lparr>ignore_case = False, body = seqs rs\<rparr>"

definition ipat :: "regex list \<Rightarrow> pattern" where
  "ipat rs = \<lparr>ignore_case = True, body = seqs rs\<rparr>"

abbreviation bs :: char where "bs \<equiv> CHR 0x5C"
abbreviation quotes :: "cls list" where "quotes \<equiv> [Lit (CHR 0x27), Lit (CHR 0x22)]"
abbreviation spaces :: regex where "spaces \<equiv> plus ws"
abbreviation any :: regex where "any \<equiv> Star Dot"
abbreviation unchained :: regex where
  "unchained \<equiv> Star (Set False [Lit (CHR ''|''), Lit (CHR '';''), Lit (CHR ''&'')])"
abbreviation slash :: regex where "slash \<equiv> Set True [Lit bs, Lit (CHR ''/'')]"
abbreviation one_of :: "string list \<Rightarrow> regex" where "one_of vs \<equiv> alts (map lit vs)"
abbreviation bword :: "string \<Rightarrow> regex" where "bword w \<equiv> seqs [Bound, lit w]"
abbreviation kollab_private :: regex where
  "kollab_private \<equiv> seqs [lit ''.kollab'', slash, lit ''private'', Bound]"
abbreviation pipe_sh :: regex where
  "pipe_sh \<equiv> seqs [any, ch (CHR ''|''), Star ws, opt (lit ''ba''), lit ''sh'']"

definition default_high_risk_patterns :: "pattern list" where
  "default_high_risk_patterns = [
     pat [lit ''rm'', spaces,
          Star (seqs [ch (CHR ''-''), plus (Set True [Lit (CHR ''r''), Lit (CHR ''f'')]), spaces]),
          Set True [Lit (CHR ''/''), Lit (CHR ''~'')]],
     pat [lit ''rm'', spaces, any, lit ''--no-preserve-root''],
     pat [lit ''mkfs.''],
     pat [lit ''dd'', spaces, any, lit ''of=/dev''],
     pat [lit ''chmod'', spaces, opt (seqs [lit ''-R'', spaces]), lit ''777''],
     pat [ch (CHR ''>''), Star ws, lit ''/dev/sd'', Set True [Range (CHR ''a'') (CHR ''z'')]],
     pat [lit ''curl'', pipe_sh],
     pat [lit ''wget'', pipe_sh],
     pat [lit ''sudo'', spaces, lit ''rm''],
     pat [lit '':()'', Star ws, ch (CHR ''{'')],
     pat [lit ''--hub'', spaces, opt (Set True quotes), one_of [''halt'', ''resume''], Bound],
     pat [lit ''/connect'', spaces, one_of [''revoke'', ''halt'', ''resume''], Bound],
     pat [alts ([bword ''rm'', bword ''mv'', bword ''cp'', bword ''tee'', bword ''ln'',
                seqs [bword ''sed'', spaces, lit ''-i''],
                seqs [bword ''dd'', Bound, unchained, lit ''of=''],
                bword ''truncate'', bword ''chmod'', bword ''chown'', bword ''shred'', bword ''unlink'',
                ch (CHR ''>'')]),
          unchained, kollab_private],
     pat [bword ''cd'', spaces, Star (Set True [NonSpace]), kollab_private, any,
          alts [bword ''rm'', bword ''mv'', bword ''cp'', bword ''tee'', bword ''truncate'',
                bword ''chmod'', bword ''unlink'', ch (CHR ''>'')]],
     pat [bword ''find'', Bound, unchained, kollab_private, unchained,
          alts [lit ''-delete'', seqs [lit ''-exec'', spaces, lit ''rm'']]],
     pat [bword ''python'', Star (Set True [Digit, Lit (CHR ''.'')]), spaces, lit ''-c'', Bound, any,
          kollab_private],
     ipat [Bound, alts [lit ''irm'', lit ''iwr'', lit ''invoke-restmethod'', lit ''invoke-webrequest'',
                        seqs [lit ''curl'', opt (lit ''.exe'')], lit ''wget''], Bound,
           unchained, ch (CHR ''|''), Star ws, one_of [''iex'', ''invoke-expression''], Bound],
     ipat [Bound, one_of [''remove-item'', ''ri'', ''rd'', ''rmdir'', ''del'', ''erase''], Bound, unchained,
           NotBehind [WordC, Lit bs, Lit (CHR ''/'')], opt (Set True quotes),
           Set True [Range (CHR ''a'') (CHR ''z'')], ch (CHR '':''), opt slash, opt (ch (CHR ''*'')),
           opt (Set True quotes), Ahead (Alt ws EndAnchor)],
     ipat [Bound, one_of [''rd'', ''rmdir''], spaces,
           seqs (replicate 2 (seqs [ch (CHR ''/''), Set True [Lit (CHR ''s''), Lit (CHR ''q'')], spaces]))],
     ipat [bword ''format'', spaces, Set True [Range (CHR ''a'') (CHR ''z'')], ch (CHR '':'')],
     ipat [Bound, one_of [''stop-computer'', ''restart-computer'', ''format-volume'', ''clear-disk''], Bound],
     ipat [Bound, one_of [''remove-item'', ''ri'', ''del'', ''erase'', ''rd'', ''rmdir'', ''move-item'', ''mi'',
             ''copy-item'', ''cpi'', ''set-content'', ''sc'', ''add-content'', ''ac'', ''out-file'',
             ''clear-content'', ''copy'', ''move''], Bound, unchained, kollab_private]]"

definition default_medium_risk_patterns :: "pattern list" where
  "default_medium_risk_patterns = [
     pat [lit ''git'', spaces, lit ''push''],
     pat [lit ''git'', spaces, lit ''reset'', spaces, lit ''--hard''],
     pat [lit ''npm'', spaces, lit ''publish''],
     pat [lit ''pip'', spaces, lit ''install''],
     pat [lit ''docker'', spaces, lit ''build''],
     pat [lit ''kubectl'', spaces, lit ''apply'']]"

definition default_tool_type_risks :: "(string, tool_risk_level) odict" where
  "default_tool_type_risks =
     [(''terminal'', MEDIUM), (''mcp_tool'', MEDIUM), (''mcp'', MEDIUM), (''file_write'', MEDIUM),
      (''file_create'', MEDIUM), (''file_create_overwrite'', MEDIUM), (''file_edit'', LOW),
      (''file_read'', LOW), (''search'', LOW)]"

definition default_rules :: risk_rules where
  "default_rules =
     \<lparr>high_risk_patterns = default_high_risk_patterns,
      medium_risk_patterns = default_medium_risk_patterns,
      tool_type_risks = default_tool_type_risks,
      trusted_tools = [''read_file'', ''list_directory'', ''search_file_content'', ''glob''],
      blocked_tools = []\<rparr>"

section \<open>Assessment\<close>

record risk_result =
  level :: tool_risk_level
  reason :: string
  matched_pattern :: "pattern option"
  res_tool_type :: "string option"
  requires_confirmation :: bool
  is_blocked :: bool

definition risk :: "tool_risk_level \<Rightarrow> string \<Rightarrow> risk_result" where
  "risk l why = \<lparr>level = l, reason = why, matched_pattern = None, res_tool_type = None,
     requires_confirmation = False, is_blocked = False\<rparr>"

definition assess_command :: "risk_rules \<Rightarrow> string \<Rightarrow> risk_result option" where
  "assess_command rules command =
     (case List.find (\<lambda>p. search p command) (high_risk_patterns rules) of
        Some p \<Rightarrow> Some ((risk HIGH ''Command matches high-risk pattern'')
                     \<lparr>matched_pattern := Some p, res_tool_type := Some ''terminal'', requires_confirmation := True\<rparr>)
      | None \<Rightarrow>
          (case List.find (\<lambda>p. search p command) (medium_risk_patterns rules) of
             Some p \<Rightarrow> Some ((risk MEDIUM ''Command matches medium-risk pattern'')
                          \<lparr>matched_pattern := Some p, res_tool_type := Some ''terminal''\<rparr>)
           | None \<Rightarrow> None))"

text \<open>\<open>if x not in candidates: candidates.append(x)\<close>\<close>

definition add_new :: "'a \<Rightarrow> 'a list \<Rightarrow> 'a list" where
  "add_new x xs = (if x \<in> set xs then xs else xs @ [x])"

definition add_candidates :: "string \<Rightarrow> string list \<Rightarrow> string list" where
  "add_candidates v cs =
     (if v = [] \<or> v \<in> set cs then cs
      else add_new (replace_char (CHR ''-'') (CHR ''_'') v)
             (add_new (replace_char (CHR ''_'') (CHR ''-'') v) (cs @ [v])))"

definition lookup_tool :: "tool_registry \<Rightarrow> string \<Rightarrow> tool_definition option" where
  "lookup_tool R c =
     (case get c R of Some d \<Rightarrow> Some d | None \<Rightarrow>
        (case get_by_native_name c R of Some d \<Rightarrow> Some d | None \<Rightarrow> get_by_xml_tag c R))"

fun first_some :: "('a \<Rightarrow> 'b option) \<Rightarrow> 'a list \<Rightarrow> 'b option" where
  "first_some f [] = None"
| "first_some f (x # xs) = (case f x of Some y \<Rightarrow> Some y | None \<Rightarrow> first_some f xs)"

text \<open>The registry is \<open>None\<close> if it cannot be loaded.\<close>

definition find_tool_definition :: "tool_registry option \<Rightarrow> string \<Rightarrow> string \<Rightarrow> tool_definition option" where
  "find_tool_definition reg tool_type name =
     (case reg of
        None \<Rightarrow> None
      | Some R \<Rightarrow> first_some (lookup_tool R) (add_candidates tool_type (add_candidates name [])))"

definition tool_definition_risk :: "string \<Rightarrow> tool_risk_level" where
  "tool_definition_risk s =
     od_get_default [(''low'', LOW), (''medium'', MEDIUM), (''high'', HIGH), (''unknown'', UNKNOWN)]
       (str_lower s) UNKNOWN"

definition quoted :: "string \<Rightarrow> string" where
  "quoted s = CHR 0x27 # s @ [CHR 0x27]"

definition default_risk :: "risk_rules \<Rightarrow> string \<Rightarrow> risk_result" where
  "default_risk rules tool_type =
     (risk (od_get_default (tool_type_risks rules) tool_type UNKNOWN)
        (''Default risk for tool type '' @ quoted tool_type))\<lparr>res_tool_type := Some tool_type\<rparr>"

definition assess_tool :: "risk_rules \<Rightarrow> tool_registry option \<Rightarrow> pydict \<Rightarrow> risk_result" where
  "assess_tool rules reg tool_data =
     (let tool_type = get_str tool_data ''type'' ''unknown'';
          name = get_str tool_data ''name'' [];
          command = get_str tool_data ''command'' []
      in if name \<in> set (blocked_tools rules)
         then (risk HIGH (''Tool '' @ quoted name @ '' is blocked by configuration''))\<lparr>is_blocked := True\<rparr>
         else if name \<in> set (trusted_tools rules)
         then (risk LOW (''Tool '' @ quoted name @ '' is in trusted list''))\<lparr>res_tool_type := Some tool_type\<rparr>
         else if tool_type = ''terminal'' \<and> command \<noteq> []
         then (case assess_command rules command of
                 Some r \<Rightarrow> r
               | None \<Rightarrow> default_risk rules tool_type)
         else case find_tool_definition reg tool_type name of
                Some d \<Rightarrow> (risk (tool_definition_risk (risk_level d))
                            (''Tool definition risk for '' @ quoted (tool_name d)))
                            \<lparr>res_tool_type := Some tool_type, requires_confirmation := requires_permission d\<rparr>
              | None \<Rightarrow> default_risk rules tool_type)"

section \<open>Lemmas\<close>

lemma risk_sel [simp]: "level (risk l w) = l" "reason (risk l w) = w" "is_blocked (risk l w) = False"
  by (simp_all add: risk_def)

lemma default_risk_sel [simp]:
  "level (default_risk rules t) = od_get_default (tool_type_risks rules) t UNKNOWN"
  "is_blocked (default_risk rules t) = False"
  by (simp_all add: default_risk_def)

lemma assess_command_level:
  "(case assess_command rules c of Some r \<Rightarrow> level r = HIGH | None \<Rightarrow> False) \<longleftrightarrow>
     (\<exists>p \<in> set (high_risk_patterns rules). search p c)"
  by (auto simp: assess_command_def find_None_iff split: option.splits dest: find_Some_in)

lemma assess_command_None:
  "assess_command rules c = None \<longleftrightarrow>
     (\<forall>p \<in> set (high_risk_patterns rules) \<union> set (medium_risk_patterns rules). \<not> search p c)"
  by (auto simp: assess_command_def find_None_iff split: option.splits dest: find_Some_in)

lemma assess_command_sel:
  "assess_command rules c = Some r \<Longrightarrow> \<not> is_blocked r \<and> level r \<in> {HIGH, MEDIUM} \<and>
     (\<exists>p. matched_pattern r = Some p \<and> search p c)"
  by (auto simp: assess_command_def split: option.splits dest: find_Some_in)

lemma first_some_Some: "first_some f xs = Some y \<Longrightarrow> \<exists>x \<in> set xs. f x = Some y"
  by (induction xs) (auto split: option.splits)

text \<open>A tool that is found for a call is registered, and the call's name or type is one of its
  names up to hyphens and underscores.\<close>

lemma find_tool_registered:
  assumes "registry_wf R" and "find_tool_definition (Some R) t n = Some d"
  shows "get (tool_name d) R = Some d"
proof -
  from assms(2) obtain c where "lookup_tool R c = Some d"
    by (auto simp: find_tool_definition_def dest: first_some_Some)
  with lookups_registered [OF assms(1)] show ?thesis
    by (auto simp: lookup_tool_def split: option.splits)
qed

section \<open>Properties\<close>

text \<open>how the risk of a call is decided. A call is reported as blocked exactly if its name is in
  the blocked list, whatever else holds of it. Otherwise a trusted name makes it \<open>LOW\<close>; a terminal
  command is \<open>HIGH\<close> exactly if one of the high-risk patterns is found in it; and a call that no
  list, no tool definition and no default knows is \<open>UNKNOWN\<close>.\<close>

theorem assess_tool_decides:
  assumes "n = get_str d ''name'' []" and "t = get_str d ''type'' ''unknown''"
    and "c = get_str d ''command'' []"
  shows "(is_blocked (assess_tool rules reg d) \<longleftrightarrow> n \<in> set (blocked_tools rules)) \<and>
    (n \<in> set (blocked_tools rules) \<longrightarrow> level (assess_tool rules reg d) = HIGH) \<and>
    (n \<notin> set (blocked_tools rules) \<longrightarrow> n \<in> set (trusted_tools rules) \<longrightarrow>
       level (assess_tool rules reg d) = LOW) \<and>
    (n \<notin> set (blocked_tools rules) \<longrightarrow> n \<notin> set (trusted_tools rules) \<longrightarrow> t = ''terminal'' \<longrightarrow> c \<noteq> [] \<longrightarrow>
       od_get (tool_type_risks rules) ''terminal'' = Some MEDIUM \<longrightarrow>
       (level (assess_tool rules reg d) = HIGH \<longleftrightarrow> (\<exists>p \<in> set (high_risk_patterns rules). search p c))) \<and>
    (n \<notin> set (blocked_tools rules) \<longrightarrow> n \<notin> set (trusted_tools rules) \<longrightarrow> t \<noteq> ''terminal'' \<longrightarrow>
       find_tool_definition reg t n = None \<longrightarrow> od_get (tool_type_risks rules) t = None \<longrightarrow>
       level (assess_tool rules reg d) = UNKNOWN)"
proof (intro conjI impI)
  show "level (assess_tool rules reg d) = HIGH \<longleftrightarrow> (\<exists>p \<in> set (high_risk_patterns rules). search p c)"
    if "n \<notin> set (blocked_tools rules)" "n \<notin> set (trusted_tools rules)" "t = ''terminal''" "c \<noteq> []"
      "od_get (tool_type_risks rules) ''terminal'' = Some MEDIUM"
    using that assess_command_level [of rules c]
    by (auto simp: assess_tool_def Let_def assms od_get_default_def split: option.splits)
qed (use assms in \<open>auto simp: assess_tool_def Let_def od_get_default_def split: option.splits dest!: assess_command_sel\<close>)

definition terminal_call :: "string \<Rightarrow> pydict" where
  "terminal_call c = [(''id'', PStr ''t1''), (''type'', PStr ''terminal''), (''name'', PStr ''terminal''),
     (''command'', PStr c)]"

theorem assess_tool_decides_witness:
  "level (assess_tool (default_rules\<lparr>blocked_tools := [''terminal'']\<rparr>) None (terminal_call ''ls'')) = HIGH \<and>
   is_blocked (assess_tool (default_rules\<lparr>blocked_tools := [''terminal'']\<rparr>) None (terminal_call ''ls''))"
  using assess_tool_decides [OF refl refl refl, of "default_rules\<lparr>blocked_tools := [''terminal'']\<rparr>" None "terminal_call ''ls''"]
  by (simp add: terminal_call_def get_str_def)

text \<open>a command that one of the default high-risk patterns without word boundaries recognises
  stays \<open>HIGH\<close> whatever is put before or after it: a dangerous command cannot be hidden in a longer
  one, a script line or a chain.\<close>

theorem high_risk_in_any_context:
  assumes "p \<in> set default_high_risk_patterns" and "local_regex (body p)" and "search p dangerous"
    and "get_str d ''type'' ''unknown'' = ''terminal''"
    and "get_str d ''command'' [] = before @ dangerous @ after" and "before @ dangerous @ after \<noteq> []"
    and "get_str d ''name'' [] \<notin> set (trusted_tools default_rules)"
  shows "level (assess_tool default_rules reg d) = HIGH"
proof -
  have "search p (before @ dangerous @ after)"
    using assms(2,3) by (simp add: search_iff found_context)
  then have "\<exists>p \<in> set (high_risk_patterns default_rules). search p (before @ dangerous @ after)"
    using assms(1) by (auto simp: default_rules_def)
  with assess_command_level [of default_rules "before @ dangerous @ after"] assms(4-7) show ?thesis
    by (auto simp: assess_tool_def Let_def default_rules_def split: option.splits)
qed

lemma sudo_rm_found: "search (pat [lit ''sudo'', spaces, lit ''rm'']) ''sudo rm''"
proof -
  have rm: "rmatch False ''rm'' (Seq (lit ''rm'') Eps) 0 (length ''rm'')"
    using rmatch_append [of "''rm''" "lit ''rm''" "[]" Eps] rmatch_whole_lit [of "''rm''"] by simp
  have sp: "rmatch False '' '' spaces 0 1" using rmatch_ws_plus [of "'' ''" False] by (simp add: is_space_def)
  have "rmatch False ('' '' @ ''rm'') (Seq spaces (Seq (lit ''rm'') Eps)) 0 (length ('' '' @ ''rm''))"
    by (rule rmatch_append) (use rm sp in simp_all)
  then have "rmatch False (''sudo'' @ '' '' @ ''rm'') (Seq (lit ''sudo'') (Seq spaces (Seq (lit ''rm'') Eps))) 0
      (length (''sudo'' @ '' '' @ ''rm''))"
    by (rule rmatch_append [OF rmatch_whole_lit]) simp_all
  then show ?thesis by (auto simp: search_iff found_def pat_def seqs_def)
qed

theorem high_risk_in_any_context_witness:
  "level (assess_tool default_rules None (terminal_call ''cd /tmp; sudo rm x'')) = HIGH"
proof (rule high_risk_in_any_context [where before = "''cd /tmp; ''" and after = "'' x''", OF _ _ sudo_rm_found])
  show "pat [lit ''sudo'', spaces, lit ''rm''] \<in> set default_high_risk_patterns"
    by (simp add: default_high_risk_patterns_def)
qed (simp_all add: pat_def terminal_call_def get_str_def default_rules_def)

end
