(* ===== verification/Yes_Approval.thy ===== *)
theory Yes_Approval
  imports Risk_Assessor
begin

text \<open>
  Calls that run on the user's own yes (\<open>kollabor_agent/yes_approval.py\<close>): reading a short answer
  from a message, the key of a call, and the class \<open>YesApprovals\<close>.

  The source makes the key of a call by dumping it to JSON with sorted keys; here the key is the
  dumped value itself with its dictionaries sorted. The JSON text in the description of a call is
  a parameter \<open>dumps\<close>. The clock (\<open>time.monotonic\<close>) is read by the caller and passed as
  \<open>now\<close>. Calls of the \<open>close_card\<close> callback are logged in \<open>closed\<close>.
\<close>

section \<open>Short answers\<close>

abbreviation apos :: char where "apos \<equiv> CHR 0x27"

definition dont :: string where "dont = ''don'' @ [apos] @ ''t''"

definition yes_head :: regex where
  "yes_head = alts (map lit [''yes'', ''yeah'', ''yep'', ''yup''] @ [seqs [lit ''sure'', opt (lit '' thing'')]] @
     map lit [''ok'', ''okay'', ''all right'', ''alright'', ''absolutely'', ''of course'', ''affirmative'',
       ''go'', ''go on'', ''go ahead'', ''go for it'', ''proceed'', ''sounds good'', ''fine'',
       ''that'' @ [apos] @ ''s fine''] @
     [seqs [opt (lit ''i ''), lit ''approve'', opt (ch (CHR ''d'')), opt (one_of ['' it'', '' that''])],
      lit ''please do'',
      seqs [opt (lit ''just ''), one_of [''do'', ''run''], lit '' '',
            one_of [''it'', ''that'', ''this'', ''them'', ''those'']],
      seqs [lit ''you '', one_of [dont, ''do not''], lit '' '', one_of [''have'', ''need''],
            lit '' to ask'', opt (lit '' me'')],
      lit ''no need to ask''])"

definition yes_regex :: regex where
  "yes_regex = seqs [opt (lit ''please ''), yes_head,
     Star (seqs [lit '' '', opt (lit ''and ''), alts [yes_head, lit ''please'', lit ''now'']])]"

definition no_head :: regex where
  "no_head = one_of [''no'', ''nope'', ''nah'', dont, ''do not'', ''cancel'', ''deny'', ''never mind'']"

definition no_regex :: regex where
  "no_regex = seqs [no_head, Star (seqs [lit '' '', alts [no_head, lit ''thanks'', lit ''thank you'', lit ''do it'',
     lit ''do that'', lit ''it'', lit ''that'']])]"

definition answer_words :: "string \<Rightarrow> string" where
  "answer_words text = join_on '' '' (str_split (map (\<lambda>c.
     if in_set False [Range (CHR ''a'') (CHR ''z''), Lit apos] c then c else CHR '' '') (str_lower text)))"

datatype answer = Yes | No

definition human_answer :: "string \<Rightarrow> answer option" where
  "human_answer text =
     (let words = answer_words text
      in if fullmatch yes_regex words then Some Yes
         else if fullmatch no_regex words then Some No else None)"

section \<open>The key of a call\<close>

type_synonym call_key = "string \<times> string \<times> pydict"

fun canon :: "pyval \<Rightarrow> pyval" where
  "canon (PDict d) = PDict (sort_key fst (map (\<lambda>(k, v). (k, canon v)) d))"
| "canon (PList xs) = PList (map canon xs)"
| "canon v = v"

text \<open>\<open>value not in (None, "", False)\<close>, where zero equals \<open>False\<close>.\<close>

definition kept_value :: "pyval \<Rightarrow> bool" where
  "kept_value v \<longleftrightarrow> v \<notin> {PNone, PStr [], PBool False, PInt 0, PFloat 0}"

definition call_args :: "pydict \<Rightarrow> pydict" where
  "call_args d =
     (case (od_get d ''input'', od_get d ''arguments'') of
        (Some (PDict a), _) \<Rightarrow> a
      | (_, Some (PDict a)) \<Rightarrow> a
      | _ \<Rightarrow> filter (\<lambda>(k, v). k \<notin> {''id'', ''raw'', ''name'', ''type'', ''arguments'', ''input''} \<and>
                 \<not> prefix ''_'' k) d)"

definition normal_name :: "string \<Rightarrow> string" where
  "normal_name s = replace_char (CHR ''-'') (CHR ''_'') (str_lower s)"

definition call_parts :: "pydict \<Rightarrow> call_key" where
  "call_parts d =
     (let raw_kind = normal_name (get_str d ''type'' []);
          kind = (if raw_kind = ''git'' then ''terminal'' else raw_kind);
          name0 = get_str d ''name'' [];
          name = (if normal_name name0 \<in> {kind, raw_kind} then [] else name0);
          fs = filter (\<lambda>(k, v). kept_value v) (call_args d);
          fs = (case od_get fs ''command'' of
                      Some (PStr c) \<Rightarrow> od_put ''command'' (PStr (str_strip c)) fs
                    | _ \<Rightarrow> fs)
      in (kind, name, fs))"

definition approval_key :: "pydict \<Rightarrow> call_key" where
  "approval_key d =
     (case call_parts d of (kind, name, fs) \<Rightarrow>
        (kind, name, case canon (PDict fs) of PDict f \<Rightarrow> f | _ \<Rightarrow> []))"

definition describe :: "(pyval \<Rightarrow> string) \<Rightarrow> pydict \<Rightarrow> string" where
  "describe dumps d =
     (case call_parts d of (kind, name, fs) \<Rightarrow>
        (case od_get fs ''command'' of
           Some (PStr c) \<Rightarrow> c
         | _ \<Rightarrow> (if name \<noteq> [] then name else kind) @ '' '' @ take 300 (dumps (PDict fs))))"

section \<open>State and operations\<close>

definition ASK_OPEN_SECONDS :: real where "ASK_OPEN_SECONDS = 300"

record yes_approvals =
  replying :: "(call_key, string \<times> string option) odict"
  asked :: "(call_key, string) odict"
  asked_until :: real
  cut :: "string list"
  approved :: "call_key list"
  note_text :: string
  conversation :: "string option"
  cards :: "(string, call_key) odict"
  has_close_card :: bool
  closed :: "(string \<times> bool option) list"

definition new_approvals :: yes_approvals where
  "new_approvals = \<lparr>replying = [], asked = [], asked_until = 0, cut = [], approved = [], note_text = [],
     conversation = None, cards = [], has_close_card = False, closed = []\<rparr>"

text \<open>\<open>voice_admission.is_voice_origin\<close>; a context is \<open>None\<close> or a dictionary.\<close>

definition is_voice_origin :: "pydict option \<Rightarrow> bool" where
  "is_voice_origin ctx =
     (case ctx of None \<Rightarrow> False
      | Some c \<Rightarrow> od_get c ''source'' \<in> {Some (PStr ''livekit_voice''), Some (PStr ''voice'')})"

definition ask :: "(pyval \<Rightarrow> string) \<Rightarrow> pydict \<Rightarrow> pydict option \<Rightarrow> yes_approvals \<Rightarrow> yes_approvals" where
  "ask dumps d ctx Y =
     (if is_voice_origin ctx
      then (if od_get (the ctx) ''voice_hidden'' = Some (PBool True) then Y
            else Y\<lparr>replying := od_put (approval_key d)
                     (describe dumps d, Some (get_str (the ctx) ''turn_id'' [])) (replying Y)\<rparr>)
      else Y\<lparr>replying := od_put (approval_key d) (describe dumps d, None) (replying Y)\<rparr>)"

definition on_reply_done :: "real \<Rightarrow> yes_approvals \<Rightarrow> yes_approvals" where
  "on_reply_done now Y =
     (let asks = filter (\<lambda>(k, what, turn). turn \<notin> Some ` set (cut Y)) (replying Y)
      in Y\<lparr>replying := [], cut := [],
           asked := map (\<lambda>(k, what, turn). (k, what)) asks,
           asked_until := (if list_ex (\<lambda>(k, what, turn). turn \<noteq> None) asks
                           then now + ASK_OPEN_SECONDS else 0)\<rparr>)"

definition reply_cut :: "string \<Rightarrow> yes_approvals \<Rightarrow> yes_approvals" where
  "reply_cut turn Y = Y\<lparr>cut := add_new turn (cut Y), asked := []\<rparr>"

definition has_open_ask :: "real \<Rightarrow> yes_approvals \<Rightarrow> bool" where
  "has_open_ask now Y \<longleftrightarrow> asked Y \<noteq> [] \<and> (asked_until Y = 0 \<or> now < asked_until Y)"

definition take_approval :: "pydict \<Rightarrow> yes_approvals \<Rightarrow> bool \<times> yes_approvals" where
  "take_approval d Y =
     (if approved Y = [] then (False, Y)
      else let key = approval_key d
           in if key \<notin> set (approved Y) then (False, Y)
              else (True, Y\<lparr>approved := removeAll key (approved Y)\<rparr>))"

text \<open>\<open>str(tool_data.get("id"))\<close>: a call without an identifier is filed under \<open>None\<close>.\<close>

definition call_id :: "pydict \<Rightarrow> string" where
  "call_id d = get_str d ''id'' ''None''"

definition park :: "pydict \<Rightarrow> yes_approvals \<Rightarrow> yes_approvals" where
  "park d Y = Y\<lparr>cards := od_put (call_id d) (approval_key d) (cards Y)\<rparr>"

definition answered_on_card ::
  "(pyval \<Rightarrow> string) \<Rightarrow> pydict \<Rightarrow> bool option \<Rightarrow> yes_approvals \<Rightarrow> string \<times> yes_approvals" where
  "answered_on_card dumps d allowed Y =
     (let key = od_get (cards Y) (call_id d); Y1 = Y\<lparr>cards := od_del (call_id d) (cards Y)\<rparr>
      in case (key, allowed) of
           (Some k, Some ok) \<Rightarrow>
             (let Y2 = Y1\<lparr>asked := od_del k (asked Y1)\<rparr>
              in if \<not> ok then ([], Y2)
                 else (describe dumps d, Y2\<lparr>approved := add_new k (approved Y2)\<rparr>))
         | _ \<Rightarrow> ([], Y1))"

definition close_cards :: "call_key set \<Rightarrow> bool option \<Rightarrow> yes_approvals \<Rightarrow> yes_approvals" where
  "close_cards keys allowed Y =
     (let shut = filter (\<lambda>(card, key). key \<in> keys) (cards Y)
      in Y\<lparr>cards := filter (\<lambda>(card, key). key \<notin> keys) (cards Y),
           closed := closed Y @ (if has_close_card Y then map (\<lambda>(card, key). (card, allowed)) shut else [])\<rparr>)"

text \<open>The parts of \<open>on_human_input\<close>, in the order the method has them: a message of another
  conversation, the deadline of a spoken ask, and the answer.\<close>

definition enter_conversation :: "string option \<Rightarrow> yes_approvals \<Rightarrow> yes_approvals" where
  "enter_conversation conv Y =
     (if conv = conversation Y then Y
      else (if conversation Y = None then Y
            else close_cards (snd ` set (cards Y)) None (Y\<lparr>asked := []\<rparr>))\<lparr>conversation := conv\<rparr>)"

definition drop_expired :: "real \<Rightarrow> yes_approvals \<Rightarrow> yes_approvals" where
  "drop_expired now Y = (if asked_until Y \<noteq> 0 \<and> now > asked_until Y then Y\<lparr>asked := []\<rparr> else Y)"

definition yes_note :: "(call_key, string) odict \<Rightarrow> string" where
  "yes_note asks =
     ''The user just said yes to what you asked to run:'' @ [newline] @
     join_on [newline] (map (\<lambda>(k, what). ''- '' @ what) asks) @ [newline] @
     ''Run exactly those now, then tell them what you found.''"

definition answer_asks :: "answer option \<Rightarrow> yes_approvals \<Rightarrow> yes_approvals" where
  "answer_asks answer Y =
     (case answer of
        None \<Rightarrow> Y
      | Some No \<Rightarrow> close_cards (fst ` set (asked Y)) (Some False) Y
      | Some Yes \<Rightarrow> close_cards (fst ` set (asked Y)) (Some True)
                     (Y\<lparr>approved := map fst (asked Y), note_text := yes_note (asked Y)\<rparr>))"

definition on_human_input :: "real \<Rightarrow> string \<Rightarrow> string option \<Rightarrow> bool \<Rightarrow> yes_approvals \<Rightarrow> yes_approvals" where
  "on_human_input now text conv talk_over Y =
     (let Y1 = drop_expired now (enter_conversation conv (Y\<lparr>approved := [], note_text := [], replying := []\<rparr>));
          answer = (if asked Y1 \<noteq> [] \<and> \<not> talk_over then human_answer text else None)
      in (answer_asks answer Y1)\<lparr>asked := []\<rparr>)"

definition take_note :: "yes_approvals \<Rightarrow> string \<times> yes_approvals" where
  "take_note Y = (note_text Y, Y\<lparr>note_text := []\<rparr>)"

section \<open>Lemmas\<close>

lemma human_answer_yes: "human_answer ''yes'' = Some Yes"
proof -
  have words: "answer_words ''yes'' = ''yes''"
    by (simp add: answer_words_def str_lower_def lower_char_def in_set_def char_le_def str_split.simps
        is_space_def Let_def)
  have "rmatch False ''yes'' yes_head 0 3"
    unfolding yes_head_def rmatch_alts by (rule bexI [of _ "lit ''yes''"]) (simp_all add: rmatch_lit)
  moreover have "rmatch False ''yes'' (opt (lit ''please '')) 0 0" by simp
  ultimately have "rmatch False ''yes'' yes_regex 0 3"
    unfolding yes_regex_def rmatch_seqs by (blast intro: rmatch.star0)
  then have "fullmatch yes_regex ''yes''" by (simp add: fullmatch_def ends_iff numeral_3_eq_3)
  then show ?thesis by (simp add: human_answer_def words)
qed

lemma close_cards_sel [simp, state_simps]:
  "replying (close_cards ks a Y) = replying Y" "asked (close_cards ks a Y) = asked Y"
  "asked_until (close_cards ks a Y) = asked_until Y" "cut (close_cards ks a Y) = cut Y"
  "approved (close_cards ks a Y) = approved Y" "note_text (close_cards ks a Y) = note_text Y"
  "conversation (close_cards ks a Y) = conversation Y"
  "cards (close_cards ks a Y) = filter (\<lambda>(card, key). key \<notin> ks) (cards Y)"
  by (simp_all add: close_cards_def Let_def)

text \<open>The calls a message can answer: those of the last reply, unless the message belongs to another
  conversation than the one before it or comes after the deadline of a spoken ask.\<close>

definition answerable :: "real \<Rightarrow> string option \<Rightarrow> yes_approvals \<Rightarrow> (call_key, string) odict" where
  "answerable now conv Y =
     (if (conv \<noteq> conversation Y \<and> conversation Y \<noteq> None) \<or> (asked_until Y \<noteq> 0 \<and> now > asked_until Y)
      then [] else asked Y)"

lemma answer_asks_sel [simp, state_simps]:
  "approved (answer_asks a Y) = (if a = Some Yes then map fst (asked Y) else approved Y)"
  "replying (answer_asks a Y) = replying Y" "conversation (answer_asks a Y) = conversation Y"
  by (simp_all add: answer_asks_def split: option.splits answer.splits)

lemma enter_conversation_sel [simp, state_simps]:
  "approved (enter_conversation conv Y) = approved Y" "replying (enter_conversation conv Y) = replying Y"
  "conversation (enter_conversation conv Y) = conv" "asked_until (enter_conversation conv Y) = asked_until Y"
  "asked (enter_conversation conv Y) =
     (if conv \<noteq> conversation Y \<and> conversation Y \<noteq> None then [] else asked Y)"
  by (simp_all add: enter_conversation_def)

lemma drop_expired_sel [simp, state_simps]:
  "approved (drop_expired now Y) = approved Y" "replying (drop_expired now Y) = replying Y"
  "conversation (drop_expired now Y) = conversation Y"
  "asked (drop_expired now Y) = (if asked_until Y \<noteq> 0 \<and> now > asked_until Y then [] else asked Y)"
  by (simp_all add: drop_expired_def)

lemma human_input_effect:
  "approved (on_human_input now text conv talk_over Y) =
     (if \<not> talk_over \<and> human_answer text = Some Yes then map fst (answerable now conv Y) else [])"
  "asked (on_human_input now text conv talk_over Y) = []"
  "replying (on_human_input now text conv talk_over Y) = []"
  "conversation (on_human_input now text conv talk_over Y) = conv"
  by (auto simp: on_human_input_def answerable_def Let_def)

lemma take_approval_effect:
  "fst (take_approval d Y) \<longleftrightarrow> approval_key d \<in> set (approved Y)"
  "set (approved (snd (take_approval d Y))) = set (approved Y) - {approval_key d}"
  "asked (snd (take_approval d Y)) = asked Y"
  by (auto simp: take_approval_def Let_def)

section \<open>Properties\<close>


text \<open>an approved call runs once: taking the approval of a call removes it, so a second take of the
  same call fails, and the approvals of other calls are kept.\<close>

theorem take_approval_once:
  "\<not> fst (take_approval d (snd (take_approval d Y))) \<and>
   (approval_key d' \<noteq> approval_key d \<longrightarrow> fst (take_approval d' (snd (take_approval d Y))) = fst (take_approval d' Y))"
  by (auto simp: take_approval_effect)

definition plain_call :: "string \<Rightarrow> string \<Rightarrow> (string \<times> pyval) list \<Rightarrow> pydict" where
  "plain_call t n args = [(''id'', PStr ''c1''), (''type'', PStr t), (''name'', PStr n), (''arguments'', PDict args)]"

theorem take_approval_once_witness:
  "let a = terminal_call ''ls''; b = terminal_call ''pwd'';
       Y = new_approvals\<lparr>approved := [approval_key a, approval_key b]\<rparr>
   in fst (take_approval b (snd (take_approval a Y)))"
proof -
  let ?a = "terminal_call ''ls''" and ?b = "terminal_call ''pwd''"
  let ?Y = "new_approvals\<lparr>approved := [approval_key ?a, approval_key ?b]\<rparr>"
  have "approval_key ?b \<noteq> approval_key ?a"
    by (simp add: approval_key_def call_parts_def terminal_call_def call_args_def get_str_def kept_value_def
        str_strip_def is_space_def Let_def)
  with take_approval_once [of ?a ?Y ?b] show ?thesis by (simp add: take_approval_effect Let_def)
qed

text \<open>an ask of a voice turn that a talk-over cut short is never answerable: when the reply is
  done, no call asked only by that turn is among those a yes approves, whether the ask came
  before or after the cut.\<close>

theorem cut_turn_asks_nothing:
  assumes "turn \<in> set (cut Y)"
    and "\<And>k what t. od_get (replying Y) k = Some (what, t) \<Longrightarrow> k = approval_key d \<Longrightarrow> t = Some turn"
    and "od_wf (replying Y)"
  shows "\<not> fst (take_approval d (on_human_input now text conv talk_over (on_reply_done now' Y)))"
proof -
  have "approval_key d \<notin> od_keys (asked (on_reply_done now' Y))"
  proof
    assume "approval_key d \<in> od_keys (asked (on_reply_done now' Y))"
    then obtain what t where e: "(approval_key d, what, t) \<in> set (replying Y)" and t: "t \<notin> Some ` set (cut Y)"
      by (auto simp: on_reply_done_def Let_def)
    from e assms(3) have "od_get (replying Y) (approval_key d) = Some (what, t)"
      by (simp add: od_wf_def)
    with assms(1,2) t show False by auto
  qed
  then show ?thesis by (auto simp: take_approval_effect human_input_effect answerable_def)
qed

definition voice_context :: "string \<Rightarrow> pydict" where
  "voice_context turn = [(''source'', PStr ''voice''), (''turn_id'', PStr turn)]"

theorem cut_turn_asks_nothing_witness:
  "\<not> fst (take_approval (terminal_call ''ls'') (on_human_input 5 ''yes'' None False (on_reply_done 3
      (ask (\<lambda>_. []) (terminal_call ''ls'') (Some (voice_context ''v1'')) (reply_cut ''v1'' new_approvals)))))"
  by (rule cut_turn_asks_nothing [where turn = "''v1''"])
    (auto simp: ask_def is_voice_origin_def voice_context_def reply_cut_def new_approvals_def add_new_def
      get_str_def od_wf_def)

text \<open>the key of a call leaves out arguments that equal \<open>False\<close>, so it does not tell an argument
  zero from an absent one: a yes to one call also lets a call with other arguments run.\<close>

theorem zero_argument_not_in_key:
  "\<exists>d d'. get_args d \<noteq> get_args d' \<and> approval_key d = approval_key d' \<and>
     fst (take_approval d' (on_human_input 0 ''yes'' None False
       (on_reply_done 0 (ask (\<lambda>_. []) d None new_approvals))))"
proof (intro exI conjI)
  let ?d = "plain_call ''mcp_tool'' ''retry'' [(''job'', PStr ''x''), (''limit'', PInt 0)]"
  let ?d' = "plain_call ''mcp_tool'' ''retry'' [(''job'', PStr ''x'')]"
  show "get_args ?d \<noteq> get_args ?d'" by (simp add: get_args_def plain_call_def)
  show key: "approval_key ?d = approval_key ?d'"
    by (simp add: approval_key_def call_parts_def plain_call_def call_args_def get_str_def kept_value_def Let_def)
  from human_answer_yes show "fst (take_approval ?d' (on_human_input 0 ''yes'' None False
       (on_reply_done 0 (ask (\<lambda>_. []) ?d None new_approvals))))"
    by (simp add: take_approval_effect human_input_effect answerable_def on_reply_done_def ask_def
        is_voice_origin_def new_approvals_def key)
qed

end
