(* ===== verification/Permission_Manager.thy ===== *)
theory Permission_Manager
  imports Yes_Approval
begin

text \<open>
  The permission system: \<open>kollabor_agent/permissions/manager.py\<close> (class \<open>PermissionManager\<close>),
  \<open>permissions/response_handler.py\<close> and the enums of
  \<open>kollabor_events/permissions_models.py\<close>.

  What the code asks of its surroundings is a parameter \<open>perm_env\<close>: \<open>git check-ignore\<close>, path
  resolution, the digest of an ACP request, the source text of a pattern, and \<open>str()\<close> of a value that is not a string. The
  confirmation dialog is an argument of \<open>check_permission\<close>: it gets the details and may change
  the manager (a response that approves more than once records it), and it answers, stays
  unanswered until the prompt is parked, or fails. Events the manager emits are logged in
  \<open>emitted\<close>. A set of strings is the list of its members in iteration order. A Python exception
  is a value \<open>Inl\<close>.
\<close>

section \<open>Data\<close>

datatype approval_mode = DEFAULT | CONFIRM_ALL | AUTO_APPROVE_EDITS | TRUST_ALL

datatype confirmation_response =
    APPROVE_ONCE | APPROVE_SESSION | APPROVE_PROJECT | APPROVE_ALWAYS | APPROVE_TOOL_ALWAYS
  | DENY | CANCEL

fun risk_name :: "tool_risk_level \<Rightarrow> string" where
  "risk_name HIGH = ''HIGH''" | "risk_name MEDIUM = ''MEDIUM''"
| "risk_name LOW = ''LOW''" | "risk_name UNKNOWN = ''UNKNOWN''"

record decision =
  allowed :: bool
  dec_reason :: string
  dec_risk :: tool_risk_level
  requires_user_confirmation :: bool
  needs_yes :: bool

definition decide :: "bool \<Rightarrow> string \<Rightarrow> tool_risk_level \<Rightarrow> decision" where
  "decide ok why l = \<lparr>allowed = ok, dec_reason = why, dec_risk = l, requires_user_confirmation = False,
     needs_yes = False\<rparr>"

record approval_record =
  ar_tool_type :: string
  ar_tool_name :: string
  ar_pattern :: "string option"
  approved_at :: real
  expires_at :: "real option"
  ar_scope :: string

record perm_stats =
  total_checks :: nat
  auto_approved :: nat
  user_approved :: nat
  denied :: nat
  blocked :: nat

datatype perm_event =
    PermissionCheck string string string string
  | PermissionGranted string string string string string
  | PermissionDenied string string string string string
  | PermissionConfirmation string string string string pydict

datatype path_access = ANYWHERE | PROJECT_ONLY

text \<open>The tool executor as the manager sees it.\<close>

record executor_view =
  trust_all :: bool
  file_access :: "path_access option"
  yes_calls :: "yes_approvals option"

datatype approvals_file = NoFile | Unreadable | Json pyval

record perm_manager =
  config :: pydict
  mode_setting :: "pyval option option"  \<comment> \<open>the config service, if any, and its stored mode\<close>
  approval_mode :: approval_mode
  session_approvals :: "(string, approval_record) odict"
  project_approvals :: "string list"
  acp_project_grants :: "string list"
  acp_session_grants :: "string list"
  acp_project_metadata :: pydict
  acp_session_metadata :: pydict
  tool_executor :: "executor_view option"
  has_callback :: bool
  stats :: perm_stats
  storage :: approvals_file
  writable :: bool
  parked :: "string list"
  emitted :: "perm_event list"

record perm_env =
  gitignored :: "string \<Rightarrow> bool"
  resolve :: "string \<Rightarrow> string"
  digest :: "pyval \<Rightarrow> string \<Rightarrow> string \<Rightarrow> string"
  py_str :: "pyval \<Rightarrow> string"
  dumps :: "pyval \<Rightarrow> string"
  pattern_text :: "pattern \<Rightarrow> string"

definition emit :: "perm_event \<Rightarrow> perm_manager \<Rightarrow> perm_manager" where
  "emit e M = M\<lparr>emitted := emitted M @ [e]\<rparr>"

abbreviation count :: "((nat \<Rightarrow> nat) \<Rightarrow> perm_stats \<Rightarrow> perm_stats) \<Rightarrow> perm_manager \<Rightarrow> perm_manager" where
  "count field M \<equiv> M\<lparr>stats := field Suc (stats M)\<rparr>"

section \<open>Approval mode\<close>

definition mode_of_text :: "pyval \<Rightarrow> approval_mode" where
  "mode_of_text v =
     (if v = PStr ''default'' then DEFAULT
      else if v = PStr ''confirm_all'' then CONFIRM_ALL
      else if v = PStr ''auto_approve_edits'' then AUTO_APPROVE_EDITS
      else TRUST_ALL)"

fun mode_text :: "approval_mode \<Rightarrow> string" where
  "mode_text DEFAULT = ''default''"
| "mode_text CONFIRM_ALL = ''confirm_all''"
| "mode_text AUTO_APPROVE_EDITS = ''auto_approve_edits''"
| "mode_text TRUST_ALL = ''trust_all''"

definition load_approval_mode :: "perm_manager \<Rightarrow> approval_mode" where
  "load_approval_mode M =
     mode_of_text (case mode_setting M of
         Some stored \<Rightarrow> (case stored of Some v \<Rightarrow> v | None \<Rightarrow> PStr ''trust_all'')
       | None \<Rightarrow> safe_get (PDict (config M)) ''kollabor.permissions.approval_mode'' (PStr ''trust_all''))"

definition sync_file_access_mode :: "perm_manager \<Rightarrow> perm_manager" where
  "sync_file_access_mode M =
     (case tool_executor M of
        None \<Rightarrow> M
      | Some x \<Rightarrow>
          (let x1 = x\<lparr>trust_all := (approval_mode M = TRUST_ALL)\<rparr>
           in M\<lparr>tool_executor := Some
                (if file_access x1 = None then x1
                 else x1\<lparr>file_access := Some (if approval_mode M = TRUST_ALL then ANYWHERE else PROJECT_ONLY)\<rparr>)\<rparr>))"

definition set_tool_executor :: "executor_view \<Rightarrow> perm_manager \<Rightarrow> perm_manager" where
  "set_tool_executor x M =
     sync_file_access_mode (M\<lparr>tool_executor :=
       Some (x\<lparr>yes_calls := map_option (\<lambda>y. y\<lparr>has_close_card := True\<rparr>) (yes_calls x)\<rparr>)\<rparr>)"

definition set_approval_mode :: "approval_mode \<Rightarrow> bool \<Rightarrow> perm_manager \<Rightarrow> perm_manager" where
  "set_approval_mode m persist M =
     (let M1 = sync_file_access_mode (M\<lparr>approval_mode := m\<rparr>)
      in if persist \<and> mode_setting M1 \<noteq> None
         then M1\<lparr>mode_setting := Some (Some (PStr (mode_text m)))\<rparr> else M1)"

definition set_confirmation_callback :: "perm_manager \<Rightarrow> perm_manager" where
  "set_confirmation_callback M = M\<lparr>has_callback := True\<rparr>"

section \<open>Stored approvals\<close>

definition root_command :: "string \<Rightarrow> string py_result" where
  "root_command command =
     (if command = [] then Inr []
      else case str_split command of [] \<Rightarrow> Inl IndexError | w # _ \<Rightarrow> Inr w)"

definition or_str :: "string \<Rightarrow> string \<Rightarrow> string" where
  "or_str a b = (if a \<noteq> [] then a else b)"

definition key_text :: "string \<Rightarrow> string \<Rightarrow> string" where
  "key_text tool_type rest = tool_type @ '':'' @ rest"

definition get_approval_key :: "string \<Rightarrow> string \<Rightarrow> pydict \<Rightarrow> string py_result" where
  "get_approval_key tool_type name td =
     (if tool_type = ''terminal''
      then py_bind (root_command (get_str td ''command'' [])) (\<lambda>w. Inr (key_text ''terminal'' w))
      else
        (let path = or_str (get_str td ''file_path'' [])
               (or_str (get_str td ''file'' []) (get_str (get_args td) ''path'' []))
         in if tool_type \<in> {''file_read'', ''file_write'', ''file_edit''} \<and> path \<noteq> []
            then Inr (key_text tool_type path)
            else Inr (key_text tool_type name)))"

definition chain_patterns :: "pattern list" where
  "chain_patterns = [pat [lit ''&&''], pat [lit ''||''], pat [ch (CHR '';''), Star ws, Set True [WordC]]]"

definition is_chained_command :: "string \<Rightarrow> bool" where
  "is_chained_command command \<longleftrightarrow> list_ex (\<lambda>p. search p command) chain_patterns"

definition check_project_approval :: "perm_env \<Rightarrow> string \<Rightarrow> string \<Rightarrow> pydict \<Rightarrow> perm_manager \<Rightarrow> string option" where
  "check_project_approval V key tool_type td M =
     (if key \<in> set (project_approvals M) then Some key
      else
        (let wildcards = filter (\<lambda>p. CHR ''*'' \<in> set p \<or> CHR ''?'' \<in> set p) (project_approvals M);
             path = or_str (get_str td ''file_path'' [])
               (or_str (get_str td ''file'' []) (get_str (get_args td) ''file_path'' []))
         in if wildcards = [] then None
            else if tool_type = ''terminal'' \<and> is_chained_command (get_str td ''command'' []) then None
            else if tool_type = ''file_read'' \<and> path \<noteq> [] \<and> gitignored V path then None
            else List.find (fnmatch key) wildcards))"

definition record_approval ::
  "string \<Rightarrow> string \<Rightarrow> pydict \<Rightarrow> string \<Rightarrow> real \<Rightarrow> perm_manager \<Rightarrow> unit py_result \<times> perm_manager" where
  "record_approval tool_type name td scope now M =
     (case get_approval_key tool_type name td of
        Inl e \<Rightarrow> (Inl e, M)
      | Inr key \<Rightarrow> (Inr (), M\<lparr>session_approvals := od_put key
          \<lparr>ar_tool_type = tool_type, ar_tool_name = name, ar_pattern = None, approved_at = now,
           expires_at = (if scope = ''session'' then None else Some (now + 3600)), ar_scope = scope\<rparr>
          (session_approvals M)\<rparr>))"

definition as_list :: "pyval option \<Rightarrow> pyval list" where
  "as_list v = (case v of Some (PList xs) \<Rightarrow> xs | _ \<Rightarrow> [])"

fun is_key_value :: "pyval \<Rightarrow> bool" where
  "is_key_value (PStr _) = True"
| "is_key_value (PInt _) = True"
| "is_key_value (PFloat _) = True"
| "is_key_value (PBool _) = True"
| "is_key_value _ = False"

fun acp_key_value :: "pyval \<Rightarrow> string option" where
  "acp_key_value (PStr s) = (if prefix ''acp:'' s then Some s else None)"
| "acp_key_value _ = None"

definition text_of :: "perm_env \<Rightarrow> pyval \<Rightarrow> string" where
  "text_of V v = (case v of PStr s \<Rightarrow> s | _ \<Rightarrow> py_str V v)"

definition load_project_approvals :: "perm_env \<Rightarrow> perm_manager \<Rightarrow> perm_manager" where
  "load_project_approvals V M =
     (case storage M of
        Json (PDict data) \<Rightarrow>
          M\<lparr>project_approvals :=
              remdups (map (text_of V) (filter is_key_value (as_list (od_get data ''approved_keys'')))),
            acp_project_grants := remdups (List.map_filter acp_key_value (as_list (od_get data ''acp_grants''))),
            acp_project_metadata := (case od_get data ''acp_grant_metadata'' of
                Some (PDict m) \<Rightarrow> filter (\<lambda>(k, v). is_dict v) m | _ \<Rightarrow> [])\<rparr>
      | _ \<Rightarrow> M\<lparr>project_approvals := [], acp_project_grants := [], acp_project_metadata := []\<rparr>)"

definition save_project_approvals :: "perm_manager \<Rightarrow> perm_manager" where
  "save_project_approvals M =
     (if writable M
      then M\<lparr>storage := Json (PDict
             [(''approved_keys'', PList (map PStr (project_approvals M))),
              (''acp_grants'', PList (map PStr (sort (acp_project_grants M)))),
              (''acp_grant_metadata'', PDict (acp_project_metadata M)),
              (''updated_at'', PStr [])])\<rparr>
      else M)"

definition record_project_approval ::
  "string \<Rightarrow> string \<Rightarrow> pydict \<Rightarrow> perm_manager \<Rightarrow> unit py_result \<times> perm_manager" where
  "record_project_approval tool_type name td M =
     (case (if tool_type = ''file_read'' then Inr ''file_read:*'' else get_approval_key tool_type name td) of
        Inl e \<Rightarrow> (Inl e, M)
      | Inr key \<Rightarrow> (Inr (), save_project_approvals
                       (M\<lparr>project_approvals := add_new key (project_approvals M)\<rparr>)))"

definition clear_project_approvals :: "perm_manager \<Rightarrow> perm_manager" where
  "clear_project_approvals M =
     save_project_approvals (M\<lparr>project_approvals := [], acp_project_grants := [], acp_project_metadata := []\<rparr>)"

definition get_project_approvals :: "perm_manager \<Rightarrow> string list" where
  "get_project_approvals M = sort (project_approvals M)"

definition clear_session_approvals :: "perm_manager \<Rightarrow> perm_manager" where
  "clear_session_approvals M =
     M\<lparr>session_approvals := [], acp_session_grants := [], acp_session_metadata := []\<rparr>"

section \<open>ACP grants\<close>

definition acp_grant_key :: "perm_env \<Rightarrow> pyval \<Rightarrow> string \<Rightarrow> string \<Rightarrow> string" where
  "acp_grant_key V operation workspace profile = ''acp:'' @ digest V (canon operation) (resolve V workspace) profile"

definition acp_metadata :: "perm_env \<Rightarrow> pyval \<Rightarrow> string \<Rightarrow> string \<Rightarrow> string \<Rightarrow> pyval" where
  "acp_metadata V operation workspace profile scope =
     PDict [(''grant_key'', PStr (acp_grant_key V operation workspace profile)),
            (''operation'', canon operation), (''workspace'', PStr (resolve V workspace)),
            (''profile'', PStr profile), (''scope'', PStr scope), (''source'', PStr ''kollab'')]"

definition grant_acp ::
  "perm_env \<Rightarrow> pyval \<Rightarrow> string \<Rightarrow> string \<Rightarrow> string \<Rightarrow> perm_manager \<Rightarrow> string py_result \<times> perm_manager" where
  "grant_acp V operation workspace profile scope M =
     (let key = acp_grant_key V operation workspace profile;
          meta = acp_metadata V operation workspace profile scope
      in if scope = ''session''
         then (Inr key, M\<lparr>acp_session_grants := add_new key (acp_session_grants M),
                          acp_session_metadata := od_put key meta (acp_session_metadata M)\<rparr>)
         else if scope = ''project''
         then (Inr key, save_project_approvals
                (M\<lparr>acp_project_grants := add_new key (acp_project_grants M),
                   acp_project_metadata := od_put key meta (acp_project_metadata M)\<rparr>))
         else (Inl (ValueError (''invalid ACP grant scope: '' @ scope)), M))"

definition has_acp_grant :: "perm_env \<Rightarrow> pyval \<Rightarrow> string \<Rightarrow> string \<Rightarrow> perm_manager \<Rightarrow> bool" where
  "has_acp_grant V operation workspace profile M \<longleftrightarrow>
     acp_grant_key V operation workspace profile \<in> set (acp_session_grants M) \<union> set (acp_project_grants M)"

definition get_acp_grants :: "perm_manager \<Rightarrow> string list" where
  "get_acp_grants M = sort (remdups (acp_session_grants M @ acp_project_grants M))"

record acp_record =
  acp_key :: string
  acp_shown :: "(pyval \<times> string \<times> string) option"  \<comment> \<open>operation, workspace, profile\<close>
  acp_scope :: string

text \<open>Stored metadata is shown only if it gives the key it is stored under.\<close>

definition acp_inventory_entry :: "perm_env \<Rightarrow> string \<Rightarrow> pydict \<Rightarrow> string \<Rightarrow> acp_record" where
  "acp_inventory_entry V scope meta key =
     \<lparr>acp_key = key,
      acp_shown = (case od_get meta key of
          Some (PDict stored) \<Rightarrow>
            (case od_get stored ''workspace'' of
               Some (PStr w) \<Rightarrow>
                 (let op = od_get_default stored ''operation'' PNone;
                      prof = text_of V (od_get_default stored ''profile'' PNone)
                  in if acp_grant_key V op (resolve V w) prof = key
                     then Some (canon op, resolve V w, prof) else None)
             | _ \<Rightarrow> None)
        | _ \<Rightarrow> None),
      acp_scope = scope\<rparr>"

definition get_acp_grant_inventory :: "perm_env \<Rightarrow> perm_manager \<Rightarrow> acp_record list" where
  "get_acp_grant_inventory V M =
     map (acp_inventory_entry V ''session'' (acp_session_metadata M)) (sort (acp_session_grants M)) @
     map (acp_inventory_entry V ''project'' (acp_project_metadata M)) (sort (acp_project_grants M))"

definition clear_acp_grants :: "string option \<Rightarrow> perm_manager \<Rightarrow> unit py_result \<times> perm_manager" where
  "clear_acp_grants scope M =
     (if scope \<notin> {None, Some ''session'', Some ''project''}
      then (Inl (ValueError (''invalid ACP grant scope: '' @ the scope)), M)
      else
        (let M1 = (if scope \<noteq> Some ''project''
                   then M\<lparr>acp_session_grants := [], acp_session_metadata := []\<rparr> else M)
         in (Inr (), if scope \<noteq> Some ''session''
                     then save_project_approvals (M1\<lparr>acp_project_grants := [], acp_project_metadata := []\<rparr>)
                     else M1)))"

section \<open>Confirmation\<close>

definition get_content_preview :: "nat \<Rightarrow> pydict \<Rightarrow> string" where
  "get_content_preview max_lines td =
     (let content = get_str (get_args td) ''content'' []; lines = split_on newline content
      in if length lines > max_lines
         then join_on [newline] (take max_lines lines @
                [''... ('' @ show_nat (length lines - max_lines) @ '' more lines)''])
         else content)"

definition opt_str :: "string option \<Rightarrow> pyval" where
  "opt_str s = (case s of None \<Rightarrow> PNone | Some t \<Rightarrow> PStr t)"

definition base_details :: "perm_env \<Rightarrow> pydict \<Rightarrow> risk_result \<Rightarrow> pydict" where
  "base_details V td r =
     [(''tool_id'', od_get_default td ''id'' PNone), (''tool_type'', PStr (get_str td ''type'' ''unknown'')),
      (''tool_name'', PStr (get_str td ''name'' [])), (''risk_level'', PStr (risk_name (level r))),
      (''risk_reason'', PStr (reason r)),
      (''matched_pattern'', opt_str (map_option (pattern_text V) (matched_pattern r)))]"

definition build_confirmation_details :: "perm_env \<Rightarrow> pydict \<Rightarrow> risk_result \<Rightarrow> pydict py_result" where
  "build_confirmation_details V td r =
     (let tool_type = get_str td ''type'' ''unknown''; details = base_details V td r
      in if tool_type = ''terminal''
         then py_bind (root_command (get_str td ''command'' [])) (\<lambda>w.
                Inr (details @ [(''command'', PStr (get_str td ''command'' [])), (''root_command'', PStr w)]))
         else if tool_type \<in> {''file_write'', ''file_edit''}
         then Inr (details @
                [(''file_path'', PStr (or_str (get_str td ''file'' []) (get_str (get_args td) ''path'' []))),
                 (''content_preview'', PStr (get_content_preview 10 td))])
         else if tool_type = ''file_read''
         then Inr (details @
                [(''file_path'', PStr (or_str (get_str td ''file'' []) (get_str (get_args td) ''file_path'' [])))])
         else if tool_type \<in> {''mcp_tool'', ''mcp''}
         then Inr (details @ [(''server_name'', PStr (get_str td ''server_name'' [])),
                              (''mcp_tool_name'', PStr (get_str td ''name'' []))])
         else Inr details)"

definition needs_confirmation :: "tool_risk_level \<Rightarrow> string \<Rightarrow> perm_manager \<Rightarrow> bool" where
  "needs_confirmation l tool_type M =
     (if approval_mode M = TRUST_ALL then False
      else if approval_mode M = CONFIRM_ALL then True
      else if approval_mode M = AUTO_APPROVE_EDITS \<and> tool_type \<in> {''file_write'', ''file_edit''} then False
      else if approval_mode M = AUTO_APPROVE_EDITS \<and> tool_type = ''terminal'' then True
      else l \<in> {HIGH, UNKNOWN})"

text \<open>How the dialog ends, and what one check reads from outside: the approval that the running
  call carries (\<open>call_approval\<close>), the time, and whether the turn is being stopped.\<close>

datatype confirm_outcome = Answered decision | Unanswered | PromptFailed py_exn

type_synonym confirm_ui = "pydict \<Rightarrow> perm_manager \<Rightarrow> confirm_outcome \<times> pydict \<times> perm_manager"

record check_input =
  call_approval :: "string option"
  now :: real
  stopping :: bool

definition NEEDS_YES :: string where
  "NEEDS_YES = ''Not run yet: this needs the user'' @ [apos] @ ''s OK. In your reply, say in a few plain words '' @
     ''what you want to run and why, and ask for a yes. Their yes runs it.''"

definition check_type :: "pydict \<Rightarrow> string" where
  "check_type td = get_str td ''type'' ''unknown''"

definition check_name :: "pydict \<Rightarrow> string" where
  "check_name td = or_str (get_str td ''name'' []) (check_type td)"

definition check_id :: "pydict \<Rightarrow> string" where
  "check_id td = get_str td ''id'' ''unknown''"

definition emit_granted :: "pydict \<Rightarrow> tool_risk_level \<Rightarrow> string \<Rightarrow> perm_manager \<Rightarrow> perm_manager" where
  "emit_granted td l why = emit (PermissionGranted (check_id td) (check_type td) (check_name td) (risk_name l) why)"

definition emit_denied :: "pydict \<Rightarrow> tool_risk_level \<Rightarrow> string \<Rightarrow> perm_manager \<Rightarrow> perm_manager" where
  "emit_denied td l why = emit (PermissionDenied (check_id td) (check_type td) (check_name td) (risk_name l) why)"

type_synonym check_result = "decision py_result \<times> perm_manager"

definition auto_approve :: "pydict \<Rightarrow> tool_risk_level \<Rightarrow> string \<Rightarrow> perm_manager \<Rightarrow> check_result" where
  "auto_approve td l why M =
     (Inr (decide True why l), emit_granted td l why (count auto_approved_update M))"

definition park_prompt :: "pydict \<Rightarrow> pydict \<Rightarrow> tool_risk_level \<Rightarrow> perm_manager \<Rightarrow> check_result" where
  "park_prompt td details l M =
     (Inr ((decide False NEEDS_YES l)\<lparr>needs_yes := True\<rparr>),
      M\<lparr>tool_executor := map_option (\<lambda>x. x\<lparr>yes_calls := map_option (park td) (yes_calls x)\<rparr>) (tool_executor M),
        parked := parked M @ [get_str details ''tool_id'' ''None'']\<rparr>)"

definition finish_confirmation :: "pydict \<Rightarrow> risk_result \<Rightarrow> real \<Rightarrow> decision \<Rightarrow> pydict \<Rightarrow> perm_manager \<Rightarrow> check_result" where
  "finish_confirmation td r t d details M =
     (if allowed d
      then (let M1 = count user_approved_update M
            in case (if od_get details ''approval_scope'' = Some (PStr ''session'')
                     then record_approval (check_type td) (check_name td) td ''session'' t M1
                     else (Inr (), M1)) of
                 (Inl e, M2) \<Rightarrow> (Inl e, M2)
               | (Inr _, M2) \<Rightarrow> (Inr d, emit_granted td (level r) (dec_reason d) M2))
      else (Inr d, emit_denied td (level r) (dec_reason d) (count denied_update M)))"

definition ask_user :: "perm_env \<Rightarrow> confirm_ui \<Rightarrow> check_input \<Rightarrow> pydict \<Rightarrow> risk_result \<Rightarrow> perm_manager \<Rightarrow> check_result" where
  "ask_user V confirm inp td r M =
     (case build_confirmation_details V td r of
        Inl e \<Rightarrow> (Inl e, M)
      | Inr details \<Rightarrow>
          (let M1 = emit (PermissionConfirmation (check_id td) (check_type td) (check_name td)
                            (risk_name (level r)) details) M;
               details1 = (if tool_executor M1 \<noteq> None \<and> stopping inp
                           then od_put ''parked'' (PBool True) details else details)
           in case confirm details1 M1 of
                (Answered d, details2, M2) \<Rightarrow> finish_confirmation td r (now inp) d details2 M2
              | (Unanswered, details2, M2) \<Rightarrow> park_prompt td details2 (level r) M2
              | (PromptFailed e, _, M2) \<Rightarrow> (Inl e, M2)))"

definition request_confirmation ::
  "perm_env \<Rightarrow> confirm_ui \<Rightarrow> check_input \<Rightarrow> pydict \<Rightarrow> risk_result \<Rightarrow> perm_manager \<Rightarrow> check_result" where
  "request_confirmation V confirm inp td r M =
     (if call_approval inp = Some ''yes''
      then (Inr (decide True ''User approved (yes)'' (level r)),
            emit_granted td (level r) ''User approved (yes)'' (count user_approved_update M))
      else if call_approval inp = Some ''ask''
      then (Inr ((decide False NEEDS_YES (level r))\<lparr>needs_yes := True\<rparr>), M)
      else if has_callback M then ask_user V confirm inp td r M
      else (Inr ((decide False ''Confirmation required but no UI available'' (level r))
                   \<lparr>requires_user_confirmation := True\<rparr>),
            emit_denied td (level r) ''Confirmation required but no UI available'' (count denied_update M)))"

definition session_approval :: "string \<Rightarrow> real \<Rightarrow> perm_manager \<Rightarrow> approval_record option" where
  "session_approval key t M =
     (case od_get (session_approvals M) key of
        Some rec \<Rightarrow> (case expires_at rec of
                        None \<Rightarrow> Some rec | Some e \<Rightarrow> if e > t then Some rec else None)
      | None \<Rightarrow> None)"

definition check_stored ::
  "perm_env \<Rightarrow> confirm_ui \<Rightarrow> check_input \<Rightarrow> pydict \<Rightarrow> risk_result \<Rightarrow> perm_manager \<Rightarrow> check_result" where
  "check_stored V confirm inp td r M =
     (case get_approval_key (check_type td) (check_name td) td of
        Inl e \<Rightarrow> (Inl e, M)
      | Inr key \<Rightarrow>
          (case check_project_approval V key (check_type td) td M of
             Some p \<Rightarrow> auto_approve td (level r) (''Previously approved (project: '' @ p @ '')'') M
           | None \<Rightarrow>
               (case session_approval key (now inp) M of
                  Some rec \<Rightarrow> auto_approve td (level r) (''Previously approved ('' @ ar_scope rec @ '')'') M
                | None \<Rightarrow>
                    (if \<not> needs_confirmation (level r) (check_type td) M
                     then auto_approve td (level r) ''Auto-approved based on risk level and mode'' M
                     else request_confirmation V confirm inp td r M))))"

definition permissions_enabled :: "perm_manager \<Rightarrow> bool" where
  "permissions_enabled M \<longleftrightarrow> truthy (safe_get (PDict (config M)) ''kollabor.permissions.enabled'' (PBool True))"

definition check_permission ::
  "perm_env \<Rightarrow> risk_rules \<Rightarrow> tool_registry option \<Rightarrow> confirm_ui \<Rightarrow> check_input \<Rightarrow> pydict \<Rightarrow> perm_manager \<Rightarrow> check_result" where
  "check_permission V rules reg confirm inp td M0 =
     (let M = count total_checks_update M0
      in if \<not> permissions_enabled M
         then (Inr (decide True ''Permission system disabled'' LOW),
               emit_granted td LOW ''Permission system disabled''
                 (emit (PermissionCheck (check_id td) (check_type td) (check_name td) ''low'')
                   (count auto_approved_update M)))
         else
           (let r = assess_tool rules reg td;
                M1 = emit (PermissionCheck (check_id td) (check_type td) (check_name td)
                             (str_lower (risk_name (level r)))) M
            in if is_blocked r
               then (Inr (decide False (reason r) (level r)),
                     emit_denied td (level r) (reason r) (count blocked_update M1))
               else if approval_mode M1 = TRUST_ALL
               then auto_approve td (level r) ''Trust all mode enabled'' M1
               else check_stored V confirm inp td r M1))"

section \<open>The user's response and late answers\<close>

definition risk_of_name :: "string \<Rightarrow> tool_risk_level" where
  "risk_of_name s = (if s = ''HIGH'' then HIGH else if s = ''LOW'' then LOW
     else if s = ''UNKNOWN'' then UNKNOWN else MEDIUM)"

definition recording ::
  "pydict \<Rightarrow> (perm_manager \<Rightarrow> unit py_result \<times> perm_manager) \<Rightarrow> decision \<Rightarrow> perm_manager \<Rightarrow> check_result" where
  "recording td op d M =
     (if get_str td ''source'' [] = ''acp'' then (Inr d, M)
      else case op M of (Inl e, M1) \<Rightarrow> (Inl e, M1) | (Inr _, M1) \<Rightarrow> (Inr d, M1))"

definition handle_confirmation_response ::
  "real \<Rightarrow> pydict \<Rightarrow> confirmation_response \<Rightarrow> perm_manager \<Rightarrow> check_result" where
  "handle_confirmation_response t td resp M =
     (let tool_type = or_str (get_str td ''tool_type'' []) (get_str td ''type'' ''unknown'');
          name = or_str (get_str td ''tool_name'' []) (get_str td ''name'' []);
          l = risk_of_name (get_str td ''risk_level'' ''MEDIUM'')
      in case resp of
           DENY \<Rightarrow> (Inr (decide False ''User denied execution'' l), M)
         | CANCEL \<Rightarrow> (Inr (decide False ''User cancelled operation'' l), M)
         | APPROVE_ONCE \<Rightarrow> (Inr (decide True ''User approved (once)'' l), M)
         | APPROVE_SESSION \<Rightarrow>
             recording td (record_approval tool_type name td ''session'' t)
               (decide True ''User approved (session)'' l) M
         | APPROVE_PROJECT \<Rightarrow>
             recording td (record_project_approval tool_type name td)
               (decide True ''User approved (project)'' l) M
         | APPROVE_ALWAYS \<Rightarrow>
             (Inr (decide True ''User approved (always)'' l),
              if tool_type \<in> {''file_write'', ''file_edit''} then set_approval_mode AUTO_APPROVE_EDITS True M else M)
         | APPROVE_TOOL_ALWAYS \<Rightarrow>
             recording td (record_approval tool_type name td ''session'' t)
               (decide True (''User approved tool '' @ quoted name @ '' always'') l) M)"

fun close_card_response :: "bool option \<Rightarrow> confirmation_response" where
  "close_card_response None = CANCEL"
| "close_card_response (Some ok) = (if ok then APPROVE_ONCE else DENY)"

text \<open>A parked prompt is answered: the text of the call the agent goes on with, or nothing.\<close>

definition answered_late :: "perm_env \<Rightarrow> decision option \<Rightarrow> pydict \<Rightarrow> perm_manager \<Rightarrow> string \<times> perm_manager" where
  "answered_late V dec td M =
     (case tool_executor M of
        None \<Rightarrow> ([], M)
      | Some x \<Rightarrow>
          (case yes_calls x of
             None \<Rightarrow> ([], M)
           | Some Y \<Rightarrow>
               (let ok = (case dec of
                            Some d \<Rightarrow> if dec_reason d = ''User cancelled operation'' then None else Some (allowed d)
                          | None \<Rightarrow> None);
                    (what, Y1) = answered_on_card (dumps V) td ok Y
                in (what, M\<lparr>tool_executor := Some (x\<lparr>yes_calls := Some Y1\<rparr>)\<rparr>))))"

section \<open>Lemmas\<close>

lemma decide_sel [simp]: "allowed (decide ok w l) = ok" "dec_reason (decide ok w l) = w" "needs_yes (decide ok w l) = False"
  by (simp_all add: decide_def)

text \<open>The parts of the state that emitting an event leaves alone.\<close>

lemma emit_sel [simp, state_simps]:
  "config (emit e M) = config M" "approval_mode (emit e M) = approval_mode M"
  "session_approvals (emit e M) = session_approvals M" "project_approvals (emit e M) = project_approvals M"
  "tool_executor (emit e M) = tool_executor M" "has_callback (emit e M) = has_callback M"
  "stats (emit e M) = stats M" "emitted (emit e M) = emitted M @ [e]"
  by (simp_all add: emit_def)

lemmas emit_granted_sel [simp, state_simps] = emit_sel [of "PermissionGranted i t n l w" for i t n l w, folded emit_granted_def]

text \<open>A check passes its stages in a fixed order; the first that decides it ends it.\<close>

lemma check_permission_cases:
  obtains (disabled) "\<not> permissions_enabled M"
  | (blocked) "permissions_enabled M" "is_blocked (assess_tool rules reg td)"
  | (trusted) "permissions_enabled M" "\<not> is_blocked (assess_tool rules reg td)" "approval_mode M = TRUST_ALL"
  | (stored) "permissions_enabled M" "\<not> is_blocked (assess_tool rules reg td)" "approval_mode M \<noteq> TRUST_ALL"
  by blast

abbreviation checked :: "risk_rules \<Rightarrow> tool_registry option \<Rightarrow> pydict \<Rightarrow> perm_manager \<Rightarrow> perm_manager" where
  "checked rules reg td M \<equiv>
     emit (PermissionCheck (check_id td) (check_type td) (check_name td)
             (str_lower (risk_name (level (assess_tool rules reg td))))) (count total_checks_update M)"

lemma permissions_enabled_count [simp]: "permissions_enabled (M\<lparr>stats := x\<rparr>) = permissions_enabled M"
  by (simp add: permissions_enabled_def)

lemma check_permission_blocked:
  assumes "permissions_enabled M" and "is_blocked (assess_tool rules reg td)"
  shows "check_permission V rules reg confirm inp td M =
    (Inr (decide False (reason (assess_tool rules reg td)) (level (assess_tool rules reg td))),
     emit_denied td (level (assess_tool rules reg td)) (reason (assess_tool rules reg td))
       (count blocked_update (checked rules reg td M)))"
  using assms by (simp add: check_permission_def Let_def)

lemma check_permission_stored:
  assumes "permissions_enabled M" and "\<not> is_blocked (assess_tool rules reg td)" and "approval_mode M \<noteq> TRUST_ALL"
  shows "check_permission V rules reg confirm inp td M =
    check_stored V confirm inp td (assess_tool rules reg td) (checked rules reg td M)"
  using assms by (simp add: check_permission_def Let_def)

lemma is_blocked_iff: "is_blocked (assess_tool rules reg td) \<longleftrightarrow> get_str td ''name'' [] \<in> set (blocked_tools rules)"
  by (auto simp: assess_tool_def Let_def split: option.splits dest!: assess_command_sel)

text \<open>Lookups depend on the stored approvals only.\<close>

lemma session_approval_emit [simp]: "session_approval key t (emit e M) = session_approval key t M"
  "session_approval key t (M\<lparr>stats := x\<rparr>) = session_approval key t M"
  by (simp_all add: session_approval_def)

lemma check_project_approval_emit [simp]:
  "check_project_approval V key tt td (emit e M) = check_project_approval V key tt td M"
  "check_project_approval V key tt td (M\<lparr>stats := x\<rparr>) = check_project_approval V key tt td M"
  by (simp_all add: check_project_approval_def)

lemma needs_confirmation_emit [simp]:
  "needs_confirmation l tt (emit e M) = needs_confirmation l tt M"
  "needs_confirmation l tt (M\<lparr>stats := x\<rparr>) = needs_confirmation l tt M"
  by (auto simp: needs_confirmation_def)

lemma auto_approve_allowed [simp]: "fst (auto_approve td l why M) = Inr (decide True why l)"
  by (simp add: auto_approve_def)

text \<open>The user agreed: their own yes, or the dialog's answer.\<close>

definition user_agreed :: "perm_env \<Rightarrow> confirm_ui \<Rightarrow> check_input \<Rightarrow> bool" where
  "user_agreed V confirm inp \<longleftrightarrow> call_approval inp = Some ''yes'' \<or>
     (\<exists>details M d details' M'. confirm details M = (Answered d, details', M') \<and> allowed d)"

lemma finish_confirmation_allowed:
  "fst (finish_confirmation td r t d details M) = Inr d' \<Longrightarrow> d' = d"
  by (auto simp: finish_confirmation_def Let_def split: if_splits prod.splits sum.splits)

lemma request_confirmation_allowed:
  assumes "fst (request_confirmation V confirm inp td r M) = Inr d" and "allowed d"
  shows "user_agreed V confirm inp"
proof (cases "call_approval inp = Some ''yes''")
  case False
  with assms obtain details where det: "build_confirmation_details V td r = Inr details"
    and "has_callback M" and "call_approval inp \<noteq> Some ''ask''"
    by (auto simp: request_confirmation_def ask_user_def split: if_splits sum.splits)
  then have "fst (request_confirmation V confirm inp td r M) = fst (ask_user V confirm inp td r M)"
    using False by (simp add: request_confirmation_def)
  then obtain details1 M1 where
    ask: "fst (request_confirmation V confirm inp td r M) = fst (case confirm details1 M1 of
        (Answered d, details2, M2) \<Rightarrow> finish_confirmation td r (now inp) d details2 M2
      | (Unanswered, details2, M2) \<Rightarrow> park_prompt td details2 (level r) M2
      | (PromptFailed e, _, M2) \<Rightarrow> (Inl e, M2))"
    unfolding ask_user_def det Let_def by auto
  obtain out details2 M2 where c: "confirm details1 M1 = (out, details2, M2)" by (cases "confirm details1 M1")
  show ?thesis
  proof (cases out)
    case (Answered x)
    with ask c assms(1) have "fst (finish_confirmation td r (now inp) x details2 M2) = Inr d" by simp
    then have "d = x" by (rule finish_confirmation_allowed)
    with c Answered assms(2) show ?thesis unfolding user_agreed_def by blast
  qed (use ask c assms in \<open>auto simp: park_prompt_def\<close>)
qed (simp add: user_agreed_def)

subsection \<open>Names and patterns\<close>

lemma chained_iff: "is_chained_command c \<longleftrightarrow> str_contains ''&&'' c \<or> str_contains ''||'' c \<or>
    search (pat [ch (CHR '';''), Star ws, Set True [WordC]]) c"
proof -
  have "search (pat [lit w]) c \<longleftrightarrow> str_contains w c" for w
  proof -
    have "search (pat [lit w]) c \<longleftrightarrow> found False (lit w) c"
      by (simp add: search_iff pat_def seqs_def found_def)
    then show ?thesis by (simp add: found_lit)
  qed
  then show ?thesis by (simp add: is_chained_command_def chain_patterns_def)
qed

section \<open>Properties\<close>

text \<open>while permission checks are enabled, a blocked tool is never allowed: in every approval mode,
  also \<open>TRUST_ALL\<close>, with every stored approval and whatever the user would answer, the check
  denies it without asking.\<close>

theorem blocked_tool_never_allowed:
  assumes "permissions_enabled M" and "get_str td ''name'' [] \<in> set (blocked_tools rules)"
    and "check_permission V rules reg confirm inp td M = (res, M')"
  shows "\<exists>d. res = Inr d \<and> \<not> allowed d \<and> blocked (stats M') = blocked (stats M) + 1 \<and>
    session_approvals M' = session_approvals M \<and> project_approvals M' = project_approvals M"
  using assms check_permission_blocked [of M rules reg td V confirm inp]
  by (auto simp: is_blocked_iff emit_denied_def)

definition new_stats :: perm_stats where
  "new_stats = \<lparr>total_checks = 0, auto_approved = 0, user_approved = 0, denied = 0, blocked = 0\<rparr>"

definition new_manager :: "approval_mode \<Rightarrow> perm_manager" where
  "new_manager m = \<lparr>config = [], mode_setting = None, approval_mode = m, session_approvals = [],
     project_approvals = [], acp_project_grants = [], acp_session_grants = [], acp_project_metadata = [],
     acp_session_metadata = [], tool_executor = None, has_callback = False, stats = new_stats,
     storage = NoFile, writable = True, parked = [], emitted = []\<rparr>"

definition plain_env :: perm_env where
  "plain_env = \<lparr>gitignored = \<lambda>_. False, resolve = \<lambda>p. p, digest = \<lambda>_ w p. w @ p, py_str = \<lambda>_. [],
     dumps = \<lambda>_. [], pattern_text = \<lambda>_. []\<rparr>"

definition no_answer :: confirm_ui where
  "no_answer details M = (Unanswered, details, M)"

definition quiet :: check_input where
  "quiet = \<lparr>call_approval = None, now = 0, stopping = False\<rparr>"

lemma new_manager_sel [simp]:
  "approval_mode (new_manager m) = m" "has_callback (new_manager m) = False" "call_approval quiet = None"
  "tool_executor (new_manager m) = None" "project_approvals (new_manager m) = []" "session_approvals (new_manager m) = []"
  by (simp_all add: new_manager_def quiet_def)

lemma new_manager_enabled [simp]: "permissions_enabled (new_manager m)"
  by (simp add: permissions_enabled_def new_manager_def safe_get_def split_on.simps)

theorem blocked_tool_never_allowed_witness:
  "\<exists>d. fst (check_permission plain_env (default_rules\<lparr>blocked_tools := [''terminal'']\<rparr>) None no_answer quiet
     (terminal_call ''ls'') (new_manager TRUST_ALL)) = Inr d \<and> \<not> allowed d"
  using blocked_tool_never_allowed [OF new_manager_enabled, of "terminal_call ''ls''"
      "default_rules\<lparr>blocked_tools := [''terminal'']\<rparr>" plain_env None no_answer quiet TRUST_ALL]
  by (simp add: terminal_call_def get_str_def) (metis prod.collapse)


lemma ls_key: "get_approval_key ''terminal'' n (terminal_call ''ls'') = Inr ''terminal:ls''"
  by (simp add: get_approval_key_def terminal_call_def get_str_def root_command_def str_split.simps
      is_space_def key_text_def)

lemma ls_call: "check_type (terminal_call c) = ''terminal''" "check_name (terminal_call c) = ''terminal''"
  by (simp_all add: check_type_def check_name_def terminal_call_def get_str_def or_str_def)




text \<open>wildcard approvals of the project do not reach further than intended: they never approve a
  chained command, and never a file that git ignores; \<open>file_read:*\<close>, the only wildcard the
  program itself records, approves exactly the other file reads.\<close>

theorem wildcard_approval_limits:
  assumes "key \<notin> set (project_approvals M)"
  shows "(is_chained_command (get_str td ''command'' []) \<longrightarrow> check_project_approval V key ''terminal'' td M = None) \<and>
    (get_str td ''file'' [] = path \<and> path \<noteq> [] \<and> get_str td ''file_path'' [] = [] \<and> gitignored V path \<longrightarrow>
       check_project_approval V key ''file_read'' td M = None) \<and>
    (project_approvals M = [''file_read:*''] \<and> check_project_approval V key tool_type td M = Some p \<longrightarrow>
       p = ''file_read:*'' \<and> prefix ''file_read:'' key)"
proof (intro conjI impI)
  show "p = ''file_read:*''" "prefix ''file_read:'' key"
    if "project_approvals M = [''file_read:*''] \<and> check_project_approval V key tool_type td M = Some p"
    using that assms fnmatch_prefix [of "''file_read:''" key]
    by (auto simp: check_project_approval_def Let_def split: if_splits)
qed (use assms in \<open>auto simp: check_project_approval_def Let_def or_str_def\<close>)

theorem wildcard_approval_limits_witness:
  "check_project_approval plain_env ''terminal:ls'' ''terminal'' (terminal_call ''ls && rm -rf /'')
     ((new_manager DEFAULT)\<lparr>project_approvals := [''terminal:*'']\<rparr>) = None"
proof -
  have "str_contains ''&&'' ''ls && rm -rf /''" by code_simp
  then have "is_chained_command (get_str (terminal_call ''ls && rm -rf /'') ''command'' [])"
    by (simp add: chained_iff terminal_call_def get_str_def)
  with wildcard_approval_limits [of "''terminal:ls''" "(new_manager DEFAULT)\<lparr>project_approvals := [''terminal:*'']\<rparr>"
      "terminal_call ''ls && rm -rf /''" plain_env] show ?thesis by simp
qed

text \<open>the exact approval of a root command is not held back by the check for chained commands: the
  key is the first word of the command, and an exact match is accepted before the command is
  looked at. Once \<open>ls\<close> is approved for the project, a chain that starts with \<open>ls\<close> runs unasked
  in every mode.\<close>

theorem exact_approval_covers_chain:
  "is_chained_command ''ls && sudo rm x'' \<and>
   (\<exists>M1 d M2. handle_confirmation_response 0 (terminal_call ''ls'') APPROVE_PROJECT (new_manager CONFIRM_ALL) = (Inr d, M1) \<and>
     check_permission plain_env default_rules None no_answer quiet (terminal_call ''ls && sudo rm x'') M1 =
       (Inr (decide True ''Previously approved (project: terminal:ls)'' HIGH), M2))"
proof -
  let ?td = "terminal_call ''ls && sudo rm x''"
  have "str_contains ''&&'' ''ls && sudo rm x''" by code_simp
  then have chained: "is_chained_command ''ls && sudo rm x''" by (simp add: chained_iff)
  have key: "get_approval_key ''terminal'' n ?td = Inr ''terminal:ls''" for n
    by (simp add: get_approval_key_def terminal_call_def get_str_def root_command_def str_split.simps
        is_space_def key_text_def)
  have "search (pat [lit ''sudo'', spaces, lit ''rm'']) (''ls && '' @ ''sudo rm'' @ '' x'')"
    using found_context [of False "seqs [lit ''sudo'', spaces, lit ''rm'']" "''sudo rm''" "''ls && ''" "'' x''"] sudo_rm_found
    by (simp add: search_iff pat_def)
  then have "\<exists>p \<in> set (high_risk_patterns default_rules). search p ''ls && sudo rm x''"
    by (intro bexI [of _ "pat [lit ''sudo'', spaces, lit ''rm'']"])
      (simp_all add: default_rules_def default_high_risk_patterns_def)
  with assess_command_level [of default_rules "''ls && sudo rm x''"]
  have high: "level (assess_tool default_rules None ?td) = HIGH"
    by (auto simp: assess_tool_def terminal_call_def get_str_def default_rules_def split: option.splits)
  let ?M1 = "save_project_approvals ((new_manager CONFIRM_ALL)\<lparr>project_approvals := [''terminal:ls'']\<rparr>)"
  have resp: "handle_confirmation_response 0 (terminal_call ''ls'') APPROVE_PROJECT (new_manager CONFIRM_ALL) =
      (Inr (decide True ''User approved (project)'' MEDIUM), ?M1)"
    using ls_key by (simp add: handle_confirmation_response_def recording_def record_project_approval_def Let_def
        terminal_call_def get_str_def or_str_def risk_of_name_def add_new_def new_manager_def)
  have M1: "permissions_enabled ?M1" "approval_mode ?M1 \<noteq> TRUST_ALL" "project_approvals ?M1 = [''terminal:ls'']"
    using new_manager_enabled [of CONFIRM_ALL]
    by (simp_all add: save_project_approvals_def new_manager_def permissions_enabled_def)
  have nb: "\<not> is_blocked (assess_tool default_rules None ?td)" by (simp add: is_blocked_iff default_rules_def)
  have pa: "check_project_approval plain_env ''terminal:ls'' ''terminal'' ?td ?M1 = Some ''terminal:ls''"
    by (simp add: check_project_approval_def M1)
  have "fst (check_permission plain_env default_rules None no_answer quiet ?td ?M1) =
      Inr (decide True ''Previously approved (project: terminal:ls)'' HIGH)"
    using check_permission_stored [OF M1(1) nb M1(2), of plain_env no_answer quiet] M1
    by (simp add: check_stored_def ls_call key pa high)
  then show ?thesis using chained resp by (metis prod.collapse)
qed

subsection \<open>Accounting\<close>

definition decided :: "perm_stats \<Rightarrow> nat" where
  "decided s = auto_approved s + user_approved s + denied s + blocked s"

fun is_verdict :: "perm_event \<Rightarrow> bool" where
  "is_verdict (PermissionGranted _ _ _ _ _) = True"
| "is_verdict (PermissionDenied _ _ _ _ _) = True"
| "is_verdict _ = False"

definition verdicts :: "perm_manager \<Rightarrow> perm_event list" where
  "verdicts M = filter is_verdict (emitted M)"

text \<open>A dialog that leaves the manager's counters and log alone and answers with a yes or a no.\<close>

definition plain_ui :: "confirm_ui \<Rightarrow> bool" where
  "plain_ui confirm \<longleftrightarrow> (\<forall>details M out details' M'. confirm details M = (out, details', M') \<longrightarrow>
     stats M' = stats M \<and> emitted M' = emitted M \<and> (\<forall>d. out = Answered d \<longrightarrow> \<not> needs_yes d))"

text \<open>What a stage that ends in a decision adds to the books: nothing if the call waits for the
  user's yes, and otherwise one count and one verdict that says what was decided.\<close>

definition booked :: "pydict \<Rightarrow> perm_manager \<Rightarrow> check_result \<Rightarrow> bool" where
  "booked td M x \<longleftrightarrow> (case x of (res, M') \<Rightarrow> total_checks (stats M') = total_checks (stats M) \<and>
     (\<forall>d. res = Inr d \<longrightarrow>
        (if needs_yes d then decided (stats M') = decided (stats M) \<and> verdicts M' = verdicts M \<and> \<not> allowed d
         else decided (stats M') = decided (stats M) + 1 \<and>
              (\<exists>l. verdicts M' = verdicts M @ [(if allowed d then PermissionGranted else PermissionDenied)
                 (check_id td) (check_type td) (check_name td) (risk_name l) (dec_reason d)]))))"

lemma booked_auto [intro]: "booked td M (auto_approve td l why M)"
  by (auto simp: booked_def auto_approve_def emit_granted_def verdicts_def decided_def)

lemma record_approval_keeps:
  "record_approval t n td sc w M = (u, M') \<Longrightarrow> stats M' = stats M \<and> emitted M' = emitted M"
  by (auto simp: record_approval_def split: sum.splits)

lemma booked_finish:
  assumes "\<not> needs_yes d"
  shows "booked td M (finish_confirmation td r t d details M)"
proof -
  let ?M1 = "count user_approved_update M"
  let ?x = "if od_get details ''approval_scope'' = Some (PStr ''session'')
      then record_approval (check_type td) (check_name td) td ''session'' t ?M1 else (Inr (), ?M1)"
  obtain u M2 where x: "?x = (u, M2)" by (cases ?x)
  have "stats M2 = stats ?M1 \<and> emitted M2 = emitted ?M1"
    using x by (auto split: if_splits dest: record_approval_keeps)
  then show ?thesis
    using assms x by (cases u) (auto simp: booked_def finish_confirmation_def emit_granted_def emit_denied_def
        verdicts_def decided_def Let_def)
qed

lemma booked_ask:
  assumes "plain_ui confirm"
  shows "booked td M (ask_user V confirm inp td r M)"
proof (cases "build_confirmation_details V td r")
  case (Inr details)
  let ?M1 = "emit (PermissionConfirmation (check_id td) (check_type td) (check_name td) (risk_name (level r)) details) M"
  let ?d1 = "if tool_executor ?M1 \<noteq> None \<and> stopping inp then od_put ''parked'' (PBool True) details else details"
  obtain out d2 M2 where c: "confirm ?d1 ?M1 = (out, d2, M2)" by (cases "confirm ?d1 ?M1")
  from assms c have "stats M2 = stats ?M1 \<and> emitted M2 = emitted ?M1 \<and> (\<forall>d. out = Answered d \<longrightarrow> \<not> needs_yes d)"
    unfolding plain_ui_def by blast
  then have keep: "stats M2 = stats M" "emitted M2 = emitted ?M1" "\<And>d. out = Answered d \<Longrightarrow> \<not> needs_yes d" by simp_all
  then have v: "verdicts M2 = verdicts M" by (simp add: verdicts_def)
  show ?thesis
  proof (cases out)
    case (Answered d)
    with booked_finish [OF keep(3), of d td M2 r "now inp" d2] c keep v Inr show ?thesis
      unfolding ask_user_def by (auto simp: booked_def Let_def)
  qed (use c keep v Inr in \<open>auto simp: ask_user_def Let_def booked_def park_prompt_def verdicts_def\<close>)
qed (simp add: ask_user_def booked_def)

lemma booked_stored:
  assumes "plain_ui confirm"
  shows "booked td M (check_stored V confirm inp td r M)"
proof -
  have "booked td M (request_confirmation V confirm inp td r M)"
    using booked_ask [OF assms, of td M V inp r]
    by (auto simp: request_confirmation_def booked_def emit_granted_def emit_denied_def verdicts_def decided_def)
  moreover have "booked td M (Inl e, M)" for e by (simp add: booked_def)
  ultimately show ?thesis by (auto simp: check_stored_def split: sum.splits option.splits)
qed

text \<open>the books balance. A check counts itself once in the total. If it ends in a decision, it adds
  one to exactly one of the four other counters and emits exactly one verdict, which names the
  call and says what was decided; only a call that is left waiting for the user's yes has no
  count and no verdict, and it is not allowed.\<close>

theorem check_is_booked_once:
  assumes "plain_ui confirm"
    and "check_permission V rules reg confirm inp td M = (Inr d, M')"
  shows "total_checks (stats M') = total_checks (stats M) + 1 \<and>
    (if needs_yes d then decided (stats M') = decided (stats M) \<and> verdicts M' = verdicts M \<and> \<not> allowed d
     else decided (stats M') = decided (stats M) + 1 \<and>
       (\<exists>l. verdicts M' = verdicts M @ [(if allowed d then PermissionGranted else PermissionDenied)
          (check_id td) (check_type td) (check_name td) (risk_name l) (dec_reason d)]))"
proof -
  let ?M = "checked rules reg td M"
  have start: "total_checks (stats ?M) = total_checks (stats M) + 1" "decided (stats ?M) = decided (stats M)"
    "verdicts ?M = verdicts M" by (simp_all add: decided_def verdicts_def)
  have "booked td ?M (check_permission V rules reg confirm inp td M)" if "permissions_enabled M"
    using booked_stored [OF assms(1), of td ?M V inp "assess_tool rules reg td"] that
    by (auto simp: check_permission_def Let_def booked_def emit_denied_def verdicts_def decided_def auto_approve_def emit_granted_def)
  moreover have ?thesis if "\<not> permissions_enabled M"
    using that assms(2) by (auto simp: check_permission_def Let_def emit_granted_def verdicts_def decided_def
        intro: exI [of _ LOW])
  ultimately show ?thesis using assms(2) start by (fastforce simp: booked_def)
qed

theorem check_is_booked_once_witness:
  "\<exists>d M'. check_permission plain_env default_rules None no_answer quiet (terminal_call ''ls'') (new_manager TRUST_ALL) = (Inr d, M') \<and>
     total_checks (stats M') = 1 \<and> decided (stats M') = 1"
proof -
  have "plain_ui no_answer" by (simp add: plain_ui_def no_answer_def)
  moreover obtain d M' where c: "check_permission plain_env default_rules None no_answer quiet (terminal_call ''ls'')
      (new_manager TRUST_ALL) = (Inr d, M')" and "\<not> needs_yes d"
    by (auto simp: check_permission_def Let_def auto_approve_def is_blocked_iff default_rules_def)
  ultimately show ?thesis
    using check_is_booked_once [OF _ c]
    by (simp add: no_answer_def new_manager_def new_stats_def decided_def)
qed

subsection \<open>Approvals that are remembered\<close>

text \<open>The dialog's details and the call itself give the same approval key, as long as the call has a
  name, and a file operation names its file in the field that both read.\<close>

lemma get_simps:
  "get_str [] k dflt = dflt" "get_str ((k', v) # d) k dflt =
     (if k = k' then (case v of PStr s \<Rightarrow> s | _ \<Rightarrow> []) else get_str d k dflt)"
  "get_args [] = []" "k' \<noteq> ''arguments'' \<Longrightarrow> get_args ((k', v) # d) = get_args d"
  by (simp_all add: get_str_def get_args_def split: pyval.splits)

lemma base_details_get:
  "get_str (base_details V td r @ xs) ''tool_type'' dflt = get_str td ''type'' ''unknown''"
  "get_str (base_details V td r @ xs) ''tool_name'' dflt = get_str td ''name'' []"
  "k \<notin> {''tool_id'', ''tool_type'', ''tool_name'', ''risk_level'', ''risk_reason'', ''matched_pattern''} \<Longrightarrow>
     get_str (base_details V td r @ xs) k dflt = get_str xs k dflt"
  "get_args (base_details V td r @ xs) = get_args xs"
  by (simp_all add: base_details_def get_str_def get_args_def)

lemma details_shape:
  assumes "build_confirmation_details V td r = Inr details"
  obtains xs where "details = base_details V td r @ xs" and "get_args xs = []"
    and "check_type td = ''terminal'' \<Longrightarrow> get_str xs ''command'' [] = get_str td ''command'' []"
    and "check_type td \<in> {''file_write'', ''file_edit''} \<Longrightarrow>
      get_str xs ''file_path'' [] = or_str (get_str td ''file'' []) (get_str (get_args td) ''path'' [])"
    and "check_type td = ''file_read'' \<Longrightarrow>
      get_str xs ''file_path'' [] = or_str (get_str td ''file'' []) (get_str (get_args td) ''file_path'' [])"
    and "get_str xs ''file'' [] = []" and "get_str xs ''name'' [] = []" and "get_str xs ''source'' [] = []"
proof -
  let ?t = "get_str td ''type'' ''unknown''"
  have ct: "check_type td = ?t" by (simp add: check_type_def)
  consider (shell) w where "?t = ''terminal''" "details = base_details V td r @
        [(''command'', PStr (get_str td ''command'' [])), (''root_command'', PStr w)]"
    | (edit) "?t \<in> {''file_write'', ''file_edit''}" "details = base_details V td r @
        [(''file_path'', PStr (or_str (get_str td ''file'' []) (get_str (get_args td) ''path'' []))),
         (''content_preview'', PStr (get_content_preview 10 td))]"
    | (read) "?t = ''file_read''" "details = base_details V td r @
        [(''file_path'', PStr (or_str (get_str td ''file'' []) (get_str (get_args td) ''file_path'' [])))]"
    | (mcp) "?t \<in> {''mcp_tool'', ''mcp''}" "details = base_details V td r @
        [(''server_name'', PStr (get_str td ''server_name'' [])), (''mcp_tool_name'', PStr (get_str td ''name'' []))]"
    | (other) "?t \<notin> {''terminal'', ''file_write'', ''file_edit'', ''file_read''}" "details = base_details V td r @ []"
    using assms by (auto simp: build_confirmation_details_def Let_def py_bind_Inr split: if_splits)
  then show ?thesis
  proof cases
    case (shell w)
    show ?thesis by (rule that [OF shell(2)]) (use shell(1) in \<open>simp_all add: ct get_simps\<close>)
  next
    case edit
    show ?thesis by (rule that [OF edit(2)]) (use edit(1) in \<open>auto simp: ct get_simps\<close>)
  next
    case read
    show ?thesis by (rule that [OF read(2)]) (use read(1) in \<open>simp_all add: ct get_simps\<close>)
  next
    case mcp
    show ?thesis by (rule that [OF mcp(2)]) (use mcp(1) in \<open>auto simp: ct get_simps\<close>)
  next
    case other
    show ?thesis by (rule that [OF other(2)]) (use other(1) in \<open>auto simp: ct get_simps\<close>)
  qed
qed

lemma details_key:
  assumes "build_confirmation_details V td r = Inr details" and "get_str td ''name'' [] \<noteq> []"
    and "get_str td ''file_path'' [] = []" and "check_type td = ''file_read'' \<Longrightarrow> get_str td ''file'' [] \<noteq> []"
    and "check_type td \<noteq> []"
  shows "get_approval_key (or_str (get_str details ''tool_type'' []) (get_str details ''type'' ''unknown''))
      (or_str (get_str details ''tool_name'' []) (get_str details ''name'' [])) details =
    get_approval_key (check_type td) (check_name td) td"
proof -
  obtain xs where d: "details = base_details V td r @ xs" and xs: "get_args xs = []"
    "get_str xs ''file'' [] = []" and xt: "check_type td = ''terminal'' \<Longrightarrow> get_str xs ''command'' [] = get_str td ''command'' []"
    "check_type td \<in> {''file_write'', ''file_edit''} \<Longrightarrow>
      get_str xs ''file_path'' [] = or_str (get_str td ''file'' []) (get_str (get_args td) ''path'' [])"
    "check_type td = ''file_read'' \<Longrightarrow>
      get_str xs ''file_path'' [] = or_str (get_str td ''file'' []) (get_str (get_args td) ''file_path'' [])"
    by (rule details_shape [OF assms(1)]) blast
  have nm: "or_str (get_str details ''tool_name'' []) (get_str details ''name'' []) = check_name td"
    using assms(2) by (simp add: d base_details_get check_name_def or_str_def)
  have tt: "or_str (get_str details ''tool_type'' []) (get_str details ''type'' ''unknown'') = check_type td"
    using assms(5) by (simp add: d base_details_get check_type_def or_str_def)
  have get: "get_str details k [] = get_str xs k []" if "k \<in> {''command'', ''file_path'', ''file'', ''path''}" for k
    unfolding d by (rule base_details_get(3)) (use that in auto)
  have args: "get_args details = []" by (simp add: d base_details_get xs)
  have empty: "get_str [] ''path'' [] = []" by (simp add: get_str_def)
  have path: "or_str (get_str details ''file_path'' []) (or_str (get_str details ''file'' []) (get_str (get_args details) ''path'' [])) =
      get_str xs ''file_path'' []"
    by (simp add: get args empty xs or_str_def)
  show ?thesis
    unfolding nm tt get_approval_key_def Let_def path
    using assms(3,4) xt get [of "''command''"] by (auto simp: or_str_def)
qed

lemma details_source:
  assumes "build_confirmation_details V td r = Inr details"
  shows "get_str details ''source'' [] = []"
proof -
  obtain xs where "details = base_details V td r @ xs" and "get_str xs ''source'' [] = []"
    by (rule details_shape [OF assms]) blast
  then show ?thesis by (simp add: base_details_get(3))
qed

text \<open>"for this session" is remembered. When the user answers the dialog of a call with
  \<open>APPROVE_SESSION\<close>, the next check of the same call is allowed without asking, in every mode and
  at any later time, unless the tool is blocked.\<close>

theorem session_approval_remembered:
  assumes "build_confirmation_details V td r = Inr details" and "get_str td ''name'' [] \<noteq> []"
    and "get_str td ''file_path'' [] = []" and "check_type td = ''file_read'' \<Longrightarrow> get_str td ''file'' [] \<noteq> []"
    and "check_type td \<noteq> []" and "get_str td ''name'' [] \<notin> set (blocked_tools rules)"
    and "handle_confirmation_response t details APPROVE_SESSION M = (Inr d, M1)"
  shows "\<exists>d' M2. check_permission V rules reg confirm inp td M1 = (Inr d', M2) \<and> allowed d'"
proof (cases "permissions_enabled M1 \<and> approval_mode M1 \<noteq> TRUST_ALL")
  case True
  have src: "get_str details ''source'' [] = []" by (rule details_source [OF assms(1)])
  let ?tt = "or_str (get_str details ''tool_type'' []) (get_str details ''type'' ''unknown'')"
  let ?nn = "or_str (get_str details ''tool_name'' []) (get_str details ''name'' [])"
  obtain key rec where key: "get_approval_key ?tt ?nn details = Inr key"
    and M1: "M1 = M\<lparr>session_approvals := od_put key rec (session_approvals M)\<rparr>" "expires_at rec = None"
    using assms(7) by (auto simp: handle_confirmation_response_def Let_def recording_def src record_approval_def
        split: sum.splits)
  have key': "get_approval_key (check_type td) (check_name td) td = Inr key"
    using details_key [OF assms(1-5)] key by simp
  have "session_approval key (now inp) M1 = Some rec" by (simp add: session_approval_def M1)
  with key' show ?thesis
    using check_permission_stored [of M1 rules reg td V confirm inp] True assms(6)
    by (auto simp: is_blocked_iff check_stored_def auto_approve_def split: option.splits)
next
  case False
  with assms(6) show ?thesis
    by (auto simp: check_permission_def Let_def is_blocked_iff auto_approve_def)
qed

lemma ls_details:
  "\<exists>details. build_confirmation_details V (terminal_call ''ls'') r = Inr details"
  by (simp add: build_confirmation_details_def terminal_call_def get_simps root_command_def str_split.simps is_space_def
      Let_def)

theorem session_approval_remembered_witness:
  "\<exists>details d M1 d' M2. build_confirmation_details plain_env (terminal_call ''ls'') (risk HIGH []) = Inr details \<and>
     handle_confirmation_response 0 details APPROVE_SESSION (new_manager CONFIRM_ALL) = (Inr d, M1) \<and>
     check_permission plain_env default_rules None no_answer quiet (terminal_call ''ls'') M1 = (Inr d', M2) \<and> allowed d'"
proof -
  let ?td = "terminal_call ''ls''"
  obtain details where det: "build_confirmation_details plain_env ?td (risk HIGH []) = Inr details"
    using ls_details by blast
  have g: "get_str ?td ''name'' [] \<noteq> []" "get_str ?td ''file_path'' [] = []"
    "check_type ?td = ''file_read'' \<Longrightarrow> get_str ?td ''file'' [] \<noteq> []" "check_type ?td \<noteq> []"
    "get_str ?td ''name'' [] \<notin> set (blocked_tools default_rules)"
    by (simp_all add: ls_call default_rules_def) (simp_all add: terminal_call_def get_simps)
  have key: "get_approval_key (or_str (get_str details ''tool_type'' []) (get_str details ''type'' ''unknown''))
      (or_str (get_str details ''tool_name'' []) (get_str details ''name'' [])) details = Inr ''terminal:ls''"
    using details_key [OF det g(1-4)] by (simp add: ls_call ls_key)
  obtain d M1 where resp: "handle_confirmation_response 0 details APPROVE_SESSION (new_manager CONFIRM_ALL) = (Inr d, M1)"
    using key details_source [OF det] by (simp add: handle_confirmation_response_def Let_def recording_def record_approval_def)
  from session_approval_remembered [OF det g(1-5) resp] det resp show ?thesis by blast
qed

text \<open>for a file read whose path is in \<open>arguments["file_path"]\<close>, "for this session" is forgotten: the
  dialog shows that path and records the approval under it, while the check looks the call up
  under the tool's name, so the same call is asked for again.\<close>

theorem file_read_approval_forgotten:
  "let td = plain_call ''file_read'' ''read'' [(''file_path'', PStr ''a.txt'')] in
     \<exists>details d M1 d' M2. build_confirmation_details plain_env td (risk LOW []) = Inr details \<and>
       get_str details ''file_path'' [] = ''a.txt'' \<and>
       handle_confirmation_response 0 details APPROVE_SESSION (new_manager CONFIRM_ALL) = (Inr d, M1) \<and> allowed d \<and>
       check_permission plain_env default_rules None no_answer quiet td M1 = (Inr d', M2) \<and> \<not> allowed d'"
proof -
  let ?td = "plain_call ''file_read'' ''read'' [(''file_path'', PStr ''a.txt'')]"
  let ?details = "base_details plain_env ?td (risk LOW []) @ [(''file_path'', PStr ''a.txt'')]"
  let ?M1 = "(new_manager CONFIRM_ALL)\<lparr>session_approvals := [(''file_read:a.txt'',
      \<lparr>ar_tool_type = ''file_read'', ar_tool_name = ''read'', ar_pattern = None, approved_at = 0,
       expires_at = None, ar_scope = ''session''\<rparr>)]\<rparr>"
  have td: "check_type ?td = ''file_read''" "check_name ?td = ''read''" "get_str ?td ''name'' [] = ''read''"
    "get_str ?td ''type'' ''unknown'' = ''file_read''"
    by (simp_all add: check_type_def check_name_def plain_call_def get_simps or_str_def)
  have det: "build_confirmation_details plain_env ?td (risk LOW []) = Inr ?details"
    by (simp add: build_confirmation_details_def td) (simp add: plain_call_def get_simps get_args_def or_str_def)
  have resp: "handle_confirmation_response 0 ?details APPROVE_SESSION (new_manager CONFIRM_ALL) =
      (Inr (decide True ''User approved (session)'' LOW), ?M1)"
    by (simp add: handle_confirmation_response_def recording_def record_approval_def get_approval_key_def key_text_def
        base_details_def td get_simps or_str_def risk_of_name_def Let_def)
  have key: "get_approval_key ''file_read'' ''read'' ?td = Inr ''file_read:read''"
    by (simp add: get_approval_key_def plain_call_def get_simps get_args_def or_str_def key_text_def)
  have M1: "permissions_enabled ?M1" "approval_mode ?M1 \<noteq> TRUST_ALL" "\<not> has_callback ?M1"
    using new_manager_enabled [of CONFIRM_ALL] by (simp_all add: permissions_enabled_def)
  have no: "check_project_approval plain_env ''file_read:read'' ''file_read'' ?td ?M1 = None"
    "session_approval ''file_read:read'' (now quiet) ?M1 = None" "needs_confirmation l t ?M1" for l t
    by (simp_all add: check_project_approval_def session_approval_def needs_confirmation_def)
  have nb: "\<not> is_blocked (assess_tool default_rules None ?td)" by (simp add: is_blocked_iff default_rules_def)
  have "\<exists>d' M2. check_permission plain_env default_rules None no_answer quiet ?td ?M1 = (Inr d', M2) \<and> \<not> allowed d'"
    using check_permission_stored [OF M1(1) nb M1(2), of plain_env no_answer quiet] M1(3)
    by (simp add: check_stored_def td key no request_confirmation_def)
  moreover have "get_str ?details ''file_path'' [] = ''a.txt''" by (simp add: base_details_get(3) get_simps)
  ultimately show ?thesis using det resp unfolding Let_def by (metis decide_sel(1))
qed

text \<open>C39: approvals survive a restart: what was saved is loaded again, the native approval keys and the
  ACP grants each into their own set.\<close>

theorem approvals_saved_and_loaded:
  assumes "writable M" and "\<forall>k \<in> set (acp_project_grants M). prefix ''acp:'' k"
    and "\<forall>(k, v) \<in> set (acp_project_metadata M). is_dict v"
    and "M' = load_project_approvals V (N\<lparr>storage := storage (save_project_approvals M)\<rparr>)"
  shows "set (project_approvals M') = set (project_approvals M) \<and>
    set (acp_project_grants M') = set (acp_project_grants M) \<and>
    acp_project_metadata M' = acp_project_metadata M"
proof -
  have grants: "set (List.map_filter acp_key_value (map PStr ks)) = set ks"
    if "\<forall>k \<in> set ks. prefix ''acp:'' k" for ks
    using that by (auto simp: List.map_filter_def)
  have meta: "filter (\<lambda>(k, v). is_dict v) (acp_project_metadata M) = acp_project_metadata M"
    using assms(3) by (simp add: filter_id_conv)
  have keys: "text_of V (PStr k) = k" for k by (simp add: text_of_def)
  show ?thesis
    using assms(1,2) grants [of "sort (acp_project_grants M)"]
    by (simp add: assms(4) save_project_approvals_def load_project_approvals_def as_list_def keys meta)
qed

theorem approvals_saved_and_loaded_witness:
  "let M = snd (record_project_approval ''terminal'' ''terminal'' (terminal_call ''ls'') (new_manager DEFAULT));
       M' = load_project_approvals plain_env ((new_manager DEFAULT)\<lparr>storage := storage M\<rparr>)
   in set (project_approvals M') = {''terminal:ls''}"
proof -
  let ?N = "new_manager DEFAULT" and ?M0 = "(new_manager DEFAULT)\<lparr>project_approvals := [''terminal:ls'']\<rparr>"
  have "snd (record_project_approval ''terminal'' ''terminal'' (terminal_call ''ls'') ?N) = save_project_approvals ?M0"
    by (simp add: record_project_approval_def ls_key add_new_def)
  with approvals_saved_and_loaded [OF _ _ _ refl, of ?M0 plain_env ?N] show ?thesis
    by (simp add: Let_def) (simp add: new_manager_def)
qed

text \<open>what a response changes. Denying, cancelling and approving once change nothing; a response
  to an ACP request records nothing, whatever it is, except that "always" for a file edit changes
  the mode; a response allows the call exactly if it is neither a denial nor a cancellation; no
  response touches the counters, the ACP grants or the approvals of other keys.\<close>

theorem response_effects:
  assumes "handle_confirmation_response t td resp M = (Inr d, M')"
  shows "(allowed d \<longleftrightarrow> resp \<notin> {DENY, CANCEL}) \<and>
    (resp \<in> {DENY, CANCEL, APPROVE_ONCE} \<longrightarrow> M' = M) \<and>
    (get_str td ''source'' [] = ''acp'' \<longrightarrow> session_approvals M' = session_approvals M \<and>
       project_approvals M' = project_approvals M) \<and>
    (approval_mode M' \<noteq> approval_mode M \<longrightarrow> resp = APPROVE_ALWAYS \<and> approval_mode M' = AUTO_APPROVE_EDITS) \<and>
    stats M' = stats M \<and> acp_session_grants M' = acp_session_grants M \<and> acp_project_grants M' = acp_project_grants M \<and>
    (\<exists>key. \<forall>k. k \<noteq> key \<longrightarrow> od_get (session_approvals M') k = od_get (session_approvals M) k \<and>
       (k \<in> set (project_approvals M') \<longrightarrow> k = ''file_read:*'' \<or> k \<in> set (project_approvals M)))"
proof -
  have frame: "stats X = stats M \<and> acp_session_grants X = acp_session_grants M \<and>
      acp_project_grants X = acp_project_grants M \<and> approval_mode X = approval_mode M"
    if "record_approval a b td sc t M = (u, X) \<or> record_project_approval a b td M = (u, X)" for a b sc u X
    using that by (auto simp: record_approval_def record_project_approval_def save_project_approvals_def split: sum.splits)
  have sess: "\<exists>key. \<forall>k. k \<noteq> key \<longrightarrow> od_get (session_approvals X) k = od_get (session_approvals M) k \<and>
      (k \<in> set (project_approvals X) \<longrightarrow> k = ''file_read:*'' \<or> k \<in> set (project_approvals M))"
    if "record_approval a b td sc t M = (u, X) \<or> record_project_approval a b td M = (u, X)" for a b sc u X
    using that by (auto simp: record_approval_def record_project_approval_def save_project_approvals_def add_new_def
        split: sum.splits if_splits)
  have mode: "stats (set_approval_mode m p M) = stats M" "session_approvals (set_approval_mode m p M) = session_approvals M"
    "project_approvals (set_approval_mode m p M) = project_approvals M"
    "acp_session_grants (set_approval_mode m p M) = acp_session_grants M"
    "acp_project_grants (set_approval_mode m p M) = acp_project_grants M"
    "approval_mode (set_approval_mode m p M) = m" for m p
    by (simp_all add: set_approval_mode_def sync_file_access_mode_def Let_def split: option.splits)
  show ?thesis
  proof (cases resp)
    case APPROVE_SESSION
    with assms frame sess show ?thesis
      by (fastforce simp: handle_confirmation_response_def Let_def recording_def split: if_splits prod.splits sum.splits)
  next
    case APPROVE_PROJECT
    with assms frame sess show ?thesis
      by (fastforce simp: handle_confirmation_response_def Let_def recording_def split: if_splits prod.splits sum.splits)
  next
    case APPROVE_TOOL_ALWAYS
    with assms frame sess show ?thesis
      by (fastforce simp: handle_confirmation_response_def Let_def recording_def split: if_splits prod.splits sum.splits)
  next
    case APPROVE_ALWAYS
    with assms show ?thesis
      by (auto simp: handle_confirmation_response_def Let_def mode split: if_splits)
  qed (use assms in \<open>auto simp: handle_confirmation_response_def Let_def\<close>)
qed

theorem response_effects_witness:
  "\<exists>d M'. handle_confirmation_response 0 (terminal_call ''ls'') DENY (new_manager DEFAULT) = (Inr d, M') \<and>
     \<not> allowed d \<and> M' = new_manager DEFAULT"
proof -
  obtain d M' where r: "handle_confirmation_response 0 (terminal_call ''ls'') DENY (new_manager DEFAULT) = (Inr d, M')"
    by (simp add: handle_confirmation_response_def Let_def)
  with response_effects [OF r] show ?thesis by simp
qed

end
