(* ===== verification/Permission_Hook.thy ===== *)
theory Permission_Hook
  imports Event_Processor Permission_Manager
begin

text \<open>
  The permission system on the event bus (\<open>kollabor/llm/permissions/hook.py\<close>, class
  \<open>PermissionHook\<close>): the hook it registers for \<open>TOOL_CALL_PRE\<close> and the callback that checks
  each tool call. The callback changes the event it is given and the manager, which is the world
  of the event system here.
\<close>

definition PERMISSION_CONFIRMATION_HOOK_TIMEOUT_SECONDS :: int where
  "PERMISSION_CONFIRMATION_HOOK_TIMEOUT_SECONDS = 300"

definition permission_hook :: hook where
  "permission_hook =
     \<lparr>hook_name = ''permission_check'', plugin_name = ''permission_system'',
      event_type = EventType ''tool_call_pre'', hook_prio = PrioInt (hook_priority_value SECURITY),
      callback = ''_handle_tool_pre'', enabled = True,
      timeout = Some (PInt PERMISSION_CONFIRMATION_HOOK_TIMEOUT_SECONDS), retry_attempts = Some (PInt 0),
      error_action = Some ''stop'', status = PENDING\<rparr>"

definition decision_dict :: "decision \<Rightarrow> pyval" where
  "decision_dict d = PDict [(''allowed'', PBool (allowed d)), (''reason'', PStr (dec_reason d)),
     (''risk_level'', PStr (risk_name (dec_risk d))), (''needs_yes'', PBool (needs_yes d))]"

fun exn_text :: "py_exn \<Rightarrow> string" where
  "exn_text IndexError = ''list index out of range''"
| "exn_text (KeyError s) = s"
| "exn_text (TypeError s) = s"
| "exn_text (ValueError s) = s"
| "exn_text (RuntimeError s) = s"
| "exn_text (AttributeError s) = s"

definition handle_tool_pre ::
  "perm_env \<Rightarrow> risk_rules \<Rightarrow> tool_registry option \<Rightarrow> confirm_ui \<Rightarrow> check_input \<Rightarrow> event \<Rightarrow> perm_manager \<Rightarrow>
   cb_outcome \<times> event \<times> perm_manager" where
  "handle_tool_pre V rules reg confirm inp ev M =
     (case od_get_default (ev_data ev) ''tool_data'' (PDict []) of
        PDict td \<Rightarrow>
          (if td = [] then (Returned (PDict (ev_data ev)), ev, M)
           else case check_permission V rules reg confirm inp td M of
                  (Inl e, M1) \<Rightarrow> (Raised (exn_text e), ev, M1)
                | (Inr d, M1) \<Rightarrow>
                    (let ev1 = ev\<lparr>ev_data := od_put ''permission_decision'' (decision_dict d) (ev_data ev)\<rparr>;
                         ev2 = (if allowed d then ev1
                                else ev1\<lparr>cancelled := True, cancel_reason := Some (dec_reason d)\<rparr>)
                     in (Returned (PDict (ev_data ev2)), ev2, M1)))
      | v \<Rightarrow> (if truthy v then (Raised ''tool_data'', ev, M) else (Returned (PDict (ev_data ev)), ev, M)))"

text \<open>The callback on the bus: it ends as above, or the executor's timeout ends it first.\<close>

definition runs_permission_hook ::
  "perm_env \<Rightarrow> risk_rules \<Rightarrow> tool_registry option \<Rightarrow> confirm_ui \<Rightarrow> (perm_manager sys \<Rightarrow> check_input) \<Rightarrow>
   perm_manager env \<Rightarrow> bool" where
  "runs_permission_hook V rules reg confirm inp E \<longleftrightarrow>
     (\<forall>t ev s. fst (run E ''_handle_tool_pre'' t ev s) = TimedOut \<or>
        run E ''_handle_tool_pre'' t ev s =
          (case handle_tool_pre V rules reg confirm (inp s) ev (world s) of
             (out, ev', M') \<Rightarrow> (out, ev', s\<lparr>world := M'\<rparr>)))"

section \<open>Lemmas\<close>

text \<open>If the check of the event's tool call does not allow it, the callback does not return with the
  event uncancelled.\<close>

lemma handle_tool_pre_denies:
  assumes "od_get (ev_data ev) ''tool_data'' = Some (PDict td)" and "td \<noteq> []"
    and "\<And>d M'. check_permission V rules reg confirm inp td M = (Inr d, M') \<Longrightarrow> \<not> allowed d"
    and "handle_tool_pre V rules reg confirm inp ev M = (Returned v, ev', M')"
  shows "cancelled ev'"
  using assms by (auto simp: handle_tool_pre_def od_get_default_def Let_def split: prod.splits sum.splits if_splits)

lemma permission_hook_effective:
  "effective_retries cfg permission_hook = 0" "effective_action cfg permission_hook = ''stop''"
  "enabled permission_hook" "callback permission_hook = ''_handle_tool_pre''"
  by (simp_all add: effective_retries_def effective_action_def permission_hook_def limit_defs)

text \<open>Settings are everything but the status.\<close>

abbreviation same_settings :: "hook \<Rightarrow> hook \<Rightarrow> bool" where
  "same_settings h h' \<equiv> h\<lparr>status := PENDING\<rparr> = h'\<lparr>status := PENDING\<rparr>"

lemma same_settings_effective:
  assumes "same_settings h permission_hook"
  shows "effective_retries cfg h = 0" "effective_action cfg h = ''stop''" "enabled h" "callback h = ''_handle_tool_pre''"
proof -
  have "enabled h = enabled permission_hook \<and> callback h = callback permission_hook \<and>
      timeout h = timeout permission_hook \<and> retry_attempts h = retry_attempts permission_hook \<and>
      error_action h = error_action permission_hook"
    using assms by (cases h) (simp add: permission_hook_def)
  with permission_hook_effective
  show "effective_retries cfg h = 0" "effective_action cfg h = ''stop''" "enabled h" "callback h = ''_handle_tool_pre''"
    by (simp_all add: effective_retries_def effective_action_def)
qed

text \<open>Every call whose check denies it is kept from running: the event is cancelled in its PRE phase.\<close>

lemma denied_call_blocked:
  assumes hook: "r \<in> set (hooks_for (EventType ''tool_call_pre'') (bus_sys B))"
      "same_settings (heap_of (bus_sys B) r) permission_hook"
    and phases: "phases_of (phases B) t = Some (EventType ''tool_call_pre'', post_t)"
    and data: "od_get data ''tool_data'' = Some (PDict td)" "td \<noteq> []"
    and env: "runs_permission_hook V rules reg confirm inp E"
    and inv: "P (new_event (EventType ''tool_call_pre'') data source) (bus_sys B)"
      "calls_keep (\<lambda>ev s. od_get (ev_data ev) ''tool_data'' = Some (PDict td) \<and>
         same_settings (heap_of s r) permission_hook \<and> P ev s) E"
      "\<And>ev s R. P ev s \<Longrightarrow> P ev (s\<lparr>reg_of := R\<rparr>)"
    and denied: "\<And>ev s d M'. P ev s \<Longrightarrow> check_permission V rules reg confirm (inp s) td (world s) = (Inr d, M') \<Longrightarrow> \<not> allowed d"
    and emit: "emit_with_hooks E cfg t data source B = (res, B')"
  shows "ps_cancelled res \<and> main res = None \<and> post res = None"
proof -
  let ?J = "\<lambda>ev s. od_get (ev_data ev) ''tool_data'' = Some (PDict td) \<and>
      same_settings (heap_of s r) permission_hook \<and> P ev s"
  have blocks: "cancelled (fst (snd (execute_hook E cfg r ev s)))" if J: "?J ev s" for ev s
  proof (rule execute_hook_once_blocks)
    note eff = same_settings_effective [OF conjunct1 [OF conjunct2 [OF J]]]
    show "enabled (heap_of s r)" "effective_retries cfg (heap_of s r) = 0" "effective_action cfg (heap_of s r) = ''stop''"
      by (rule eff)+
    fix tm v ev1 s2
    assume c: "call E r tm ev s = (Returned v, ev1, s2)"
    let ?s = "set_status r WORKING s"
    have J': "?J ev ?s" using inv(2) J unfolding calls_keep_def by blast
    from c eff(4) have run: "run E ''_handle_tool_pre'' tm ev ?s = (Returned v, ev1, s2)" by (simp add: call_def Let_def)
    obtain M' where h: "handle_tool_pre V rules reg confirm (inp ?s) ev (world ?s) = (Returned v, ev1, M')"
    proof -
      have "run E ''_handle_tool_pre'' tm ev ?s = (case handle_tool_pre V rules reg confirm (inp ?s) ev (world ?s) of
          (out, ev', M') \<Rightarrow> (out, ev', ?s\<lparr>world := M'\<rparr>))"
        using env run unfolding runs_permission_hook_def by (metis cb_outcome.distinct(1) fst_conv)
      with run that show ?thesis by (auto split: prod.splits)
    qed
    show "cancelled ev1"
      by (rule handle_tool_pre_denies [OF _ data(2) _ h]) (use J' denied in blast)+
  qed
  have "cancelled (fst (snd (run_hooks (execute_hook E cfg) (hooks_for (EventType ''tool_call_pre'') (bus_sys B))
      (new_event (EventType ''tool_call_pre'') data source) (bus_sys B))))"
  proof (rule run_hooks_blocked_event [where J = ?J and r = r])
    show "cancelled (fst (snd (execute_hook E cfg r ev s)))" if "?J ev s" for ev s using that by (rule blocks)
    show "r \<in> set (hooks_for (EventType ''tool_call_pre'') (bus_sys B))" by (rule hook(1))
    show "?J (new_event (EventType ''tool_call_pre'') data source) (bus_sys B)"
      using data hook(2) inv(1) by (simp add: new_event_def)
    show "(\<lambda>(res, ev', s'). ?J ev' s') (execute_hook E cfg r' ev s)" if "?J ev s" for r' ev s
      using execute_hook_keeps_event [where J = ?J, OF that inv(2)] .
    show "?J ev (s\<lparr>reg_of := record_status res (reg_of s)\<rparr>)" if "?J ev s" for res ev s
      using that inv(3) by simp
  qed
  then have "pr_cancelled (fst (process_phase (execute_hook E cfg) (EventType ''tool_call_pre'') data source ''PRE'' (bus_sys B)))"
    using hook(1) by (auto simp: process_phase_def split_beta)
  with phases emit show ?thesis
    by (auto simp: emit_with_hooks_def process_event_with_phases_def Let_def split: prod.splits)
qed

end
